(* ===== verification/Prelude.thy ===== *)
theory Prelude
  imports Complex_Main "HOL-Library.Sublist"
begin

text \<open>
  Shared vocabulary of the development: Python errors as values, the arithmetic of
  \<open>round\<close> and \<open>int\<close> on quotients, bounded deques, \<open>dict.fromkeys\<close> de-duplication, and
  generic lemmas on lists that the component proofs use. Samples and clock readings are
  \<open>real\<close>: the numerical error of IEEE floats is abstracted, every comparison and every
  branch of the source is kept.
\<close>

section \<open>Proof collections\<close>

named_theorems wf_simps \<open>unfolding of configuration well-formedness predicates\<close>
named_theorems audio_simps \<open>lengths and concatenations of audio buffers\<close>

section \<open>Errors and values\<close>

datatype py_error =
    ZeroDivisionError
  | ValueError string
  | KeyError string
  | IndexError string
  | PortAudioError string
  | TranscriptionRuntimeError string
  | ImportError string
  | OSError string
  | LookupError string
  | MemoryReadinessError string
  | RuntimeError string
  | TimeoutError string
  | InterruptedError string
  | CancelledError
  | AssertionError
  | TypeError string
  | WorkspaceError string
  | WorkspaceTransportError string
  | WorkspaceOutcomeUnknownError string
  | WorkspaceRemoteError string string

text \<open>\<open>str(error)\<close>; the key of a \<open>KeyError\<close> is shown by its \<open>repr\<close>, here for keys without quotes.\<close>

fun error_text :: "py_error \<Rightarrow> string" where
  "error_text ZeroDivisionError = ''division by zero''"
| "error_text (KeyError k) = CHR 0x27 # k @ [CHR 0x27]"
| "error_text (WorkspaceRemoteError c m) = c @ '': '' @ m"
| "error_text CancelledError = []"
| "error_text AssertionError = []"
| "error_text (ValueError m) = m"
| "error_text (IndexError m) = m"
| "error_text (PortAudioError m) = m"
| "error_text (TranscriptionRuntimeError m) = m"
| "error_text (ImportError m) = m"
| "error_text (OSError m) = m"
| "error_text (LookupError m) = m"
| "error_text (MemoryReadinessError m) = m"
| "error_text (RuntimeError m) = m"
| "error_text (TimeoutError m) = m"
| "error_text (InterruptedError m) = m"
| "error_text (TypeError m) = m"
| "error_text (WorkspaceError m) = m"
| "error_text (WorkspaceTransportError m) = m"
| "error_text (WorkspaceOutcomeUnknownError m) = m"

text \<open>What an \<open>except Exception\<close> clause catches: a cancellation is a \<open>BaseException\<close> and passes.\<close>

definition is_exception :: "py_error \<Rightarrow> bool" where
  "is_exception e \<longleftrightarrow> e \<noteq> CancelledError"

text \<open>One sample is a float32 of a numpy array; a frame is a mono block of samples.\<close>

type_synonym sample = real
type_synonym frame = "sample list"

section \<open>Python arithmetic\<close>

text \<open>\<open>round(a / b)\<close> of two ints: round half to even. \<open>b = 0\<close> raises before it is reached.\<close>

definition py_round_div :: "int \<Rightarrow> int \<Rightarrow> int" where
  "py_round_div a b =
     (let (n, d) = (if b < 0 then (- a, - b) else (a, b));
          q = n div d; r = n mod d
      in if 2 * r < d then q else if d < 2 * r then q + 1 else if even q then q else q + 1)"

text \<open>\<open>int(a / b)\<close> for a positive int divisor: truncation towards zero.\<close>

definition py_int_div :: "int \<Rightarrow> int \<Rightarrow> int" where
  "py_int_div a b = (if 0 \<le> a then a div b else - ((- a) div b))"

text \<open>\<open>int(x)\<close> of a float: truncation towards zero.\<close>

definition py_int :: "real \<Rightarrow> int" where
  "py_int x = (if 0 \<le> x then \<lfloor>x\<rfloor> else \<lceil>x\<rceil>)"

section \<open>Bounded deques\<close>

text \<open>\<open>collections.deque(maxlen=n).append\<close>: the oldest entries fall off the left.\<close>

definition deque_append :: "nat \<Rightarrow> 'a list \<Rightarrow> 'a \<Rightarrow> 'a list" where
  "deque_append n xs x = (let ys = xs @ [x] in drop (length ys - n) ys)"

lemma length_deque_append [simp]: "length (deque_append n xs x) = min n (Suc (length xs))"
  by (simp add: deque_append_def)

lemma set_deque_append: "set (deque_append n xs x) \<subseteq> insert x (set xs)"
  using set_drop_subset [of "length (xs @ [x]) - n" "xs @ [x]"]
  by (auto simp: deque_append_def Let_def)

lemma suffix_drop_any: "suffix (drop n xs) xs"
  by (metis append_take_drop_id suffixI)

lemma concat_drop_suffix: "suffix (concat (drop n xss)) (concat xss)"
  by (metis append_take_drop_id concat_append suffixI)

lemma concat_deque_append_suffix:
  "suffix (concat xss) h \<Longrightarrow> suffix (concat (deque_append n xss x)) (h @ x)"
proof -
  assume "suffix (concat xss) h"
  then have "suffix (concat (xss @ [x])) (h @ x)"
    by (auto simp: suffix_def)
  moreover have "suffix (concat (deque_append n xss x)) (concat (xss @ [x]))"
    unfolding deque_append_def Let_def by (rule concat_drop_suffix)
  ultimately show ?thesis by (blast intro: suffix_order.trans)
qed

definition last_n :: "nat \<Rightarrow> 'a list \<Rightarrow> 'a list" where
  "last_n n xs = drop (length xs - n) xs"

lemma last_n_0 [simp]: "last_n 0 xs = []"
  by (simp add: last_n_def)

lemma last_n_snoc [simp]: "last_n (Suc n) (xs @ [x]) = last_n n xs @ [x]"
  by (simp add: last_n_def)

lemma length_last_n [simp]: "length (last_n n xs) = min n (length xs)"
  by (simp add: last_n_def)

section \<open>De-duplication in insertion order\<close>

text \<open>\<open>dict.fromkeys(xs)\<close>: keys in order of first occurrence.\<close>

definition dict_fromkeys :: "'a list \<Rightarrow> 'a list" where
  "dict_fromkeys xs = rev (remdups (rev xs))"

lemma set_dict_fromkeys [simp]: "set (dict_fromkeys xs) = set xs"
  by (simp add: dict_fromkeys_def)

lemma distinct_dict_fromkeys [simp]: "distinct (dict_fromkeys xs)"
  by (simp add: dict_fromkeys_def)

lemma dict_fromkeys_Nil [simp]: "dict_fromkeys [] = []"
  by (simp add: dict_fromkeys_def)

section \<open>Audio blocks\<close>

definition total_len :: "'a list list \<Rightarrow> nat" where
  "total_len xss = sum_list (map length xss)"

lemma total_len_simps [simp, audio_simps]:
  "total_len [] = 0"
  "total_len (xs # xss) = length xs + total_len xss"
  "total_len (xss @ yss) = total_len xss + total_len yss"
  by (simp_all add: total_len_def)

lemma length_concat_total [simp, audio_simps]: "length (concat xss) = total_len xss"
  by (simp add: total_len_def length_concat)

lemma total_len_bound: "\<forall>xs \<in> set xss. length xs \<le> k \<Longrightarrow> total_len xss \<le> length xss * k"
  by (induction xss) auto

section \<open>Event loops\<close>

text \<open>
  The components react to a sequence of inputs one at a time and emit events. A client
  needs one law of a step: it keeps an invariant of the state and the events so far.
\<close>

primrec run_steps :: "('s \<Rightarrow> 'i \<Rightarrow> 's \<times> 'e list) \<Rightarrow> 's \<Rightarrow> 'i list \<Rightarrow> 's \<times> 'e list" where
  "run_steps step s [] = (s, [])"
| "run_steps step s (i # is) =
     (fst (run_steps step (fst (step s i)) is), snd (step s i) @ snd (run_steps step (fst (step s i)) is))"

locale event_loop =
  fixes step :: "'s \<Rightarrow> 'i \<Rightarrow> 's \<times> 'e list"
    and inv :: "'s \<Rightarrow> 'e list \<Rightarrow> bool"
  assumes step_inv: "inv s es \<Longrightarrow> inv (fst (step s i)) (es @ snd (step s i))"
begin

lemma run_inv: "inv s es \<Longrightarrow> inv (fst (run_steps step s is)) (es @ snd (run_steps step s is))"
proof (induction "is" arbitrary: s es)
  case (Cons i "is")
  from Cons.IH [OF step_inv [OF Cons.prems, of i]] show ?case by simp
qed simp

end

lemma run_steps_append:
  "run_steps step s (is @ js) =
     (fst (run_steps step (fst (run_steps step s is)) js),
      snd (run_steps step s is) @ snd (run_steps step (fst (run_steps step s is)) js))"
  by (induction "is" arbitrary: s) simp_all

section \<open>Refinement\<close>

text \<open>
  A detailed machine implements an abstract one with the same inputs and outputs: the
  abstraction of the state commutes with every step the invariant allows.
\<close>

locale refinement =
  fixes step :: "'s \<Rightarrow> 'i \<Rightarrow> 's \<times> 'o list"
    and astep :: "'a \<Rightarrow> 'i \<Rightarrow> 'a \<times> 'o list"
    and absf :: "'s \<Rightarrow> 'a"
    and inv :: "'s \<Rightarrow> bool"
  assumes keeps: "inv s \<Longrightarrow> inv (fst (step s i))"
    and sim: "inv s \<Longrightarrow> astep (absf s) i = (absf (fst (step s i)), snd (step s i))"
begin

lemma run_refines:
  "inv s \<Longrightarrow> inv (fst (run_steps step s is)) \<and>
   run_steps astep (absf s) is = (absf (fst (run_steps step s is)), snd (run_steps step s is))"
proof (induction "is" arbitrary: s)
  case (Cons i "is")
  from Cons.IH [OF keeps [OF Cons.prems, of i]] sim [OF Cons.prems, of i] show ?case by simp
qed simp

end

end
