(* ===== verification/Text.thy ===== *)
theory Text
  imports Prelude
begin

text \<open>
  The Python string operations the sources use, on strings of Latin-1 code points:
  \<open>str.split()\<close>, \<open>str.strip()\<close>, \<open>str.lower()\<close>, \<open>sep.join\<close>, substring search, and the lemmas
  about whitespace normalisation shared by key phrases, speech chunks, live conversation
  and the memory search.
\<close>

section \<open>Character classes\<close>

definition code :: "char \<Rightarrow> nat" where
  "code c = of_char c"

text \<open>\<open>str.isspace\<close> on Latin-1: tab to carriage return, file to unit separators, space, NEL, NBSP.\<close>

definition is_space :: "char \<Rightarrow> bool" where
  "is_space c \<longleftrightarrow> (9 \<le> code c \<and> code c \<le> 13) \<or> (28 \<le> code c \<and> code c \<le> 32) \<or>
     code c = 133 \<or> code c = 160"

definition is_digit :: "char \<Rightarrow> bool" where
  "is_digit c \<longleftrightarrow> 48 \<le> code c \<and> code c \<le> 57"

definition is_alpha :: "char \<Rightarrow> bool" where
  "is_alpha c \<longleftrightarrow> (65 \<le> code c \<and> code c \<le> 90) \<or> (97 \<le> code c \<and> code c \<le> 122)"

definition lower_char :: "char \<Rightarrow> char" where
  "lower_char c =
     (if (65 \<le> code c \<and> code c \<le> 90) \<or> (192 \<le> code c \<and> code c \<le> 222 \<and> code c \<noteq> 215)
      then char_of (code c + 32) else c)"

definition py_lower :: "string \<Rightarrow> string" where
  "py_lower s = map lower_char s"

section \<open>Strip, split, join\<close>

definition strip_by :: "(char \<Rightarrow> bool) \<Rightarrow> string \<Rightarrow> string" where
  "strip_by p s = rev (dropWhile p (rev (dropWhile p s)))"

definition py_strip :: "string \<Rightarrow> string" where
  "py_strip s = strip_by is_space s"

definition py_rstrip :: "string \<Rightarrow> string" where
  "py_rstrip s = rev (dropWhile is_space (rev s))"

definition py_strip_chars :: "string \<Rightarrow> string \<Rightarrow> string" where
  "py_strip_chars cs s = strip_by (\<lambda>c. c \<in> set cs) s"

function py_split :: "string \<Rightarrow> string list" where
  "py_split [] = []"
| "py_split (c # cs) =
     (if is_space c then py_split cs
      else (c # takeWhile (\<lambda>c. \<not> is_space c) cs) #
           py_split (dropWhile (\<lambda>c. \<not> is_space c) cs))"
  by pat_completeness auto
termination
  by (relation "measure length") (auto simp: le_imp_less_Suc length_dropWhile_le)

fun py_join :: "string \<Rightarrow> string list \<Rightarrow> string" where
  "py_join sep [] = []"
| "py_join sep [x] = x"
| "py_join sep (x # xs) = x @ sep @ py_join sep xs"

definition normalize_ws :: "string \<Rightarrow> string" where
  "normalize_ws s = py_join '' '' (py_split s)"

text \<open>\<open>str.splitlines()\<close>; \<open>cur\<close> is the current line, reversed.\<close>

definition is_line_break :: "char \<Rightarrow> bool" where
  "is_line_break c \<longleftrightarrow> (of_char c :: nat) \<in> {10, 11, 12, 13, 28, 29, 30, 133}"

fun splitlines_from :: "string \<Rightarrow> string \<Rightarrow> string list" where
  "splitlines_from cur [] = (if cur = [] then [] else [rev cur])"
| "splitlines_from cur (c # cs) =
     (if c = CHR 0x0D \<and> cs \<noteq> [] \<and> hd cs = CHR 0x0A then rev cur # splitlines_from [] (tl cs)
      else if is_line_break c then rev cur # splitlines_from [] cs
      else splitlines_from (c # cur) cs)"

text \<open>\<open>needle in haystack\<close>.\<close>

definition py_in :: "string \<Rightarrow> string \<Rightarrow> bool" where
  "py_in needle hay \<longleftrightarrow> sublist needle hay"

text \<open>\<open>str(n)\<close> of an int.\<close>

fun py_str_nat :: "nat \<Rightarrow> string" where
  "py_str_nat n =
     (if n < 10 then [char_of (48 + n)] else py_str_nat (n div 10) @ [char_of (48 + n mod 10)])"

declare py_str_nat.simps [simp del]

definition py_str_int :: "int \<Rightarrow> string" where
  "py_str_int n = (if n < 0 then ''-'' @ py_str_nat (nat (- n)) else py_str_nat (nat n))"

text \<open>\<open>repr\<close> of a \<open>str\<close>, for characters up to 255.\<close>

definition hex_char :: "nat \<Rightarrow> char" where
  "hex_char n = char_of (if n < 10 then 48 + n else 87 + n)"

definition repr_char :: "char \<Rightarrow> char \<Rightarrow> string" where
  "repr_char quote c =
     (if c = quote \<or> c = CHR 0x5C then [CHR 0x5C, c]
      else if c = CHR 0x09 then [CHR 0x5C, CHR ''t'']
      else if c = CHR 0x0A then [CHR 0x5C, CHR ''n'']
      else if c = CHR 0x0D then [CHR 0x5C, CHR ''r'']
      else if code c < 32 \<or> 127 \<le> code c \<and> code c \<le> 160 \<or> code c = 173
      then [CHR 0x5C, CHR ''x'', hex_char (code c div 16), hex_char (code c mod 16)]
      else [c])"

definition py_repr :: "string \<Rightarrow> string" where
  "py_repr s =
     (let quote = (if CHR 0x27 \<in> set s \<and> CHR 0x22 \<notin> set s then CHR 0x22 else CHR 0x27)
      in quote # concat (map (repr_char quote) s) @ [quote])"

section \<open>Lemmas\<close>

definition is_word :: "string \<Rightarrow> bool" where
  "is_word w \<longleftrightarrow> w \<noteq> [] \<and> list_all (\<lambda>c. \<not> is_space c) w"

lemma space_is_space [simp]: "is_space (CHR '' '')"
  by (simp add: is_space_def code_def)

lemma is_word_takeWhile:
  "\<not> is_space c \<Longrightarrow> is_word (c # takeWhile (\<lambda>c. \<not> is_space c) cs)"
  by (induction cs) (simp_all add: is_word_def)

lemma py_split_space: "is_space c \<Longrightarrow> py_split (c # cs) = py_split cs"
  by simp

lemma py_split_nonspace:
  "\<not> is_space c \<Longrightarrow> py_split (c # cs) =
     (c # takeWhile (\<lambda>c. \<not> is_space c) cs) # py_split (dropWhile (\<lambda>c. \<not> is_space c) cs)"
  by simp

declare py_split.simps(2) [simp del]

lemma py_split_words: "list_all is_word (py_split s)"
proof (induction s rule: py_split.induct)
  case (2 c cs)
  then show ?case
    by (cases "is_space c") (simp_all add: py_split_space py_split_nonspace is_word_takeWhile)
qed simp

lemma py_split_word_append:
  assumes "is_word w" "rest = [] \<or> is_space (hd rest)"
  shows "py_split (w @ rest) = w # py_split rest"
proof (cases w)
  case Nil
  with assms show ?thesis by (simp add: is_word_def)
next
  case (Cons c cs)
  have "takeWhile (\<lambda>c. \<not> is_space c) (cs @ rest) = cs"
    "dropWhile (\<lambda>c. \<not> is_space c) (cs @ rest) = rest"
    using assms Cons by (cases rest; simp add: is_word_def list_all_iff takeWhile_append2 dropWhile_append2)+
  with assms Cons show ?thesis by (simp add: is_word_def py_split_nonspace)
qed

lemma py_split_join: "list_all is_word ws \<Longrightarrow> py_split (py_join '' '' ws) = ws"
proof (induction "'' ''" ws rule: py_join.induct)
  case 1
  then show ?case by simp
next
  case (2 x)
  then show ?case using py_split_word_append [of x "[]"] by simp
next
  case (3 x v va)
  then show ?case
    using py_split_word_append [of x "'' '' @ py_join '' '' (v # va)"]
    by (simp add: py_split_space)
qed

lemma normalize_ws_idem [simp]: "normalize_ws (normalize_ws s) = normalize_ws s"
  by (simp add: normalize_ws_def py_split_join py_split_words)

lemma py_split_normalize [simp]: "py_split (normalize_ws s) = py_split s"
  by (simp add: normalize_ws_def py_split_join py_split_words)

lemma length_strip_by: "length (strip_by p s) \<le> length s"
proof -
  have "length (strip_by p s) \<le> length (dropWhile p s)"
    unfolding strip_by_def length_rev by (metis length_dropWhile_le length_rev)
  also have "\<dots> \<le> length s" by (rule length_dropWhile_le)
  finally show ?thesis .
qed

lemma length_py_strip: "length (py_strip s) \<le> length s"
  by (simp add: py_strip_def length_strip_by)

lemma py_strip_eq_Nil [simp]: "py_strip s = [] \<longleftrightarrow> list_all is_space s"
proof
  assume "py_strip s = []"
  then have "\<forall>x\<in>set (dropWhile is_space s). is_space x"
    by (simp add: py_strip_def strip_by_def dropWhile_eq_Nil_conv)
  moreover have "set s = set (takeWhile is_space s) \<union> set (dropWhile is_space s)"
    by (metis set_append takeWhile_dropWhile_id)
  ultimately show "list_all is_space s" by (auto simp: list_all_iff dest: set_takeWhileD)
next
  assume "list_all is_space s"
  then have "dropWhile is_space s = []" by (induction s) simp_all
  then show "py_strip s = []" unfolding py_strip_def strip_by_def by (simp only: rev.simps dropWhile.simps)
qed

lemma strip_by_subset: "set (strip_by p s) \<subseteq> set s"
  by (auto simp: strip_by_def dest!: set_dropWhileD)

lemma last_dropWhile: "dropWhile p xs \<noteq> [] \<Longrightarrow> last (dropWhile p xs) = last xs"
  by (induction xs) (auto split: if_splits)

lemma py_split_append:
  "s = [] \<or> t = [] \<or> is_space (last s) \<or> is_space (hd t) \<Longrightarrow>
   py_split (s @ t) = py_split s @ py_split t"
proof (induction s rule: py_split.induct)
  case 1
  then show ?case by simp
next
  case (2 c cs)
  let ?nsp = "\<lambda>c. \<not> is_space c"
  show ?case
  proof (cases "is_space c")
    case True
    then show ?thesis using "2.IH"(1) "2.prems"
      by (cases cs) (auto simp: py_split_space)
  next
    case False
    show ?thesis
    proof (cases "list_all ?nsp cs")
      case True
      then have "is_word (c # cs)" using False by (simp add: is_word_def)
      moreover have "t = [] \<or> is_space (hd t)"
        using "2.prems" True False by (cases cs rule: rev_cases) (auto simp: list_all_iff)
      ultimately have "py_split ((c # cs) @ t) = (c # cs) # py_split t"
        by (rule py_split_word_append)
      moreover have "py_split (c # cs) = [c # cs]"
        using py_split_word_append [of "c # cs" "[]"] \<open>is_word (c # cs)\<close> by simp
      ultimately show ?thesis by simp
    next
      case some: False
      then obtain x where x: "x \<in> set cs" "is_space x" by (auto simp: list_all_iff)
      then have dw: "dropWhile ?nsp (cs @ t) = dropWhile ?nsp cs @ t"
        "takeWhile ?nsp (cs @ t) = takeWhile ?nsp cs"
        by (simp_all add: takeWhile_append1 dropWhile_append1)
      have ne: "dropWhile ?nsp cs \<noteq> []" using x by (auto simp: dropWhile_eq_Nil_conv)
      then have "last (dropWhile ?nsp cs) = last (c # cs)"
        by (cases "cs = []") (simp_all add: last_dropWhile)
      with "2.prems" have "dropWhile ?nsp cs = [] \<or> t = [] \<or> is_space (last (dropWhile ?nsp cs))
          \<or> is_space (hd t)" by auto
      from "2.IH"(2) [OF False this] False show ?thesis
        by (simp add: py_split_nonspace dw)
    qed
  qed
qed

lemma py_split_append_space:
  "is_space c \<Longrightarrow> py_split (s @ [c]) = py_split s"
  using py_split_append [of s "[c]"] by (simp add: py_split_space)

lemma py_split_dropWhile_space: "py_split (dropWhile is_space s) = py_split s"
  by (induction s) (auto simp: py_split_space)

lemma py_split_rstrip: "py_split (rev (dropWhile is_space (rev s))) = py_split s"
proof (induction s rule: rev_induct)
  case Nil
  then show ?case by simp
next
  case (snoc c s)
  then show ?case by (cases "is_space c") (simp_all add: py_split_append_space)
qed

lemma py_split_strip [simp]: "py_split (py_strip s) = py_split s"
  by (simp add: py_strip_def strip_by_def py_split_rstrip py_split_dropWhile_space)

section \<open>Printed numbers\<close>

definition digits_value :: "string \<Rightarrow> nat" where
  "digits_value s = foldl (\<lambda>n c. 10 * n + (code c - 48)) 0 s"

lemma code_digit: "n < 10 \<Longrightarrow> code (char_of (48 + n)) = 48 + n"
  by (simp add: code_def)

lemma digits_value_str [simp]: "digits_value (py_str_nat n) = n"
proof (induction n rule: py_str_nat.induct)
  case (1 n)
  show ?case
  proof (cases "n < 10")
    case True
    then show ?thesis by (simp add: py_str_nat.simps [of n] digits_value_def code_digit)
  next
    case False
    then have "digits_value (py_str_nat n) = 10 * digits_value (py_str_nat (n div 10)) + n mod 10"
      by (simp add: py_str_nat.simps [of n] digits_value_def code_digit)
    then show ?thesis using 1 False by simp
  qed
qed

lemma py_str_nat_inj [simp]: "py_str_nat m = py_str_nat n \<longleftrightarrow> m = n"
  by (metis digits_value_str)

lemma py_str_nat_digits: "list_all is_digit (py_str_nat n)"
proof (induction n rule: py_str_nat.induct)
  case (1 n)
  have d: "is_digit (char_of (48 + k))" if "k < 10" for k :: nat
    using that by (simp add: is_digit_def code_digit)
  show ?case using 1 d by (cases "n < 10") (simp_all add: py_str_nat.simps [of n])
qed

lemma digits_separated:
  assumes "list_all is_digit a" "list_all is_digit a'" "a @ ''_'' @ b = a' @ ''_'' @ b'"
  shows "a = a' \<and> b = b'"
proof -
  have take: "takeWhile is_digit (x @ ''_'' @ y) = x" if "list_all is_digit x" for x y
  proof -
    have "\<not> is_digit CHR ''_''" by (simp add: is_digit_def code_def)
    then show ?thesis using that by (simp add: takeWhile_append2 list_all_iff)
  qed
  have "a = a'" using take [OF assms(1), of b] take [OF assms(2), of b'] assms(3) by simp
  then show ?thesis using assms(3) by simp
qed

end
