(* ===== verification/AudioLevels.thy ===== *)
theory AudioLevels
  imports Prelude
begin

text \<open>
  Levels of audio: \<open>voice/input_level.py\<close> (gain, peak limiter, normalisation), \<open>voice/resampling.py\<close>
  (the microphone's frame processor; \<open>audioop.ratecv\<close> is an argument), \<open>voice/utterance_quality.py\<close>
  (the noise gate of the continuous mode), \<open>voice/audio_quality.py\<close> and the recommended gain of
  \<open>voice/audio_calibration.py\<close>.
\<close>

section \<open>Arrays\<close>

text \<open>\<open>_rms\<close> of the three modules, \<open>np.max(np.abs(audio))\<close> and the mean of an array.\<close>

definition rms :: "frame \<Rightarrow> real" where
  "rms xs = (if xs = [] then 0 else sqrt (sum_list (map (\<lambda>x. x * x) xs) / of_nat (length xs)))"

definition peak_of :: "frame \<Rightarrow> real" where
  "peak_of xs = (if xs = [] then 0 else Max (set (map abs xs)))"

text \<open>\<open>audio[i : i + n]\<close> for \<open>i\<close> in \<open>range(0, len(audio), n)\<close>; of a multiple of \<open>n\<close> samples, \<open>reshape(-1, n)\<close>.\<close>

function chunks_of :: "nat \<Rightarrow> 'a list \<Rightarrow> 'a list list" where
  "chunks_of n xs = (if n = 0 \<or> xs = [] then [] else take n xs # chunks_of n (drop n xs))"
  by pat_completeness auto
termination by (relation "measure (\<lambda>(n, xs). length xs)") auto

declare chunks_of.simps [simp del]

definition usable :: "nat \<Rightarrow> frame \<Rightarrow> nat" where
  "usable n xs = length xs - length xs mod n"

text \<open>\<open>np.percentile(values, q)\<close> with linear interpolation, for a non-empty array.\<close>

definition np_percentile :: "real list \<Rightarrow> real \<Rightarrow> real" where
  "np_percentile values q =
     (let s = sort values; pos = q / 100 * of_nat (length s - 1); i = nat \<lfloor>pos\<rfloor>; j = min (i + 1) (length s - 1)
      in s ! i + (pos - of_nat i) * (s ! j - s ! i))"

section \<open>Input level\<close>

definition clamp_ceiling :: "real \<Rightarrow> real" where
  "clamp_ceiling c = max 0 (min 1 c)"

definition limit_peaks :: "frame \<Rightarrow> real \<Rightarrow> frame" where
  "limit_peaks audio c =
     (let ceil = clamp_ceiling c in
      if ceil \<le> 0 \<or> audio = [] then map (\<lambda>_. 0) audio
      else if peak_of audio \<le> ceil then audio
      else map (\<lambda>x. x * (ceil / peak_of audio)) audio)"

definition apply_input_level :: "real \<Rightarrow> real \<Rightarrow> frame \<Rightarrow> frame" where
  "apply_input_level gain ceil audio = limit_peaks (map (\<lambda>x. x * max 0 gain) audio) ceil"

definition active_rms :: "frame \<Rightarrow> int \<Rightarrow> real" where
  "active_rms samples rate =
     (let n = nat (max 1 (py_int (of_int rate * (2 / 100)))) in
      if usable n samples = 0 then rms samples
      else
        let frames = chunks_of n (take (usable n samples) samples);
            levels = map rms frames;
            threshold = max (6 / 1000) (np_percentile levels 20 * (25 / 10));
            active = filter (\<lambda>f. threshold \<le> rms f) frames
        in if active = [] then rms samples else rms (concat active))"

definition normalize_active_level :: "frame \<Rightarrow> int \<Rightarrow> real \<Rightarrow> real \<Rightarrow> real \<Rightarrow> frame" where
  "normalize_active_level audio rate target_active_rms max_gain ceil =
     (if audio = [] then audio
      else
        let level = active_rms audio rate in
        if level \<le> 0 then limit_peaks audio ceil
        else
          let target = max 0 target_active_rms;
              gain = (if 0 < target then target / level else 1)
          in apply_input_level (max 0 (min max_gain gain)) ceil audio)"

section \<open>The frame processor\<close>

text \<open>\<open>'r\<close> is the state of \<open>audioop.ratecv\<close>, here with 16-bit samples as integers.\<close>

record 'r frame_processor =
  fp_source_rate :: int
  fp_target_rate :: int
  fp_chunk_samples :: nat
  fp_gain :: real
  fp_ceiling :: real
  fp_ratecv_state :: 'r
  fp_pending :: frame

definition frame_processor_init :: "int \<Rightarrow> int \<Rightarrow> nat \<Rightarrow> real \<Rightarrow> real \<Rightarrow> 'r \<Rightarrow> 'r frame_processor" where
  "frame_processor_init source target chunk gain ceil r0 =
     \<lparr> fp_source_rate = source, fp_target_rate = target, fp_chunk_samples = chunk, fp_gain = gain,
       fp_ceiling = ceil, fp_ratecv_state = r0, fp_pending = [] \<rparr>"

definition to_pcm :: "real \<Rightarrow> int" where
  "to_pcm x = py_int (max (- 1) (min 1 x) * 32767)"

definition fp_resample ::
  "(int \<Rightarrow> int \<Rightarrow> int list \<Rightarrow> 'r \<Rightarrow> int list \<times> 'r) \<Rightarrow> frame \<Rightarrow> 'r frame_processor \<Rightarrow> frame \<times> 'r frame_processor" where
  "fp_resample ratecv samples p =
     (if fp_source_rate p = fp_target_rate p then (samples, p)
      else case ratecv (fp_source_rate p) (fp_target_rate p) (map to_pcm samples) (fp_ratecv_state p) of
             (converted, r) \<Rightarrow> (map (\<lambda>i. of_int i / 32767) converted, p\<lparr> fp_ratecv_state := r \<rparr>))"

text \<open>The loop of \<open>_pop_chunks\<close>, which does not end when the chunks are empty.\<close>

partial_function (option) pop_chunks :: "nat \<Rightarrow> frame list \<Rightarrow> frame \<Rightarrow> (frame list \<times> frame) option" where
  "pop_chunks n chunks pending =
     (if n \<le> length pending then pop_chunks n (chunks @ [take n pending]) (drop n pending)
      else Some (chunks, pending))"

definition fp_accept ::
  "(int \<Rightarrow> int \<Rightarrow> int list \<Rightarrow> 'r \<Rightarrow> int list \<times> 'r) \<Rightarrow> frame \<Rightarrow> 'r frame_processor \<Rightarrow> (frame list \<times> 'r frame_processor) option" where
  "fp_accept ratecv samples p =
     (let (resampled, p1) = fp_resample ratecv samples p;
          processed = apply_input_level (fp_gain p) (fp_ceiling p) resampled
      in case pop_chunks (fp_chunk_samples p) [] (fp_pending p1 @ processed) of
           None \<Rightarrow> None
         | Some (chunks, pending) \<Rightarrow> Some (chunks, p1\<lparr> fp_pending := pending \<rparr>))"

fun fp_accept_all ::
  "(int \<Rightarrow> int \<Rightarrow> int list \<Rightarrow> 'r \<Rightarrow> int list \<times> 'r) \<Rightarrow> frame list \<Rightarrow> 'r frame_processor \<Rightarrow> (frame list \<times> 'r frame_processor) option" where
  "fp_accept_all ratecv [] p = Some ([], p)"
| "fp_accept_all ratecv (f # fs) p =
     (case fp_accept ratecv f p of
        None \<Rightarrow> None
      | Some (cs, p1) \<Rightarrow> (case fp_accept_all ratecv fs p1 of
           None \<Rightarrow> None
         | Some (ds, p2) \<Rightarrow> Some (cs @ ds, p2)))"

section \<open>The noise gate of the continuous mode\<close>

record utterance_quality =
  uq_peak :: real
  uq_active_rms :: real
  uq_active_ms :: real

record noise_gate =
  ng_min_peak :: real
  ng_min_active_rms :: real
  ng_min_active_ms :: real
  ng_active_frame_rms :: real
  ng_frame_ms :: int

definition default_noise_gate :: noise_gate where
  "default_noise_gate = \<lparr> ng_min_peak = 35 / 1000, ng_min_active_rms = 12 / 1000, ng_min_active_ms = 180,
     ng_active_frame_rms = 8 / 1000, ng_frame_ms = 32 \<rparr>"

definition quality_of_utterance :: "frame \<Rightarrow> int \<Rightarrow> noise_gate \<Rightarrow> utterance_quality" where
  "quality_of_utterance audio rate gate =
     (if audio = [] \<or> rate \<le> 0 then \<lparr> uq_peak = 0, uq_active_rms = 0, uq_active_ms = 0 \<rparr>
      else
        let peak = peak_of audio; n = nat (max 1 (py_int_div (rate * ng_frame_ms gate) 1000)) in
        if usable n audio = 0
        then \<lparr> uq_peak = peak, uq_active_rms = rms audio, uq_active_ms = of_nat (length audio) * 1000 / of_int rate \<rparr>
        else
          let active = filter (\<lambda>f. ng_active_frame_rms gate \<le> rms f) (chunks_of n (take (usable n audio) audio)) in
          if active = [] then \<lparr> uq_peak = peak, uq_active_rms = 0, uq_active_ms = 0 \<rparr>
          else \<lparr> uq_peak = peak, uq_active_rms = rms (concat active),
                 uq_active_ms = of_nat (length (concat active)) * 1000 / of_int rate \<rparr>)"

definition should_ignore_continuous_utterance :: "frame \<Rightarrow> int \<Rightarrow> noise_gate \<Rightarrow> bool \<times> utterance_quality" where
  "should_ignore_continuous_utterance audio rate gate =
     (let q = quality_of_utterance audio rate gate
      in (uq_peak q < ng_min_peak gate \<or> uq_active_rms q < ng_min_active_rms gate \<or> uq_active_ms q < ng_min_active_ms gate, q))"

section \<open>The quality of a recording\<close>

record quality_thresholds =
  qt_min_peak :: real
  qt_max_peak :: real
  qt_min_active_rms :: real
  qt_min_active_fraction :: real
  qt_max_clipped_fraction :: real
  qt_frame_ms :: int

record quality_metrics =
  qm_sample_rate :: int
  qm_duration_seconds :: real
  qm_peak :: real
  qm_rms :: real
  qm_active_rms :: real
  qm_active_fraction :: real
  qm_clipped_fraction :: real

record quality_report =
  qr_ok :: bool
  qr_metrics :: quality_metrics
  qr_problems :: "string list"

definition default_quality_thresholds :: quality_thresholds where
  "default_quality_thresholds = \<lparr> qt_min_peak = 12 / 100, qt_max_peak = 95 / 100, qt_min_active_rms = 18 / 1000,
     qt_min_active_fraction = 8 / 100, qt_max_clipped_fraction = 1 / 1000, qt_frame_ms = 50 \<rparr>"

definition active_level :: "frame \<Rightarrow> int \<Rightarrow> int \<Rightarrow> real \<times> real" where
  "active_level audio rate frame_ms =
     (if audio = [] \<or> rate \<le> 0 then (0, 0)
      else
        let frames = chunks_of (nat (max 1 (py_int_div (rate * frame_ms) 1000))) audio;
            active = filter (\<lambda>f. 6 / 1000 \<le> rms f) frames;
            fraction = of_nat (length active) / of_nat (length frames)
        in if active = [] then (0, fraction) else (rms (concat active), fraction))"

definition quality_problems :: "quality_metrics \<Rightarrow> quality_thresholds \<Rightarrow> string list" where
  "quality_problems m t =
     (if qm_peak m < qt_min_peak t then [''speech is too quiet''] else [])
     @ (if qm_active_rms m < qt_min_active_rms t then [''active speech level is too low''] else [])
     @ (if qm_active_fraction m < qt_min_active_fraction t then [''not enough speech was captured''] else [])
     @ (if qt_max_clipped_fraction t < qm_clipped_fraction m then [''audio is clipping''] else [])"

definition analyze_audio_quality :: "frame \<Rightarrow> int \<Rightarrow> quality_thresholds \<Rightarrow> quality_report" where
  "analyze_audio_quality audio rate t =
     (let (level, fraction) = active_level audio rate (qt_frame_ms t);
          m = \<lparr> qm_sample_rate = rate,
                qm_duration_seconds = (if rate \<noteq> 0 then of_nat (length audio) / of_int rate else 0),
                qm_peak = peak_of audio, qm_rms = rms audio, qm_active_rms = level, qm_active_fraction = fraction,
                qm_clipped_fraction = (if audio \<noteq> []
                  then of_nat (length (filter (\<lambda>x. qt_max_peak t \<le> abs x) audio)) / of_nat (length audio) else 0) \<rparr>;
          problems = quality_problems m t
      in \<lparr> qr_ok = (problems = []), qr_metrics = m, qr_problems = problems \<rparr>)"

text \<open>\<open>round(x, 2)\<close>, half to even.\<close>

definition py_round2 :: "real \<Rightarrow> real" where
  "py_round2 x =
     (let y = x * 100; f = \<lfloor>y\<rfloor>; d = y - of_int f
      in of_int (if d < 1 / 2 then f else if 1 / 2 < d then f + 1 else if even f then f else f + 1) / 100)"

definition recommend_input_gain :: "quality_report \<Rightarrow> real \<Rightarrow> real \<Rightarrow> real \<Rightarrow> real" where
  "recommend_input_gain report target_peak target_active_rms max_gain =
     (let m = qr_metrics report;
          candidates = (if 0 < qm_peak m then [target_peak / qm_peak m] else [])
                     @ (if 0 < qm_active_rms m then [target_active_rms / qm_active_rms m] else [])
      in if candidates = [] then max_gain
         else py_round2 (max 1 (min max_gain (Max (set candidates)))))"

section \<open>Lemmas\<close>

lemma peak_nonneg: "0 \<le> peak_of xs"
proof (cases xs)
  case (Cons x ys)
  then have "abs x \<le> peak_of xs" by (auto simp: peak_of_def intro: Max_ge)
  then show ?thesis by linarith
qed (simp add: peak_of_def)

lemma abs_le_peak: "x \<in> set xs \<Longrightarrow> \<bar>x\<bar> \<le> peak_of xs"
  by (auto simp: peak_of_def intro: Max_ge)

lemma clamp_bounds [simp]: "0 \<le> clamp_ceiling c" "clamp_ceiling c \<le> 1"
  by (auto simp: clamp_ceiling_def)

lemma limit_peaks_bound:
  assumes "x \<in> set (limit_peaks audio c)"
  shows "\<bar>x\<bar> \<le> clamp_ceiling c"
proof -
  let ?c = "clamp_ceiling c" and ?p = "peak_of audio"
  consider "?c \<le> 0 \<or> audio = []" | "0 < ?c" "audio \<noteq> []" "?p \<le> ?c" | "0 < ?c" "audio \<noteq> []" "?c < ?p" by linarith
  then show ?thesis
  proof cases
    case 1
    then show ?thesis using assms by (auto simp: limit_peaks_def)
  next
    case 2
    then show ?thesis using assms abs_le_peak[of x audio] by (auto simp: limit_peaks_def Let_def)
  next
    case 3
    then obtain y where y: "y \<in> set audio" "x = y * (?c / ?p)" using assms by (auto simp: limit_peaks_def Let_def)
    have "\<bar>x\<bar> = \<bar>y\<bar> / ?p * ?c" using 3 by (simp add: y(2) abs_mult)
    also have "\<dots> \<le> 1 * ?c" using abs_le_peak[OF y(1)] 3 by (intro mult_right_mono) auto
    finally show ?thesis by simp
  qed
qed

lemma length_limit_peaks [simp]: "length (limit_peaks audio c) = length audio"
  by (simp add: limit_peaks_def Let_def)

lemma length_apply_input_level [simp]: "length (apply_input_level g c audio) = length audio"
  by (simp add: apply_input_level_def)

lemma apply_input_level_bound: "x \<in> set (apply_input_level g c audio) \<Longrightarrow> \<bar>x\<bar> \<le> clamp_ceiling c"
  unfolding apply_input_level_def by (rule limit_peaks_bound)

lemma normalize_bound:
  "x \<in> set (normalize_active_level audio rate target max_gain c) \<Longrightarrow> \<bar>x\<bar> \<le> clamp_ceiling c"
  by (auto simp: normalize_active_level_def Let_def intro: limit_peaks_bound apply_input_level_bound split: if_splits)

lemma rms_bound:
  assumes "\<And>x. x \<in> set xs \<Longrightarrow> \<bar>x\<bar> \<le> b" "0 \<le> b"
  shows "rms xs \<le> b"
proof (cases "xs = []")
  case False
  have "sum_list (map (\<lambda>x. x * x) xs) \<le> sum_list (map (\<lambda>x. b * b) xs)"
    using assms(1) by (intro sum_list_mono) (metis abs_mult_self_eq abs_ge_zero mult_mono')
  also have "\<dots> = of_nat (length xs) * (b * b)" by (simp add: sum_list_triv)
  finally have "sum_list (map (\<lambda>x. x * x) xs) / of_nat (length xs) \<le> b * b"
    using False by (simp add: field_simps)
  then show ?thesis using False assms(2) by (simp add: rms_def real_le_lsqrt power2_eq_square)
qed (use assms in \<open>simp add: rms_def\<close>)

lemma rms_same_magnitude:
  assumes "xs \<noteq> []" "\<And>x. x \<in> set xs \<Longrightarrow> \<bar>x\<bar> = b"
  shows "rms xs = b"
proof -
  have "x * x = b * b" if "x \<in> set xs" for x
    using assms(2)[OF that] by (metis abs_mult_self_eq)
  then have "sum_list (map (\<lambda>x. x * x) xs) = sum_list (map (\<lambda>_. b * b) xs)"
    by (intro arg_cong[of _ _ sum_list] map_cong) auto
  then have "sum_list (map (\<lambda>x. x * x) xs) = of_nat (length xs) * (b * b)" by (simp only: sum_list_triv)
  moreover have "0 \<le> b" using assms by (cases xs) fastforce+
  ultimately show ?thesis using assms(1) by (simp add: rms_def)
qed

lemma concat_chunks_of: "0 < n \<Longrightarrow> concat (chunks_of n xs) = xs"
proof (induction n xs rule: chunks_of.induct)
  case (1 n xs)
  then show ?case by (subst chunks_of.simps) auto
qed

lemma concat_filter_shorter: "length (concat (filter P xss)) \<le> length (concat xss)"
  by (induction xss) auto

lemma active_chunks:
  assumes "0 < n"
  shows "set (concat (filter P (chunks_of n xs))) \<subseteq> set xs" "length (concat (filter P (chunks_of n xs))) \<le> length xs"
proof -
  have "set (concat (filter P (chunks_of n xs))) \<subseteq> set (concat (chunks_of n xs))" by auto
  then show "set (concat (filter P (chunks_of n xs))) \<subseteq> set xs" by (simp only: concat_chunks_of[OF assms])
  show "length (concat (filter P (chunks_of n xs))) \<le> length xs"
    using concat_filter_shorter[of P "chunks_of n xs"] by (simp only: concat_chunks_of[OF assms])
qed

text \<open>The measures of an utterance are consistent: no level above the peak, no activity beyond its duration.\<close>

lemma utterance_quality_bounds:
  assumes "0 < rate"
  shows "uq_active_rms (quality_of_utterance audio rate gate) \<le> uq_peak (quality_of_utterance audio rate gate)"
    and "uq_active_ms (quality_of_utterance audio rate gate) \<le> of_nat (length audio) * 1000 / of_int rate"
proof -
  define n where "n = nat (max 1 (py_int_div (rate * ng_frame_ms gate) 1000))"
  define active where "active = filter (\<lambda>f. ng_active_frame_rms gate \<le> rms f) (chunks_of n (take (usable n audio) audio))"
  have n: "0 < n" by (simp add: n_def)
  have "set (concat active) \<subseteq> set audio"
    unfolding active_def using active_chunks(1)[OF n] set_take_subset by (rule order_trans)
  then have sub: "rms (concat active) \<le> peak_of audio"
    by (intro rms_bound abs_le_peak peak_nonneg) blast
  have len: "length (concat active) \<le> length audio"
    unfolding active_def by (rule order_trans[OF active_chunks(2)[OF n]]) simp
  show "uq_active_rms (quality_of_utterance audio rate gate) \<le> uq_peak (quality_of_utterance audio rate gate)"
    using sub rms_bound[OF abs_le_peak peak_nonneg] peak_nonneg[of audio]
    by (auto simp: quality_of_utterance_def Let_def n_def active_def)
  show "uq_active_ms (quality_of_utterance audio rate gate) \<le> of_nat (length audio) * 1000 / of_int rate"
    using len assms by (auto simp: quality_of_utterance_def Let_def n_def active_def divide_right_mono)
qed

text \<open>The loop cuts the pending samples into full chunks and keeps the rest.\<close>

lemma pop_chunks_result:
  assumes "0 < n"
  shows "\<exists>cs rest. pop_chunks n acc pending = Some (acc @ cs, rest) \<and> concat cs @ rest = pending
    \<and> (\<forall>c \<in> set cs. length c = n) \<and> length rest < n"
  using assms
proof (induction "length pending" arbitrary: pending acc rule: less_induct)
  case less
  show ?case
  proof (cases "n \<le> length pending")
    case False
    then show ?thesis by (subst pop_chunks.simps) simp
  next
    case True
    then have "length (drop n pending) < length pending" using less.prems by simp
    from less.hyps[OF this less.prems, of "acc @ [take n pending]"] obtain cs rest where
      r: "pop_chunks n (acc @ [take n pending]) (drop n pending) = Some ((acc @ [take n pending]) @ cs, rest)"
        "concat cs @ rest = drop n pending" "\<forall>c \<in> set cs. length c = n" "length rest < n" by auto
    have "pop_chunks n acc pending = Some (acc @ (take n pending # cs), rest)"
      using True r(1) by (subst pop_chunks.simps) simp
    moreover have "concat (take n pending # cs) @ rest = pending" using r(2) by simp
    moreover have "\<forall>c \<in> set (take n pending # cs). length c = n" using r(3) True by simp
    ultimately show ?thesis using r(4) by blast
  qed
qed

text \<open>What the frames become before they are cut into chunks.\<close>

fun levelled ::
  "(int \<Rightarrow> int \<Rightarrow> int list \<Rightarrow> 'r \<Rightarrow> int list \<times> 'r) \<Rightarrow> frame list \<Rightarrow> 'r frame_processor \<Rightarrow> frame" where
  "levelled ratecv [] p = []"
| "levelled ratecv (f # fs) p =
     (let (resampled, p1) = fp_resample ratecv f p
      in apply_input_level (fp_gain p) (fp_ceiling p) resampled @ levelled ratecv fs p1)"

lemma resample_keeps:
  assumes "fp_resample ratecv f p = (g, p1)"
  shows "fp_chunk_samples p1 = fp_chunk_samples p" "fp_gain p1 = fp_gain p" "fp_ceiling p1 = fp_ceiling p"
    "fp_pending p1 = fp_pending p"
  using assms by (auto simp: fp_resample_def split: if_splits prod.splits)

lemma resample_ignores_pending:
  "fp_resample ratecv f (p\<lparr> fp_pending := r \<rparr>) = (case fp_resample ratecv f p of (g, p1) \<Rightarrow> (g, p1\<lparr> fp_pending := r \<rparr>))"
  by (simp add: fp_resample_def split: prod.splits)

lemma levelled_ignores_pending: "levelled ratecv fs (p\<lparr> fp_pending := r \<rparr>) = levelled ratecv fs p"
  by (induction fs arbitrary: p) (auto simp: resample_ignores_pending split: prod.splits)

lemma levelled_bound:
  "x \<in> set (levelled ratecv fs p) \<Longrightarrow> \<bar>x\<bar> \<le> clamp_ceiling (fp_ceiling p)"
proof (induction fs arbitrary: p)
  case (Cons f fs)
  obtain g p1 where g: "fp_resample ratecv f p = (g, p1)" by fastforce
  show ?case
    using Cons.prems Cons.IH[of p1] resample_keeps[OF g] apply_input_level_bound by (auto simp: g)
qed simp

lemma accept_all_result:
  assumes "0 < fp_chunk_samples p"
  shows "\<exists>cs p1. fp_accept_all ratecv fs p = Some (cs, p1)
    \<and> concat cs @ fp_pending p1 = fp_pending p @ levelled ratecv fs p
    \<and> (\<forall>c \<in> set cs. length c = fp_chunk_samples p)
    \<and> (length (fp_pending p) < fp_chunk_samples p \<longrightarrow> length (fp_pending p1) < fp_chunk_samples p)"
  using assms
proof (induction fs arbitrary: p)
  case (Cons f fs)
  obtain g p1 where g: "fp_resample ratecv f p = (g, p1)" by fastforce
  note keep = resample_keeps[OF g]
  let ?x = "apply_input_level (fp_gain p) (fp_ceiling p) g"
  obtain cs rest where c: "pop_chunks (fp_chunk_samples p) [] (fp_pending p1 @ ?x) = Some (cs, rest)"
    "concat cs @ rest = fp_pending p1 @ ?x" "\<forall>c \<in> set cs. length c = fp_chunk_samples p" "length rest < fp_chunk_samples p"
    using pop_chunks_result[OF Cons.prems, of "[]" "fp_pending p1 @ ?x"] by auto
  let ?q = "p1\<lparr> fp_pending := rest \<rparr>"
  obtain ds p2 where d: "fp_accept_all ratecv fs ?q = Some (ds, p2)"
    "concat ds @ fp_pending p2 = rest @ levelled ratecv fs p1" "\<forall>c \<in> set ds. length c = fp_chunk_samples p"
    "length (fp_pending p2) < fp_chunk_samples p"
    using Cons.IH[of ?q] Cons.prems keep c(4) by (auto simp: levelled_ignores_pending)
  have "fp_accept_all ratecv (f # fs) p = Some (cs @ ds, p2)"
    using c(1) d(1) by (simp add: fp_accept_def g)
  moreover have "concat (cs @ ds) @ fp_pending p2 = fp_pending p @ levelled ratecv (f # fs) p"
    using c(2) d(2) keep by (simp add: g)
  ultimately show ?case using c(3) d(3,4) by fastforce
qed simp

section \<open>Properties\<close>

text \<open>
  For chunks of a positive length the microphone's frame processor always returns; every
  chunk it has handed out has exactly that length, fewer samples than a chunk are kept back, and
  the chunks followed by the kept samples are the resampled and levelled input, none lost,
  repeated or reordered; no sample exceeds the ceiling of the limiter, which never exceeds one.
\<close>

lemma frame_processor_cuts_the_stream:
  assumes "0 < chunk"
  shows "\<exists>chunks p1. fp_accept_all ratecv fs (frame_processor_init source target chunk gain ceil r0) = Some (chunks, p1)
    \<and> concat chunks @ fp_pending p1 = levelled ratecv fs (frame_processor_init source target chunk gain ceil r0)
    \<and> (\<forall>c \<in> set chunks. length c = chunk \<and> (\<forall>x \<in> set c. \<bar>x\<bar> \<le> max 0 (min 1 ceil)))
    \<and> length (fp_pending p1) < chunk"
proof -
  let ?p = "frame_processor_init source target chunk gain ceil r0"
  have p: "fp_chunk_samples ?p = chunk" "fp_pending ?p = []" "fp_ceiling ?p = ceil" by (simp_all add: frame_processor_init_def)
  obtain cs p1 where r: "fp_accept_all ratecv fs ?p = Some (cs, p1)" "concat cs @ fp_pending p1 = levelled ratecv fs ?p"
    "\<forall>c \<in> set cs. length c = chunk" "length (fp_pending p1) < chunk"
    using accept_all_result[of ?p ratecv fs] assms p by auto
  have "\<bar>x\<bar> \<le> max 0 (min 1 ceil)" if "c \<in> set cs" "x \<in> set c" for c x
  proof -
    have "x \<in> set (levelled ratecv fs ?p)" using that arg_cong[OF r(2), of set] by auto
    from levelled_bound[OF this] show ?thesis by (simp add: p(3) clamp_ceiling_def)
  qed
  then show ?thesis using r by blast
qed

text \<open>Three frames of an eight kilohertz microphone at the same rate, cut into pairs of samples.\<close>

lemma frame_processor_cuts_the_stream_witness:
  "\<exists>chunks p1. fp_accept_all (\<lambda>_ _ xs r. (xs, r)) [[1 / 4], [1 / 2, 1], []] (frame_processor_init 8000 8000 2 2 1 ()) = Some (chunks, p1)
    \<and> concat chunks @ fp_pending p1 = [1 / 2, 1 / 2, 1]
    \<and> (\<forall>c \<in> set chunks. length c = 2 \<and> (\<forall>x \<in> set c. \<bar>x\<bar> \<le> 1)) \<and> length (fp_pending p1) < 2"
proof -
  have "levelled (\<lambda>_ _ xs r. (xs, r)) [[1 / 4], [1 / 2, 1], []] (frame_processor_init 8000 8000 2 2 1 ()) = [1 / 2, 1 / 2, 1]"
    by (simp add: frame_processor_init_def fp_resample_def apply_input_level_def limit_peaks_def clamp_ceiling_def peak_of_def)
  then show ?thesis
    using frame_processor_cuts_the_stream[of 2 "\<lambda>_ _ xs r. (xs, r)" "[[1 / 4], [1 / 2, 1], []]" 8000 8000 2 1 "()"] by simp
qed

end
