(* ===== verification/Microphone.thy ===== *)
theory Microphone
  imports Text AudioLevels "HOL-Library.Product_Lexorder"
begin

text \<open>
  The microphone: \<open>voice/audio_devices.py\<close> (which devices are tried, in which order) and
  \<open>voice/microphone.py\<close> (opening a stream with retries, the callback that fills a bounded queue,
  the frames handed to the capture loop). The answers of the \<open>sounddevice\<close> package are arguments:
  what it lists, and for every call whether it raises. The calls the code makes of it are logged.
\<close>

section \<open>Devices\<close>

text \<open>The values \<open>int | str | None\<close> that name a device.\<close>

datatype device_ref = Default_device | Device_index int | Device_name string

text \<open>The dictionaries of \<open>sd.query_devices()\<close>; a missing key is \<open>None\<close>.\<close>

record sd_device =
  sd_name :: "string option"
  sd_hostapi :: "int option"
  sd_max_input_channels :: "int option"
  sd_default_samplerate :: "real option"

text \<open>\<open>sys_query\<close> is \<open>sd.query_devices(device=device, kind="input")\<close>, which raises for an unknown device.\<close>

record sd_system =
  sys_devices :: "sd_device list"
  sys_hostapis :: "string option list"
  sys_default_input :: int
  sys_query :: "device_ref \<Rightarrow> py_error + sd_device"

record audio_device_info =
  ad_index :: nat
  ad_name :: string
  ad_host_api_name :: string
  ad_max_input_channels :: int
  ad_default_sample_rate :: real
  ad_is_default_input :: bool

definition PREFERRED_HOST_APIS :: "string list" where
  "PREFERRED_HOST_APIS = [''Windows WASAPI'', ''Core Audio'', ''ALSA'', ''PulseAudio'',
     ''JACK Audio Connection Kit'', ''Windows DirectSound'', ''MME'', ''Windows WDM-KS'']"

text \<open>Indexing of a tuple: negative indices count from its end.\<close>

definition py_index :: "'a list \<Rightarrow> int \<Rightarrow> py_error + 'a" where
  "py_index xs i =
     (let j = (if i < 0 then i + int (length xs) else i)
      in if 0 \<le> j \<and> j < int (length xs) then Inr (xs ! nat j) else Inl (IndexError ''tuple index out of range''))"

text \<open>\<open>d.get(key, default)\<close>.\<close>

definition get_or :: "'a option \<Rightarrow> 'a \<Rightarrow> 'a" where
  "get_or x d = (case x of None \<Rightarrow> d | Some v \<Rightarrow> v)"

fun input_devices_from :: "sd_system \<Rightarrow> nat \<Rightarrow> sd_device list \<Rightarrow> py_error + audio_device_info list" where
  "input_devices_from sys i [] = Inr []"
| "input_devices_from sys i (d # ds) =
     (if get_or (sd_max_input_channels d) 0 \<le> 0 then input_devices_from sys (Suc i) ds
      else case py_index (sys_hostapis sys) (get_or (sd_hostapi d) 0) of
        Inl e \<Rightarrow> Inl e
      | Inr hostapi \<Rightarrow>
          map_sum id (Cons \<lparr> ad_index = i, ad_name = get_or (sd_name d) (''Device '' @ py_str_nat i),
              ad_host_api_name = get_or hostapi ''Unknown'',
              ad_max_input_channels = get_or (sd_max_input_channels d) 0,
              ad_default_sample_rate = get_or (sd_default_samplerate d) 0,
              ad_is_default_input = (int i = sys_default_input sys) \<rparr>)
            (input_devices_from sys (Suc i) ds))"

definition list_input_devices :: "sd_system \<Rightarrow> py_error + audio_device_info list" where
  "list_input_devices sys = input_devices_from sys 0 (sys_devices sys)"

fun first_index :: "'a \<Rightarrow> 'a list \<Rightarrow> nat option" where
  "first_index x [] = None"
| "first_index x (y # ys) = (if x = y then Some 0 else map_option Suc (first_index x ys))"

definition device_rank :: "audio_device_info \<Rightarrow> nat \<times> nat" where
  "device_rank d =
     (get_or (first_index (ad_host_api_name d) PREFERRED_HOST_APIS) (length PREFERRED_HOST_APIS), ad_index d)"

definition preferred_devices :: "audio_device_info list \<Rightarrow> py_error + audio_device_info list" where
  "preferred_devices ds =
     (if ds = [] then Inl (ValueError ''No input device candidates were found.'')
      else Inr (sort_key device_rank ds))"

definition preferred_duplicates :: "audio_device_info option \<Rightarrow> audio_device_info list \<Rightarrow> py_error + audio_device_info list" where
  "preferred_duplicates selected ds =
     (case selected of
        None \<Rightarrow> Inl (ValueError ''Input device was not found.'')
      | Some s \<Rightarrow> preferred_devices (filter (\<lambda>d. ad_name d = ad_name s) ds))"

definition device_indexes :: "audio_device_info list \<Rightarrow> device_ref list" where
  "device_indexes ds = map (\<lambda>d. Device_index (int (ad_index d))) ds"

text \<open>\<open>str.casefold\<close> on Latin-1 strings; the micro sign stands for its folded form, which no other character has.\<close>

definition py_casefold :: "string \<Rightarrow> string" where
  "py_casefold s = concat (map (\<lambda>c. if code c = 223 then ''ss'' else [lower_char c]) s)"

definition device_matches :: "string \<Rightarrow> audio_device_info \<Rightarrow> bool" where
  "device_matches name d \<longleftrightarrow>
     py_in (py_casefold name) (py_casefold (ad_name d)) \<or> py_in (py_casefold name) (py_casefold (ad_host_api_name d))"

definition resolve_input_devices :: "sd_system \<Rightarrow> device_ref \<Rightarrow> py_error + device_ref list" where
  "resolve_input_devices sys device =
     (case list_input_devices sys of
        Inl e \<Rightarrow> Inl e
      | Inr ds \<Rightarrow>
          (case device of
             Default_device \<Rightarrow>
               (case find ad_is_default_input ds of
                  None \<Rightarrow> Inr [Default_device]
                | Some d \<Rightarrow> map_sum id device_indexes (preferred_duplicates (Some d) ds))
           | Device_index i \<Rightarrow>
               (case find (\<lambda>d. int (ad_index d) = i) ds of
                  None \<Rightarrow> Inr [Device_index i]
                | Some d \<Rightarrow> map_sum id device_indexes (preferred_duplicates (Some d) ds))
           | Device_name name \<Rightarrow>
               (let matched = filter (device_matches name) ds
                in if matched = [] then Inr [Device_name name]
                   else map_sum id device_indexes (preferred_devices matched))))"

text \<open>\<open>round(x)\<close> of a float, half to even.\<close>

definition py_round :: "real \<Rightarrow> int" where
  "py_round x =
     (let f = \<lfloor>x\<rfloor>; d = x - of_int f
      in if d < 1 / 2 then f else if 1 / 2 < d then f + 1 else if even f then f else f + 1)"

definition device_default_sample_rate :: "sd_system \<Rightarrow> device_ref \<Rightarrow> py_error + int" where
  "device_default_sample_rate sys device =
     map_sum id (\<lambda>d. py_round (get_or (sd_default_samplerate d) 16000)) (sys_query sys device)"

definition device_input_channels :: "sd_system \<Rightarrow> device_ref \<Rightarrow> py_error + int" where
  "device_input_channels sys device = map_sum id (\<lambda>d. get_or (sd_max_input_channels d) 1) (sys_query sys device)"

definition device_info :: "sd_system \<Rightarrow> device_ref \<Rightarrow> py_error + audio_device_info option" where
  "device_info sys device =
     (case device of
        Device_index i \<Rightarrow> map_sum id (find (\<lambda>d. int (ad_index d) = i)) (list_input_devices sys)
      | _ \<Rightarrow> Inr None)"

text \<open>\<open>str(device or "default")\<close>: the index \<open>0\<close> and the empty name are false.\<close>

fun device_or_default :: "device_ref \<Rightarrow> string" where
  "device_or_default Default_device = ''default''"
| "device_or_default (Device_index i) = (if i = 0 then ''default'' else py_str_int i)"
| "device_or_default (Device_name name) = (if name = [] then ''default'' else name)"

definition device_summary :: "sd_system \<Rightarrow> device_ref \<Rightarrow> py_error + string" where
  "device_summary sys device =
     map_sum id (\<lambda>info. case info of
         None \<Rightarrow> device_or_default device
       | Some d \<Rightarrow> py_str_nat (ad_index d) @ '' '' @ ad_name d @ '' via '' @ ad_host_api_name d @ '' at ''
                   @ py_str_int (py_round (ad_default_sample_rate d)) @ '' Hz'')
       (device_info sys device)"

section \<open>The microphone stream\<close>

record audio_input_config =
  ai_sample_rate :: int
  ai_input_sample_rate :: "int option"
  ai_input_gain :: real
  ai_limiter_ceiling :: real
  ai_chunk_ms :: int
  ai_channels :: int
  ai_channel :: int
  ai_device :: device_ref
  ai_queue_seconds :: real
  ai_start_retries :: int
  ai_start_retry_delay_seconds :: real

definition default_audio_input_config :: audio_input_config where
  "default_audio_input_config = \<lparr> ai_sample_rate = 16000, ai_input_sample_rate = None, ai_input_gain = 1,
     ai_limiter_ceiling = 95 / 100, ai_chunk_ms = 32, ai_channels = 0, ai_channel = - 1, ai_device = Default_device,
     ai_queue_seconds = 12, ai_start_retries = 5, ai_start_retry_delay_seconds = 2 / 10 \<rparr>"

definition mic_chunk_samples :: "audio_input_config \<Rightarrow> nat" where
  "mic_chunk_samples c = nat (max 1 (py_int_div (ai_sample_rate c * ai_chunk_ms c) 1000))"

definition queue_chunks :: "audio_input_config \<Rightarrow> py_error + nat" where
  "queue_chunks c =
     (if ai_chunk_ms c = 0 then Inl ZeroDivisionError
      else Inr (nat (max 2 (py_int (ai_queue_seconds c * 1000 / of_int (ai_chunk_ms c))))))"

text \<open>
  The calls of \<open>sounddevice\<close>. Streams are numbered in the order they are created;
  \<open>Create\<close> carries the device, the sample rate, the block size and the channels.
\<close>

datatype sd_call =
    Create device_ref int int int "nat option"
  | Start nat bool
  | Stop nat
  | Close nat
  | Sleep real

text \<open>What the driver answers to each call, after the calls so far: the error it raises, if any.\<close>

record sd_driver =
  dr_create :: "sd_call list \<Rightarrow> device_ref \<Rightarrow> py_error option"
  dr_start :: "sd_call list \<Rightarrow> nat \<Rightarrow> py_error option"
  dr_stop :: "sd_call list \<Rightarrow> nat \<Rightarrow> py_error option"
  dr_close :: "sd_call list \<Rightarrow> nat \<Rightarrow> py_error option"

record 'r microphone =
  mi_config :: audio_input_config
  mi_maxsize :: nat
  mi_queue :: "frame list"
  mi_stop_event :: bool
  mi_stream :: "nat option"
  mi_dropped_frames :: nat
  mi_last_status :: "string option"
  mi_resolved_device :: device_ref
  mi_input_sample_rate :: int
  mi_input_channels :: int
  mi_processor :: "'r frame_processor option"
  mi_calls :: "sd_call list"

definition microphone_init :: "audio_input_config \<Rightarrow> py_error + 'r microphone" where
  "microphone_init c =
     map_sum id (\<lambda>n. \<lparr> mi_config = c, mi_maxsize = n, mi_queue = [], mi_stop_event = False, mi_stream = None,
       mi_dropped_frames = 0, mi_last_status = None, mi_resolved_device = Default_device,
       mi_input_sample_rate = ai_sample_rate c, mi_input_channels = 1, mi_processor = None, mi_calls = [] \<rparr>)
       (queue_chunks c)"

definition next_stream :: "sd_call list \<Rightarrow> nat" where
  "next_stream calls = length (filter (\<lambda>c. case c of Create _ _ _ _ (Some _) \<Rightarrow> True | _ \<Rightarrow> False) calls)"

text \<open>
  The retry loop: attempt number \<open>attempt\<close> with \<open>left\<close> attempts to go. The stream of a failed start is
  closed, whatever exception \<open>close\<close> raises, and the loop sleeps before the next attempt.
\<close>

fun open_attempts ::
  "sd_driver \<Rightarrow> audio_input_config \<Rightarrow> device_ref \<Rightarrow> int \<Rightarrow> int \<Rightarrow> int \<Rightarrow> nat \<Rightarrow> nat \<Rightarrow> sd_call list \<Rightarrow> (py_error + nat) \<times> sd_call list" where
  "open_attempts drv c device rate block channels attempt 0 calls =
     (Inl (RuntimeError ''unreachable microphone startup retry state''), calls)"
| "open_attempts drv c device rate block channels attempt (Suc left) calls =
     (let retry = (\<lambda>e calls.
            if left = 0 then (Inl e, calls)
            else open_attempts drv c device rate block channels (Suc attempt) left
                   (calls @ [Sleep (ai_start_retry_delay_seconds c * of_nat (Suc attempt))]))
      in case dr_create drv calls device of
           Some e \<Rightarrow>
             (let calls1 = calls @ [Create device rate block channels None]
              in if is_exception e then retry e calls1 else (Inl e, calls1))
         | None \<Rightarrow>
             (let n = next_stream calls; calls1 = calls @ [Create device rate block channels (Some n)]
              in case dr_start drv calls1 n of
                   None \<Rightarrow> (Inr n, calls1 @ [Start n True])
                 | Some e \<Rightarrow>
                     (let calls2 = calls1 @ [Start n False]
                      in if is_exception e then
                           (case dr_close drv calls2 n of
                              Some e1 \<Rightarrow> if is_exception e1 then retry e (calls2 @ [Close n]) else (Inl e1, calls2 @ [Close n])
                            | None \<Rightarrow> retry e (calls2 @ [Close n]))
                         else (Inl e, calls2))))"

definition start_attempts :: "audio_input_config \<Rightarrow> nat" where
  "start_attempts c = nat (max 1 (ai_start_retries c + 1))"

definition open_started_stream ::
  "sd_driver \<Rightarrow> audio_input_config \<Rightarrow> device_ref \<Rightarrow> int \<Rightarrow> int \<Rightarrow> int \<Rightarrow> sd_call list \<Rightarrow> (py_error + nat) \<times> sd_call list" where
  "open_started_stream drv c device rate block channels calls =
     open_attempts drv c device rate block channels 0 (start_attempts c) calls"

text \<open>\<open>r0\<close> is the initial state of the resampler, \<open>None\<close> in the code.\<close>

definition open_device :: "sd_system \<Rightarrow> sd_driver \<Rightarrow> 'r \<Rightarrow> device_ref \<Rightarrow> 'r microphone \<Rightarrow> py_error option \<times> 'r microphone" where
  "open_device sys drv r0 device m =
     (let c = mi_config m; m1 = m\<lparr> mi_resolved_device := device \<rparr>
      in case (case ai_input_sample_rate c of
                 Some rate \<Rightarrow> if rate \<noteq> 0 then Inr rate else device_default_sample_rate sys device
               | None \<Rightarrow> device_default_sample_rate sys device) of
           Inl e \<Rightarrow> (Some e, m1)
         | Inr rate \<Rightarrow>
             (let m2 = m1\<lparr> mi_input_sample_rate := rate \<rparr>
              in case (if ai_channels c \<noteq> 0 then Inr (ai_channels c)
                       else map_sum id (\<lambda>n. min 2 (max 1 n)) (device_input_channels sys device)) of
                   Inl e \<Rightarrow> (Some e, m2)
                 | Inr channels \<Rightarrow>
                     (let p = frame_processor_init rate (ai_sample_rate c) (mic_chunk_samples c) (ai_input_gain c) (ai_limiter_ceiling c) r0;
                          m3 = m2\<lparr> mi_input_channels := channels, mi_processor := Some p \<rparr>;
                          block = max 1 (py_round_div (rate * ai_chunk_ms c) 1000)
                      in case open_started_stream drv c device rate block channels (mi_calls m3) of
                           (Inl e, calls) \<Rightarrow> (Some e, m3\<lparr> mi_calls := calls \<rparr>)
                         | (Inr n, calls) \<Rightarrow> (None, m3\<lparr> mi_stream := Some n, mi_calls := calls \<rparr>))))"

definition close_stream :: "sd_driver \<Rightarrow> 'r microphone \<Rightarrow> py_error option \<times> 'r microphone" where
  "close_stream drv m =
     (case mi_stream m of
        None \<Rightarrow> (None, m)
      | Some n \<Rightarrow>
          (let m1 = m\<lparr> mi_calls := mi_calls m @ [Stop n] \<rparr>
           in case dr_stop drv (mi_calls m) n of
                Some e \<Rightarrow> (Some e, m1)
              | None \<Rightarrow>
                  (let m2 = m1\<lparr> mi_calls := mi_calls m1 @ [Close n] \<rparr>
                   in case dr_close drv (mi_calls m1) n of
                        Some e \<Rightarrow> (Some e, m2)
                      | None \<Rightarrow> (None, m2\<lparr> mi_stream := None \<rparr>))))"

definition mic_close :: "sd_driver \<Rightarrow> 'r microphone \<Rightarrow> py_error option \<times> 'r microphone" where
  "mic_close drv m = close_stream drv (m\<lparr> mi_stop_event := True \<rparr>)"

definition start_failure :: "device_ref \<Rightarrow> string list \<Rightarrow> py_error option \<Rightarrow> py_error" where
  "start_failure device attempted last_error =
     (let joined = py_join ''; '' attempted; tried = (if joined = [] then device_or_default device else joined)
      in RuntimeError (''Could not start input stream. Tried: '' @ tried @ ''. Last error: ''
           @ (case last_error of None \<Rightarrow> ''None'' | Some e \<Rightarrow> error_text e)))"

fun try_devices ::
  "sd_system \<Rightarrow> sd_driver \<Rightarrow> 'r \<Rightarrow> device_ref list \<Rightarrow> string list \<Rightarrow> py_error option \<Rightarrow> 'r microphone \<Rightarrow> py_error option \<times> 'r microphone" where
  "try_devices sys drv r0 [] attempted last_error m = (Some (start_failure (ai_device (mi_config m)) attempted last_error), m)"
| "try_devices sys drv r0 (d # ds) attempted last_error m =
     (case device_summary sys d of
        Inl e \<Rightarrow> (Some e, m)
      | Inr summary \<Rightarrow>
          (case open_device sys drv r0 d m of
             (None, m1) \<Rightarrow> (None, m1)
           | (Some e, m1) \<Rightarrow>
               if is_exception e then
                 (case close_stream drv m1 of
                    (Some e1, m2) \<Rightarrow> (Some e1, m2)
                  | (None, m2) \<Rightarrow> try_devices sys drv r0 ds (attempted @ [summary]) (Some e) m2)
               else (Some e, m1)))"

definition mic_enter :: "sd_system \<Rightarrow> sd_driver \<Rightarrow> 'r \<Rightarrow> 'r microphone \<Rightarrow> py_error option \<times> 'r microphone" where
  "mic_enter sys drv r0 m =
     (case resolve_input_devices sys (ai_device (mi_config m)) of
        Inl e \<Rightarrow> (Some e, m)
      | Inr ds \<Rightarrow> try_devices sys drv r0 ds [] None m)"

section \<open>Frames\<close>

text \<open>A block of the callback: a one-dimensional array, or rows of as many samples as there are channels.\<close>

datatype audio_block = Flat frame | Rows nat "frame list"

definition column :: "nat \<Rightarrow> frame list \<Rightarrow> frame" where
  "column i rows = map (\<lambda>r. r ! i) rows"

text \<open>\<open>np.argmax\<close>: the first index of the greatest value of a non-empty array.\<close>

definition np_argmax :: "real list \<Rightarrow> nat" where
  "np_argmax xs = length (takeWhile (\<lambda>x. x \<noteq> Max (set xs)) xs)"

definition strongest_channel :: "nat \<Rightarrow> frame list \<Rightarrow> frame" where
  "strongest_channel channels rows =
     (if channels \<le> 1 then concat rows
      else column (np_argmax (map (\<lambda>i. rms (column i rows)) [0 ..< channels])) rows)"

definition to_mono :: "audio_input_config \<Rightarrow> audio_block \<Rightarrow> py_error + frame" where
  "to_mono c block =
     (case block of
        Flat xs \<Rightarrow> Inr xs
      | Rows channels rows \<Rightarrow>
          if ai_channel c < 0 then Inr (strongest_channel channels rows)
          else if channels = 0 then Inl (IndexError ''index -1 is out of bounds for axis 1 with size 0'')
          else Inr (column (nat (min (max 0 (ai_channel c)) (int channels - 1))) rows))"

text \<open>\<open>put_nowait\<close> of one frame; a full queue drops it.\<close>

definition put_frame :: "frame \<Rightarrow> 'r microphone \<Rightarrow> 'r microphone" where
  "put_frame f m =
     (if 0 < mi_maxsize m \<and> mi_maxsize m \<le> length (mi_queue m) then m\<lparr> mi_dropped_frames := mi_dropped_frames m + 1 \<rparr>
      else m\<lparr> mi_queue := mi_queue m @ [f] \<rparr>)"

text \<open>The callback; \<open>None\<close> when it does not return.\<close>

definition mic_callback ::
  "(int \<Rightarrow> int \<Rightarrow> int list \<Rightarrow> 'r \<Rightarrow> int list \<times> 'r) \<Rightarrow> audio_block \<Rightarrow> string option \<Rightarrow> 'r microphone
     \<Rightarrow> (py_error option \<times> 'r microphone) option" where
  "mic_callback ratecv block status m =
     (let m1 = (case status of None \<Rightarrow> m | Some s \<Rightarrow> m\<lparr> mi_last_status := Some s \<rparr>)
      in case to_mono (mi_config m) block of
           Inl e \<Rightarrow> Some (Some e, m1)
         | Inr mono_samples \<Rightarrow>
             (case mi_processor m1 of
                None \<Rightarrow> Some (Some AssertionError, m1)
              | Some p \<Rightarrow>
                  (case fp_accept ratecv mono_samples p of
                     None \<Rightarrow> None
                   | Some (chunks, p1) \<Rightarrow> Some (None, fold put_frame chunks (m1\<lparr> mi_processor := Some p1 \<rparr>)))))"

text \<open>One round of the generator \<open>frames\<close>: it ends, yields a frame, or has waited in vain.\<close>

datatype frames_round = Ended | Yielded frame | Timed_out

definition frames_next :: "bool \<Rightarrow> 'r microphone \<Rightarrow> frames_round \<times> 'r microphone" where
  "frames_next stopped m =
     (if mi_stop_event m \<or> stopped then (Ended, m)
      else case mi_queue m of
        [] \<Rightarrow> (Timed_out, m)
      | f # fs \<Rightarrow> (Yielded f, m\<lparr> mi_queue := fs \<rparr>))"

text \<open>The device and the capture loop take turns: a callback, or a round of \<open>frames\<close>.\<close>

datatype mic_event = Heard audio_block "string option" | Next bool

fun mic_run ::
  "(int \<Rightarrow> int \<Rightarrow> int list \<Rightarrow> 'r \<Rightarrow> int list \<times> 'r) \<Rightarrow> mic_event list \<Rightarrow> 'r microphone
     \<Rightarrow> (frames_round list \<times> 'r microphone) option" where
  "mic_run ratecv [] m = Some ([], m)"
| "mic_run ratecv (Heard block status # is) m =
     (case mic_callback ratecv block status m of
        None \<Rightarrow> None
      | Some (_, m1) \<Rightarrow> mic_run ratecv is m1)"
| "mic_run ratecv (Next stopped # is) m =
     (case frames_next stopped m of (r, m1) \<Rightarrow> map_option (apfst (Cons r)) (mic_run ratecv is m1))"


section \<open>Lemmas about devices\<close>

text \<open>The devices a reference stands for among those listed.\<close>

definition candidates :: "device_ref \<Rightarrow> audio_device_info list \<Rightarrow> audio_device_info list" where
  "candidates device ds =
     (case device of
        Device_name name \<Rightarrow> filter (device_matches name) ds
      | Default_device \<Rightarrow>
          (case find ad_is_default_input ds of None \<Rightarrow> [] | Some s \<Rightarrow> filter (\<lambda>d. ad_name d = ad_name s) ds)
      | Device_index i \<Rightarrow>
          (case find (\<lambda>d. int (ad_index d) = i) ds of None \<Rightarrow> [] | Some s \<Rightarrow> filter (\<lambda>d. ad_name d = ad_name s) ds))"

lemma same_name_found: "find P ds = Some s \<Longrightarrow> filter (\<lambda>d. ad_name d = ad_name s) ds \<noteq> []"
  by (auto simp: find_Some_iff filter_empty_conv)

text \<open>The devices are tried in the order of their host interface, then of their index; an unknown one as it was named.\<close>

lemma resolve_input_devices_ranked:
  assumes "list_input_devices sys = Inr ds"
  shows "resolve_input_devices sys device =
    Inr (if candidates device ds = [] then [device] else device_indexes (sort_key device_rank (candidates device ds)))"
  using assms same_name_found
  by (auto simp: resolve_input_devices_def candidates_def preferred_duplicates_def preferred_devices_def Let_def
      split: device_ref.splits option.splits)

text \<open>The index \<open>0\<close> of a device that is not listed is reported as the default device.\<close>

lemma device_zero_shown_as_default:
  "list_input_devices sys = Inr [] \<Longrightarrow> device_summary sys (Device_index 0) = Inr ''default''"
  by (simp add: device_summary_def device_info_def)

section \<open>Lemmas about the queue\<close>

fun heard :: "audio_input_config \<Rightarrow> mic_event list \<Rightarrow> frame list" where
  "heard c [] = []"
| "heard c (Heard block _ # is) = (case to_mono c block of Inl _ \<Rightarrow> heard c is | Inr f \<Rightarrow> f # heard c is)"
| "heard c (Next _ # is) = heard c is"

fun yielded :: "frames_round list \<Rightarrow> frame list" where
  "yielded [] = []"
| "yielded (Yielded f # rs) = f # yielded rs"
| "yielded (Ended # rs) = yielded rs"
| "yielded (Timed_out # rs) = yielded rs"

text \<open>
  What a stretch of work does with \<open>cs\<close>, the frames cut meanwhile, and \<open>out\<close>, the frames handed out:
  the order is kept, and every frame is handed out, waiting or counted as dropped.
\<close>

definition accounts :: "frame list \<Rightarrow> frame list \<Rightarrow> 'r microphone \<Rightarrow> 'r microphone \<Rightarrow> bool" where
  "accounts cs out m m1 \<longleftrightarrow>
     subseq (out @ mi_queue m1) (mi_queue m @ cs)
     \<and> length (mi_queue m @ cs) + mi_dropped_frames m = length (out @ mi_queue m1) + mi_dropped_frames m1
     \<and> mi_maxsize m1 = mi_maxsize m \<and> mi_config m1 = mi_config m
     \<and> (0 < mi_maxsize m \<and> length (mi_queue m) \<le> mi_maxsize m \<longrightarrow> length (mi_queue m1) \<le> mi_maxsize m)"

lemma accounts_trans:
  assumes "accounts cs out m m1" "accounts cs1 out1 m1 m2"
  shows "accounts (cs @ cs1) (out @ out1) m m2"
proof -
  have "subseq (out @ (out1 @ mi_queue m2)) (out @ (mi_queue m1 @ cs1))"
    using assms(2) list_emb_append_mono[OF subseq_order.refl] by (metis accounts_def)
  moreover have "subseq ((out @ mi_queue m1) @ cs1) ((mi_queue m @ cs) @ cs1)"
    using assms(1) list_emb_append_mono[OF _ subseq_order.refl] by (metis accounts_def)
  ultimately have "subseq (out @ (out1 @ mi_queue m2)) ((mi_queue m @ cs) @ cs1)"
    by (metis append_assoc subseq_order.trans)
  then show ?thesis using assms by (auto simp: accounts_def)
qed

lemma accounts_put: "accounts [f] [] m (put_frame f m)"
  by (auto simp: accounts_def put_frame_def)

lemma accounts_puts: "accounts cs [] m (fold put_frame cs m)"
proof (induction cs arbitrary: m)
  case (Cons f cs)
  from accounts_trans[OF accounts_put Cons.IH] show ?case by simp
qed (simp add: accounts_def)

lemma processor_puts [simp]: "mi_processor (fold put_frame cs m) = mi_processor m"
  by (induction cs arbitrary: m) (simp_all add: put_frame_def)

lemma accounts_next: "frames_next stopped m = (r, m1) \<Longrightarrow> accounts [] (yielded [r]) m m1 \<and> mi_processor m1 = mi_processor m"
  by (auto simp: frames_next_def accounts_def split: if_splits list.splits)

lemma accept_result:
  assumes "0 < fp_chunk_samples p"
  obtains cs p1 where "fp_accept ratecv f p = Some (cs, p1)" "fp_chunk_samples p1 = fp_chunk_samples p"
proof -
  obtain g q where g: "fp_resample ratecv f p = (g, q)" by fastforce
  let ?xs = "fp_pending q @ apply_input_level (fp_gain p) (fp_ceiling p) g"
  obtain cs rest where "pop_chunks (fp_chunk_samples p) [] ?xs = Some (cs, rest)"
    using pop_chunks_result[OF assms, of "[]" ?xs] by auto
  then show ?thesis using that[of cs "q\<lparr> fp_pending := rest \<rparr>"] g resample_keeps[OF g] by (simp add: fp_accept_def)
qed

lemma callback_result:
  assumes "mi_processor m = Some p" "0 < fp_chunk_samples p"
  shows "\<exists>err m1 p1 cs. mic_callback ratecv block status m = Some (err, m1) \<and> mi_processor m1 = Some p1
    \<and> fp_accept_all ratecv (heard (mi_config m) [Heard block status]) p = Some (cs, p1)
    \<and> fp_chunk_samples p1 = fp_chunk_samples p \<and> accounts cs [] m m1"
proof -
  let ?m = "case status of None \<Rightarrow> m | Some s \<Rightarrow> m\<lparr> mi_last_status := Some s \<rparr>"
  have processor: "mi_processor ?m = Some p" using assms(1) by (simp split: option.splits)
  have puts: "accounts cs [] m (fold put_frame cs (?m\<lparr> mi_processor := q \<rparr>))" for q cs
    using accounts_puts[of cs "?m\<lparr> mi_processor := q \<rparr>"] by (cases status) (simp_all add: accounts_def)
  show ?thesis
  proof (cases "to_mono (mi_config m) block")
    case (Inl e)
    then show ?thesis using processor puts[of "[]" "Some p"] assms(1)
      by (auto simp: mic_callback_def accounts_def split: option.splits)
  next
    case (Inr f)
    obtain cs p1 where a: "fp_accept ratecv f p = Some (cs, p1)" "fp_chunk_samples p1 = fp_chunk_samples p"
      using accept_result[OF assms(2)] .
    have "mic_callback ratecv block status m = Some (None, fold put_frame cs (?m\<lparr> mi_processor := Some p1 \<rparr>))"
      using processor by (simp add: mic_callback_def Inr a)
    then show ?thesis using puts[of cs "Some p1"] a by (simp add: Inr)
  qed
qed

lemma heard_append: "heard c (is @ js) = heard c is @ heard c js"
  by (induction c "is" rule: heard.induct) (simp_all split: sum.splits)

lemma accept_all_append:
  "fp_accept_all ratecv fs p = Some (cs, q) \<Longrightarrow> fp_accept_all ratecv gs q = Some (ds, r)
    \<Longrightarrow> fp_accept_all ratecv (fs @ gs) p = Some (cs @ ds, r)"
  by (induction fs arbitrary: p cs) (auto split: option.splits prod.splits)

lemma yielded_Cons: "yielded (r # rs) = yielded [r] @ yielded rs"
  by (cases r) simp_all

lemma mic_run_result:
  assumes "mi_processor m = Some p" "0 < fp_chunk_samples p"
  shows "\<exists>rs m1 p1 cs. mic_run ratecv is m = Some (rs, m1) \<and> mi_processor m1 = Some p1
    \<and> fp_accept_all ratecv (heard (mi_config m) is) p = Some (cs, p1) \<and> accounts cs (yielded rs) m m1"
  using assms
proof (induction ratecv "is" m arbitrary: p rule: mic_run.induct)
  case (1 ratecv m)
  then show ?case by (simp add: accounts_def)
next
  case (2 ratecv block status "is" m)
  obtain err m1 p1 cs where c: "mic_callback ratecv block status m = Some (err, m1)" "mi_processor m1 = Some p1"
    "fp_accept_all ratecv (heard (mi_config m) [Heard block status]) p = Some (cs, p1)"
    "fp_chunk_samples p1 = fp_chunk_samples p" "accounts cs [] m m1"
    using callback_result[OF 2(2,3)] by blast
  obtain rs m2 p2 ds where d: "mic_run ratecv is m1 = Some (rs, m2)" "mi_processor m2 = Some p2"
    "fp_accept_all ratecv (heard (mi_config m1) is) p1 = Some (ds, p2)" "accounts ds (yielded rs) m1 m2"
    using 2(1)[OF c(1) refl c(2)] 2(3) c(4) by auto
  have "mi_config m1 = mi_config m" using c(5) by (simp add: accounts_def)
  then show ?case
    using c(1) d(1,2) accounts_trans[OF c(5) d(4)] accept_all_append[OF c(3) d(3)[unfolded \<open>mi_config m1 = mi_config m\<close>]]
      heard_append[of "mi_config m" "[Heard block status]" "is"] by simp
next
  case (3 ratecv stopped "is" m)
  obtain r m1 where n: "frames_next stopped m = (r, m1)" by fastforce
  note a = accounts_next[OF n]
  obtain rs m2 p2 ds where d: "mic_run ratecv is m1 = Some (rs, m2)" "mi_processor m2 = Some p2"
    "fp_accept_all ratecv (heard (mi_config m1) is) p = Some (ds, p2)" "accounts ds (yielded rs) m1 m2"
    using 3(1)[OF n[symmetric]] a 3(2,3) by auto
  have "mi_config m1 = mi_config m" using a by (simp add: accounts_def)
  then show ?case
    using d accounts_trans[OF conjunct1[OF a] d(4)] by (simp add: n yielded_Cons[of r rs])
qed

section \<open>Lemmas about opening\<close>

fun created :: "sd_call list \<Rightarrow> nat list" where
  "created [] = []"
| "created (Create _ _ _ _ (Some n) # cs) = n # created cs"
| "created (_ # cs) = created cs"

fun closed_streams :: "sd_call list \<Rightarrow> nat list" where
  "closed_streams [] = []"
| "closed_streams (Close n # cs) = n # closed_streams cs"
| "closed_streams (_ # cs) = closed_streams cs"

definition open_streams :: "sd_call list \<Rightarrow> nat list" where
  "open_streams calls = filter (\<lambda>n. n \<notin> set (closed_streams calls)) (created calls)"

definition creations :: "device_ref \<Rightarrow> sd_call list \<Rightarrow> nat" where
  "creations d calls = length (filter (\<lambda>c. case c of Create d1 _ _ _ _ \<Rightarrow> d1 = d | _ \<Rightarrow> False) calls)"

lemma created_append [simp]: "created (xs @ ys) = created xs @ created ys"
  by (induction xs rule: created.induct) simp_all

lemma closed_append [simp]: "closed_streams (xs @ ys) = closed_streams xs @ closed_streams ys"
  by (induction xs rule: closed_streams.induct) simp_all

lemma next_stream_created: "next_stream calls = length (created calls)"
  by (induction calls rule: created.induct) (simp_all add: next_stream_def)

lemma creations_append [simp]: "creations d (xs @ ys) = creations d xs + creations d ys"
  by (simp add: creations_def)

text \<open>Every stream created so far is closed, and the streams are numbered in order.\<close>

definition all_closed :: "sd_call list \<Rightarrow> bool" where
  "all_closed calls \<longleftrightarrow> (\<exists>n. created calls = [0 ..< n] \<and> set (closed_streams calls) = {..<n})"

lemma quietE:
  assumes "all_closed calls"
  obtains n where "created calls = [0 ..< n]" "set (closed_streams calls) = {..<n}" "next_stream calls = n"
  using assms that unfolding all_closed_def next_stream_created by (metis diff_zero length_upt)

lemma quiet_Nil [simp]: "all_closed []"
  unfolding all_closed_def by (rule exI[of _ 0]) simp

lemma quiet_no_streams:
  assumes "all_closed calls"
  shows "open_streams calls = []"
  using assms by (rule quietE) (simp add: open_streams_def)

lemma quiet_failed: "all_closed calls \<Longrightarrow> all_closed (calls @ [Create d r b c None])"
  by (simp add: all_closed_def)

lemma quiet_sleep: "all_closed calls \<Longrightarrow> all_closed (calls @ [Sleep x])"
  by (simp add: all_closed_def)

lemma quiet_closed:
  assumes "all_closed calls"
  shows "all_closed (calls @ [Create d r b c (Some (next_stream calls)), Start (next_stream calls) ok, Close (next_stream calls)])"
proof -
  obtain n where n: "created calls = [0 ..< n]" "set (closed_streams calls) = {..<n}" "next_stream calls = n"
    using assms by (rule quietE)
  show ?thesis unfolding all_closed_def by (rule exI[of _ "Suc n"]) (simp add: n lessThan_Suc)
qed

lemma quiet_open:
  assumes "all_closed calls"
  shows "open_streams (calls @ [Create d r b c (Some (next_stream calls)), Start (next_stream calls) ok]) = [next_stream calls]"
  using assms by (rule quietE) (simp add: open_streams_def)

text \<open>\<open>stream.start()\<close> raises \<open>PortAudioError\<close>, an \<open>Exception\<close>.\<close>

definition starts_raise_exceptions :: "sd_driver \<Rightarrow> bool" where
  "starts_raise_exceptions drv \<longleftrightarrow> (\<forall>calls n e. dr_start drv calls n = Some e \<longrightarrow> is_exception e)"

definition opened_on :: "device_ref \<Rightarrow> nat \<Rightarrow> sd_call list \<Rightarrow> bool" where
  "opened_on d n calls \<longleftrightarrow>
     (\<exists>before rate block channels. calls = before @ [Create d rate block channels (Some n), Start n True]
        \<and> n = next_stream before \<and> all_closed before)"

lemma opened_streams: "opened_on d n calls \<Longrightarrow> open_streams calls = [n]"
  by (auto simp: opened_on_def quiet_open)

lemma open_attempts_result:
  assumes "open_attempts drv c d rate block channels attempt left calls = (r, calls1)"
    and "all_closed calls" "starts_raise_exceptions drv"
  shows "prefix calls calls1 \<and>
    (case r of
       Inl e \<Rightarrow> all_closed calls1 \<and> (is_exception e \<longrightarrow> creations d calls1 = creations d calls + left)
     | Inr n \<Rightarrow> opened_on d n calls1)"
  using assms
proof (induction left arbitrary: attempt calls)
  case (Suc left)
  let ?n = "next_stream calls"
  let ?retry = "\<lambda>e calls. if left = 0 then (Inl e, calls)
     else open_attempts drv c d rate block channels (Suc attempt) left
            (calls @ [Sleep (ai_start_retry_delay_seconds c * of_nat (Suc attempt))])"
  have retry: "prefix calls calls1 \<and> (case r of
       Inl e \<Rightarrow> all_closed calls1 \<and> (is_exception e \<longrightarrow> creations d calls1 = creations d calls + Suc left)
     | Inr n \<Rightarrow> opened_on d n calls1)"
    if "?retry e (calls @ more_calls) = (r, calls1)" "all_closed (calls @ more_calls)" "creations d more_calls = 1" for e more_calls
  proof (cases "left = 0")
    case True
    then show ?thesis using that by auto
  next
    case False
    let ?calls = "(calls @ more_calls) @ [Sleep (ai_start_retry_delay_seconds c * of_nat (Suc attempt))]"
    have "prefix ?calls calls1 \<and> (case r of
         Inl e \<Rightarrow> all_closed calls1 \<and> (is_exception e \<longrightarrow> creations d calls1 = creations d ?calls + left)
       | Inr n \<Rightarrow> opened_on d n calls1)"
      using Suc.IH[of "Suc attempt" ?calls] that(1) False quiet_sleep[OF that(2)] Suc.prems(3) by simp
    then show ?thesis
      using that(3) by (auto simp: creations_def elim: prefix_order.trans[rotated] split: sum.splits)
  qed
  show ?case
  proof (cases "dr_create drv calls d")
    case (Some e)
    let ?new = "[Create d rate block channels None]"
    have "?retry e (calls @ ?new) = (r, calls1) \<or> \<not> is_exception e \<and> r = Inl e \<and> calls1 = calls @ ?new"
      using Suc.prems(1) Some by (simp add: Let_def split: if_splits)
    then show ?thesis
      using retry[of e ?new] quiet_failed[OF Suc.prems(2), of d rate block channels] by (auto simp: creations_def)
  next
    case None
    let ?c1 = "calls @ [Create d rate block channels (Some ?n)]"
    show ?thesis
    proof (cases "dr_start drv ?c1 ?n")
      case starts: None
      then show ?thesis using Suc.prems None by (auto simp: opened_on_def Let_def)
    next
      case (Some e)
      let ?new = "[Create d rate block channels (Some ?n), Start ?n False, Close ?n]"
      have "is_exception e" using Some Suc.prems(3) by (auto simp: starts_raise_exceptions_def)
      then have "?retry e (calls @ ?new) = (r, calls1) \<or> (\<exists>e1. \<not> is_exception e1 \<and> r = Inl e1 \<and> calls1 = calls @ ?new)"
        using Suc.prems(1) None Some by (auto simp: Let_def split: option.splits if_splits)
      then show ?thesis
        using retry[of e ?new] quiet_closed[OF Suc.prems(2), of d rate block channels False] by (auto simp: creations_def)
    qed
  qed
qed auto

text \<open>The parts of a microphone that opening a stream leaves alone.\<close>

definition unopened :: "'r microphone \<Rightarrow> 'r microphone \<Rightarrow> bool" where
  "unopened m m1 \<longleftrightarrow> mi_config m1 = mi_config m \<and> mi_maxsize m1 = mi_maxsize m \<and> mi_queue m1 = mi_queue m
     \<and> mi_dropped_frames m1 = mi_dropped_frames m \<and> prefix (mi_calls m) (mi_calls m1)"

definition unreadable :: "sd_system \<Rightarrow> device_ref \<Rightarrow> bool" where
  "unreadable sys d \<longleftrightarrow> (\<exists>e. sys_query sys d = Inl e)"

definition mic_processor :: "audio_input_config \<Rightarrow> 'r \<Rightarrow> int \<Rightarrow> 'r frame_processor" where
  "mic_processor c r0 rate =
     frame_processor_init rate (ai_sample_rate c) (mic_chunk_samples c) (ai_input_gain c) (ai_limiter_ceiling c) r0"

lemma map_sum_Inl: "map_sum id f x = Inl e \<longleftrightarrow> x = Inl e"
  by (cases x) simp_all

lemma open_device_result:
  assumes "open_device sys drv r0 d m = (r, m1)" "all_closed (mi_calls m)" "starts_raise_exceptions drv"
  shows "unopened m m1 \<and>
    (case r of
       Some e \<Rightarrow> mi_stream m1 = mi_stream m \<and> all_closed (mi_calls m1)
         \<and> (is_exception e \<longrightarrow> unreadable sys d \<or> creations d (mi_calls m1) = creations d (mi_calls m) + start_attempts (mi_config m))
     | None \<Rightarrow> mi_resolved_device m1 = d \<and> mi_processor m1 = Some (mic_processor (mi_config m) r0 (mi_input_sample_rate m1))
         \<and> (\<exists>n. mi_stream m1 = Some n \<and> opened_on d n (mi_calls m1)))"
proof -
  let ?c = "mi_config m"
  consider (unread) e where "r = Some e" "unreadable sys d" "mi_stream m1 = mi_stream m" "mi_calls m1 = mi_calls m" "unopened m m1"
    | (tried) rate block channels x calls where
        "open_started_stream drv ?c d rate block channels (mi_calls m) = (x, calls)"
        "r = (case x of Inl e \<Rightarrow> Some e | Inr _ \<Rightarrow> None)"
        "m1 = m\<lparr> mi_resolved_device := d, mi_input_sample_rate := rate, mi_input_channels := channels,
                 mi_processor := Some (mic_processor ?c r0 rate),
                 mi_stream := (case x of Inl _ \<Rightarrow> mi_stream m | Inr n \<Rightarrow> Some n), mi_calls := calls \<rparr>"
    using assms(1)
    by (auto simp: open_device_def Let_def unreadable_def unopened_def device_default_sample_rate_def device_input_channels_def
        map_sum_Inl mic_processor_def split: option.splits sum.splits if_splits prod.splits)
  then show ?thesis
  proof cases
    case unread
    then show ?thesis using assms(2) by simp
  next
    case tried
    note open_attempts_result[OF tried(1)[unfolded open_started_stream_def] assms(2,3)]
    then show ?thesis by (cases x) (auto simp: tried(2,3) unopened_def)
  qed
qed

lemma unopened_trans: "unopened m m1 \<Longrightarrow> unopened m1 m2 \<Longrightarrow> unopened m m2"
  by (auto simp: unopened_def elim: prefix_order.trans)

lemma creations_mono: "prefix xs ys \<Longrightarrow> creations d xs \<le> creations d ys"
  by (auto simp: prefix_def)

definition entered :: "sd_system \<Rightarrow> 'r \<Rightarrow> device_ref list \<Rightarrow> 'r microphone \<Rightarrow> 'r microphone \<Rightarrow> bool" where
  "entered sys r0 ds m m1 \<longleftrightarrow>
     (\<exists>pre d post n. ds = pre @ d # post \<and> mi_resolved_device m1 = d
        \<and> mi_processor m1 = Some (mic_processor (mi_config m) r0 (mi_input_sample_rate m1))
        \<and> mi_stream m1 = Some n \<and> opened_on d n (mi_calls m1)
        \<and> (\<forall>p \<in> set pre. unreadable sys p \<or> start_attempts (mi_config m) \<le> creations p (mi_calls m1)))"

lemma try_devices_result:
  assumes "try_devices sys drv r0 ds attempted last_error m = (r, m1)"
    and "all_closed (mi_calls m)" "mi_stream m = None" "starts_raise_exceptions drv"
  shows "unopened m m1 \<and>
    (case r of Some e \<Rightarrow> mi_stream m1 = None \<and> all_closed (mi_calls m1) | None \<Rightarrow> entered sys r0 ds m m1)"
  using assms(1-3)
proof (induction ds arbitrary: attempted last_error m)
  case Nil
  then show ?case by (auto simp: unopened_def)
next
  case (Cons d ds)
  obtain x m2 where x: "open_device sys drv r0 d m = (x, m2)" by fastforce
  note o = open_device_result[OF x Cons.prems(2) assms(4)]
  consider "r \<noteq> None" "m1 = m" | "x = None" "r = None" "m1 = m2" | e where "x = Some e" "r = Some e" "m1 = m2"
    | e summary where "x = Some e" "is_exception e" "try_devices sys drv r0 ds (attempted @ [summary]) (Some e) m2 = (r, m1)"
    using Cons.prems(1,3) x o by (auto simp: close_stream_def split: sum.splits option.splits if_splits)
  then show ?case
  proof cases
    case 1
    then show ?thesis using Cons.prems by (auto simp: unopened_def)
  next
    case 2
    then have "entered sys r0 ([] @ d # ds) m m1" using o unfolding entered_def by fastforce
    then show ?thesis using o 2 by simp
  next
    case 3
    then show ?thesis using o Cons.prems(3) by simp
  next
    case 4
    have m2: "unopened m m2" "mi_stream m2 = None" "all_closed (mi_calls m2)"
      "unreadable sys d \<or> start_attempts (mi_config m) \<le> creations d (mi_calls m2)"
      using o 4(1,2) Cons.prems(3) by auto
    note ih = Cons.IH[OF 4(3) m2(3,2)]
    have "entered sys r0 (d # ds) m m1" if "entered sys r0 ds m2 m1" "unopened m2 m1"
    proof -
      have "start_attempts (mi_config m) \<le> creations d (mi_calls m1) \<or> unreadable sys d"
        using m2(4) creations_mono[of "mi_calls m2" "mi_calls m1" d] that(2) by (auto simp: unopened_def)
      moreover have "mi_config m2 = mi_config m" using m2(1) by (simp add: unopened_def)
      ultimately show ?thesis
        using that(1) unfolding entered_def by (metis append_Cons set_ConsD)
    qed
    then show ?thesis using ih unopened_trans[OF m2(1)] m2(1) by (auto split: option.splits)
  qed
qed

lemma entered_microphone:
  assumes "microphone_init c = Inr m0" "starts_raise_exceptions drv" "mic_enter sys drv r0 m0 = (None, m)"
  shows "mi_processor m = Some (mic_processor c r0 (mi_input_sample_rate m))" "mi_queue m = []" "mi_dropped_frames m = 0"
    "mi_config m = c" "0 < mi_maxsize m"
proof -
  have m0: "mi_config m0 = c" "mi_calls m0 = []" "mi_stream m0 = None" "mi_queue m0 = []" "mi_dropped_frames m0 = 0" "0 < mi_maxsize m0"
    using assms(1) by (auto simp: microphone_init_def queue_chunks_def split: if_splits)
  obtain ds where "try_devices sys drv r0 ds [] None m0 = (None, m)"
    using assms(3) by (auto simp: mic_enter_def split: sum.splits)
  from try_devices_result[OF this _ m0(3) assms(2), simplified m0 quiet_Nil]
  show "mi_processor m = Some (mic_processor c r0 (mi_input_sample_rate m))" "mi_queue m = []" "mi_dropped_frames m = 0"
    "mi_config m = c" "0 < mi_maxsize m"
    using m0 by (auto simp: entered_def unopened_def)
qed

section \<open>Properties\<close>

text \<open>
  C16. Entering the microphone leaks no stream. If it succeeds, exactly one of the streams it
  created is open, started last and on the device it reports, and every device it preferred to
  that one has answered no query or failed all its start attempts; if it fails, every stream it
  created has been closed.
\<close>

theorem microphone_opens_one_stream:
  assumes "starts_raise_exceptions drv" "microphone_init c = Inr m0" "mic_enter sys drv r0 m0 = (r, m1)"
  shows "case r of
      Some e \<Rightarrow> mi_stream m1 = None \<and> open_streams (mi_calls m1) = []
    | None \<Rightarrow> \<exists>pre d post n. resolve_input_devices sys (ai_device c) = Inr (pre @ d # post)
        \<and> mi_resolved_device m1 = d \<and> mi_stream m1 = Some n \<and> open_streams (mi_calls m1) = [n]
        \<and> suffix [Start n True] (mi_calls m1)
        \<and> (\<forall>p \<in> set pre. unreadable sys p \<or> start_attempts c \<le> creations p (mi_calls m1))"
proof -
  have m0: "mi_config m0 = c" "mi_calls m0 = []" "mi_stream m0 = None"
    using assms(2) by (auto simp: microphone_init_def queue_chunks_def split: if_splits)
  show ?thesis
  proof (cases "resolve_input_devices sys (ai_device c)")
    case (Inl e)
    then show ?thesis using assms(3) m0 by (auto simp: mic_enter_def quiet_no_streams)
  next
    case (Inr ds)
    then have "try_devices sys drv r0 ds [] None m0 = (r, m1)" using assms(3) m0 by (simp add: mic_enter_def)
    note t = try_devices_result[OF this _ m0(3) assms(1), simplified m0 quiet_Nil]
    show ?thesis
    proof (cases r)
      case None
      then obtain pre d post n where e: "ds = pre @ d # post" "mi_resolved_device m1 = d" "mi_stream m1 = Some n"
        "opened_on d n (mi_calls m1)" "\<forall>p \<in> set pre. unreadable sys p \<or> start_attempts c \<le> creations p (mi_calls m1)"
        using t m0(1) by (auto simp: entered_def)
      have "suffix [Start n True] (mi_calls m1)" using e(4) by (auto simp: opened_on_def suffix_def)
      then show ?thesis using e opened_streams[OF e(4)] None Inr by auto
    qed (use t quiet_no_streams in auto)
  qed
qed

text \<open>Two devices of one name, the preferred one unusable.\<close>

definition ex_sd_device :: "int \<Rightarrow> sd_device" where
  "ex_sd_device api = \<lparr> sd_name = Some ''Mic'', sd_hostapi = Some api, sd_max_input_channels = Some 1, sd_default_samplerate = Some 1000 \<rparr>"

definition ex_system :: sd_system where
  "ex_system = \<lparr> sys_devices = [ex_sd_device 0, ex_sd_device 1], sys_hostapis = [Some ''MME'', Some ''ALSA''],
     sys_default_input = 0, sys_query = (\<lambda>_. Inr (ex_sd_device 0)) \<rparr>"

definition ex_driver :: sd_driver where
  "ex_driver = \<lparr> dr_create = (\<lambda>_ d. if d = Device_index 1 then Some (PortAudioError ''busy'') else None),
     dr_start = (\<lambda>_ _. None), dr_stop = (\<lambda>_ _. None), dr_close = (\<lambda>_ _. None) \<rparr>"

definition ex_input_config :: audio_input_config where
  "ex_input_config = \<lparr> ai_sample_rate = 1000, ai_input_sample_rate = None, ai_input_gain = 1, ai_limiter_ceiling = 1,
     ai_chunk_ms = 2, ai_channels = 0, ai_channel = 0, ai_device = Default_device, ai_queue_seconds = 0,
     ai_start_retries = 0, ai_start_retry_delay_seconds = 0 \<rparr>"

definition ex_microphone :: "unit microphone" where
  "ex_microphone = \<lparr> mi_config = ex_input_config, mi_maxsize = 2, mi_queue = [], mi_stop_event = False, mi_stream = None,
       mi_dropped_frames = 0, mi_last_status = None, mi_resolved_device = Default_device,
       mi_input_sample_rate = 1000, mi_input_channels = 1, mi_processor = None, mi_calls = [] \<rparr>"

definition ex_sd_calls :: "sd_call list" where
  "ex_sd_calls = [Create (Device_index 1) 1000 2 1 None, Create (Device_index 0) 1000 2 1 (Some 0), Start 0 True]"

definition ex_opened :: "unit microphone" where
  "ex_opened = ex_microphone\<lparr> mi_stream := Some 0, mi_resolved_device := Device_index 0,
     mi_processor := Some (mic_processor ex_input_config () 1000), mi_calls := ex_sd_calls \<rparr>"

lemma ex_init: "microphone_init ex_input_config = Inr ex_microphone"
  by (simp add: microphone_init_def queue_chunks_def ex_input_config_def ex_microphone_def py_int_def)

lemma ex_listed: "list_input_devices ex_system = Inr
  [\<lparr> ad_index = 0, ad_name = ''Mic'', ad_host_api_name = ''MME'', ad_max_input_channels = 1, ad_default_sample_rate = 1000, ad_is_default_input = True \<rparr>,
   \<lparr> ad_index = 1, ad_name = ''Mic'', ad_host_api_name = ''ALSA'', ad_max_input_channels = 1, ad_default_sample_rate = 1000, ad_is_default_input = False \<rparr>]"
  by (simp add: list_input_devices_def ex_system_def ex_sd_device_def get_or_def py_index_def)

lemma ex_resolved: "resolve_input_devices ex_system Default_device = Inr [Device_index 1, Device_index 0]"
  by (simp add: resolve_input_devices_def ex_listed preferred_duplicates_def preferred_devices_def device_indexes_def
      device_rank_def PREFERRED_HOST_APIS_def get_or_def)

lemma ex_query: "sys_query ex_system d = Inr (ex_sd_device 0)"
  by (simp add: ex_system_def)

lemma ex_enter: "mic_enter ex_system ex_driver () ex_microphone = (None, ex_opened)"
  by (simp add: mic_enter_def ex_microphone_def ex_input_config_def ex_resolved device_summary_def device_info_def ex_listed
      open_device_def device_default_sample_rate_def device_input_channels_def ex_query ex_sd_device_def get_or_def py_round_def
      open_started_stream_def start_attempts_def ex_driver_def py_round_div_def is_exception_def close_stream_def next_stream_def
      ex_opened_def ex_sd_calls_def mic_processor_def Let_def)

theorem microphone_opens_one_stream_witness:
  "open_streams ex_sd_calls = [0] \<and> creations (Device_index 1) ex_sd_calls = 1 \<and> start_attempts ex_input_config = 1
    \<and> (\<exists>pre post. [Device_index 1, Device_index 0] = pre @ Device_index 0 # post
       \<and> (\<forall>p \<in> set pre. start_attempts ex_input_config \<le> creations p ex_sd_calls))"
proof -
  have "starts_raise_exceptions ex_driver" by (simp add: starts_raise_exceptions_def ex_driver_def)
  note opened = microphone_opens_one_stream[OF this ex_init ex_enter]
  have "\<not> unreadable ex_system p" for p by (simp add: unreadable_def ex_query)
  moreover have "ai_device ex_input_config = Default_device" "start_attempts ex_input_config = 1"
    by (simp_all add: ex_input_config_def start_attempts_def)
  moreover have "creations (Device_index 1) ex_sd_calls = 1" by (simp add: creations_def ex_sd_calls_def)
  ultimately show ?thesis using opened ex_resolved by (auto simp: ex_opened_def)
qed

text \<open>
  C11. From an opened microphone, whatever blocks the device delivers between whatever rounds of
  the capture loop, the callback always returns and the loop receives frames of exactly
  \<open>chunk_samples\<close> samples within the limiter's ceiling. They come in the order they were cut from the
  sound heard; the queue never exceeds its bound, every frame is handed out, waiting or counted as
  dropped, and as long as none is dropped what was handed out and what waits is all that was cut.
\<close>

theorem microphone_delivers_frames:
  assumes "microphone_init c = Inr m0" "starts_raise_exceptions drv" "mic_enter sys drv r0 m0 = (None, m)"
  shows "\<exists>rounds m1 cut p1. mic_run ratecv is m = Some (rounds, m1)
    \<and> fp_accept_all ratecv (heard c is) (mic_processor c r0 (mi_input_sample_rate m)) = Some (cut, p1)
    \<and> (\<forall>f \<in> set (yielded rounds @ mi_queue m1). length f = mic_chunk_samples c \<and> (\<forall>x \<in> set f. \<bar>x\<bar> \<le> clamp_ceiling (ai_limiter_ceiling c)))
    \<and> subseq (yielded rounds @ mi_queue m1) cut
    \<and> length (mi_queue m1) \<le> mi_maxsize m
    \<and> length cut = length (yielded rounds) + length (mi_queue m1) + mi_dropped_frames m1
    \<and> (mi_dropped_frames m1 = 0 \<longrightarrow> yielded rounds @ mi_queue m1 = cut)"
proof -
  let ?p = "mic_processor c r0 (mi_input_sample_rate m)"
  have p: "fp_chunk_samples ?p = mic_chunk_samples c" "fp_pending ?p = []" "fp_ceiling ?p = ai_limiter_ceiling c" "0 < mic_chunk_samples c"
    by (simp_all add: mic_processor_def frame_processor_init_def mic_chunk_samples_def)
  have m: "mi_processor m = Some ?p" "mi_queue m = []" "mi_dropped_frames m = 0" "mi_config m = c" "0 < mi_maxsize m"
    using entered_microphone[OF assms] by auto
  obtain rs m1 p1 cs where r: "mic_run ratecv is m = Some (rs, m1)" "fp_accept_all ratecv (heard c is) ?p = Some (cs, p1)"
    "accounts cs (yielded rs) m m1"
    using mic_run_result[OF m(1), of ratecv "is"] p m(4) by auto
  have cut: "concat cs @ fp_pending p1 = levelled ratecv (heard c is) ?p" "\<forall>f \<in> set cs. length f = mic_chunk_samples c"
    using accept_all_result[of ?p ratecv "heard c is"] p r(2) by auto
  have bound: "\<bar>x\<bar> \<le> clamp_ceiling (ai_limiter_ceiling c)" if "f \<in> set cs" "x \<in> set f" for f x
  proof -
    have "x \<in> set (concat cs @ fp_pending p1)" using that by auto
    then show ?thesis unfolding cut(1) using levelled_bound[of x ratecv "heard c is" ?p] p(3) by simp
  qed
  have acc: "subseq (yielded rs @ mi_queue m1) cs" "length cs = length (yielded rs) + length (mi_queue m1) + mi_dropped_frames m1"
    "length (mi_queue m1) \<le> mi_maxsize m"
    using r(3) m by (auto simp: accounts_def)
  have "f \<in> set cs" if "f \<in> set (yielded rs @ mi_queue m1)" for f
    using list_emb_set[OF acc(1) that] by blast
  moreover have "yielded rs @ mi_queue m1 = cs" if "mi_dropped_frames m1 = 0"
    using subseq_same_length[OF acc(1)] acc(2) that by simp
  ultimately show ?thesis using r(1,2) acc bound cut(2)
    by (intro exI[of _ rs] exI[of _ m1] exI[of _ cs] exI[of _ p1]) auto
qed

theorem microphone_delivers_frames_witness:
  "\<exists>rounds m1. mic_run (\<lambda>_ _ xs r. (xs, r)) [Heard (Rows 1 [[1 / 4], [1 / 2], [0]]) None, Next False] ex_opened = Some (rounds, m1)
    \<and> (\<forall>f \<in> set (yielded rounds @ mi_queue m1). length f = 2 \<and> (\<forall>x \<in> set f. \<bar>x\<bar> \<le> 1)) \<and> length (mi_queue m1) \<le> 2"
proof -
  have "starts_raise_exceptions ex_driver" by (simp add: starts_raise_exceptions_def ex_driver_def)
  moreover have "mic_chunk_samples ex_input_config = 2" "clamp_ceiling (ai_limiter_ceiling ex_input_config) = 1" "mi_maxsize ex_opened = 2"
    by (simp_all add: mic_chunk_samples_def ex_input_config_def py_int_div_def clamp_ceiling_def ex_opened_def ex_microphone_def)
  ultimately show ?thesis
    using microphone_delivers_frames[OF ex_init _ ex_enter, of "\<lambda>_ _ xs r. (xs, r)"
        "[Heard (Rows 1 [[1 / 4], [1 / 2], [0]]) None, Next False]"] by auto
qed

end
