(* ===== verification/WsProtocol.thy ===== *)
theory WsProtocol
  imports Text "HOL-Library.AList" "HOL-Library.Word"
begin

unbundle bit_operations_syntax

text \<open>
  The protocol of the workspace daemon, \<open>workspace/protocol.py\<close>, the framing of
  \<open>workspace/transport.py\<close> and the handshake check of \<open>workspace/client_operations.py\<close>. Bytes
  are 8-bit words. The JSON encoder and decoder are arguments; a connection is the sequence
  of what its reads return.
\<close>

section \<open>Operations\<close>

datatype workspace_operation =
    HELLO | HEALTH | CREATE_WORKSPACE | APPLY_POLICY | MOUNT_WORKSPACE | PREFETCH
  | GET_CHANGE_JOURNAL | GET_WORKSPACE_STATUS | LIST_WORKSPACES | READ_FILE_SUMMARY
  | COMMIT_CHECKPOINT | LIST_PENDING_CHECKPOINT_PUBLICATIONS | COMPLETE_CHECKPOINT_PUBLICATION
  | UNMOUNT_WORKSPACE | CLOSE_WORKSPACE | DESTROY_EPHEMERAL_WORKSPACE | SHUTDOWN

fun operation_value :: "workspace_operation \<Rightarrow> string" where
  "operation_value HELLO = ''hello''"
| "operation_value HEALTH = ''health''"
| "operation_value CREATE_WORKSPACE = ''create_workspace''"
| "operation_value APPLY_POLICY = ''apply_policy''"
| "operation_value MOUNT_WORKSPACE = ''mount_workspace''"
| "operation_value PREFETCH = ''prefetch''"
| "operation_value GET_CHANGE_JOURNAL = ''get_change_journal''"
| "operation_value GET_WORKSPACE_STATUS = ''get_workspace_status''"
| "operation_value LIST_WORKSPACES = ''list_workspaces''"
| "operation_value READ_FILE_SUMMARY = ''read_file_summary''"
| "operation_value COMMIT_CHECKPOINT = ''commit_checkpoint''"
| "operation_value LIST_PENDING_CHECKPOINT_PUBLICATIONS = ''list_pending_checkpoint_publications''"
| "operation_value COMPLETE_CHECKPOINT_PUBLICATION = ''complete_checkpoint_publication''"
| "operation_value UNMOUNT_WORKSPACE = ''unmount_workspace''"
| "operation_value CLOSE_WORKSPACE = ''close_workspace''"
| "operation_value DESTROY_EPHEMERAL_WORKSPACE = ''destroy_ephemeral_workspace''"
| "operation_value SHUTDOWN = ''shutdown''"

definition all_operations :: "workspace_operation list" where
  "all_operations =
     [HELLO, HEALTH, CREATE_WORKSPACE, APPLY_POLICY, MOUNT_WORKSPACE, PREFETCH,
      GET_CHANGE_JOURNAL, GET_WORKSPACE_STATUS, LIST_WORKSPACES, READ_FILE_SUMMARY,
      COMMIT_CHECKPOINT, LIST_PENDING_CHECKPOINT_PUBLICATIONS, COMPLETE_CHECKPOINT_PUBLICATION,
      UNMOUNT_WORKSPACE, CLOSE_WORKSPACE, DESTROY_EPHEMERAL_WORKSPACE, SHUTDOWN]"

datatype idempotency_scope = Scope_none | Durable | Process_local

record operation_metadata =
  om_mutates :: bool
  om_scope :: idempotency_scope

text \<open>\<open>OperationMetadata.__post_init__\<close>.\<close>

definition make_metadata :: "bool \<Rightarrow> idempotency_scope \<Rightarrow> py_error + operation_metadata" where
  "make_metadata mutates scope =
     (if mutates \<noteq> (scope \<noteq> Scope_none)
      then Inl (ValueError ''mutation flag and idempotency scope must agree'')
      else Inr \<lparr> om_mutates = mutates, om_scope = scope \<rparr>)"

definition read_only :: operation_metadata where
  "read_only = \<lparr> om_mutates = False, om_scope = Scope_none \<rparr>"

definition durable_mutation :: operation_metadata where
  "durable_mutation = \<lparr> om_mutates = True, om_scope = Durable \<rparr>"

definition process_local_mutation :: operation_metadata where
  "process_local_mutation = \<lparr> om_mutates = True, om_scope = Process_local \<rparr>"

fun metadata_of :: "workspace_operation \<Rightarrow> operation_metadata" where
  "metadata_of HELLO = read_only"
| "metadata_of HEALTH = read_only"
| "metadata_of CREATE_WORKSPACE = durable_mutation"
| "metadata_of APPLY_POLICY = durable_mutation"
| "metadata_of MOUNT_WORKSPACE = process_local_mutation"
| "metadata_of PREFETCH = process_local_mutation"
| "metadata_of GET_CHANGE_JOURNAL = read_only"
| "metadata_of GET_WORKSPACE_STATUS = read_only"
| "metadata_of LIST_WORKSPACES = read_only"
| "metadata_of READ_FILE_SUMMARY = read_only"
| "metadata_of COMMIT_CHECKPOINT = durable_mutation"
| "metadata_of LIST_PENDING_CHECKPOINT_PUBLICATIONS = read_only"
| "metadata_of COMPLETE_CHECKPOINT_PUBLICATION = durable_mutation"
| "metadata_of UNMOUNT_WORKSPACE = process_local_mutation"
| "metadata_of CLOSE_WORKSPACE = durable_mutation"
| "metadata_of DESTROY_EPHEMERAL_WORKSPACE = durable_mutation"
| "metadata_of SHUTDOWN = process_local_mutation"

definition operation_of_string :: "string \<Rightarrow> workspace_operation option" where
  "operation_of_string s = find (\<lambda>oper. operation_value oper = s) all_operations"

definition operation_metadata_lookup :: "string \<Rightarrow> py_error + operation_metadata" where
  "operation_metadata_lookup s =
     (case operation_of_string s of
        None \<Rightarrow> Inl (ValueError (''unsupported workspace operation: '' @ s))
      | Some oper \<Rightarrow> Inr (metadata_of oper))"

section \<open>Payloads and responses\<close>

datatype json =
    JNull | JBool bool | JInt int | JStr string | JList "json list" | JObj "(string \<times> json) list"

definition request_payload ::
  "workspace_operation \<Rightarrow> string \<Rightarrow> string option \<Rightarrow> (string \<times> json) list \<Rightarrow> (string \<times> json) list" where
  "request_payload oper request_id idempotency_key arguments =
     (let payload = foldl (\<lambda>d (k, v). AList.update k v d)
            [(''request_id'', JStr request_id), (''operation'', JStr (operation_value oper))] arguments
      in case idempotency_key of
           None \<Rightarrow> payload
         | Some key \<Rightarrow> AList.update ''idempotency_key'' (JStr key) payload)"

record protocol_error =
  pe_code :: string
  pe_operation :: string
  pe_workspace_id :: "string option"
  pe_message :: string

record workspace_response =
  wr_request_id :: string
  wr_ok :: bool
  wr_result :: json
  wr_error :: "protocol_error option"

text \<open>The validator of \<open>WorkspaceResponse\<close>.\<close>

definition validate_outcome :: "workspace_response \<Rightarrow> bool" where
  "validate_outcome r \<longleftrightarrow> \<not> (wr_ok r \<and> wr_error r \<noteq> None) \<and> \<not> (\<not> wr_ok r \<and> wr_error r = None)"

section \<open>Framing\<close>

type_synonym byte = "8 word"

definition MAX_FRAME_BYTES :: nat where
  "MAX_FRAME_BYTES = 16 * 1024 * 1024"

text \<open>\<open>struct.pack("<I", n)\<close> and \<open>struct.unpack("<I", bytes)\<close>.\<close>

definition pack_u32 :: "nat \<Rightarrow> byte list" where
  "pack_u32 n = map (\<lambda>k. word_of_nat (n div 256 ^ k)) [0, 1, 2, 3]"

definition unpack_u32 :: "byte list \<Rightarrow> nat" where
  "unpack_u32 bs = (\<Sum>k < 4. unat (bs ! k) * 256 ^ k)"

definition encode_frame :: "(json \<Rightarrow> byte list) \<Rightarrow> json \<Rightarrow> py_error + byte list" where
  "encode_frame dumps payload =
     (let encoded = dumps payload in
      if MAX_FRAME_BYTES < length encoded
      then Inl (WorkspaceError ''workspace request exceeds the protocol frame limit'')
      else Inr (pack_u32 (length encoded) @ encoded))"

text \<open>
  What the stream holds for its reader: runs of bytes as they arrive, and read errors; an
  empty run and the end of the list are an end of file.
\<close>

datatype segment = Data "byte list" | Read_error

fun stream_read :: "nat \<Rightarrow> segment list \<Rightarrow> byte list option \<times> segment list" where
  "stream_read n [] = (Some [], [])"
| "stream_read n (Read_error # segs) = (None, segs)"
| "stream_read n (Data bs # segs) =
     (if length bs \<le> n then (Some bs, segs) else (Some (take n bs), Data (drop n bs) # segs))"

lemma stream_read_length: "stream_read n segs = (Some bs, segs') \<Longrightarrow> length bs \<le> n"
  by (cases "(n, segs)" rule: stream_read.cases) (auto split: if_splits)

function read_exact :: "nat \<Rightarrow> segment list \<Rightarrow> (py_error + byte list) \<times> segment list" where
  "read_exact n segs =
     (if n = 0 then (Inr [], segs)
      else case stream_read n segs of
             (None, segs1) \<Rightarrow> (Inl (WorkspaceTransportError ''failed to read workspace response''), segs1)
           | (Some chunk, segs1) \<Rightarrow>
               if chunk = [] then
                 (Inl (WorkspaceTransportError ''workspace backing service closed its protocol stream''), segs1)
               else
                 (case read_exact (n - length chunk) segs1 of
                    (Inl e, segs2) \<Rightarrow> (Inl e, segs2)
                  | (Inr rest, segs2) \<Rightarrow> (Inr (chunk @ rest), segs2)))"
  by pat_completeness auto
termination
  by (relation "measure fst") (auto simp flip: length_greater_0_conv)

declare read_exact.simps [simp del]

definition read_frame ::
  "(byte list \<Rightarrow> json option) \<Rightarrow> segment list \<Rightarrow> (py_error + (string \<times> json) list) \<times> segment list" where
  "read_frame loads segs =
     (case read_exact 4 segs of
        (Inl e, segs1) \<Rightarrow> (Inl e, segs1)
      | (Inr header, segs1) \<Rightarrow>
          let len = unpack_u32 header in
          if MAX_FRAME_BYTES < len
          then (Inl (WorkspaceError ''workspace response exceeds the protocol frame limit''), segs1)
          else
            (case read_exact len segs1 of
               (Inl e, segs2) \<Rightarrow> (Inl e, segs2)
             | (Inr encoded, segs2) \<Rightarrow>
                 (case loads encoded of
                    None \<Rightarrow> Inl (WorkspaceError ''workspace response is not valid JSON'')
                  | Some (JObj kvs) \<Rightarrow> Inr kvs
                  | Some _ \<Rightarrow> Inl (WorkspaceError ''workspace response must be a JSON object''),
                  segs2)))"

text \<open>
  \<open>write_encoded_frame\<close>: each write takes some bytes (\<open>None\<close> and 0 stop the loop) or fails; the
  result also has the bytes that left, and the frame is flushed at the end.
\<close>

datatype write_result = Wrote "nat option" | Write_error

fun write_encoded_frame ::
  "byte list \<Rightarrow> write_result list \<Rightarrow> bool \<Rightarrow> (py_error + unit) \<times> byte list" where
  "write_encoded_frame [] writes flush_ok =
     (if flush_ok then Inr () else Inl (WorkspaceTransportError ''failed to flush workspace request''), [])"
| "write_encoded_frame (b # bs) [] flush_ok =
     (Inl (WorkspaceTransportError ''workspace protocol stream stopped accepting data''), [])"
| "write_encoded_frame (b # bs) (Write_error # ws) flush_ok =
     (Inl (WorkspaceTransportError ''failed to write workspace request''), [])"
| "write_encoded_frame (b # bs) (Wrote written # ws) flush_ok =
     (case written of
        None \<Rightarrow> (Inl (WorkspaceTransportError ''workspace protocol stream stopped accepting data''), [])
      | Some k \<Rightarrow>
          if k = 0
          then (Inl (WorkspaceTransportError ''workspace protocol stream stopped accepting data''), [])
          else (let (r, sent) = write_encoded_frame (drop k (b # bs)) ws flush_ok
                in (r, take k (b # bs) @ sent)))"

section \<open>The pipe name\<close>

text \<open>The FNV-1a hash of \<open>daemon_endpoint\<close>, on Python's unbounded ints with the mask.\<close>

definition fnv_step :: "int \<Rightarrow> byte \<Rightarrow> int" where
  "fnv_step value b = ((value XOR uint b) * 0x100000001B3) AND 0xFFFFFFFFFFFFFFFF"

definition fnv_hash :: "byte list \<Rightarrow> int" where
  "fnv_hash bytes = foldl fnv_step 0xCBF29CE484222325 bytes"

text \<open>
  \<open>{value:016x}\<close>: the digits in base sixteen, filled with zeros on the left to a width of at least
  sixteen, the sign of a negative number first.
\<close>

definition hex_digit :: "nat \<Rightarrow> char" where
  "hex_digit d = ''0123456789abcdef'' ! d"

fun hex_digits :: "nat \<Rightarrow> string" where
  "hex_digits n = (if n < 16 then [hex_digit n] else hex_digits (n div 16) @ [hex_digit (n mod 16)])"

declare hex_digits.simps [simp del]

definition zero_fill :: "nat \<Rightarrow> string \<Rightarrow> string" where
  "zero_fill width digits = replicate (width - length digits) (CHR ''0'') @ digits"

definition hex16 :: "int \<Rightarrow> string" where
  "hex16 value = (if value < 0 then CHR ''-'' # zero_fill 15 (hex_digits (nat (- value)))
                  else zero_fill 16 (hex_digits (nat value)))"

definition pipe_endpoint :: "byte list \<Rightarrow> string" where
  "pipe_endpoint normalized =
     [CHR 0x5C, CHR 0x5C] @ ''.'' @ [CHR 0x5C] @ ''pipe'' @ [CHR 0x5C] @ ''reframe-workspace-'' @
     hex16 (fnv_hash normalized)"

section \<open>The handshake\<close>

record advertised_operation =
  ad_name :: workspace_operation
  ad_mutates :: bool
  ad_scope :: idempotency_scope

record workspace_hello =
  wh_service :: string
  wh_protocol_version :: int
  wh_max_frame_bytes :: int
  wh_capabilities :: "string list"
  wh_operations :: "advertised_operation list"
  wh_build_fingerprint :: string

definition PROTOCOL_VERSION :: int where
  "PROTOCOL_VERSION = 2"

definition REQUIRED_CAPABILITIES :: "string list" where
  "REQUIRED_CAPABILITIES =
     [''framed-json-v1'', ''idempotent-mutations'', ''idempotency-scopes'', ''operation-metadata'',
      ''structured-errors'']"

definition advertised_map ::
  "advertised_operation list \<Rightarrow> workspace_operation \<Rightarrow> (bool \<times> idempotency_scope) option" where
  "advertised_map items =
     map_of (foldl (\<lambda>d a. AList.update (ad_name a) (ad_mutates a, ad_scope a) d) [] items)"

definition expected_map :: "workspace_operation \<Rightarrow> (bool \<times> idempotency_scope) option" where
  "expected_map =
     map_of (map (\<lambda>oper. (oper, om_mutates (metadata_of oper), om_scope (metadata_of oper))) all_operations)"

definition validate_hello :: "workspace_hello \<Rightarrow> py_error + unit" where
  "validate_hello h =
     (if wh_service h \<noteq> ''reframe-workspace-daemon'' \<or> wh_build_fingerprint h = []
      then Inl (WorkspaceError ''workspace daemon identity is invalid'')
      else if wh_protocol_version h \<noteq> PROTOCOL_VERSION
      then Inl (WorkspaceError ''workspace daemon protocol version does not match the host'')
      else if wh_max_frame_bytes h \<noteq> int MAX_FRAME_BYTES
      then Inl (WorkspaceError ''workspace daemon frame limit does not match the host'')
      else if filter (\<lambda>c. c \<notin> set (wh_capabilities h)) REQUIRED_CAPABILITIES \<noteq> []
      then Inl (WorkspaceError ''workspace daemon is missing capabilities'')
      else if length (wh_operations h) \<noteq> length all_operations \<or>
              list_ex (\<lambda>oper. advertised_map (wh_operations h) oper \<noteq> expected_map oper) all_operations
      then Inl (WorkspaceError ''workspace daemon operation metadata does not match the host'')
      else Inr ())"

section \<open>Framing round trip\<close>

lemma byte_of_nat: "unat (word_of_nat n :: byte) = n mod 256"
  by (simp add: unat_of_nat)

lemma unpack_pack_u32: "n < 2 ^ 32 \<Longrightarrow> unpack_u32 (pack_u32 n) = n"
proof -
  assume n: "n < 2 ^ 32"
  define a b c where "a = n div 256" and "b = a div 256" and "c = b div 256"
  have "c < 256" using n unfolding c_def b_def a_def by simp
  moreover have "n = 256 * a + n mod 256" "a = 256 * b + a mod 256" "b = 256 * c + b mod 256"
    unfolding a_def b_def c_def by simp_all
  moreover have "n div 65536 = b" "n div 16777216 = c"
    unfolding c_def b_def a_def by (simp_all add: div_mult2_eq [symmetric])
  ultimately show ?thesis
    by (simp add: unpack_u32_def pack_u32_def byte_of_nat lessThan_nat_numeral lessThan_Suc a_def [symmetric])
qed

lemma length_pack_u32 [simp]: "length (pack_u32 n) = 4"
  by (simp add: pack_u32_def)

text \<open>A stream that delivers its bytes in some runs, none of them empty.\<close>

fun segment_bytes :: "segment \<Rightarrow> byte list" where
  "segment_bytes (Data bs) = bs"
| "segment_bytes Read_error = []"

definition delivers :: "segment list \<Rightarrow> byte list \<Rightarrow> bool" where
  "delivers segs bs \<longleftrightarrow> list_all (\<lambda>g. \<exists>b bs. g = Data (b # bs)) segs \<and> concat (map segment_bytes segs) = bs"

lemma stream_read_delivers:
  assumes "delivers segs bs" "0 < n" "n \<le> length bs"
  shows "\<exists>chunk segs'. stream_read n segs = (Some chunk, segs') \<and> chunk \<noteq> [] \<and> length chunk \<le> n \<and>
    chunk = take (length chunk) bs \<and> delivers segs' (drop (length chunk) bs)"
proof (cases segs)
  case Nil
  then show ?thesis using assms by (simp add: delivers_def)
next
  case (Cons g gs)
  then obtain b cs where g: "g = Data (b # cs)" using assms by (auto simp: delivers_def)
  show ?thesis
  proof (cases "length (b # cs) \<le> n")
    case True
    then show ?thesis using assms g Cons by (auto simp: delivers_def)
  next
    case False
    then have "drop n (b # cs) \<noteq> []" by simp
    then obtain d ds where "drop n (b # cs) = d # ds" by (meson neq_Nil_conv)
    moreover have bs: "bs = (b # cs) @ concat (map segment_bytes gs)" using assms(1) g Cons by (simp add: delivers_def)
    then have "take n bs = take n (b # cs)" "drop n bs = drop n (b # cs) @ concat (map segment_bytes gs)"
      using False by (simp_all only: take_append drop_append) simp_all
    ultimately show ?thesis using False assms g Cons
      by (intro exI [of _ "take n (b # cs)"] exI [of _ "Data (drop n (b # cs)) # gs"])
        (auto simp: delivers_def min_def)
  qed
qed

lemma read_exact_delivers:
  "delivers segs bs \<Longrightarrow> n \<le> length bs \<Longrightarrow>
   \<exists>segs'. read_exact n segs = (Inr (take n bs), segs') \<and> delivers segs' (drop n bs)"
proof (induction n arbitrary: segs bs rule: less_induct)
  case (less n)
  show ?case
  proof (cases "n = 0")
    case True
    then show ?thesis using less.prems by (simp add: read_exact.simps)
  next
    case False
    then obtain chunk segs1 where c: "stream_read n segs = (Some chunk, segs1)" "chunk \<noteq> []"
      "length chunk \<le> n" "chunk = take (length chunk) bs" "delivers segs1 (drop (length chunk) bs)"
      using stream_read_delivers [OF less.prems(1) _ less.prems(2)] by auto
    have "0 < length chunk" using c(2) by simp
    then obtain segs2 where r: "read_exact (n - length chunk) segs1 =
        (Inr (take (n - length chunk) (drop (length chunk) bs)), segs2)"
      "delivers segs2 (drop (n - length chunk) (drop (length chunk) bs))"
      using less.IH [OF _ c(5), of "n - length chunk"] False less.prems(2) diff_le_mono [OF less.prems(2)] by auto
    have "chunk @ take (n - length chunk) (drop (length chunk) bs) = take n bs"
      using c(3,4) by (metis append_take_drop_id le_add_diff_inverse take_add)
    then show ?thesis
      using c r False by (subst read_exact.simps) simp
  qed
qed

text \<open>
  C14. Whatever runs of bytes the connection delivers, reading the frame of a payload gives the
  payload back and consumes exactly the frame, when the payload is within the frame limit
  and the JSON decoder inverts the encoder on it.
\<close>

theorem frame_round_trip:
  assumes "encode_frame dumps (JObj payload) = Inr frame"
    and "loads (dumps (JObj payload)) = Some (JObj payload)"
    and "delivers segs (frame @ rest)"
  shows "\<exists>segs'. read_frame loads segs = (Inr payload, segs') \<and> delivers segs' rest"
proof -
  let ?e = "dumps (JObj payload)"
  have len: "length ?e \<le> MAX_FRAME_BYTES" "frame = pack_u32 (length ?e) @ ?e"
    using assms(1) by (auto simp: encode_frame_def Let_def split: if_splits)
  then have small: "length ?e < 2 ^ 32" by (simp add: MAX_FRAME_BYTES_def)
  obtain s1 where s1: "read_exact 4 segs = (Inr (pack_u32 (length ?e)), s1)" "delivers s1 (?e @ rest)"
    using read_exact_delivers [OF assms(3), of 4] len(2) by auto
  obtain s2 where s2: "read_exact (length ?e) s1 = (Inr ?e, s2)" "delivers s2 rest"
    using read_exact_delivers [OF s1(2), of "length ?e"] by auto
  show ?thesis
    using s1 s2 len(1) assms(2) by (simp add: read_frame_def unpack_pack_u32 [OF small] Let_def)
qed

definition ex_dumps :: "json \<Rightarrow> byte list" where
  "ex_dumps v = (if v = JObj [] then [123, 125] else [])"

definition ex_loads :: "byte list \<Rightarrow> json option" where
  "ex_loads bs = (if bs = [123, 125] then Some (JObj []) else None)"

theorem frame_round_trip_witness:
  "\<exists>segs'. read_frame ex_loads [Data [2, 0], Data [0], Data [0, 123], Data [125, 7]] = (Inr [], segs') \<and>
     delivers segs' [7]"
  by (rule frame_round_trip [where dumps = ex_dumps and frame = "[2, 0, 0, 0, 123, 125]"])
    (simp_all add: encode_frame_def ex_dumps_def ex_loads_def MAX_FRAME_BYTES_def pack_u32_def delivers_def)

section \<open>Writing\<close>

text \<open>
  When \<open>write_encoded_frame\<close> returns without an error, the bytes that left are exactly the
  frame; when it raises, a prefix of the frame has left.
\<close>

lemma write_encoded_frame_sends:
  "(case write_encoded_frame frame writes flush_ok of
      (Inr _, sent) \<Rightarrow> sent = frame
    | (Inl e, sent) \<Rightarrow> prefix sent frame \<and> (\<exists>m. e = WorkspaceTransportError m))"
proof (induction frame writes flush_ok rule: write_encoded_frame.induct)
  case (4 b bs written ws flush_ok)
  show ?case
  proof (cases "written = None \<or> written = Some 0")
    case True
    then show ?thesis by auto
  next
    case False
    then obtain k where k: "written = Some k" "k \<noteq> 0" by auto
    obtain r sent where w: "write_encoded_frame (drop k (b # bs)) ws flush_ok = (r, sent)" by fastforce
    have IH: "case r of Inr _ \<Rightarrow> sent = drop k (b # bs)
        | Inl e \<Rightarrow> prefix sent (drop k (b # bs)) \<and> (\<exists>m. e = WorkspaceTransportError m)"
      using 4 [OF k] w by (auto split: sum.splits)
    have "prefix (take k (b # bs) @ sent) (b # bs)" if "prefix sent (drop k (b # bs))"
      using that by (metis append_take_drop_id same_prefix_prefix)
    then show ?thesis using IH k w by (auto split: sum.splits simp del: take_Suc_Cons drop_Suc_Cons)
  qed
qed auto

section \<open>The pipe hash is the 64-bit FNV-1a hash\<close>

definition fnv_word :: "byte list \<Rightarrow> 64 word" where
  "fnv_word bytes = foldl (\<lambda>w b. (w XOR ucast b) * 0x100000001B3) 0xCBF29CE484222325 bytes"

lemma fnv_step_word: "fnv_step (uint w) b = uint ((w XOR ucast b) * (0x100000001B3 :: 64 word))"
proof -
  have mask: "x AND 0xFFFFFFFFFFFFFFFF = x mod 2 ^ 64" for x :: int
    using take_bit_eq_mask [of 64 x] by (simp add: mask_eq_exp_minus_1 take_bit_eq_mod)
  have "uint (w XOR ucast b) = uint w XOR uint b"
    using unsigned_less [where ?'a = int, of b]
    by (simp add: uint_xor unsigned_ucast_eq take_bit_int_eq_self)
  then show ?thesis
    by (simp add: fnv_step_def mask uint_word_ariths)
qed

lemma foldl_fnv_word:
  "foldl fnv_step (uint w) bytes = uint (foldl (\<lambda>w b. (w XOR ucast b) * (0x100000001B3 :: 64 word)) w bytes)"
  by (induction bytes arbitrary: w) (simp_all add: fnv_step_word)

text \<open>Reading a hexadecimal number back, as the inverse of the printed form.\<close>

definition hex_digit_value :: "char \<Rightarrow> nat" where
  "hex_digit_value c = (if is_digit c then code c - 48 else code c - 87)"

definition read_hex :: "string \<Rightarrow> nat" where
  "read_hex s = foldl (\<lambda>n c. 16 * n + hex_digit_value c) 0 s"

lemma hex_digit_value: "d < 16 \<Longrightarrow> hex_digit_value (hex_digit d) = d"
proof -
  have "list_all (\<lambda>d. hex_digit_value (hex_digit d) = d) [0 ..< 16]" by code_simp
  then show "d < 16 \<Longrightarrow> ?thesis" by (simp add: list_all_iff)
qed

lemma read_hex_digits: "read_hex (hex_digits n) = n"
proof (induction n rule: hex_digits.induct)
  case (1 n)
  show ?case
  proof (cases "n < 16")
    case True
    then show ?thesis by (simp add: hex_digits.simps [of n] read_hex_def hex_digit_value)
  next
    case False
    then have "read_hex (hex_digits (n div 16)) = n div 16" by (rule 1)
    then show ?thesis using False by (simp add: hex_digits.simps [of n] read_hex_def hex_digit_value)
  qed
qed

lemma read_hex_zero_fill: "read_hex (zero_fill w s) = read_hex s"
proof -
  have "foldl (\<lambda>n c. 16 * n + hex_digit_value c) 0 (replicate k (CHR ''0'')) = 0" for k
    by (induction k) (simp_all add: hex_digit_value_def is_digit_def code_def)
  then show ?thesis by (simp add: zero_fill_def read_hex_def)
qed

lemma hex_digits_length: "n < 16 ^ Suc k \<Longrightarrow> length (hex_digits n) \<le> Suc k"
proof (induction k arbitrary: n)
  case 0
  then show ?case by (simp add: hex_digits.simps [of n])
next
  case (Suc k)
  have "n div 16 < 16 ^ Suc k" using Suc.prems by (simp add: less_mult_imp_div_less)
  with Suc.IH show ?case by (subst hex_digits.simps) simp
qed

lemma length_zero_fill: "length s \<le> w \<Longrightarrow> length (zero_fill w s) = w"
  by (simp add: zero_fill_def)

text \<open>
  C26. The pipe name's hash, computed on unbounded ints and masked in every step, is the 64-bit
  FNV-1a hash computed with wrapping machine words; so it is below 2^64, its printed form, which
  is padded to at least sixteen digits, has exactly sixteen, and it reads back as the hash: two
  stores share a pipe name only when their hashes are equal.
\<close>

theorem fnv_hash_is_fnv1a:
  "fnv_hash bytes = uint (fnv_word bytes) \<and> 0 \<le> fnv_hash bytes \<and> fnv_hash bytes < 2 ^ 64 \<and>
   length (hex16 (fnv_hash bytes)) = 16 \<and> int (read_hex (hex16 (fnv_hash bytes))) = fnv_hash bytes \<and>
   (pipe_endpoint bytes = pipe_endpoint bytes' \<longleftrightarrow> fnv_word bytes = fnv_word bytes')"
proof -
  have hash: "fnv_hash bs = uint (fnv_word bs)" for bs
    using foldl_fnv_word [of "0xCBF29CE484222325" bs] by (simp add: fnv_hash_def fnv_word_def)
  have pos: "0 \<le> fnv_hash bs" and below: "fnv_hash bs < 2 ^ 64" for bs
    using unsigned_less [where ?'a = int, of "fnv_word bs"] by (simp_all add: hash)
  have reads: "int (read_hex (hex16 (fnv_hash bs))) = fnv_hash bs" for bs
    using pos [of bs] by (simp add: hex16_def read_hex_zero_fill read_hex_digits)
  have "nat (fnv_hash bytes) < 16 ^ Suc 15" using pos [of bytes] below [of bytes] by (simp add: nat_less_iff)
  then have "length (hex16 (fnv_hash bytes)) = 16"
    using pos [of bytes] hex_digits_length [of "nat (fnv_hash bytes)" 15] by (simp add: hex16_def length_zero_fill)
  moreover have "pipe_endpoint bytes = pipe_endpoint bytes' \<longleftrightarrow> fnv_word bytes = fnv_word bytes'"
  proof
    assume "pipe_endpoint bytes = pipe_endpoint bytes'"
    then have "hex16 (fnv_hash bytes) = hex16 (fnv_hash bytes')" by (simp add: pipe_endpoint_def)
    then have "fnv_hash bytes = fnv_hash bytes'" by (metis reads)
    then show "fnv_word bytes = fnv_word bytes'" unfolding hash by (simp only: word_uint_eq_iff)
  qed (simp only: pipe_endpoint_def hash)
  ultimately show ?thesis using hash [of bytes] pos [of bytes] below [of bytes] reads [of bytes] by blast
qed

section \<open>What the handshake accepts\<close>

lemma all_operations_complete: "set all_operations = UNIV"
  by (auto simp: all_operations_def intro: workspace_operation.exhaust)

lemma distinct_all_operations: "distinct all_operations"
  by (simp add: all_operations_def)

definition advertised_triple :: "advertised_operation \<Rightarrow> workspace_operation \<times> bool \<times> idempotency_scope" where
  "advertised_triple a = (ad_name a, ad_mutates a, ad_scope a)"

definition expected_triple :: "workspace_operation \<Rightarrow> workspace_operation \<times> bool \<times> idempotency_scope" where
  "expected_triple oper = (oper, om_mutates (metadata_of oper), om_scope (metadata_of oper))"

lemma expected_map_Some [simp]:
  "expected_map oper = Some (om_mutates (metadata_of oper), om_scope (metadata_of oper))"
  using all_operations_complete by (auto simp: expected_map_def map_of_map_restrict)

lemma map_of_foldl_update:
  "map_of (foldl (\<lambda>d a. AList.update (k a) (v a) d) d0 xs) x =
     (case map_of (rev (map (\<lambda>a. (k a, v a)) xs)) x of None \<Rightarrow> map_of d0 x | Some y \<Rightarrow> Some y)"
  by (induction xs arbitrary: d0) (auto simp: update_conv' map_add_def split: option.splits)

lemma advertised_map_eq:
  "advertised_map items = map_of (rev (map advertised_triple items))"
  by (rule ext) (simp add: advertised_map_def map_of_foldl_update advertised_triple_def [abs_def] split: option.split)

lemma advertised_exact:
  assumes "length items = length all_operations" "\<forall>oper. advertised_map items oper = expected_map oper"
  shows "distinct (map ad_name items) \<and> set (map advertised_triple items) = range expected_triple"
proof -
  have "oper \<in> set (map ad_name items)" for oper
    using assms(2) map_of_SomeD [of "rev (map advertised_triple items)" oper]
    by (force simp: advertised_map_eq advertised_triple_def)
  then have all: "set (map ad_name items) = set all_operations"
    using all_operations_complete by blast
  then have dist: "distinct (map ad_name items)"
    using assms(1) distinct_card [OF distinct_all_operations] by (intro card_distinct) simp
  have "map fst (rev (map advertised_triple items)) = rev (map ad_name items)"
    by (simp add: rev_map advertised_triple_def comp_def)
  with dist have dm: "distinct (map fst (rev (map advertised_triple items)))" by simp
  have "(oper, x) \<in> set (map advertised_triple items) \<longleftrightarrow> (oper, x) = expected_triple oper" for oper x
    using map_of_eq_Some_iff [OF dm, of oper x] assms(2) by (auto simp: advertised_map_eq expected_triple_def)
  then have mem: "p \<in> set (map advertised_triple items) \<longleftrightarrow> p = expected_triple (fst p)" for p
    by (cases p) simp
  have "set (map advertised_triple items) = range expected_triple"
    unfolding set_eq_iff mem by (auto simp: expected_triple_def)
  with dist show ?thesis by blast
qed

lemma exact_advertised:
  assumes "distinct (map ad_name items)" "set (map advertised_triple items) = range expected_triple"
  shows "length items = length all_operations \<and> (\<forall>oper. advertised_map items oper = expected_map oper)"
proof -
  have names: "map fst (rev (map advertised_triple items)) = rev (map ad_name items)"
    by (simp add: rev_map advertised_triple_def comp_def)
  have "set (map ad_name items) = fst ` set (map advertised_triple items)"
    by (auto simp: advertised_triple_def image_iff)
  also have "\<dots> = UNIV" unfolding assms(2) by (auto simp: expected_triple_def image_iff)
  finally have "length (map ad_name items) = length all_operations"
    using distinct_card [OF assms(1)] distinct_card [OF distinct_all_operations] all_operations_complete
    by simp
  moreover have "advertised_map items oper = expected_map oper" for oper
    unfolding advertised_map_eq expected_map_Some
    using names assms by (subst map_of_eq_Some_iff) (auto simp: expected_triple_def)
  ultimately show ?thesis by simp
qed

text \<open>
  The handshake accepts exactly the daemons with the expected identity, protocol version,
  frame limit and capabilities that advertise every operation once, with the host's own
  mutation flag and idempotency scope, and nothing else.
\<close>

lemma validate_hello_exact:
  "validate_hello h = Inr () \<longleftrightarrow>
     wh_service h = ''reframe-workspace-daemon'' \<and> wh_build_fingerprint h \<noteq> [] \<and>
     wh_protocol_version h = 2 \<and> wh_max_frame_bytes h = 16 * 1024 * 1024 \<and>
     set REQUIRED_CAPABILITIES \<subseteq> set (wh_capabilities h) \<and>
     distinct (map ad_name (wh_operations h)) \<and>
     set (map advertised_triple (wh_operations h)) = range expected_triple"
proof -
  have "list_ex (\<lambda>oper. advertised_map items oper \<noteq> expected_map oper) all_operations \<longleftrightarrow>
      \<not> (\<forall>oper. advertised_map items oper = expected_map oper)" for items
    using all_operations_complete by (auto simp: list_ex_iff)
  then have ops: "\<not> (length items \<noteq> length all_operations \<or>
        list_ex (\<lambda>oper. advertised_map items oper \<noteq> expected_map oper) all_operations) \<longleftrightarrow>
      distinct (map ad_name items) \<and> set (map advertised_triple items) = range expected_triple" for items
    using advertised_exact [of items] exact_advertised [of items] by blast
  have caps: "filter (\<lambda>c. c \<notin> set cs) REQUIRED_CAPABILITIES = [] \<longleftrightarrow> set REQUIRED_CAPABILITIES \<subseteq> set cs" for cs
    by (auto simp: filter_empty_conv)
  show ?thesis
    unfolding validate_hello_def PROTOCOL_VERSION_def MAX_FRAME_BYTES_def
    using ops [of "wh_operations h"] caps [of "wh_capabilities h"] by (simp split: if_split) blast
qed

end
