(* ===== verification/Search.thy ===== *)
theory Search
  imports WsProtocol "HOL-Library.Multiset"
begin

text \<open>
  \<open>reframe_memory/search.py\<close>: a memory search becomes a SurrealQL \<open>WHERE\<close> clause and the values
  of its variables. The meaning of the query is the meaning of its text: a parser of the part of
  the query language the clauses use reads it back, and its operators are evaluated on a memory,
  with the cast \<open><string>\<close> as an argument.
\<close>

section \<open>Values\<close>

text \<open>\<open>repr\<close> and \<open>str\<close> of the Python value of a JSON value.\<close>

fun py_repr_json :: "json \<Rightarrow> string" where
  "py_repr_json JNull = ''None''"
| "py_repr_json (JBool b) = (if b then ''True'' else ''False'')"
| "py_repr_json (JInt i) = py_str_int i"
| "py_repr_json (JStr s) = py_repr s"
| "py_repr_json (JList xs) = ''['' @ py_join '', '' (map py_repr_json xs) @ '']''"
| "py_repr_json (JObj kvs) =
     ''{'' @ py_join '', '' (map (\<lambda>(k, v). py_repr k @ '': '' @ py_repr_json v) kvs) @ ''}''"

fun py_str_json :: "json \<Rightarrow> string" where
  "py_str_json (JStr s) = s"
| "py_str_json v = py_repr_json v"

definition obj_get :: "json \<Rightarrow> string \<Rightarrow> json option" where
  "obj_get v k = (case v of JObj kvs \<Rightarrow> map_of kvs k | _ \<Rightarrow> None)"

section \<open>Searches\<close>

record tag_search =
  ts_any_of :: "string list"
  ts_all_of :: "string list"
  ts_none_of :: "string list"

record string_search =
  sc_contains :: "string list"
  sc_equals :: "string list"

record node_search =
  nq_tags :: tag_search
  nq_strings :: string_search
  nq_string_fields :: "string list"
  nq_content_contains :: "(string \<times> string list) list"
  nq_content_equals :: "(string \<times> string list) list"

definition clean_terms :: "string list \<Rightarrow> string list" where
  "clean_terms terms = filter (\<lambda>t. t \<noteq> []) (map py_strip terms)"

definition tag_search_build :: "string list \<Rightarrow> string list \<Rightarrow> string list \<Rightarrow> tag_search" where
  "tag_search_build any_of all_of none_of =
     \<lparr> ts_any_of = clean_terms any_of, ts_all_of = clean_terms all_of, ts_none_of = clean_terms none_of \<rparr>"

definition string_search_build :: "string list \<Rightarrow> string list \<Rightarrow> string_search" where
  "string_search_build contains equals =
     \<lparr> sc_contains = clean_terms contains, sc_equals = clean_terms equals \<rparr>"

definition no_tags :: tag_search where
  "no_tags = \<lparr> ts_any_of = [], ts_all_of = [], ts_none_of = [] \<rparr>"

definition no_strings :: string_search where
  "no_strings = \<lparr> sc_contains = [], sc_equals = [] \<rparr>"

text \<open>The field path pattern: identifiers separated by dots.\<close>

fun split_dots :: "string \<Rightarrow> string list" where
  "split_dots [] = [[]]"
| "split_dots (c # cs) =
     (if c = CHR ''.'' then [] # split_dots cs
      else case split_dots cs of [] \<Rightarrow> [[c]] | p # ps \<Rightarrow> (c # p) # ps)"

definition is_identifier :: "string \<Rightarrow> bool" where
  "is_identifier p = (case p of
     [] \<Rightarrow> False
   | c # cs \<Rightarrow> (is_alpha c \<or> c = CHR ''_'') \<and> list_all (\<lambda>c. is_alpha c \<or> is_digit c \<or> c = CHR ''_'') cs)"

definition is_field_path :: "string \<Rightarrow> bool" where
  "is_field_path f = list_all is_identifier (split_dots f)"

definition validate_content_field :: "string \<Rightarrow> py_error + unit" where
  "validate_content_field f =
     (if is_field_path f then Inr ()
      else Inl (ValueError (''invalid content field path: '' @ py_repr f)))"

fun validate_fields :: "string list \<Rightarrow> py_error + unit" where
  "validate_fields [] = Inr ()"
| "validate_fields (f # fs) =
     (case validate_content_field f of Inl e \<Rightarrow> Inl e | Inr _ \<Rightarrow> validate_fields fs)"

definition clean_content_fields :: "string list \<Rightarrow> py_error + string list" where
  "clean_content_fields fs =
     (let clean = dict_fromkeys (clean_terms fs)
      in case validate_fields clean of Inl e \<Rightarrow> Inl e | Inr _ \<Rightarrow> Inr clean)"

section \<open>Clauses\<close>

datatype clause =
    Tag_any
  | Tag_all
  | Tag_none
  | Contains string string
  | Equals string string
  | Any_clause "clause list"

fun clause_sql :: "clause \<Rightarrow> string" where
  "clause_sql Tag_any = ''array::len(array::intersect(tags, $tag_any_of)) > 0''"
| "clause_sql Tag_all = ''array::len(array::intersect(tags, $tag_all_of)) = array::len($tag_all_of)''"
| "clause_sql Tag_none = ''array::len(array::intersect(tags, $tag_none_of)) = 0''"
| "clause_sql (Contains f v) = ''string::contains(string::lowercase(<string>content.'' @ f @ ''), $'' @ v @ '')''"
| "clause_sql (Equals f v) = ''content.'' @ f @ '' = $'' @ v"
| "clause_sql (Any_clause cs) = ''('' @ py_join '' OR '' (map clause_sql cs) @ '')''"

type_synonym sql_vars = "(string \<times> json) list"

record query_parts =
  qp_where_sql :: string
  qp_variables :: sql_vars

definition set_var :: "string \<Rightarrow> json \<Rightarrow> sql_vars \<Rightarrow> sql_vars" where
  "set_var k v vars = AList.update k v vars"

definition jlist :: "string list \<Rightarrow> json" where
  "jlist xs = JList (map JStr xs)"

definition add_tag_clauses :: "tag_search \<Rightarrow> sql_vars \<Rightarrow> clause list \<times> sql_vars" where
  "add_tag_clauses tags vars =
     (let (c1, v1) = (if ts_any_of tags \<noteq> [] then ([Tag_any], set_var ''tag_any_of'' (jlist (ts_any_of tags)) vars)
                      else ([], vars));
          (c2, v2) = (if ts_all_of tags \<noteq> [] then ([Tag_all], set_var ''tag_all_of'' (jlist (ts_all_of tags)) v1)
                      else ([], v1));
          (c3, v3) = (if ts_none_of tags \<noteq> [] then ([Tag_none], set_var ''tag_none_of'' (jlist (ts_none_of tags)) v2)
                      else ([], v2))
      in (c1 @ c2 @ c3, v3))"

definition var_name :: "string \<Rightarrow> nat \<Rightarrow> nat \<Rightarrow> string" where
  "var_name kind i j = kind @ py_str_nat i @ ''_'' @ py_str_nat j"

text \<open>The inner loop of every clause: one variable and one test per term.\<close>

fun add_terms ::
  "(string \<Rightarrow> clause) \<Rightarrow> (string \<Rightarrow> string) \<Rightarrow> string \<Rightarrow> nat \<Rightarrow> nat \<Rightarrow> string list \<Rightarrow> sql_vars \<Rightarrow>
   clause list \<times> sql_vars" where
  "add_terms test val kind i j [] vars = ([], vars)"
| "add_terms test val kind i j (t # ts) vars =
     (let v = var_name kind i j;
          (cs, vars') = add_terms test val kind i (Suc j) ts (set_var v (JStr (val t)) vars)
      in (test v # cs, vars'))"

text \<open>The loop over the fields of \<open>_add_content_clauses\<close> and of \<open>_add_content_equals_clauses\<close>.\<close>

fun add_field_clauses ::
  "(string \<Rightarrow> string \<Rightarrow> clause) \<Rightarrow> (string \<Rightarrow> string) \<Rightarrow> string \<Rightarrow> nat \<Rightarrow> (string \<times> string list) list \<Rightarrow> sql_vars \<Rightarrow>
   py_error + clause list \<times> sql_vars" where
  "add_field_clauses test val kind i [] vars = Inr ([], vars)"
| "add_field_clauses test val kind i ((f, terms) # items) vars =
     (case validate_content_field f of
        Inl e \<Rightarrow> Inl e
      | Inr _ \<Rightarrow>
          let clean = clean_terms terms in
          if clean = [] then add_field_clauses test val kind (Suc i) items vars
          else
            let (ts, vars1) = add_terms (test f) val kind i 0 clean vars in
            (case add_field_clauses test val kind (Suc i) items vars1 of
               Inl e \<Rightarrow> Inl e
             | Inr (cs, vars2) \<Rightarrow> Inr (Any_clause ts # cs, vars2)))"

definition add_content_clauses :: "(string \<times> string list) list \<Rightarrow> sql_vars \<Rightarrow> py_error + clause list \<times> sql_vars" where
  "add_content_clauses = add_field_clauses Contains py_lower ''content_term_'' 0"

definition add_content_equals_clauses ::
  "(string \<times> string list) list \<Rightarrow> sql_vars \<Rightarrow> py_error + clause list \<times> sql_vars" where
  "add_content_equals_clauses = add_field_clauses Equals (\<lambda>v. v) ''content_value_'' 0"

fun add_string_fields ::
  "string list \<Rightarrow> string list \<Rightarrow> nat \<Rightarrow> string list \<Rightarrow> sql_vars \<Rightarrow> clause list \<times> sql_vars" where
  "add_string_fields contains equals i [] vars = ([], vars)"
| "add_string_fields contains equals i (f # fs) vars =
     (let (c1, v1) = add_terms (Contains f) py_lower ''string_contains_'' i 0 contains vars;
          (c2, v2) = add_terms (Equals f) (\<lambda>v. v) ''string_equals_'' i 0 equals v1;
          (c3, v3) = add_string_fields contains equals (Suc i) fs v2
      in (c1 @ c2 @ c3, v3))"

definition add_string_search_clause ::
  "string_search \<Rightarrow> string list \<Rightarrow> sql_vars \<Rightarrow> py_error + clause list \<times> sql_vars" where
  "add_string_search_clause strings flds vars =
     (let contains = clean_terms (sc_contains strings); equals = clean_terms (sc_equals strings) in
      if contains = [] \<and> equals = [] then Inr ([], vars)
      else case clean_content_fields flds of
             Inl e \<Rightarrow> Inl e
           | Inr clean \<Rightarrow>
               if clean = [] then Inl (ValueError ''string search requires at least one searchable content field'')
               else let (cs, vars1) = add_string_fields contains equals 0 clean vars
                    in Inr ([Any_clause cs], vars1))"

definition build_memory_node_where :: "node_search option \<Rightarrow> py_error + query_parts" where
  "build_memory_node_where search =
     (case search of
        None \<Rightarrow> Inr \<lparr> qp_where_sql = [], qp_variables = [] \<rparr>
      | Some q \<Rightarrow>
          let (c1, v1) = add_tag_clauses (nq_tags q) [] in
          (case add_string_search_clause (nq_strings q) (nq_string_fields q) v1 of
             Inl e \<Rightarrow> Inl e
           | Inr (c2, v2) \<Rightarrow>
               (case add_content_clauses (nq_content_contains q) v2 of
                  Inl e \<Rightarrow> Inl e
                | Inr (c3, v3) \<Rightarrow>
                    (case add_content_equals_clauses (nq_content_equals q) v3 of
                       Inl e \<Rightarrow> Inl e
                     | Inr (c4, v4) \<Rightarrow>
                         let cs = c1 @ c2 @ c3 @ c4 in
                         Inr (if cs = [] then \<lparr> qp_where_sql = [], qp_variables = [] \<rparr>
                              else \<lparr> qp_where_sql = ''WHERE '' @ py_join '' AND '' (map clause_sql cs),
                                     qp_variables = v4 \<rparr>)))))"

section \<open>The query language\<close>

text \<open>
  The text of a clause is read the way the query language reads it: words and signs, function
  calls, the cast \<open><string>\<close>, comparisons, and \<open>AND\<close> binding tighter than \<open>OR\<close>. Only the part of
  the language the clauses use is here; any other text has no meaning and selects nothing.
\<close>

datatype sql_token = Tk_word string | Tk_sign char

definition word_char :: "char \<Rightarrow> bool" where
  "word_char c \<longleftrightarrow> is_alpha c \<or> is_digit c \<or> c \<in> set ''_.:$''"

function sql_tokens :: "string \<Rightarrow> sql_token list" where
  "sql_tokens [] = []"
| "sql_tokens (c # cs) =
     (if c = CHR '' '' then sql_tokens cs
      else if word_char c then Tk_word (c # takeWhile word_char cs) # sql_tokens (dropWhile word_char cs)
      else Tk_sign c # sql_tokens cs)"
  by pat_completeness auto
termination by (relation "measure length") (auto simp: le_imp_less_Suc length_dropWhile_le)

datatype sql_expr =
    Sql_number nat
  | Sql_name string
  | Sql_call string "sql_expr list"
  | Sql_cast sql_expr
  | Sql_compare char sql_expr sql_expr
  | Sql_and sql_expr sql_expr
  | Sql_or sql_expr sql_expr

definition sql_word :: "string \<Rightarrow> sql_expr" where
  "sql_word w = (if list_all is_digit w then Sql_number (foldl (\<lambda>n c. 10 * n + (code c - 48)) 0 w) else Sql_name w)"

text \<open>The fuel of the parser bounds the depth of its calls; \<open>parse_where\<close> gives it eight per token.\<close>

fun parse_term :: "nat \<Rightarrow> sql_token list \<Rightarrow> (sql_expr \<times> sql_token list) option"
  and parse_args :: "nat \<Rightarrow> sql_token list \<Rightarrow> (sql_expr list \<times> sql_token list) option"
  and parse_compare :: "nat \<Rightarrow> sql_token list \<Rightarrow> (sql_expr \<times> sql_token list) option"
  and parse_and :: "nat \<Rightarrow> sql_token list \<Rightarrow> (sql_expr \<times> sql_token list) option"
  and parse_or :: "nat \<Rightarrow> sql_token list \<Rightarrow> (sql_expr \<times> sql_token list) option" where
  "parse_term 0 ts = None"
| "parse_term (Suc n) ts =
     (case ts of
        [] \<Rightarrow> None
      | Tk_word w # r \<Rightarrow>
          if r \<noteq> [] \<and> hd r = Tk_sign (CHR ''('')
          then map_option (\<lambda>(es, r'). (Sql_call w es, r')) (parse_args n (tl r))
          else Some (sql_word w, r)
      | Tk_sign c # r \<Rightarrow>
          if c = CHR ''<'' \<and> take 2 r = [Tk_word ''string'', Tk_sign (CHR ''>'')]
          then map_option (\<lambda>(e, r'). (Sql_cast e, r')) (parse_term n (drop 2 r))
          else if c = CHR ''(''
          then (case parse_or n r of
                  Some (e, Tk_sign d # r') \<Rightarrow> if d = CHR '')'' then Some (e, r') else None
                | _ \<Rightarrow> None)
          else None)"
| "parse_args 0 ts = None"
| "parse_args (Suc n) ts =
     (case parse_term n ts of
        Some (e, Tk_sign d # r) \<Rightarrow>
          if d = CHR '')'' then Some ([e], r)
          else if d = CHR '','' then map_option (\<lambda>(es, r'). (e # es, r')) (parse_args n r)
          else None
      | _ \<Rightarrow> None)"
| "parse_compare 0 ts = None"
| "parse_compare (Suc n) ts =
     (case parse_term n ts of
        None \<Rightarrow> None
      | Some (a, r) \<Rightarrow>
          if r \<noteq> [] \<and> hd r = Tk_sign (CHR ''='')
          then map_option (\<lambda>(b, r'). (Sql_compare (CHR ''='') a b, r')) (parse_term n (tl r))
          else if r \<noteq> [] \<and> hd r = Tk_sign (CHR ''>'')
          then map_option (\<lambda>(b, r'). (Sql_compare (CHR ''>'') a b, r')) (parse_term n (tl r))
          else Some (a, r))"
| "parse_and 0 ts = None"
| "parse_and (Suc n) ts =
     (case parse_compare n ts of
        None \<Rightarrow> None
      | Some (a, r) \<Rightarrow>
          if r \<noteq> [] \<and> hd r = Tk_word ''AND''
          then map_option (\<lambda>(b, r'). (Sql_and a b, r')) (parse_and n (tl r))
          else Some (a, r))"
| "parse_or 0 ts = None"
| "parse_or (Suc n) ts =
     (case parse_and n ts of
        None \<Rightarrow> None
      | Some (a, r) \<Rightarrow>
          if r \<noteq> [] \<and> hd r = Tk_word ''OR''
          then map_option (\<lambda>(b, r'). (Sql_or a b, r')) (parse_or n (tl r))
          else Some (a, r))"

definition parse_where :: "string \<Rightarrow> sql_expr option" where
  "parse_where s =
     (case sql_tokens s of
        Tk_word w # ts \<Rightarrow>
          if w \<noteq> ''WHERE'' then None
          else (case parse_or (8 * length ts + 8) ts of Some (e, []) \<Rightarrow> Some e | _ \<Rightarrow> None)
      | _ \<Rightarrow> None)"

text \<open>\<open>array::intersect\<close>: every match uses up one element of the second array.\<close>

fun array_intersect :: "'a list \<Rightarrow> 'a list \<Rightarrow> 'a list" where
  "array_intersect [] ys = []"
| "array_intersect (x # xs) ys =
     (if x \<in> set ys then x # array_intersect xs (remove1 x ys) else array_intersect xs ys)"

fun content_path :: "json option \<Rightarrow> string list \<Rightarrow> json option" where
  "content_path v [] = v"
| "content_path v (p # ps) = (case v of None \<Rightarrow> None | Some w \<Rightarrow> content_path (obj_get w p) ps)"

definition content_field :: "json \<Rightarrow> string \<Rightarrow> json option" where
  "content_field content f = content_path (Some content) (split_dots f)"

fun sql_apply :: "string \<Rightarrow> json option list \<Rightarrow> json option" where
  "sql_apply f [Some (JList xs)] = (if f = ''array::len'' then Some (JInt (int (length xs))) else None)"
| "sql_apply f [Some (JStr s)] = (if f = ''string::lowercase'' then Some (JStr (py_lower s)) else None)"
| "sql_apply f [Some (JList xs), Some (JList ys)] =
     (if f = ''array::intersect'' then Some (JList (array_intersect xs ys)) else None)"
| "sql_apply f [Some (JStr s), Some (JStr t)] =
     (if f = ''string::contains'' then Some (JBool (py_in t s)) else None)"
| "sql_apply f args = None"

definition sql_greater :: "json option \<Rightarrow> json option \<Rightarrow> bool" where
  "sql_greater a b = (case (a, b) of (Some (JInt x), Some (JInt y)) \<Rightarrow> y < x | _ \<Rightarrow> False)"

definition sql_true :: "json option \<Rightarrow> bool" where
  "sql_true v \<longleftrightarrow> v = Some (JBool True)"

text \<open>The value of an expression on a row; a value a clause cannot compute is \<open>None\<close> and selects nothing.\<close>

fun sql_value :: "(json option \<Rightarrow> string) \<Rightarrow> (string \<Rightarrow> json option) \<Rightarrow> json \<Rightarrow> sql_expr \<Rightarrow> json option" where
  "sql_value cast vars row (Sql_number n) = Some (JInt (int n))"
| "sql_value cast vars row (Sql_name w) =
     (if w \<noteq> [] \<and> hd w = CHR ''$'' then vars (tl w) else content_path (Some row) (split_dots w))"
| "sql_value cast vars row (Sql_call f es) = sql_apply f (map (sql_value cast vars row) es)"
| "sql_value cast vars row (Sql_cast e) = Some (JStr (cast (sql_value cast vars row e)))"
| "sql_value cast vars row (Sql_compare c a b) =
     Some (JBool (if c = CHR ''='' then sql_value cast vars row a = sql_value cast vars row b
                  else sql_greater (sql_value cast vars row a) (sql_value cast vars row b)))"
| "sql_value cast vars row (Sql_and a b) =
     Some (JBool (sql_true (sql_value cast vars row a) \<and> sql_true (sql_value cast vars row b)))"
| "sql_value cast vars row (Sql_or a b) =
     Some (JBool (sql_true (sql_value cast vars row a) \<or> sql_true (sql_value cast vars row b)))"

definition sql_row :: "string list \<Rightarrow> json \<Rightarrow> json" where
  "sql_row tags content = JObj [(''tags'', jlist tags), (''content'', content)]"

text \<open>What the query selects: the rows on which its text is true, all of them without a text.\<close>

definition where_holds :: "(json option \<Rightarrow> string) \<Rightarrow> query_parts \<Rightarrow> string list \<Rightarrow> json \<Rightarrow> bool" where
  "where_holds cast p tags content \<longleftrightarrow>
     qp_where_sql p = [] \<or>
     (case parse_where (qp_where_sql p) of
        None \<Rightarrow> False
      | Some e \<Rightarrow> sql_true (sql_value cast (map_of (qp_variables p)) (sql_row tags content) e))"

section \<open>What a search asks for\<close>

definition term_test :: "(json option \<Rightarrow> string) \<Rightarrow> json \<Rightarrow> string \<Rightarrow> string \<Rightarrow> bool" where
  "term_test cast content f t = py_in (py_lower t) (py_lower (cast (content_field content f)))"

definition value_test :: "json \<Rightarrow> string \<Rightarrow> string \<Rightarrow> bool" where
  "value_test content f v = (content_field content f = Some (JStr v))"

definition tags_match :: "tag_search \<Rightarrow> string list \<Rightarrow> bool" where
  "tags_match t tags \<longleftrightarrow>
     (ts_any_of t = [] \<or> list_ex (\<lambda>x. x \<in> set tags) (ts_any_of t)) \<and>
     mset (ts_all_of t) \<subseteq># mset tags \<and>
     list_all (\<lambda>x. x \<notin> set tags) (ts_none_of t)"

definition strings_match ::
  "(json option \<Rightarrow> string) \<Rightarrow> string_search \<Rightarrow> string list \<Rightarrow> json \<Rightarrow> bool" where
  "strings_match cast q flds content \<longleftrightarrow>
     (clean_terms (sc_contains q) = [] \<and> clean_terms (sc_equals q) = []) \<or>
     list_ex (\<lambda>f. list_ex (term_test cast content f) (clean_terms (sc_contains q)) \<or>
                  list_ex (value_test content f) (clean_terms (sc_equals q))) (clean_terms flds)"

definition content_match :: "(string \<Rightarrow> string \<Rightarrow> bool) \<Rightarrow> (string \<times> string list) list \<Rightarrow> bool" where
  "content_match test items \<longleftrightarrow>
     list_all (\<lambda>(f, terms). clean_terms terms = [] \<or> list_ex (test f) (clean_terms terms)) items"

definition search_matches :: "(json option \<Rightarrow> string) \<Rightarrow> node_search \<Rightarrow> string list \<Rightarrow> json \<Rightarrow> bool" where
  "search_matches cast q tags content \<longleftrightarrow>
     tags_match (nq_tags q) tags \<and>
     strings_match cast (nq_strings q) (nq_string_fields q) content \<and>
     content_match (term_test cast content) (nq_content_contains q) \<and>
     content_match (value_test content) (nq_content_equals q)"

text \<open>The values a search binds, one per term and in this order.\<close>

definition tag_values :: "tag_search \<Rightarrow> json list" where
  "tag_values t = map jlist (filter (\<lambda>xs. xs \<noteq> []) [ts_any_of t, ts_all_of t, ts_none_of t])"

definition string_values :: "string list \<Rightarrow> string list \<Rightarrow> string list \<Rightarrow> json list" where
  "string_values contains equals flds =
     concat (map (\<lambda>f. map (JStr \<circ> py_lower) contains @ map JStr equals) flds)"

definition field_values :: "(string \<Rightarrow> string) \<Rightarrow> (string \<times> string list) list \<Rightarrow> json list" where
  "field_values val items = concat (map (\<lambda>(f, terms). map (JStr \<circ> val) (clean_terms terms)) items)"

definition search_values :: "node_search \<Rightarrow> json list" where
  "search_values q =
     tag_values (nq_tags q) @
     string_values (clean_terms (sc_contains (nq_strings q))) (clean_terms (sc_equals (nq_strings q)))
       (dict_fromkeys (clean_terms (nq_string_fields q))) @
     field_values py_lower (nq_content_contains q) @
     field_values (\<lambda>v. v) (nq_content_equals q)"

section \<open>What a clause tree means\<close>

text \<open>The meaning of the clauses before they are printed, a stepping stone of the proofs.\<close>

definition string_list_of :: "json option \<Rightarrow> string list" where
  "string_list_of v = (case v of Some (JList xs) \<Rightarrow> concat (map (\<lambda>x. case x of JStr s \<Rightarrow> [s] | _ \<Rightarrow> []) xs) | _ \<Rightarrow> [])"

fun eval_clause :: "(json option \<Rightarrow> string) \<Rightarrow> (string \<Rightarrow> json option) \<Rightarrow> string list \<Rightarrow> json \<Rightarrow> clause \<Rightarrow> bool" where
  "eval_clause cast vars tags content Tag_any =
     (0 < length (array_intersect tags (string_list_of (vars ''tag_any_of''))))"
| "eval_clause cast vars tags content Tag_all =
     (length (array_intersect tags (string_list_of (vars ''tag_all_of''))) =
      length (string_list_of (vars ''tag_all_of'')))"
| "eval_clause cast vars tags content Tag_none =
     (length (array_intersect tags (string_list_of (vars ''tag_none_of''))) = 0)"
| "eval_clause cast vars tags content (Contains f v) =
     (case vars v of Some (JStr t) \<Rightarrow> py_in t (py_lower (cast (content_field content f))) | _ \<Rightarrow> False)"
| "eval_clause cast vars tags content (Equals f v) = (content_field content f = vars v)"
| "eval_clause cast vars tags content (Any_clause cs) = list_ex (eval_clause cast vars tags content) cs"

text \<open>The clauses the loops build: tests of fields under an \<open>OR\<close>, and tests of tags whose variable is bound.\<close>

fun field_test :: "clause \<Rightarrow> bool" where
  "field_test (Contains f v) = (list_all word_char f \<and> list_all word_char v)"
| "field_test (Equals f v) = (list_all word_char f \<and> list_all word_char v)"
| "field_test c = False"

fun clause_ok :: "clause \<Rightarrow> bool" where
  "clause_ok (Any_clause cs) = (cs \<noteq> [] \<and> list_all field_test cs)"
| "clause_ok (Contains f v) = False"
| "clause_ok (Equals f v) = False"
| "clause_ok c = True"

fun clause_bound :: "(string \<Rightarrow> json option) \<Rightarrow> clause \<Rightarrow> bool" where
  "clause_bound w Tag_any = (\<exists>xs. w ''tag_any_of'' = Some (jlist xs))"
| "clause_bound w Tag_all = (\<exists>xs. w ''tag_all_of'' = Some (jlist xs))"
| "clause_bound w Tag_none = (\<exists>xs. w ''tag_none_of'' = Some (jlist xs))"
| "clause_bound w c = True"

section \<open>Variables\<close>

lemma var_name_inj:
  "var_name kind i j = var_name kind i' j' \<longleftrightarrow> i = i' \<and> j = j'"
  using digits_separated [OF py_str_nat_digits py_str_nat_digits, of i "py_str_nat j" i' "py_str_nat j'"]
  by (auto simp: var_name_def)

lemma var_name_kinds [simp]:
  "var_name ''string_contains_'' i j \<noteq> var_name ''string_equals_'' i' j'"
  "var_name ''content_term_'' i j \<noteq> var_name ''content_value_'' i' j'"
  "var_name ''content_term_'' i j \<noteq> var_name ''string_contains_'' i' j'"
  "var_name ''content_term_'' i j \<noteq> var_name ''string_equals_'' i' j'"
  "var_name ''content_value_'' i j \<noteq> var_name ''string_contains_'' i' j'"
  "var_name ''content_value_'' i j \<noteq> var_name ''string_equals_'' i' j'"
  "var_name ''string_equals_'' i j \<noteq> var_name ''string_contains_'' i' j'"
  by (simp_all add: var_name_def)

definition tag_vars :: "string set" where
  "tag_vars = {''tag_any_of'', ''tag_all_of'', ''tag_none_of''}"

lemma var_name_not_tag [simp]:
  "var_name ''string_contains_'' i j \<notin> tag_vars" "var_name ''string_equals_'' i j \<notin> tag_vars"
  "var_name ''content_term_'' i j \<notin> tag_vars" "var_name ''content_value_'' i j \<notin> tag_vars"
  by (simp_all add: var_name_def tag_vars_def)

definition names :: "string \<Rightarrow> nat set \<Rightarrow> string set" where
  "names kind I = {var_name kind i j |i j. i \<in> I}"

lemma set_var_map [simp]: "map_of (set_var k v vars) = (map_of vars)(k \<mapsto> v)"
  by (simp add: set_var_def update_conv')

lemma set_var_values: "k \<notin> dom (map_of vars) \<Longrightarrow> map snd (set_var k v vars) = map snd vars @ [v]"
  by (induction vars) (auto simp: set_var_def split: if_splits)

lemma set_var_distinct: "distinct (map fst vars) \<Longrightarrow> distinct (map fst (set_var k v vars))"
  by (simp add: set_var_def distinct_update)

lemma map_le_Some: "m \<subseteq>\<^sub>m m' \<Longrightarrow> m k = Some v \<Longrightarrow> m' k = Some v"
  by (metis domI map_le_def)

text \<open>Every loop only adds new names, so what it added is still there at the end.\<close>

lemma add_terms_spec:
  assumes "add_terms test val kind i j ts vars = (cs, vars')"
    and "\<And>k. j \<le> k \<Longrightarrow> var_name kind i k \<notin> dom (map_of vars)"
  shows "map_of vars \<subseteq>\<^sub>m map_of vars' \<and>
    dom (map_of vars') \<subseteq> dom (map_of vars) \<union> {var_name kind i k |k. j \<le> k} \<and>
    map snd vars' = map snd vars @ map (JStr \<circ> val) ts \<and>
    list_all2 (\<lambda>c t. \<exists>v. c = test v \<and> map_of vars' v = Some (JStr (val t))) cs ts"
  using assms
proof (induction ts arbitrary: j vars cs)
  case Nil
  then show ?case by simp
next
  case (Cons t ts)
  let ?v = "var_name kind i j" and ?vars = "set_var (var_name kind i j) (JStr (val t)) vars"
  from Cons.prems(1) obtain cs1 where cs1: "add_terms test val kind i (Suc j) ts ?vars = (cs1, vars')" "cs = test ?v # cs1"
    by (auto simp: Let_def split: prod.splits)
  have fresh: "Suc j \<le> k \<Longrightarrow> var_name kind i k \<notin> dom (map_of ?vars)" for k
    using Cons.prems(2) [of k] by (auto simp: var_name_inj)
  have ih: "map_of ?vars \<subseteq>\<^sub>m map_of vars' \<and>
      dom (map_of vars') \<subseteq> dom (map_of ?vars) \<union> {var_name kind i k |k. Suc j \<le> k} \<and>
      map snd vars' = map snd ?vars @ map (JStr \<circ> val) ts \<and>
      list_all2 (\<lambda>c t. \<exists>v. c = test v \<and> map_of vars' v = Some (JStr (val t))) cs1 ts"
    by (rule Cons.IH [OF cs1(1)]) (rule fresh)
  have sub: "map_of vars \<subseteq>\<^sub>m map_of ?vars"
    using Cons.prems(2) [of j] by (auto simp: map_le_def)
  have val: "map_of vars' ?v = Some (JStr (val t))"
    by (rule map_le_Some [OF ih [THEN conjunct1]]) simp
  have "dom (map_of vars') \<subseteq> dom (map_of vars) \<union> {var_name kind i k |k. j \<le> k}"
  proof
    fix x assume "x \<in> dom (map_of vars')"
    then have "x = ?v \<or> x \<in> dom (map_of vars) \<or> (\<exists>k. x = var_name kind i k \<and> Suc j \<le> k)" using ih by auto
    then show "x \<in> dom (map_of vars) \<union> {var_name kind i k |k. j \<le> k}" using Suc_leD by blast
  qed
  moreover have "map snd vars' = map snd vars @ map (JStr \<circ> val) (t # ts)"
    using ih set_var_values [of ?v vars] Cons.prems(2) [of j] by simp
  ultimately show ?case using ih map_le_trans [OF sub] val cs1(2) by auto
qed

lemma list_all2_tests:
  assumes "list_all2 (\<lambda>c t. \<exists>v. c = test v \<and> vars v = Some (JStr (val t))) cs ts"
    and "vars \<subseteq>\<^sub>m w" and "\<And>v t. w v = Some (JStr (val t)) \<Longrightarrow> P (test v) = Q t"
  shows "list_ex P cs = list_ex Q ts"
  using assms(1)
proof (induction rule: list_all2_induct)
  case (Cons c cs t ts)
  then obtain v where v: "c = test v" "vars v = Some (JStr (val t))" by blast
  then have "w v = Some (JStr (val t))" using assms(2) by (blast intro: map_le_Some)
  then show ?case using Cons.IH v assms(3) by simp
qed simp

lemma eval_contains:
  assumes "list_all2 (\<lambda>c t. \<exists>v. c = Contains f v \<and> vars v = Some (JStr (py_lower t))) cs ts" "vars \<subseteq>\<^sub>m w"
  shows "list_ex (eval_clause cast w tags content) cs = list_ex (term_test cast content f) ts"
  using assms by (rule list_all2_tests) (simp add: term_test_def)

lemma eval_equals:
  assumes "list_all2 (\<lambda>c t. \<exists>v. c = Equals f v \<and> vars v = Some (JStr t)) cs ts" "vars \<subseteq>\<^sub>m w"
  shows "list_ex (eval_clause cast w tags content) cs = list_ex (value_test content f) ts"
  using assms by (rule list_all2_tests [where val = "\<lambda>v. v"]) (auto simp: value_test_def)

section \<open>The clauses mean the search\<close>

lemma mset_array_intersect: "mset (array_intersect xs ys) = mset xs \<inter># mset ys"
proof (induction xs arbitrary: ys)
  case (Cons x xs)
  show ?case
  proof (cases "x \<in> set ys")
    case True
    then have "mset (x # xs) \<inter># mset ys = add_mset x (mset xs \<inter># (mset ys - {#x#}))"
      by (simp add: inter_add_left2)
    then show ?thesis using True Cons by simp
  next
    case False
    then show ?thesis using Cons by (simp add: inter_add_left1)
  qed
qed simp

lemma length_intersect_all: "length (array_intersect xs ys) = length ys \<longleftrightarrow> mset ys \<subseteq># mset xs"
proof -
  have "length (array_intersect xs ys) = size (mset xs \<inter># mset ys)"
    by (metis mset_array_intersect size_mset)
  moreover have "size (mset xs \<inter># mset ys) = size (mset ys) \<longleftrightarrow> mset xs \<inter># mset ys = mset ys"
    by (metis inter_subset_eq_union mset_subset_size nless_le subset_mset.inf.cobounded2 subset_mset.nless_le)
  ultimately show ?thesis by (simp add: subset_mset.inf.absorb_iff2)
qed

lemma intersect_empty: "array_intersect xs ys = [] \<longleftrightarrow> set xs \<inter> set ys = {}"
  by (induction xs arbitrary: ys) auto

lemma string_list_of_jlist [simp]: "string_list_of (Some (jlist xs)) = xs"
proof -
  have "concat (map ((\<lambda>x. case x of JStr s \<Rightarrow> [s] | _ \<Rightarrow> []) \<circ> JStr) xs) = xs" by (induction xs) auto
  then show ?thesis by (simp add: string_list_of_def jlist_def)
qed

lemma add_tag_clauses_spec:
  assumes "add_tag_clauses t [] = (cs, vars)"
  shows "dom (map_of vars) \<subseteq> tag_vars \<and> map snd vars = tag_values t \<and> list_all clause_ok cs \<and>
    (\<forall>w. map_of vars \<subseteq>\<^sub>m w \<longrightarrow> list_all (clause_bound w) cs) \<and>
    (\<forall>w. map_of vars \<subseteq>\<^sub>m w \<longrightarrow> list_all (eval_clause cast w tags content) cs = tags_match t tags)"
proof -
  let ?any = "''tag_any_of''" and ?all = "''tag_all_of''" and ?none = "''tag_none_of''"
  have vars: "map_of vars = (\<lambda>k. if k = ?any \<and> ts_any_of t \<noteq> [] then Some (jlist (ts_any_of t))
      else if k = ?all \<and> ts_all_of t \<noteq> [] then Some (jlist (ts_all_of t))
      else if k = ?none \<and> ts_none_of t \<noteq> [] then Some (jlist (ts_none_of t)) else None)"
    using assms by (auto simp: add_tag_clauses_def fun_eq_iff split: if_splits)
  have cs: "cs = (if ts_any_of t \<noteq> [] then [Tag_any] else []) @ (if ts_all_of t \<noteq> [] then [Tag_all] else []) @
      (if ts_none_of t \<noteq> [] then [Tag_none] else [])"
    using assms by (auto simp: add_tag_clauses_def split: if_splits)
  have "list_all (eval_clause cast w tags content) cs = tags_match t tags" if w: "map_of vars \<subseteq>\<^sub>m w" for w
  proof -
    have look: "ts_any_of t \<noteq> [] \<Longrightarrow> w ?any = Some (jlist (ts_any_of t))"
      "ts_all_of t \<noteq> [] \<Longrightarrow> w ?all = Some (jlist (ts_all_of t))"
      "ts_none_of t \<noteq> [] \<Longrightarrow> w ?none = Some (jlist (ts_none_of t))"
      by (rule map_le_Some [OF w]; simp add: vars)+
    have any: "0 < length (array_intersect tags xs) \<longleftrightarrow> list_ex (\<lambda>x. x \<in> set tags) xs" for xs
      by (simp add: intersect_empty list_ex_iff) blast
    have none: "length (array_intersect tags xs) = 0 \<longleftrightarrow> list_all (\<lambda>x. x \<notin> set tags) xs" for xs
      by (simp add: intersect_empty list_all_iff) blast
    show ?thesis
      unfolding cs tags_match_def using look any none
      by (cases "ts_any_of t = []"; cases "ts_all_of t = []"; cases "ts_none_of t = []"; simp add: length_intersect_all)
  qed
  moreover have "list_all (clause_bound w) cs" if w: "map_of vars \<subseteq>\<^sub>m w" for w
    using map_le_Some [OF w] unfolding cs by (auto simp: vars)
  moreover have "dom (map_of vars) \<subseteq> tag_vars" unfolding vars tag_vars_def by (auto split: if_splits)
  moreover have "map snd vars = tag_values t"
    using assms by (auto simp: add_tag_clauses_def tag_values_def set_var_def split: if_splits)
  moreover have "list_all clause_ok cs" unfolding cs by simp
  ultimately show ?thesis by blast
qed

lemma add_string_fields_spec:
  assumes "add_string_fields contains equals i fs vars = (cs, vars')"
    and "\<And>k j. i \<le> k \<Longrightarrow> var_name ''string_contains_'' k j \<notin> dom (map_of vars) \<and> var_name ''string_equals_'' k j \<notin> dom (map_of vars)"
  shows "map_of vars \<subseteq>\<^sub>m map_of vars' \<and>
    dom (map_of vars') \<subseteq> dom (map_of vars) \<union> names ''string_contains_'' UNIV \<union> names ''string_equals_'' UNIV \<and>
    map snd vars' = map snd vars @ string_values contains equals fs \<and>
    (\<forall>w. map_of vars' \<subseteq>\<^sub>m w \<longrightarrow> list_ex (eval_clause cast w tags content) cs =
       list_ex (\<lambda>f. list_ex (term_test cast content f) contains \<or> list_ex (value_test content f) equals) fs)"
  using assms
proof (induction fs arbitrary: i vars cs)
  case Nil
  then show ?case by (auto simp: string_values_def)
next
  case (Cons f fs)
  obtain c1 v1 where a1: "add_terms (Contains f) py_lower ''string_contains_'' i 0 contains vars = (c1, v1)" by fastforce
  obtain c2 v2 where a2: "add_terms (Equals f) (\<lambda>v. v) ''string_equals_'' i 0 equals v1 = (c2, v2)" by fastforce
  obtain c3 where a3: "add_string_fields contains equals (Suc i) fs v2 = (c3, vars')" and cs: "cs = c1 @ c2 @ c3"
    using Cons.prems(1) a1 a2 by (auto split: prod.splits)
  have s1: "map_of vars \<subseteq>\<^sub>m map_of v1 \<and> dom (map_of v1) \<subseteq> dom (map_of vars) \<union> {var_name ''string_contains_'' i k |k. 0 \<le> k} \<and>
      map snd v1 = map snd vars @ map (JStr \<circ> py_lower) contains \<and>
      list_all2 (\<lambda>c t. \<exists>v. c = Contains f v \<and> map_of v1 v = Some (JStr (py_lower t))) c1 contains"
    by (rule add_terms_spec [OF a1]) (use Cons.prems(2) in blast)
  have s2: "map_of v1 \<subseteq>\<^sub>m map_of v2 \<and> dom (map_of v2) \<subseteq> dom (map_of v1) \<union> {var_name ''string_equals_'' i k |k. 0 \<le> k} \<and>
      map snd v2 = map snd v1 @ map (JStr \<circ> (\<lambda>v. v)) equals \<and>
      list_all2 (\<lambda>c t. \<exists>v. c = Equals f v \<and> map_of v2 v = Some (JStr t)) c2 equals"
  proof (rule add_terms_spec [OF a2])
    fix k :: nat
    have "var_name ''string_equals_'' i k \<noteq> var_name ''string_contains_'' i j" for j by simp
    then show "var_name ''string_equals_'' i k \<notin> dom (map_of v1)" using Cons.prems(2) [of i k] s1 by blast
  qed
  have d2: "dom (map_of v2) \<subseteq> dom (map_of vars) \<union> {var_name ''string_contains_'' i k |k. True} \<union> {var_name ''string_equals_'' i k |k. True}"
    using s1 s2 by blast
  have fresh: "var_name ''string_contains_'' k j \<notin> dom (map_of v2) \<and> var_name ''string_equals_'' k j \<notin> dom (map_of v2)"
    if "Suc i \<le> k" for k j
  proof -
    have "var_name ''string_contains_'' k j \<noteq> var_name ''string_contains_'' i l"
      "var_name ''string_equals_'' k j \<noteq> var_name ''string_equals_'' i l" for l
      using that by (simp_all add: var_name_inj)
    then have "var_name ''string_contains_'' k j \<notin> {var_name ''string_contains_'' i k |k. True} \<union> {var_name ''string_equals_'' i k |k. True}"
      "var_name ''string_equals_'' k j \<notin> {var_name ''string_contains_'' i k |k. True} \<union> {var_name ''string_equals_'' i k |k. True}"
      by auto
    then show ?thesis using d2 Cons.prems(2) [of k j] that Suc_leD by blast
  qed
  have ih: "map_of v2 \<subseteq>\<^sub>m map_of vars' \<and>
      dom (map_of vars') \<subseteq> dom (map_of v2) \<union> names ''string_contains_'' UNIV \<union> names ''string_equals_'' UNIV \<and>
      map snd vars' = map snd v2 @ string_values contains equals fs \<and>
      (\<forall>w. map_of vars' \<subseteq>\<^sub>m w \<longrightarrow> list_ex (eval_clause cast w tags content) c3 =
         list_ex (\<lambda>f. list_ex (term_test cast content f) contains \<or> list_ex (value_test content f) equals) fs)"
    by (rule Cons.IH [OF a3]) (rule fresh)
  have sub2: "map_of v1 \<subseteq>\<^sub>m map_of vars'" using map_le_trans [OF s2 [THEN conjunct1] ih [THEN conjunct1]] .
  have sub: "map_of vars \<subseteq>\<^sub>m map_of vars'" using map_le_trans [OF s1 [THEN conjunct1] sub2] .
  have "list_ex (eval_clause cast w tags content) cs =
      list_ex (\<lambda>f. list_ex (term_test cast content f) contains \<or> list_ex (value_test content f) equals) (f # fs)"
    if w: "map_of vars' \<subseteq>\<^sub>m w" for w
  proof -
    have "map_of v1 \<subseteq>\<^sub>m w" "map_of v2 \<subseteq>\<^sub>m w"
      using map_le_trans [OF sub2 w] map_le_trans [OF ih [THEN conjunct1] w] .
    then show ?thesis
      unfolding cs using eval_contains [of f "map_of v1" c1 contains w] eval_equals [of f "map_of v2" c2 equals w] s1 s2 ih w
      by simp
  qed
  moreover have "dom (map_of vars') \<subseteq> dom (map_of vars) \<union> names ''string_contains_'' UNIV \<union> names ''string_equals_'' UNIV"
    using ih d2 unfolding names_def by blast
  moreover have "map snd vars' = map snd vars @ string_values contains equals (f # fs)"
    using s1 s2 ih by (simp add: string_values_def comp_def)
  ultimately show ?case using sub by blast
qed

text \<open>The two loops over content fields have the same shape.\<close>

lemma content_loop_step:
  assumes a: "add_terms test val kind i 0 ts vars = (cs, vars1)"
    and fresh: "\<And>k j. i \<le> k \<Longrightarrow> var_name kind k j \<notin> dom (map_of vars)"
    and old: "dom (map_of vars) \<subseteq> D"
  shows "map_of vars \<subseteq>\<^sub>m map_of vars1" and "dom (map_of vars1) \<subseteq> D \<union> names kind UNIV"
    and "\<And>k j. Suc i \<le> k \<Longrightarrow> var_name kind k j \<notin> dom (map_of vars1)"
    and "list_all2 (\<lambda>c t. \<exists>v. c = test v \<and> map_of vars1 v = Some (JStr (val t))) cs ts"
    and "map snd vars1 = map snd vars @ map (JStr \<circ> val) ts"
proof -
  have s: "map_of vars \<subseteq>\<^sub>m map_of vars1 \<and>
    dom (map_of vars1) \<subseteq> dom (map_of vars) \<union> {var_name kind i k |k. 0 \<le> k} \<and>
    map snd vars1 = map snd vars @ map (JStr \<circ> val) ts \<and>
    list_all2 (\<lambda>c t. \<exists>v. c = test v \<and> map_of vars1 v = Some (JStr (val t))) cs ts"
    by (rule add_terms_spec [OF a]) (use fresh in blast)
  then show "map_of vars \<subseteq>\<^sub>m map_of vars1"
    "list_all2 (\<lambda>c t. \<exists>v. c = test v \<and> map_of vars1 v = Some (JStr (val t))) cs ts"
    "map snd vars1 = map snd vars @ map (JStr \<circ> val) ts" by blast+
  show "dom (map_of vars1) \<subseteq> D \<union> names kind UNIV" using s old unfolding names_def by blast
  fix k j assume k: "Suc i \<le> k"
  then have "var_name kind k j \<noteq> var_name kind i l" for l by (simp add: var_name_inj)
  then show "var_name kind k j \<notin> dom (map_of vars1)" using s fresh [of k j] k by auto
qed

lemma add_field_clauses_spec:
  assumes "add_field_clauses test val kind i items vars = Inr (cs, vars')"
    and "\<And>k j. i \<le> k \<Longrightarrow> var_name kind k j \<notin> dom (map_of vars)" and "dom (map_of vars) \<subseteq> D"
    and eval: "\<And>w f v t. w v = Some (JStr (val t)) \<Longrightarrow> eval_clause cast w tags content (test f v) = Q f t"
  shows "map_of vars \<subseteq>\<^sub>m map_of vars' \<and> dom (map_of vars') \<subseteq> D \<union> names kind UNIV \<and>
    map snd vars' = map snd vars @ field_values val items \<and>
    (\<forall>w. map_of vars' \<subseteq>\<^sub>m w \<longrightarrow> list_all (eval_clause cast w tags content) cs = content_match Q items)"
  using assms(1-3)
proof (induction items arbitrary: i vars cs D)
  case Nil
  then show ?case by (auto simp: content_match_def field_values_def)
next
  case (Cons item items)
  obtain f terms where item: "item = (f, terms)" by (cases item)
  show ?case
  proof (cases "clean_terms terms = []")
    case True
    then have "add_field_clauses test val kind (Suc i) items vars = Inr (cs, vars')"
      using Cons.prems(1) item by (auto split: sum.splits)
    then have "map_of vars \<subseteq>\<^sub>m map_of vars' \<and> dom (map_of vars') \<subseteq> D \<union> names kind UNIV \<and>
      map snd vars' = map snd vars @ field_values val items \<and>
      (\<forall>w. map_of vars' \<subseteq>\<^sub>m w \<longrightarrow> list_all (eval_clause cast w tags content) cs = content_match Q items)"
      by (rule Cons.IH) (use Cons.prems(2,3) in auto)
    then show ?thesis using item True by (simp add: content_match_def field_values_def)
  next
    case False
    obtain ts vars1 where a: "add_terms (test f) val kind i 0 (clean_terms terms) vars = (ts, vars1)"
      by fastforce
    then obtain cs1 where cs: "add_field_clauses test val kind (Suc i) items vars1 = Inr (cs1, vars')" "cs = Any_clause ts # cs1"
      using Cons.prems(1) item False by (auto simp: Let_def split: sum.splits)
    note st = content_loop_step [OF a Cons.prems(2,3)]
    have ih: "map_of vars1 \<subseteq>\<^sub>m map_of vars' \<and> dom (map_of vars') \<subseteq> D \<union> names kind UNIV \<and>
      map snd vars' = map snd vars1 @ field_values val items \<and>
      (\<forall>w. map_of vars' \<subseteq>\<^sub>m w \<longrightarrow> list_all (eval_clause cast w tags content) cs1 = content_match Q items)"
      using Cons.IH [OF cs(1) st(3) st(2)] by auto
    have "list_all (eval_clause cast w tags content) cs = content_match Q (item # items)"
      if w: "map_of vars' \<subseteq>\<^sub>m w" for w
    proof -
      have "map_of vars1 \<subseteq>\<^sub>m w" using map_le_trans [OF ih [THEN conjunct1] w] .
      then have "list_ex (eval_clause cast w tags content) ts = list_ex (Q f) (clean_terms terms)"
        by (intro list_all2_tests [where test = "test f" and val = val and vars = "map_of vars1" and w = w])
          (use st(4) eval in blast)+
      then show ?thesis using ih w cs(2) item False by (simp add: content_match_def)
    qed
    moreover have "map snd vars' = map snd vars @ field_values val (item # items)"
      using ih st(5) item by (simp add: field_values_def)
    ultimately show ?thesis using ih map_le_trans [OF st(1)] by blast
  qed
qed

lemma add_string_search_spec:
  assumes "add_string_search_clause q flds vars = Inr (cs, vars')" and tags: "dom (map_of vars) \<subseteq> tag_vars"
  shows "map_of vars \<subseteq>\<^sub>m map_of vars' \<and>
    dom (map_of vars') \<subseteq> tag_vars \<union> names ''string_contains_'' UNIV \<union> names ''string_equals_'' UNIV \<and>
    map snd vars' = map snd vars @ string_values (clean_terms (sc_contains q)) (clean_terms (sc_equals q)) (dict_fromkeys (clean_terms flds)) \<and>
    (\<forall>w. map_of vars' \<subseteq>\<^sub>m w \<longrightarrow> list_all (eval_clause cast w tags content) cs = strings_match cast q flds content)"
proof (cases "clean_terms (sc_contains q) = [] \<and> clean_terms (sc_equals q) = []")
  case True
  then show ?thesis using assms by (auto simp: add_string_search_clause_def strings_match_def string_values_def)
next
  case False
  then obtain clean where clean: "clean_content_fields flds = Inr clean"
    using assms(1) by (auto simp: add_string_search_clause_def split: sum.splits)
  obtain ts where ts: "add_string_fields (clean_terms (sc_contains q)) (clean_terms (sc_equals q)) 0 clean vars = (ts, vars')"
      "cs = [Any_clause ts]"
    using assms(1) False clean by (auto simp: add_string_search_clause_def Let_def split: if_splits prod.splits)
  have keys: "clean = dict_fromkeys (clean_terms flds)"
    using clean by (auto simp: clean_content_fields_def Let_def split: sum.splits)
  then have set: "set clean = set (clean_terms flds)" by simp
  have "map_of vars \<subseteq>\<^sub>m map_of vars' \<and>
    dom (map_of vars') \<subseteq> dom (map_of vars) \<union> names ''string_contains_'' UNIV \<union> names ''string_equals_'' UNIV \<and>
    map snd vars' = map snd vars @ string_values (clean_terms (sc_contains q)) (clean_terms (sc_equals q)) clean \<and>
    (\<forall>w. map_of vars' \<subseteq>\<^sub>m w \<longrightarrow> list_ex (eval_clause cast w tags content) ts =
       list_ex (\<lambda>f. list_ex (term_test cast content f) (clean_terms (sc_contains q)) \<or>
         list_ex (value_test content f) (clean_terms (sc_equals q))) clean)"
    by (rule add_string_fields_spec [OF ts(1)]) (use tags var_name_not_tag in blast)
  moreover from this tags have "dom (map_of vars') \<subseteq> tag_vars \<union> names ''string_contains_'' UNIV \<union> names ''string_equals_'' UNIV"
    by blast
  ultimately show ?thesis
    using False unfolding ts(2) strings_match_def list_ex_iff [of _ clean] list_ex_iff [of _ "clean_terms flds"] set
      keys [symmetric] by auto
qed

section \<open>The text of a clause\<close>

text \<open>Letters, digits and the few signs the clauses are written with: no quote, no semicolon, no dash.\<close>

definition sql_char :: "char \<Rightarrow> bool" where
  "sql_char c \<longleftrightarrow> is_alpha c \<or> is_digit c \<or> c \<in> set '' _.$()<>=:,''"

lemma word_char_sql: "word_char c \<Longrightarrow> sql_char c"
  by (auto simp: word_char_def sql_char_def)

lemma sql_char_join: "list_all sql_char sep \<Longrightarrow> list_all (list_all sql_char) xs \<Longrightarrow> list_all sql_char (py_join sep xs)"
  by (induction sep xs rule: py_join.induct) auto

lemma field_test_chars: "field_test c \<Longrightarrow> list_all sql_char (clause_sql c)"
proof -
  assume c: "field_test c"
  have "list_all sql_char w" if "list_all word_char w" for w
    using that by (rule list.pred_mono_strong) (rule word_char_sql)
  moreover have "list_all sql_char ''string::contains(string::lowercase(<string>content.''" "list_all sql_char ''), $''"
      "list_all sql_char ''content.''" "list_all sql_char '' = $''" "sql_char (CHR '')'')"
    by (simp_all add: sql_char_def is_alpha_def is_digit_def code_def)
  ultimately show ?thesis using c by (cases c) simp_all
qed

lemma clause_sql_chars: "clause_ok c \<Longrightarrow> list_all sql_char (clause_sql c)"
proof (cases c)
  case (Any_clause cs)
  assume "clause_ok c"
  then have "list_all (list_all sql_char) (map clause_sql cs)"
    using Any_clause field_test_chars by (auto simp: list_all_iff)
  then have "list_all sql_char (py_join '' OR '' (map clause_sql cs))"
    by (intro sql_char_join) (simp_all add: sql_char_def is_alpha_def code_def)
  moreover have "sql_char CHR ''(''" "sql_char CHR '')''" by (simp_all add: sql_char_def)
  ultimately show ?thesis using Any_clause by simp
qed (simp_all add: sql_char_def is_alpha_def is_digit_def code_def)

lemma split_dots_chars: "set f \<subseteq> insert (CHR ''.'') (\<Union> (set ` set (split_dots f)))"
proof (induction f)
  case (Cons c cs)
  then show ?case by (cases "split_dots cs") auto
qed simp

lemma field_path_chars:
  assumes "is_field_path f" shows "list_all word_char f"
proof -
  have "word_char c" if "c \<in> set p" "is_identifier p" for c p
    using that by (cases p) (auto simp: is_identifier_def word_char_def list_all_iff)
  moreover have "word_char CHR ''.''" by (simp add: word_char_def)
  moreover have "c = CHR ''.'' \<or> (\<exists>p. c \<in> set p \<and> is_identifier p)" if "c \<in> set f" for c
    using assms split_dots_chars [of f] that unfolding is_field_path_def list_all_iff by blast
  ultimately show ?thesis unfolding list_all_iff by metis
qed

lemma var_name_chars: "list_all word_char kind \<Longrightarrow> list_all word_char (var_name kind i j)"
proof -
  assume kind: "list_all word_char kind"
  have "list_all word_char (py_str_nat n)" for n
    using py_str_nat_digits [of n] by (rule list.pred_mono_strong) (simp add: word_char_def)
  moreover have "word_char CHR ''_''" by (simp add: word_char_def)
  ultimately show ?thesis using kind by (simp add: var_name_def)
qed

lemma add_terms_ok:
  "add_terms test val kind i j ts vars = (cs, vars') \<Longrightarrow> (\<And>v. list_all word_char v \<Longrightarrow> field_test (test v)) \<Longrightarrow>
   list_all word_char kind \<Longrightarrow> list_all field_test cs \<and> length cs = length ts"
  by (induction ts arbitrary: j vars cs) (auto simp: Let_def var_name_chars split: prod.splits)

lemma add_field_clauses_ok:
  assumes "add_field_clauses test val kind i items vars = Inr (cs, vars')" "list_all word_char kind"
    and "\<And>f v. list_all word_char f \<Longrightarrow> list_all word_char v \<Longrightarrow> field_test (test f v)"
  shows "list_all clause_ok cs"
  using assms(1)
proof (induction items arbitrary: i vars cs)
  case (Cons item items)
  obtain f terms where item: "item = (f, terms)" by (cases item)
  with Cons.prems have f: "list_all word_char f"
    by (auto simp: validate_content_field_def intro: field_path_chars split: if_splits)
  obtain ts vars1 where a: "add_terms (test f) val kind i 0 (clean_terms terms) vars = (ts, vars1)" by fastforce
  have "list_all field_test ts \<and> length ts = length (clean_terms terms)"
    by (rule add_terms_ok [OF a]) (use f assms in auto)
  then show ?case
    using Cons.prems Cons.IH item a by (auto simp: Let_def split: sum.splits if_splits)
qed simp

lemma add_string_fields_ok:
  "add_string_fields contains equals i fs vars = (cs, vars') \<Longrightarrow> list_all (list_all word_char) fs \<Longrightarrow>
   list_all field_test cs \<and> length cs = length fs * (length contains + length equals)"
proof (induction fs arbitrary: i vars cs)
  case (Cons f fs)
  have kinds: "list_all word_char ''string_contains_''" "list_all word_char ''string_equals_''"
    by (simp_all add: word_char_def is_alpha_def code_def)
  obtain c1 v1 where a1: "add_terms (Contains f) py_lower ''string_contains_'' i 0 contains vars = (c1, v1)" by fastforce
  obtain c2 v2 where a2: "add_terms (Equals f) (\<lambda>v. v) ''string_equals_'' i 0 equals v1 = (c2, v2)" by fastforce
  have "list_all field_test c1 \<and> length c1 = length contains"
    by (rule add_terms_ok [OF a1]) (use Cons.prems kinds in auto)
  moreover have "list_all field_test c2 \<and> length c2 = length equals"
    by (rule add_terms_ok [OF a2]) (use Cons.prems kinds in auto)
  ultimately show ?case using Cons a1 a2 by (auto split: prod.splits)
qed simp

lemma validate_fields_ok: "validate_fields fs = Inr u \<Longrightarrow> list_all (list_all word_char) fs"
  by (induction fs) (auto simp: validate_content_field_def intro: field_path_chars split: sum.splits if_splits)

lemma add_string_search_ok:
  assumes "add_string_search_clause q flds vars = Inr (cs, vars')" shows "list_all clause_ok cs"
proof (cases "clean_terms (sc_contains q) = [] \<and> clean_terms (sc_equals q) = []")
  case True
  then show ?thesis using assms by (auto simp: add_string_search_clause_def)
next
  case False
  then obtain clean where clean: "clean_content_fields flds = Inr clean" "clean \<noteq> []"
    using assms by (auto simp: add_string_search_clause_def split: sum.splits if_splits)
  obtain ts where ts: "add_string_fields (clean_terms (sc_contains q)) (clean_terms (sc_equals q)) 0 clean vars = (ts, vars')"
      "cs = [Any_clause ts]"
    using assms False clean by (auto simp: add_string_search_clause_def Let_def split: if_splits prod.splits)
  have "list_all (list_all word_char) clean"
    using clean(1) by (auto simp: clean_content_fields_def Let_def split: sum.splits dest: validate_fields_ok)
  then have "list_all field_test ts \<and>
      length ts = length clean * (length (clean_terms (sc_contains q)) + length (clean_terms (sc_equals q)))"
    by (rule add_string_fields_ok [OF ts(1)])
  then have "list_all field_test ts \<and> ts \<noteq> []" using False clean(2) by auto
  then show ?thesis using ts(2) by simp
qed

section \<open>Reading the text back\<close>

text \<open>The tokens and the expression of a clause; the parser gives the second for the first.\<close>

abbreviation call_token :: "string \<Rightarrow> sql_token list \<Rightarrow> sql_token list" where
  "call_token f ts \<equiv> Tk_word f # Tk_sign (CHR ''('') # ts @ [Tk_sign (CHR '')'')]"

fun join_tokens :: "string \<Rightarrow> sql_token list list \<Rightarrow> sql_token list" where
  "join_tokens w [] = []"
| "join_tokens w [x] = x"
| "join_tokens w (x # xs) = x @ Tk_word w # join_tokens w xs"

definition intersect_tokens :: "string \<Rightarrow> sql_token list" where
  "intersect_tokens v =
     call_token ''array::len'' (call_token ''array::intersect'' [Tk_word ''tags'', Tk_sign (CHR '',''), Tk_word (CHR ''$'' # v)])"

fun clause_tokens :: "clause \<Rightarrow> sql_token list" where
  "clause_tokens Tag_any = intersect_tokens ''tag_any_of'' @ [Tk_sign (CHR ''>''), Tk_word ''0'']"
| "clause_tokens Tag_all =
     intersect_tokens ''tag_all_of'' @ Tk_sign (CHR ''='') # call_token ''array::len'' [Tk_word ''$tag_all_of'']"
| "clause_tokens Tag_none = intersect_tokens ''tag_none_of'' @ [Tk_sign (CHR ''=''), Tk_word ''0'']"
| "clause_tokens (Contains f v) =
     call_token ''string::contains''
       (call_token ''string::lowercase''
          [Tk_sign (CHR ''<''), Tk_word ''string'', Tk_sign (CHR ''>''), Tk_word (''content.'' @ f)] @
        [Tk_sign (CHR '',''), Tk_word (CHR ''$'' # v)])"
| "clause_tokens (Equals f v) = [Tk_word (''content.'' @ f), Tk_sign (CHR ''=''), Tk_word (CHR ''$'' # v)]"
| "clause_tokens (Any_clause cs) =
     Tk_sign (CHR ''('') # join_tokens ''OR'' (map clause_tokens cs) @ [Tk_sign (CHR '')'')]"

definition intersect_expr :: "string \<Rightarrow> sql_expr" where
  "intersect_expr v = Sql_call ''array::len'' [Sql_call ''array::intersect'' [Sql_name ''tags'', Sql_name (CHR ''$'' # v)]]"

fun join_expr :: "(sql_expr \<Rightarrow> sql_expr \<Rightarrow> sql_expr) \<Rightarrow> sql_expr list \<Rightarrow> sql_expr" where
  "join_expr f [] = Sql_number 0"
| "join_expr f [x] = x"
| "join_expr f (x # xs) = f x (join_expr f xs)"

fun clause_expr :: "clause \<Rightarrow> sql_expr" where
  "clause_expr Tag_any = Sql_compare (CHR ''>'') (intersect_expr ''tag_any_of'') (Sql_number 0)"
| "clause_expr Tag_all =
     Sql_compare (CHR ''='') (intersect_expr ''tag_all_of'') (Sql_call ''array::len'' [Sql_name ''$tag_all_of''])"
| "clause_expr Tag_none = Sql_compare (CHR ''='') (intersect_expr ''tag_none_of'') (Sql_number 0)"
| "clause_expr (Contains f v) =
     Sql_call ''string::contains''
       [Sql_call ''string::lowercase'' [Sql_cast (Sql_name (''content.'' @ f))], Sql_name (CHR ''$'' # v)]"
| "clause_expr (Equals f v) = Sql_compare (CHR ''='') (Sql_name (''content.'' @ f)) (Sql_name (CHR ''$'' # v))"
| "clause_expr (Any_clause cs) = join_expr Sql_or (map clause_expr cs)"

definition word_ends :: "string \<Rightarrow> bool" where
  "word_ends s \<longleftrightarrow> s = [] \<or> \<not> word_char (hd s)"

lemma word_ends_while: "word_ends s \<Longrightarrow> takeWhile word_char s = [] \<and> dropWhile word_char s = s"
  by (cases s) (auto simp: word_ends_def)

lemma while_words:
  "list_all word_char w \<Longrightarrow> takeWhile word_char (w @ s) = w @ takeWhile word_char s"
  "list_all word_char w \<Longrightarrow> dropWhile word_char (w @ s) = dropWhile word_char s"
  by (simp_all add: list_all_iff)

lemmas lex_simps = while_words word_ends_while word_char_def is_alpha_def is_digit_def code_def

lemma field_test_tokens:
  assumes "field_test c" "word_ends s"
  shows "sql_tokens (clause_sql c @ s) = clause_tokens c @ sql_tokens s"
  using assms by (cases c) (simp_all add: lex_simps)

lemma join_clause_tokens:
  assumes "\<And>c s. c \<in> set cs \<Longrightarrow> word_ends s \<Longrightarrow> sql_tokens (clause_sql c @ s) = clause_tokens c @ sql_tokens s"
    and "list_all word_char w" "w \<noteq> []" "word_ends s"
  shows "sql_tokens (py_join (CHR '' '' # w @ '' '') (map clause_sql cs) @ s) =
    join_tokens w (map clause_tokens cs) @ sql_tokens s"
  using assms(1)
proof (induction cs rule: induct_list012)
  case (3 c d cs)
  have "\<not> word_char CHR '' ''" by (simp add: word_char_def is_alpha_def is_digit_def code_def)
  then have word: "sql_tokens (CHR '' '' # w @ CHR '' '' # r) = Tk_word w # sql_tokens r" for r
    using assms(2,3) by (cases w) (auto simp: while_words)
  have "word_ends (CHR '' '' # r)" for r
    using \<open>\<not> word_char CHR '' ''\<close> by (simp add: word_ends_def)
  then show ?case using 3 word by simp
qed (use assms(4) in auto)

lemma clause_ok_tokens:
  assumes "clause_ok c" "word_ends s"
  shows "sql_tokens (clause_sql c @ s) = clause_tokens c @ sql_tokens s"
proof (cases c)
  case (Any_clause cs)
  have "sql_tokens (py_join (CHR '' '' # ''OR'' @ '' '') (map clause_sql cs) @ CHR '')'' # s) =
      join_tokens ''OR'' (map clause_tokens cs) @ sql_tokens (CHR '')'' # s)"
    by (rule join_clause_tokens)
      (use assms Any_clause field_test_tokens in \<open>auto simp: list_all_iff lex_simps word_ends_def\<close>)
  then show ?thesis using Any_clause by (simp add: lex_simps)
qed (use assms in \<open>simp_all add: lex_simps intersect_tokens_def\<close>)

text \<open>A test is read up to its end, whatever follows, when that is no sign that continues it.\<close>

definition test_ends :: "sql_token list \<Rightarrow> bool" where
  "test_ends r \<longleftrightarrow> r = [] \<or> hd r \<notin> {Tk_sign (CHR ''(''), Tk_sign (CHR ''=''), Tk_sign (CHR ''>'')}"

definition list_ends :: "sql_token list \<Rightarrow> bool" where
  "list_ends r \<longleftrightarrow> test_ends r \<and> (r = [] \<or> hd r \<notin> {Tk_word ''AND'', Tk_word ''OR''})"

lemmas parse_simps = eval_nat_numeral sql_word_def is_digit_def code_def

lemma parse_field_test:
  "field_test c \<Longrightarrow> test_ends r \<Longrightarrow> parse_compare (n + 8) (clause_tokens c @ r) = Some (clause_expr c, r)"
  by (cases c) (auto simp: parse_simps test_ends_def)

lemma parse_tag_test:
  assumes "test_ends r"
  shows "parse_compare (n + 8) (clause_tokens Tag_any @ r) = Some (clause_expr Tag_any, r)"
    and "parse_compare (n + 8) (clause_tokens Tag_all @ r) = Some (clause_expr Tag_all, r)"
    and "parse_compare (n + 8) (clause_tokens Tag_none @ r) = Some (clause_expr Tag_none, r)"
  using assms by (auto simp: parse_simps test_ends_def intersect_tokens_def intersect_expr_def)

lemma parse_or_list:
  assumes "cs \<noteq> []" "list_all field_test cs" "list_ends r"
  shows "parse_or (n + 10 + length cs) (join_tokens ''OR'' (map clause_tokens cs) @ r) =
    Some (join_expr Sql_or (map clause_expr cs), r)"
  using assms(1,2)
proof (induction cs arbitrary: n rule: induct_list012)
  case (2 c)
  have "parse_compare (n + 1 + 8) (clause_tokens c @ r) = Some (clause_expr c, r)"
    using 2 assms(3) by (intro parse_field_test) (simp_all add: list_ends_def)
  then show ?case using assms(3) by (auto simp: eval_nat_numeral list_ends_def)
next
  case (3 c d cs)
  let ?r = "Tk_word ''OR'' # join_tokens ''OR'' (map clause_tokens (d # cs)) @ r"
  have "parse_compare (n + 2 + length cs + 8) (clause_tokens c @ ?r) = Some (clause_expr c, ?r)"
    using 3 by (intro parse_field_test) (simp_all add: test_ends_def)
  moreover have "parse_or (n + 10 + length (d # cs)) (join_tokens ''OR'' (map clause_tokens (d # cs)) @ r) =
      Some (join_expr Sql_or (map clause_expr (d # cs)), r)"
    by (rule 3) (use 3 in simp_all)
  ultimately show ?case by (simp add: eval_nat_numeral)
qed simp

fun clause_width :: "clause \<Rightarrow> nat" where
  "clause_width (Any_clause cs) = length cs"
| "clause_width c = 0"

lemma parse_clause:
  assumes "clause_ok c" "test_ends r"
  shows "parse_compare (n + 12 + clause_width c) (clause_tokens c @ r) = Some (clause_expr c, r)"
proof (cases c)
  case (Any_clause cs)
  have "parse_or (n + 10 + length cs) (join_tokens ''OR'' (map clause_tokens cs) @ Tk_sign (CHR '')'') # r) =
      Some (join_expr Sql_or (map clause_expr cs), Tk_sign (CHR '')'') # r)"
    by (rule parse_or_list) (use assms Any_clause in \<open>auto simp: list_ends_def test_ends_def\<close>)
  then show ?thesis using Any_clause assms(2) by (auto simp: eval_nat_numeral test_ends_def)
qed (use assms parse_tag_test [OF assms(2), of "n + 4"] in \<open>simp_all add: add.commute del: clause_tokens.simps clause_expr.simps\<close>)

lemma parse_and_list:
  assumes "cs \<noteq> []" "list_all clause_ok cs"
  shows "parse_and (n + 13 + length cs + sum_list (map clause_width cs)) (join_tokens ''AND'' (map clause_tokens cs)) =
    Some (join_expr Sql_and (map clause_expr cs), [])"
  using assms
proof (induction cs arbitrary: n rule: induct_list012)
  case (2 c)
  have "parse_compare (n + 1 + 12 + clause_width c) (clause_tokens c @ []) = Some (clause_expr c, [])"
    using 2 by (intro parse_clause) (simp_all add: test_ends_def)
  then show ?case by (simp add: eval_nat_numeral)
next
  case (3 c d cs)
  let ?r = "Tk_word ''AND'' # join_tokens ''AND'' (map clause_tokens (d # cs))"
  let ?w = "sum_list (map clause_width (d # cs))"
  let ?n = "n + 14 + length cs + clause_width c + ?w"
  have "n + 2 + length cs + ?w + 12 + clause_width c = ?n" "n + clause_width c + 13 + length (d # cs) + ?w = ?n" by simp_all
  moreover have "parse_compare (n + 2 + length cs + ?w + 12 + clause_width c) (clause_tokens c @ ?r) = Some (clause_expr c, ?r)"
    by (rule parse_clause) (use 3 in \<open>simp_all add: test_ends_def\<close>)
  moreover have "parse_and (n + clause_width c + 13 + length (d # cs) + ?w) (join_tokens ''AND'' (map clause_tokens (d # cs))) =
      Some (join_expr Sql_and (map clause_expr (d # cs)), [])"
    by (rule 3) (use 3 in simp_all)
  ultimately have "parse_compare ?n (clause_tokens c @ ?r) = Some (clause_expr c, ?r)"
    "parse_and ?n (join_tokens ''AND'' (map clause_tokens (d # cs))) = Some (join_expr Sql_and (map clause_expr (d # cs)), [])"
    by (simp_all only:)
  moreover have "n + 13 + length (c # d # cs) + sum_list (map clause_width (c # d # cs)) = Suc ?n" by simp
  ultimately show ?case by (simp only: parse_and.simps) simp
qed simp

lemma clause_tokens_length: "clause_ok c \<Longrightarrow> 2 + clause_width c \<le> length (clause_tokens c)"
proof (cases c)
  case (Any_clause cs)
  have "length xs \<le> length (join_tokens w xs)" if "[] \<notin> set xs" for w xs
    using that by (induction w xs rule: join_tokens.induct) (auto simp: Suc_le_eq)
  from this [of "map clause_tokens cs" "''OR''"]
  have len: "[] \<notin> set (map clause_tokens cs) \<Longrightarrow> length cs \<le> length (join_tokens ''OR'' (map clause_tokens cs))"
    by simp
  have "clause_tokens d \<noteq> []" if "field_test d" for d using that by (cases d) auto
  moreover assume "clause_ok c"
  ultimately have "[] \<notin> set (map clause_tokens cs)" using Any_clause by (force simp: list_all_iff)
  then show ?thesis using Any_clause len by simp
qed (simp_all add: intersect_tokens_def)

lemma join_tokens_length:
  "list_all clause_ok cs \<Longrightarrow>
   2 * length cs + sum_list (map clause_width cs) \<le> length (join_tokens ''AND'' (map clause_tokens cs))"
proof (induction cs rule: induct_list012)
  case (2 c)
  then show ?case using clause_tokens_length [of c] by simp
next
  case (3 c d cs)
  then show ?case using clause_tokens_length [of c] by simp
qed simp

text \<open>The round trip: the text of the clauses is read back as the conjunction of their expressions.\<close>

lemma parse_where_clauses:
  assumes "cs \<noteq> []" "list_all clause_ok cs"
  shows "parse_where (''WHERE '' @ py_join '' AND '' (map clause_sql cs)) = Some (join_expr Sql_and (map clause_expr cs))"
proof -
  let ?ts = "join_tokens ''AND'' (map clause_tokens cs)"
  have "sql_tokens (py_join (CHR '' '' # ''AND'' @ '' '') (map clause_sql cs) @ []) = ?ts @ sql_tokens []"
    by (rule join_clause_tokens)
      (use assms clause_ok_tokens in \<open>auto simp: list_all_iff lex_simps word_ends_def\<close>)
  then have tokens: "sql_tokens (''WHERE '' @ py_join '' AND '' (map clause_sql cs)) = Tk_word ''WHERE'' # ?ts"
    by (simp add: lex_simps)
  define n where "n = 8 * length ?ts + 8 - (14 + length cs + sum_list (map clause_width cs))"
  have "14 + length cs + sum_list (map clause_width cs) \<le> 8 * length ?ts + 8"
    using join_tokens_length [OF assms(2)] assms(1) by (cases cs) auto
  then have n: "8 * length ?ts + 8 = Suc (n + 13 + length cs + sum_list (map clause_width cs))"
    unfolding n_def by linarith
  have "parse_or (8 * length ?ts + 8) ?ts = Some (join_expr Sql_and (map clause_expr cs), [])"
    unfolding n parse_or.simps parse_and_list [OF assms, of n] by simp
  then show ?thesis by (simp only: parse_where_def tokens) simp
qed

lemma sql_true_join:
  "xs \<noteq> [] \<Longrightarrow> sql_true (sql_value cast w row (join_expr Sql_or xs)) = list_ex (\<lambda>x. sql_true (sql_value cast w row x)) xs"
  "xs \<noteq> [] \<Longrightarrow> sql_true (sql_value cast w row (join_expr Sql_and xs)) = list_all (\<lambda>x. sql_true (sql_value cast w row x)) xs"
  by (induction xs rule: induct_list012) (auto simp: sql_true_def)

lemma array_intersect_map: "inj f \<Longrightarrow> array_intersect (map f xs) (map f ys) = map f (array_intersect xs ys)"
proof (induction xs arbitrary: ys)
  case (Cons x xs)
  then have "remove1 (f x) (map f ys) = map f (remove1 x ys)" by (induction ys) (auto simp: inj_def)
  then show ?case using Cons by (auto simp: inj_image_mem_iff)
qed simp

lemma row_fields [simp]:
  "obj_get (sql_row tags content) ''tags'' = Some (jlist tags)"
  "obj_get (sql_row tags content) ''content'' = Some content"
  by (simp_all add: sql_row_def obj_get_def)

lemma intersect_value:
  "w v = Some (jlist xs) \<Longrightarrow>
   sql_value cast w (sql_row tags content) (intersect_expr v) = Some (JInt (int (length (array_intersect tags xs))))"
  using array_intersect_map [of JStr tags xs] by (simp add: intersect_expr_def jlist_def inj_def)

lemma field_test_value:
  "field_test c \<Longrightarrow> sql_true (sql_value cast w (sql_row tags content) (clause_expr c)) = eval_clause cast w tags content c"
  by (cases c) (auto simp: sql_true_def content_field_def split: option.splits json.splits)

lemma clause_value:
  assumes "clause_ok c" "clause_bound w c"
  shows "sql_true (sql_value cast w (sql_row tags content) (clause_expr c)) = eval_clause cast w tags content c"
proof (cases c)
  case (Any_clause cs)
  then have "list_ex (\<lambda>x. sql_true (sql_value cast w (sql_row tags content) (clause_expr x))) cs =
      list_ex (eval_clause cast w tags content) cs"
    using assms(1) field_test_value by (auto simp: list_ex_iff list_all_iff)
  then show ?thesis using Any_clause assms(1) by (simp add: sql_true_join list_ex_iff)
next
  case Tag_all
  then obtain xs where xs: "w ''tag_all_of'' = Some (jlist xs)" using assms(2) by auto
  then have "sql_apply ''array::len'' [w ''tag_all_of''] = Some (JInt (int (length xs)))"
    by (simp add: jlist_def)
  then show ?thesis using Tag_all xs by (simp add: intersect_value sql_true_def)
qed (use assms in \<open>auto simp: intersect_value sql_true_def sql_greater_def\<close>)

section \<open>Names and empty clauses\<close>

fun any_clause :: "clause \<Rightarrow> bool" where
  "any_clause (Any_clause cs) = True"
| "any_clause c = False"

lemma any_clause_bound: "any_clause c \<Longrightarrow> clause_bound w c"
  by (cases c) auto

lemma add_field_clauses_any:
  "add_field_clauses test val kind i items vars = Inr (cs, vars') \<Longrightarrow> list_all any_clause cs"
  by (induction test val kind i items vars arbitrary: cs rule: add_field_clauses.induct)
    (auto simp: Let_def split: sum.splits if_splits prod.splits)

lemma add_string_search_any: "add_string_search_clause q flds vars = Inr (cs, vars') \<Longrightarrow> list_all any_clause cs"
  by (auto simp: add_string_search_clause_def Let_def split: sum.splits if_splits prod.splits)

lemma no_field_clauses: "add_field_clauses test val kind i items vars = Inr ([], vars') \<Longrightarrow> vars' = vars"
  by (induction test val kind i items vars rule: add_field_clauses.induct)
    (auto simp: Let_def split: sum.splits if_splits prod.splits)

lemma add_terms_distinct:
  "add_terms test val kind i j ts vars = (cs, vars') \<Longrightarrow> distinct (map fst vars) \<Longrightarrow> distinct (map fst vars')"
  by (induction ts arbitrary: j vars cs) (auto simp: Let_def set_var_distinct split: prod.splits)

lemma add_field_clauses_distinct:
  "add_field_clauses test val kind i items vars = Inr (cs, vars') \<Longrightarrow> distinct (map fst vars) \<Longrightarrow> distinct (map fst vars')"
  by (induction test val kind i items vars arbitrary: cs rule: add_field_clauses.induct)
    (auto simp: Let_def add_terms_distinct split: sum.splits if_splits prod.splits)

lemma add_string_fields_distinct:
  "add_string_fields contains equals i fs vars = (cs, vars') \<Longrightarrow> distinct (map fst vars) \<Longrightarrow> distinct (map fst vars')"
  by (induction contains equals i fs vars arbitrary: cs rule: add_string_fields.induct)
    (fastforce dest: add_terms_distinct split: prod.splits)+

section \<open>Properties\<close>

text \<open>The four stages of a clause that is built.\<close>

lemma where_stages:
  assumes Inr: "build_memory_node_where (Some q) = Inr p"
  obtains c1 v1 c2 v2 c3 v3 c4 v4 where "add_tag_clauses (nq_tags q) [] = (c1, v1)"
    "add_string_search_clause (nq_strings q) (nq_string_fields q) v1 = Inr (c2, v2)"
    "add_field_clauses Contains py_lower ''content_term_'' 0 (nq_content_contains q) v2 = Inr (c3, v3)"
    "add_field_clauses Equals (\<lambda>v. v) ''content_value_'' 0 (nq_content_equals q) v3 = Inr (c4, v4)"
    "p = (if c1 @ c2 @ c3 @ c4 = [] then \<lparr> qp_where_sql = [], qp_variables = [] \<rparr>
        else \<lparr> qp_where_sql = ''WHERE '' @ py_join '' AND '' (map clause_sql (c1 @ c2 @ c3 @ c4)),
               qp_variables = v4 \<rparr>)"
proof -
  obtain c1 v1 where a1: "add_tag_clauses (nq_tags q) [] = (c1, v1)" by fastforce
  obtain c2 v2 where a2: "add_string_search_clause (nq_strings q) (nq_string_fields q) v1 = Inr (c2, v2)"
    using Inr a1 by (auto simp: build_memory_node_where_def split: sum.splits)
  obtain c3 v3 where a3: "add_field_clauses Contains py_lower ''content_term_'' 0 (nq_content_contains q) v2 = Inr (c3, v3)"
    using Inr a1 a2 by (auto simp: build_memory_node_where_def add_content_clauses_def split: sum.splits)
  obtain c4 v4 where a4: "add_field_clauses Equals (\<lambda>v. v) ''content_value_'' 0 (nq_content_equals q) v3 = Inr (c4, v4)"
    using Inr a1 a2 a3
    by (auto simp: build_memory_node_where_def add_content_clauses_def add_content_equals_clauses_def split: sum.splits)
  have p: "p = (if c1 @ c2 @ c3 @ c4 = [] then \<lparr> qp_where_sql = [], qp_variables = [] \<rparr>
      else \<lparr> qp_where_sql = ''WHERE '' @ py_join '' AND '' (map clause_sql (c1 @ c2 @ c3 @ c4)),
             qp_variables = v4 \<rparr>)"
    using Inr a1 a2 a3 a4
    by (simp add: build_memory_node_where_def add_content_clauses_def add_content_equals_clauses_def Let_def)
  then show thesis by (rule that [OF a1 a2 a3 a4])
qed

lemma where_error:
  assumes "build_memory_node_where (Some q) = Inl e"
  shows "(\<exists>f. e = ValueError (''invalid content field path: '' @ py_repr f)) \<or>
    e = ValueError ''string search requires at least one searchable content field''"
proof -
  obtain c1 v1 where a1: "add_tag_clauses (nq_tags q) [] = (c1, v1)" by fastforce
  have err: "validate_fields fs = Inl e \<Longrightarrow> \<exists>f. e = ValueError (''invalid content field path: '' @ py_repr f)" for fs e
    by (induction fs) (auto simp: validate_content_field_def split: if_splits)
  have err2: "add_field_clauses test val kind i items vars = Inl e \<Longrightarrow>
      \<exists>f. e = ValueError (''invalid content field path: '' @ py_repr f)" for test val kind i items vars e
    by (induction items arbitrary: i vars)
      (auto simp: validate_content_field_def Let_def split: if_splits prod.splits sum.splits)
  show ?thesis
    using assms a1 err err2
    by (fastforce simp: build_memory_node_where_def add_string_search_clause_def clean_content_fields_def
        add_content_clauses_def add_content_equals_clauses_def Let_def split: sum.splits prod.splits if_splits)
qed

lemma clauses_ok:
  assumes a1: "add_tag_clauses t [] = (c1, v1)" and a2: "add_string_search_clause q flds v1 = Inr (c2, v2)"
    and a3: "add_field_clauses Contains py_lower ''content_term_'' 0 xs v2 = Inr (c3, v3)"
    and a4: "add_field_clauses Equals (\<lambda>v. v) ''content_value_'' 0 ys v3 = Inr (c4, v4)"
    and w: "map_of v1 \<subseteq>\<^sub>m w"
  shows "list_all clause_ok (c1 @ c2 @ c3 @ c4) \<and> list_all (clause_bound w) (c1 @ c2 @ c3 @ c4)"
proof -
  have kinds: "list_all word_char ''content_term_''" "list_all word_char ''content_value_''"
    by (simp_all add: word_char_def is_alpha_def code_def)
  have "list_all clause_ok c1" "list_all (clause_bound w) c1" using add_tag_clauses_spec [OF a1] w by blast+
  moreover have "list_all clause_ok c2" "list_all any_clause c2"
    using add_string_search_ok [OF a2] add_string_search_any [OF a2] .
  moreover have "list_all clause_ok c3" "list_all any_clause c3"
    using add_field_clauses_ok [OF a3 kinds(1)] add_field_clauses_any [OF a3] by simp_all
  moreover have "list_all clause_ok c4" "list_all any_clause c4"
    using add_field_clauses_ok [OF a4 kinds(2)] add_field_clauses_any [OF a4] by simp_all
  ultimately show ?thesis using any_clause_bound by (auto simp: list_all_iff)
qed

lemma no_clauses:
  assumes "add_tag_clauses t [] = (c1, v1)" "add_string_search_clause q flds v1 = Inr (c2, v2)"
    and "add_field_clauses Contains py_lower ''content_term_'' 0 xs v2 = Inr (c3, v3)"
    and "add_field_clauses Equals (\<lambda>v. v) ''content_value_'' 0 ys v3 = Inr (c4, v4)"
  shows "c1 @ c2 @ c3 @ c4 = [] \<Longrightarrow> v4 = []"
proof -
  assume "c1 @ c2 @ c3 @ c4 = []"
  then have "v1 = []" "v2 = v1" "v3 = v2" "v4 = v3"
    using assms no_field_clauses
    by (auto simp: add_tag_clauses_def add_string_search_clause_def Let_def split: if_splits sum.splits prod.splits)
  then show ?thesis by simp
qed

lemma clause_list_chars:
  assumes "list_all clause_ok cs"
  shows "list_all sql_char (''WHERE '' @ py_join '' AND '' (map clause_sql cs))"
proof -
  have "list_all sql_char '' AND ''" "list_all sql_char ''WHERE ''" by (simp_all add: sql_char_def is_alpha_def code_def)
  moreover have "list_all (list_all sql_char) (map clause_sql cs)"
    using assms clause_sql_chars by (auto simp: list_all_iff)
  ultimately show ?thesis using sql_char_join by simp
qed

lemma clause_list_holds:
  assumes "list_all clause_ok cs" "list_all (clause_bound (map_of vars)) cs" "cs \<noteq> []"
  shows "where_holds cast \<lparr> qp_where_sql = ''WHERE '' @ py_join '' AND '' (map clause_sql cs), qp_variables = vars \<rparr> tags content
    = list_all (eval_clause cast (map_of vars) tags content) cs"
proof -
  have "list_all (\<lambda>c. sql_true (sql_value cast (map_of vars) (sql_row tags content) (clause_expr c))) cs =
      list_all (eval_clause cast (map_of vars) tags content) cs"
    using assms clause_value by (auto simp: list_all_iff)
  then show ?thesis
    using parse_where_clauses [OF assms(3,1)] assms(3)
    by (simp add: where_holds_def sql_true_join list.pred_map comp_def)
qed

lemma where_meaning:
  assumes "build_memory_node_where (Some q) = Inr p"
  shows "where_holds cast p tags content = search_matches cast q tags content \<and>
    map snd (qp_variables p) = search_values q \<and> list_all sql_char (qp_where_sql p)"
  using assms
proof (rule where_stages)
  fix c1 v1 c2 v2 c3 v3 c4 v4
  assume a1: "add_tag_clauses (nq_tags q) [] = (c1, v1)"
    and a2: "add_string_search_clause (nq_strings q) (nq_string_fields q) v1 = Inr (c2, v2)"
    and a3: "add_field_clauses Contains py_lower ''content_term_'' 0 (nq_content_contains q) v2 = Inr (c3, v3)"
    and a4: "add_field_clauses Equals (\<lambda>v. v) ''content_value_'' 0 (nq_content_equals q) v3 = Inr (c4, v4)"
    and p: "p = (if c1 @ c2 @ c3 @ c4 = [] then \<lparr> qp_where_sql = [], qp_variables = [] \<rparr>
        else \<lparr> qp_where_sql = ''WHERE '' @ py_join '' AND '' (map clause_sql (c1 @ c2 @ c3 @ c4)),
               qp_variables = v4 \<rparr>)"
  note s1 = add_tag_clauses_spec [OF a1, of cast tags content]
  note s2 = add_string_search_spec [OF a2 s1 [THEN conjunct1], of cast tags content]
  let ?D2 = "tag_vars \<union> names ''string_contains_'' UNIV \<union> names ''string_equals_'' UNIV"
  have s3: "map_of v2 \<subseteq>\<^sub>m map_of v3 \<and> dom (map_of v3) \<subseteq> ?D2 \<union> names ''content_term_'' UNIV \<and>
      map snd v3 = map snd v2 @ field_values py_lower (nq_content_contains q) \<and>
      (\<forall>w. map_of v3 \<subseteq>\<^sub>m w \<longrightarrow> list_all (eval_clause cast w tags content) c3 =
         content_match (term_test cast content) (nq_content_contains q))"
  proof (rule add_field_clauses_spec [OF a3])
    show "var_name ''content_term_'' k j \<notin> dom (map_of v2)" for k j
    proof
      assume "var_name ''content_term_'' k j \<in> dom (map_of v2)"
      then have "var_name ''content_term_'' k j \<in> ?D2" using s2 by blast
      then show False by (auto simp: names_def)
    qed
  qed (use s2 in \<open>auto simp: term_test_def\<close>)
  have s4: "map_of v3 \<subseteq>\<^sub>m map_of v4 \<and> dom (map_of v4) \<subseteq> ?D2 \<union> names ''content_term_'' UNIV \<union> names ''content_value_'' UNIV \<and>
      map snd v4 = map snd v3 @ field_values (\<lambda>v. v) (nq_content_equals q) \<and>
      (\<forall>w. map_of v4 \<subseteq>\<^sub>m w \<longrightarrow> list_all (eval_clause cast w tags content) c4 =
         content_match (value_test content) (nq_content_equals q))"
  proof (rule add_field_clauses_spec [OF a4])
    show "var_name ''content_value_'' k j \<notin> dom (map_of v3)" for k j
    proof
      assume "var_name ''content_value_'' k j \<in> dom (map_of v3)"
      then have "var_name ''content_value_'' k j \<in> ?D2 \<union> names ''content_term_'' UNIV" using s3 by blast
      then show False by (auto simp: names_def) (metis var_name_kinds(2))
    qed
  qed (use s3 in \<open>auto simp: value_test_def\<close>)
  let ?w = "map_of v4"
  have w3: "map_of v3 \<subseteq>\<^sub>m ?w" using s4 by (rule conjunct1)
  have w2: "map_of v2 \<subseteq>\<^sub>m ?w" using map_le_trans [OF s3 [THEN conjunct1] w3] .
  have w1: "map_of v1 \<subseteq>\<^sub>m ?w" using map_le_trans [OF s2 [THEN conjunct1] w2] .
  let ?cs = "c1 @ c2 @ c3 @ c4"
  have tree: "list_all (eval_clause cast ?w tags content) ?cs = search_matches cast q tags content"
    unfolding search_matches_def list_all_append
    using s1 [THEN conjunct2, THEN conjunct2, THEN conjunct2, THEN conjunct2, rule_format, OF w1]
      s2 [THEN conjunct2, THEN conjunct2, THEN conjunct2, rule_format, OF w2]
      s3 [THEN conjunct2, THEN conjunct2, THEN conjunct2, rule_format, OF w3]
      s4 [THEN conjunct2, THEN conjunct2, THEN conjunct2, rule_format, OF map_le_refl] by simp
  have ok: "list_all clause_ok ?cs" and bound: "list_all (clause_bound ?w) ?cs"
    using clauses_ok [OF a1 a2 a3 a4 w1] by blast+
  have "map snd v4 = search_values q" unfolding search_values_def using s1 s2 s3 s4 by simp
  moreover have "where_holds cast p tags content = search_matches cast q tags content"
  proof (cases "?cs = []")
    case True
    then show ?thesis using tree p by (simp add: where_holds_def)
  next
    case False
    then show ?thesis unfolding tree [symmetric] p if_not_P [OF False] by (rule clause_list_holds [OF ok bound])
  qed
  moreover have "list_all sql_char (qp_where_sql p)" unfolding p using clause_list_chars [OF ok] by simp
  ultimately show "where_holds cast p tags content = search_matches cast q tags content \<and>
      map snd (qp_variables p) = search_values q \<and> list_all sql_char (qp_where_sql p)"
    unfolding p using no_clauses [OF a1 a2 a3 a4] by (auto split: if_splits)
qed

lemma where_distinct:
  assumes "build_memory_node_where (Some q) = Inr p" shows "distinct (map fst (qp_variables p))"
  using assms
proof (rule where_stages)
  fix c1 v1 c2 v2 c3 v3 c4 v4
  assume a1: "add_tag_clauses (nq_tags q) [] = (c1, v1)"
    and a2: "add_string_search_clause (nq_strings q) (nq_string_fields q) v1 = Inr (c2, v2)"
    and a3: "add_field_clauses Contains py_lower ''content_term_'' 0 (nq_content_contains q) v2 = Inr (c3, v3)"
    and a4: "add_field_clauses Equals (\<lambda>v. v) ''content_value_'' 0 (nq_content_equals q) v3 = Inr (c4, v4)"
    and p: "p = (if c1 @ c2 @ c3 @ c4 = [] then \<lparr> qp_where_sql = [], qp_variables = [] \<rparr>
        else \<lparr> qp_where_sql = ''WHERE '' @ py_join '' AND '' (map clause_sql (c1 @ c2 @ c3 @ c4)),
               qp_variables = v4 \<rparr>)"
  have "distinct (map fst v1)"
    using a1 by (auto simp: add_tag_clauses_def intro!: set_var_distinct split: if_splits)
  then have "distinct (map fst v2)"
    using a2 by (auto simp: add_string_search_clause_def Let_def intro: add_string_fields_distinct
        split: if_splits sum.splits prod.splits)
  then show "distinct (map fst (qp_variables p))"
    unfolding p using add_field_clauses_distinct [OF a4 add_field_clauses_distinct [OF a3]] by simp
qed

text \<open>
  C32. For every search, the query that \<open>build_memory_node_where\<close> makes selects exactly the memories
  the search asks for: any, all and none of the tags, one of the strings in one of the fields,
  and for every content field one of its terms. The meaning is that of the query's text: it is
  read back by a parser in which \<open>AND\<close> binds tighter than \<open>OR\<close>, and evaluated with the query's
  variables. No two terms share a variable, however many there are: the variables have distinct
  names and their values are those of the terms, one for each, in order. The text of the clause
  holds no character beyond letters, digits and the signs of the fixed clauses (so no quote, dash
  or semicolon), and the only errors are the \<open>ValueError\<close>s for a bad field path and for a string
  search without a field.
\<close>

theorem where_clause_selects_matches:
  "(case build_memory_node_where (Some q) of
      Inl e \<Rightarrow> (\<exists>f. e = ValueError (''invalid content field path: '' @ py_repr f)) \<or>
               e = ValueError ''string search requires at least one searchable content field''
    | Inr p \<Rightarrow> where_holds cast p tags content = search_matches cast q tags content \<and>
               distinct (map fst (qp_variables p)) \<and> map snd (qp_variables p) = search_values q \<and>
               list_all sql_char (qp_where_sql p))"
  using where_error where_meaning where_distinct by (cases "build_memory_node_where (Some q)") auto

end
