(* ===== verification/Transcription.thy ===== *)
theory Transcription
  imports Search AudioLevels "HOL-Library.List_Lexorder" "HOL-Library.Char_ord"
begin

text \<open>
  Transcription: the choice of a runtime (\<open>speech/whisper_runtime.py\<close>, \<open>cuda_runtime.py\<close>), the two
  transcribers (\<open>faster_whisper_transcriber.py\<close>, \<open>whisper_cpp_transcriber.py\<close>) and their construction
  (\<open>transcription.py\<close>, \<open>transcription_types.py\<close>). The engines, the file system and the loader of
  libraries are arguments; JSON values have no floats.
\<close>

section \<open>Configuration\<close>

record whisper_config =
  wc_model_size_or_path :: string
  wc_backend :: string
  wc_device :: string
  wc_compute_type :: string
  wc_cpu_compute_type :: string
  wc_allow_cpu_fallback :: bool
  wc_whisper_cpp_bin :: "string option"
  wc_whisper_cpp_model :: "string option"
  wc_whisper_cpp_extra_args :: "string list"
  wc_language :: "string option"
  wc_beam_size :: int
  wc_normalize_audio :: bool
  wc_normalization_target_rms :: real
  wc_normalization_max_gain :: real
  wc_normalization_limiter_ceiling :: real
  wc_initial_prompt :: "string option"

definition with_backend_device :: "whisper_config \<Rightarrow> string \<Rightarrow> string \<Rightarrow> whisper_config" where
  "with_backend_device c backend device = c\<lparr> wc_backend := backend, wc_device := device \<rparr>"

record transcription_status =
  st_backend :: string
  st_device :: string
  st_compute_type :: "string option"
  st_detail :: string
  st_cuda_device_count :: int
  st_supported_compute_types :: "string list"
  st_binary :: "string option"
  st_model :: "string option"

text \<open>
  The machine: the platform, whether \<open>ctranslate2\<close> can be imported and what it answers, which
  libraries load, and \<open>pathlib\<close> and \<open>shutil.which\<close> on paths written as strings.
\<close>

record transcription_env =
  te_platform :: string
  te_ctranslate2 :: bool
  te_cuda_device_count :: "py_error + int"
  te_supported_compute_types :: "string \<Rightarrow> py_error + string list"
  te_loads_library :: "string \<Rightarrow> bool"
  te_expanduser :: "string \<Rightarrow> string"
  te_is_file :: "string \<Rightarrow> bool"
  te_resolve :: "string \<Rightarrow> string"
  te_which :: "string \<Rightarrow> string option"

definition CUDA_COMPUTE_TYPES :: "string list" where
  "CUDA_COMPUTE_TYPES = [''float16'', ''int8_float16'']"

definition WINDOWS_CUDA_DLLS :: "string list" where
  "WINDOWS_CUDA_DLLS = [''cublas64_12.dll'', ''cublasLt64_12.dll'']"

definition missing_windows_cuda_dlls :: "transcription_env \<Rightarrow> string list" where
  "missing_windows_cuda_dlls env =
     (if te_platform env \<noteq> ''win32'' then [] else filter (\<lambda>d. \<not> te_loads_library env d) WINDOWS_CUDA_DLLS)"

definition supported_compute_types :: "transcription_env \<Rightarrow> string \<Rightarrow> string list" where
  "supported_compute_types env device =
     (case te_supported_compute_types env device of Inl _ \<Rightarrow> [] | Inr types \<Rightarrow> sort (remdups types))"

definition no_ctranslate2 :: py_error where
  "no_ctranslate2 = ImportError (''No module named '' @ py_repr ''ctranslate2'')"

section \<open>faster-whisper\<close>

definition whisper_cpp_only :: "string list" where
  "whisper_cpp_only = [''metal'', ''coreml'', ''vulkan'', ''openvino'', ''rocm'']"

definition resolved_faster_whisper_device :: "transcription_env \<Rightarrow> whisper_config \<Rightarrow> py_error + string" where
  "resolved_faster_whisper_device env c =
     (if wc_device c \<in> set whisper_cpp_only then
        Inl (TranscriptionRuntimeError (''faster-whisper does not support '' @ py_repr (wc_device c) @ ''. ''
          @ ''Use the whisper.cpp backend for non-CUDA GPU acceleration.''))
      else if wc_device c = ''cpu'' then Inr ''cpu''
      else if wc_device c = ''cuda'' then Inr ''cuda''
      else if \<not> te_ctranslate2 env then Inl (TranscriptionRuntimeError ''faster-whisper requires CTranslate2.'')
      else if (case te_cuda_device_count env of Inl _ \<Rightarrow> False | Inr n \<Rightarrow> 0 < n) then Inr ''cuda''
      else if wc_allow_cpu_fallback c then Inr ''cpu''
      else Inl (TranscriptionRuntimeError ''No CUDA device detected and CPU fallback is disabled.''))"

definition resolved_compute_type :: "whisper_config \<Rightarrow> string \<Rightarrow> string" where
  "resolved_compute_type c device =
     (if device = ''cuda'' then
        if wc_compute_type c \<in> {''auto'', ''default'', ''int8'', ''int8_float32'', ''float32''} then ''float16'' else wc_compute_type c
      else if wc_compute_type c \<in> {''auto'', ''default'', ''float16'', ''int8_float16''} then wc_cpu_compute_type c
      else wc_compute_type c)"

definition validate_whisper_gpu_runtime :: "transcription_env \<Rightarrow> string \<Rightarrow> py_error + transcription_status" where
  "validate_whisper_gpu_runtime env compute_type =
     (if compute_type \<notin> set CUDA_COMPUTE_TYPES then
        Inl (TranscriptionRuntimeError (''Unsupported CUDA compute type '' @ py_repr compute_type @ ''. Use one of: ''
          @ py_join '', '' CUDA_COMPUTE_TYPES @ ''.''))
      else if \<not> te_ctranslate2 env then Inl no_ctranslate2
      else case te_cuda_device_count env of
        Inl e \<Rightarrow> Inl e
      | Inr devices \<Rightarrow>
          if devices < 1 then Inl (TranscriptionRuntimeError ''No CUDA device was detected by CTranslate2.'')
          else
            (let supported = supported_compute_types env ''cuda''; missing = missing_windows_cuda_dlls env
             in if compute_type \<notin> set supported then
                  Inl (TranscriptionRuntimeError (''CUDA compute type '' @ py_repr compute_type
                    @ '' is not supported by this GPU/runtime. Supported CUDA compute types: '' @ py_join '', '' supported @ ''.''))
                else if missing \<noteq> [] then
                  Inl (TranscriptionRuntimeError (''Missing CUDA runtime DLLs required by faster-whisper/CTranslate2: ''
                    @ py_join '', '' missing @ ''. Install the CUDA 12 runtime/toolkit so ''
                    @ ''those DLLs are available, or place them in agent-host'' @ [CHR 0x5C] @ ''.cuda'' @ [CHR 0x5C] @ ''bin.''))
                else Inr \<lparr> st_backend = ''faster-whisper'', st_device = ''cuda'', st_compute_type = Some compute_type,
                       st_detail = ''faster-whisper CUDA runtime ready'', st_cuda_device_count = devices,
                       st_supported_compute_types = supported, st_binary = None, st_model = None \<rparr>))"

definition validate_faster_whisper_runtime :: "transcription_env \<Rightarrow> whisper_config \<Rightarrow> py_error + transcription_status" where
  "validate_faster_whisper_runtime env c =
     (case resolved_faster_whisper_device env c of
        Inl e \<Rightarrow> Inl e
      | Inr device \<Rightarrow>
          (let compute_type = resolved_compute_type c device
           in if device = ''cuda'' then validate_whisper_gpu_runtime env compute_type
              else if \<not> te_ctranslate2 env then Inl no_ctranslate2
              else
                (let supported = supported_compute_types env ''cpu''
                 in if compute_type \<notin> {''auto'', ''default''} \<and> supported \<noteq> [] \<and> compute_type \<notin> set supported then
                      Inl (TranscriptionRuntimeError (''CPU compute type '' @ py_repr compute_type
                        @ '' is not supported by CTranslate2. Supported CPU compute types: '' @ py_join '', '' supported @ ''.''))
                    else Inr \<lparr> st_backend = ''faster-whisper'', st_device = ''cpu'', st_compute_type = Some compute_type,
                           st_detail = ''faster-whisper CPU runtime ready'', st_cuda_device_count = 0,
                           st_supported_compute_types = supported, st_binary = None, st_model = None \<rparr>)))"

section \<open>whisper.cpp\<close>

fun first_binary :: "transcription_env \<Rightarrow> string list \<Rightarrow> string option" where
  "first_binary env [] = None"
| "first_binary env (candidate # rest) =
     (let path = te_expanduser env candidate
      in if te_is_file env path then Some (te_resolve env path)
         else case te_which env candidate of
           Some found \<Rightarrow> if found \<noteq> [] then Some (te_resolve env found) else first_binary env rest
         | None \<Rightarrow> first_binary env rest)"

definition resolve_whisper_cpp_binary :: "transcription_env \<Rightarrow> string option \<Rightarrow> string option" where
  "resolve_whisper_cpp_binary env configured =
     first_binary env ((case configured of Some b \<Rightarrow> if b \<noteq> [] then [b] else [] | None \<Rightarrow> [])
       @ [''whisper-cli'', ''whisper-cli.exe'', ''main'', ''main.exe''])"

text \<open>\<open>Path(path).suffix\<close> on POSIX: from the last dot of the last component, unless it begins or ends it.\<close>

definition path_suffix :: "string \<Rightarrow> string" where
  "path_suffix path =
     (let name = rev (takeWhile (\<lambda>c. c \<noteq> CHR ''/'') (dropWhile (\<lambda>c. c = CHR ''/'') (rev path)));
          ext = rev (takeWhile (\<lambda>c. c \<noteq> CHR ''.'') (rev name))
      in if CHR ''.'' \<in> set name \<and> ext \<noteq> [] \<and> Suc (length ext) < length name then CHR ''.'' # ext else [])"

fun first_model :: "transcription_env \<Rightarrow> string option list \<Rightarrow> string option" where
  "first_model env [] = None"
| "first_model env (value # rest) =
     (case value of
        None \<Rightarrow> first_model env rest
      | Some v \<Rightarrow>
          if v = [] then first_model env rest
          else let path = te_expanduser env v
               in if te_is_file env path \<and> py_lower (path_suffix path) = ''.bin'' then Some (te_resolve env path)
                  else first_model env rest)"

definition resolve_whisper_cpp_model :: "transcription_env \<Rightarrow> whisper_config \<Rightarrow> string option" where
  "resolve_whisper_cpp_model env c = first_model env [wc_whisper_cpp_model c, Some (wc_model_size_or_path c)]"

definition validate_whisper_cpp_runtime :: "transcription_env \<Rightarrow> whisper_config \<Rightarrow> py_error + transcription_status" where
  "validate_whisper_cpp_runtime env c =
     (case resolve_whisper_cpp_binary env (wc_whisper_cpp_bin c) of
        None \<Rightarrow> Inl (TranscriptionRuntimeError (''whisper.cpp was selected but no whisper-cli binary was found. ''
          @ ''Set --whisper-cpp-bin or put whisper-cli on PATH.''))
      | Some binary \<Rightarrow>
          (case resolve_whisper_cpp_model env c of
             None \<Rightarrow> Inl (TranscriptionRuntimeError (''whisper.cpp was selected but no ggml model file was found. ''
               @ ''Set --whisper-cpp-model, or pass a local .bin model path with --whisper-model.''))
           | Some model \<Rightarrow> Inr \<lparr> st_backend = ''whisper-cpp'', st_device = wc_device c, st_compute_type = None,
               st_detail = ''whisper.cpp runtime ready'', st_cuda_device_count = 0, st_supported_compute_types = [],
               st_binary = Some binary, st_model = Some model \<rparr>))"

section \<open>The choice\<close>

fun is_runtime_error :: "py_error \<Rightarrow> bool" where
  "is_runtime_error (TranscriptionRuntimeError _) = True"
| "is_runtime_error _ = False"

definition cpu_runtime :: "transcription_env \<Rightarrow> whisper_config \<Rightarrow> py_error + transcription_status" where
  "cpu_runtime env c = validate_faster_whisper_runtime env (with_backend_device c ''faster-whisper'' ''cpu'')"

text \<open>The last attempt, after the CUDA runtime may have failed with \<open>cuda_error\<close>.\<close>

definition whisper_cpp_or_cpu :: "transcription_env \<Rightarrow> whisper_config \<Rightarrow> py_error option \<Rightarrow> py_error + transcription_status" where
  "whisper_cpp_or_cpu env c cuda_error =
     (case validate_whisper_cpp_runtime env c of
        Inr st \<Rightarrow> Inr st
      | Inl e \<Rightarrow>
          if \<not> is_runtime_error e then Inl e
          else if wc_allow_cpu_fallback c then cpu_runtime env c
          else Inl (case cuda_error of Some e1 \<Rightarrow> e1 | None \<Rightarrow> e))"

definition cuda_or_other :: "transcription_env \<Rightarrow> whisper_config \<Rightarrow> py_error + transcription_status" where
  "cuda_or_other env c =
     (if wc_device c = ''cpu'' then cpu_runtime env c
      else if wc_device c \<in> {''auto'', ''cuda''} then
        (case validate_faster_whisper_runtime env (with_backend_device c ''faster-whisper'' ''cuda'') of
           Inr st \<Rightarrow> Inr st
         | Inl e \<Rightarrow> if is_runtime_error e then whisper_cpp_or_cpu env c (Some e) else Inl e)
      else whisper_cpp_or_cpu env c None)"

definition validate_transcription_runtime :: "transcription_env \<Rightarrow> whisper_config \<Rightarrow> py_error + transcription_status" where
  "validate_transcription_runtime env c =
     (if wc_backend c = ''whisper-cpp'' then validate_whisper_cpp_runtime env c
      else if wc_backend c = ''faster-whisper'' then validate_faster_whisper_runtime env c
      else if wc_device c \<in> set whisper_cpp_only then
        (case validate_whisper_cpp_runtime env c of
           Inr st \<Rightarrow> Inr st
         | Inl e \<Rightarrow> if is_runtime_error e \<and> wc_allow_cpu_fallback c then cuda_or_other env c else Inl e)
      else cuda_or_other env c)"

section \<open>Transcripts\<close>

record transcript_segment =
  tx_start :: real
  tx_end :: real
  tx_text :: string

record transcript =
  tr_text :: string
  tr_language :: "string option"
  tr_duration_seconds :: real
  tr_segments :: "transcript_segment list"

definition transcript_from_text :: "string \<Rightarrow> int \<Rightarrow> nat \<Rightarrow> string option \<Rightarrow> transcript" where
  "transcript_from_text txt sample_rate sample_count language =
     (let clean = normalize_ws txt; seconds = of_nat sample_count / of_int sample_rate
      in \<lparr> tr_text = clean, tr_language = language, tr_duration_seconds = seconds,
           tr_segments = (if clean \<noteq> [] then [\<lparr> tx_start = 0, tx_end = seconds, tx_text = clean \<rparr>] else []) \<rparr>)"

text \<open>A boolean is an \<open>int\<close> of Python.\<close>

fun offset_seconds :: "json option \<Rightarrow> real option" where
  "offset_seconds (Some (JInt i)) = Some (of_int i / 1000)"
| "offset_seconds (Some (JBool b)) = Some ((if b then 1 else 0) / 1000)"
| "offset_seconds _ = None"

text \<open>A run of digits of a \<open>re.fullmatch\<close> and what follows; the pattern allows no choice.\<close>

definition digits_run :: "string \<Rightarrow> (string \<times> string) option" where
  "digits_run s = (let ds = takeWhile is_digit s in if ds = [] then None else Some (ds, drop (length ds) s))"

definition expect_char :: "char \<Rightarrow> string \<Rightarrow> string option" where
  "expect_char c s = (case s of [] \<Rightarrow> None | d # rest \<Rightarrow> if d = c then Some rest else None)"

definition fraction_run :: "string \<Rightarrow> string \<times> string" where
  "fraction_run s =
     (case s of
        [] \<Rightarrow> ([], s)
      | c # rest \<Rightarrow> if c \<in> {CHR '','', CHR ''.''} then (case digits_run rest of None \<Rightarrow> ([], s) | Some r \<Rightarrow> r) else ([], s))"

definition decimal_fraction :: "string \<Rightarrow> real" where
  "decimal_fraction ds = of_nat (digits_value ds) / 10 ^ length ds"

fun timestamp_seconds :: "json option \<Rightarrow> real option" where
  "timestamp_seconds (Some (JStr value)) =
     Option.bind (digits_run (dropWhile is_space value)) (\<lambda>(hours, s1).
     Option.bind (expect_char (CHR '':'') s1) (\<lambda>s2.
     Option.bind (digits_run s2) (\<lambda>(minutes, s3).
     Option.bind (expect_char (CHR '':'') s3) (\<lambda>s4.
     Option.bind (digits_run s4) (\<lambda>(seconds, s5).
     case fraction_run s5 of (fraction, s6) \<Rightarrow>
       if list_all is_space s6
       then Some (of_nat (digits_value hours * 3600 + digits_value minutes * 60 + digits_value seconds) + decimal_fraction fraction)
       else None)))))"
| "timestamp_seconds _ = None"

definition both_times :: "(json option \<Rightarrow> real option) \<Rightarrow> json option \<Rightarrow> (real \<times> real) option" where
  "both_times f spans =
     (case spans of
        Some (JObj kvs) \<Rightarrow>
          (case (f (map_of kvs ''from''), f (map_of kvs ''to'')) of
             (Some a, Some b) \<Rightarrow> Some (a, b)
           | _ \<Rightarrow> None)
      | _ \<Rightarrow> None)"

definition segment_times :: "json \<Rightarrow> real \<times> real" where
  "segment_times item =
     (case both_times offset_seconds (obj_get item ''offsets'') of
        Some spans \<Rightarrow> spans
      | None \<Rightarrow> (case both_times timestamp_seconds (obj_get item ''timestamps'') of
          Some spans \<Rightarrow> spans
        | None \<Rightarrow> (0, 0)))"

definition is_obj :: "json \<Rightarrow> bool" where
  "is_obj v = (case v of JObj _ \<Rightarrow> True | _ \<Rightarrow> False)"

definition segment_of :: "json \<Rightarrow> transcript_segment" where
  "segment_of item =
     \<lparr> tx_start = fst (segment_times item), tx_end = snd (segment_times item),
       tx_text = py_strip (case obj_get item ''text'' of None \<Rightarrow> [] | Some v \<Rightarrow> py_str_json v) \<rparr>"

definition transcript_from_whisper_cpp_json :: "json \<Rightarrow> int \<Rightarrow> nat \<Rightarrow> string option \<Rightarrow> transcript" where
  "transcript_from_whisper_cpp_json payload sample_rate sample_count fallback_language =
     (if \<not> is_obj payload then transcript_from_text [] sample_rate sample_count fallback_language
      else
        let segments = (case obj_get payload ''transcription'' of
                          Some (JList items) \<Rightarrow> map segment_of (filter is_obj items) | _ \<Rightarrow> []);
            language = (case obj_get payload ''result'' of
                          Some (JObj kvs) \<Rightarrow> (case map_of kvs ''language'' of Some (JStr l) \<Rightarrow> Some l | _ \<Rightarrow> fallback_language)
                        | _ \<Rightarrow> fallback_language)
        in \<lparr> tr_text = py_strip (py_join '' '' (map tx_text segments)), tr_language = language,
             tr_duration_seconds = of_nat sample_count / of_int sample_rate, tr_segments = segments \<rparr>)"

text \<open>\<open>re.sub(r"^\[[^\]]+\]\s*", "", line)\<close>.\<close>

definition drop_bracket :: "string \<Rightarrow> string" where
  "drop_bracket line =
     (case line of
        [] \<Rightarrow> []
      | c # rest \<Rightarrow>
          (let inner = takeWhile (\<lambda>d. d \<noteq> CHR '']'') rest; after = drop (length inner) rest
           in if c = CHR ''['' \<and> inner \<noteq> [] \<and> after \<noteq> [] then dropWhile is_space (tl after) else line))"

definition noise_prefix :: "string \<Rightarrow> bool" where
  "noise_prefix line = list_ex (\<lambda>p. take (length p) line = p) [''whisper_'', ''system_info:'', ''main:'']"

definition clean_stdout :: "string \<Rightarrow> string" where
  "clean_stdout stdout =
     py_strip (py_join '' '' (map drop_bracket
       (filter (\<lambda>l. l \<noteq> [] \<and> \<not> noise_prefix l) (map py_strip (splitlines_from [] stdout)))))"

section \<open>The transcribers\<close>

definition normalized_audio :: "frame \<Rightarrow> int \<Rightarrow> whisper_config \<Rightarrow> frame" where
  "normalized_audio samples sample_rate c =
     (if wc_normalize_audio c
      then normalize_active_level samples sample_rate (wc_normalization_target_rms c) (wc_normalization_max_gain c)
             (wc_normalization_limiter_ceiling c)
      else map (\<lambda>x. max (- 1) (min 1 x)) samples)"

record faster_whisper =
  fw_config :: whisper_config
  fw_model :: "(string \<times> string \<times> string option) option"
  fw_status :: "transcription_status option"

definition faster_whisper_init :: "whisper_config \<Rightarrow> faster_whisper" where
  "faster_whisper_init c = \<lparr> fw_config = c, fw_model = None, fw_status = None \<rparr>"

text \<open>\<open>load\<close> is \<open>WhisperModel(name, device, compute_type)\<close>: the error it raises, if any.\<close>

definition load_model ::
  "transcription_env \<Rightarrow> (string \<times> string \<times> string option \<Rightarrow> py_error option) \<Rightarrow> faster_whisper
     \<Rightarrow> (py_error + (string \<times> string \<times> string option)) \<times> faster_whisper" where
  "load_model env load t =
     (case fw_model t of
        Some m \<Rightarrow> (Inr m, t)
      | None \<Rightarrow>
          (case validate_faster_whisper_runtime env (fw_config t) of
             Inl e \<Rightarrow> (Inl e, t)
           | Inr st \<Rightarrow>
               (let t1 = t\<lparr> fw_status := Some st \<rparr>; m = (wc_model_size_or_path (fw_config t), st_device st, st_compute_type st)
                in case load m of
                     Some e \<Rightarrow> (Inl e, t1)
                   | None \<Rightarrow> (Inr m, t1\<lparr> fw_model := Some m \<rparr>))))"

text \<open>\<open>run\<close> is \<open>model.transcribe\<close>: the segments with their times, the language and the duration the engine found.\<close>

definition faster_whisper_transcribe ::
  "transcription_env \<Rightarrow> (string \<times> string \<times> string option \<Rightarrow> py_error option)
     \<Rightarrow> (frame \<Rightarrow> string option \<Rightarrow> py_error + ((real \<times> real \<times> string) list \<times> string option \<times> real option))
     \<Rightarrow> frame \<Rightarrow> int \<Rightarrow> string option \<Rightarrow> faster_whisper \<Rightarrow> (py_error + transcript) \<times> faster_whisper" where
  "faster_whisper_transcribe env load run samples sample_rate initial_prompt t =
     (if sample_rate \<noteq> 16000 then (Inl (ValueError ''faster-whisper ndarray transcription expects 16000 Hz audio.''), t)
      else
        let audio = normalized_audio samples sample_rate (fw_config t) in
        case load_model env load t of
          (Inl e, t1) \<Rightarrow> (Inl e, t1)
        | (Inr _, t1) \<Rightarrow>
            (case run audio initial_prompt of
               Inl e \<Rightarrow> (Inl e, t1)
             | Inr (found, language, duration) \<Rightarrow>
                 (let segments = map (\<lambda>(a, b, x). \<lparr> tx_start = a, tx_end = b, tx_text = py_strip x \<rparr>) found
                  in (Inr \<lparr> tr_text = py_strip (py_join '' '' (map tx_text segments)), tr_language = language,
                        tr_duration_seconds = (case duration of Some d \<Rightarrow> d | None \<Rightarrow> of_nat (length audio) / of_int sample_rate),
                        tr_segments = segments \<rparr>, t1))))"

record whisper_cpp =
  wp_config :: whisper_config
  wp_binary :: "string option"
  wp_model :: "string option"

definition whisper_cpp_init :: "whisper_config \<Rightarrow> whisper_cpp" where
  "whisper_cpp_init c = \<lparr> wp_config = c, wp_binary = None, wp_model = None \<rparr>"

definition whisper_cpp_prepare :: "transcription_env \<Rightarrow> whisper_cpp \<Rightarrow> py_error option \<times> whisper_cpp" where
  "whisper_cpp_prepare env t =
     (let c = wp_config t;
          t1 = t\<lparr> wp_binary := resolve_whisper_cpp_binary env (wc_whisper_cpp_bin c), wp_model := resolve_whisper_cpp_model env c \<rparr>
      in if wp_binary t1 = None \<or> wp_model t1 = None then
           (case validate_transcription_runtime env (with_backend_device c ''whisper-cpp'' (wc_device c)) of
              Inl e \<Rightarrow> (Some e, t1)
            | Inr _ \<Rightarrow> (None, t1))
         else (None, t1))"

definition whisper_command :: "whisper_config \<Rightarrow> string \<Rightarrow> string \<Rightarrow> string \<Rightarrow> string \<Rightarrow> string option \<Rightarrow> string list" where
  "whisper_command c binary model wav_path output_stem initial_prompt =
     [binary, ''-m'', model, ''-f'', wav_path, ''-oj'', ''-of'', output_stem]
     @ (case wc_language c of Some l \<Rightarrow> if l \<noteq> [] then [''-l'', l] else [] | None \<Rightarrow> [])
     @ (case initial_prompt of Some p \<Rightarrow> if p \<noteq> [] then [''--prompt'', p] else [] | None \<Rightarrow> [])
     @ (if wc_device c = ''openvino'' then [''--ov-e-device'', ''GPU''] else [])
     @ wc_whisper_cpp_extra_args c"

text \<open>What the process leaves behind: its return code, its two streams and the JSON file, if it wrote one.\<close>

record cli_outcome =
  cli_returncode :: int
  cli_stdout :: string
  cli_stderr :: string
  cli_json :: "(py_error + json) option"

text \<open>The audio is written as 16-bit samples; \<open>run\<close> is the process on it, and \<open>dir\<close> the temporary directory.\<close>

definition run_cli ::
  "(string list \<Rightarrow> int list \<Rightarrow> string + cli_outcome) \<Rightarrow> string \<Rightarrow> whisper_config \<Rightarrow> string \<Rightarrow> string \<Rightarrow> frame \<Rightarrow> int \<Rightarrow> string option
     \<Rightarrow> py_error + transcript" where
  "run_cli run dir c binary model audio sample_rate initial_prompt =
     (case run (whisper_command c binary model (dir @ ''/utterance.wav'') (dir @ ''/transcript'') initial_prompt) (map to_pcm audio) of
        Inl e \<Rightarrow> Inl (TranscriptionRuntimeError (''Could not run whisper.cpp binary '' @ binary @ '': '' @ e))
      | Inr out \<Rightarrow>
          if cli_returncode out \<noteq> 0 then
            (let detail = py_strip (if cli_stderr out \<noteq> [] then cli_stderr out else cli_stdout out)
             in Inl (TranscriptionRuntimeError (''whisper.cpp transcription failed'' @ (if detail \<noteq> [] then '': '' @ detail else ''.''))))
          else case cli_json out of
            Some (Inl e) \<Rightarrow> Inl e
          | Some (Inr payload) \<Rightarrow> Inr (transcript_from_whisper_cpp_json payload sample_rate (length audio) (wc_language c))
          | None \<Rightarrow> Inr (transcript_from_text (clean_stdout (cli_stdout out)) sample_rate (length audio) (wc_language c)))"

definition whisper_cpp_transcribe ::
  "transcription_env \<Rightarrow> (string list \<Rightarrow> int list \<Rightarrow> string + cli_outcome) \<Rightarrow> string \<Rightarrow> frame \<Rightarrow> int \<Rightarrow> string option \<Rightarrow> whisper_cpp
     \<Rightarrow> (py_error + transcript) \<times> whisper_cpp" where
  "whisper_cpp_transcribe env run dir samples sample_rate initial_prompt t =
     (if sample_rate \<noteq> 16000 then (Inl (ValueError ''whisper.cpp transcription expects 16000 Hz audio.''), t)
      else case whisper_cpp_prepare env t of
        (Some e, t1) \<Rightarrow> (Inl e, t1)
      | (None, t1) \<Rightarrow>
          (case (wp_binary t1, wp_model t1) of
             (Some binary, Some model) \<Rightarrow>
               (run_cli run dir (wp_config t1) binary model (normalized_audio samples sample_rate (wp_config t1)) sample_rate initial_prompt, t1)
           | _ \<Rightarrow> (Inl AssertionError, t1)))"

datatype transcriber = Whisper_cpp whisper_cpp | Faster_whisper faster_whisper

definition create_transcriber :: "transcription_env \<Rightarrow> whisper_config \<Rightarrow> py_error + transcriber" where
  "create_transcriber env c =
     map_sum id (\<lambda>st.
         if st_backend st = ''whisper-cpp'' then Whisper_cpp (whisper_cpp_init c)
         else Faster_whisper (faster_whisper_init (with_backend_device c ''faster-whisper'' (st_device st))))
       (validate_transcription_runtime env c)"

section \<open>Lemmas\<close>

text \<open>A runtime the machine can run.\<close>

definition runtime_ok :: "transcription_env \<Rightarrow> whisper_config \<Rightarrow> transcription_status \<Rightarrow> bool" where
  "runtime_ok env c st \<longleftrightarrow>
     (st_backend st = ''whisper-cpp'' \<and> st_device st = wc_device c
        \<and> st_binary st \<noteq> None \<and> st_binary st = resolve_whisper_cpp_binary env (wc_whisper_cpp_bin c)
        \<and> st_model st \<noteq> None \<and> st_model st = resolve_whisper_cpp_model env c)
     \<or> (st_backend st = ''faster-whisper'' \<and> te_ctranslate2 env \<and> st_device st = ''cuda''
        \<and> te_cuda_device_count env = Inr (st_cuda_device_count st) \<and> 1 \<le> st_cuda_device_count st
        \<and> (\<exists>ct. st_compute_type st = Some ct \<and> ct \<in> set CUDA_COMPUTE_TYPES \<inter> set (supported_compute_types env ''cuda''))
        \<and> missing_windows_cuda_dlls env = [])
     \<or> (st_backend st = ''faster-whisper'' \<and> te_ctranslate2 env \<and> st_device st = ''cpu''
        \<and> (wc_device c = ''cpu'' \<or> wc_allow_cpu_fallback c))"

lemma gpu_runtime:
  assumes "validate_whisper_gpu_runtime env ct = Inr st"
  shows "st_backend st = ''faster-whisper'' \<and> st_device st = ''cuda'' \<and> st_compute_type st = Some ct \<and> te_ctranslate2 env
    \<and> te_cuda_device_count env = Inr (st_cuda_device_count st) \<and> 1 \<le> st_cuda_device_count st
    \<and> ct \<in> set CUDA_COMPUTE_TYPES \<and> ct \<in> set (supported_compute_types env ''cuda'') \<and> missing_windows_cuda_dlls env = []"
  using assms by (auto simp: validate_whisper_gpu_runtime_def Let_def split: if_splits sum.splits)

lemma faster_runtime:
  assumes "validate_faster_whisper_runtime env c = Inr st"
  shows "runtime_ok env c st \<and> st_backend st = ''faster-whisper''
    \<and> validate_faster_whisper_runtime env (with_backend_device c ''faster-whisper'' (st_device st)) = Inr st"
proof -
  obtain d where d: "resolved_faster_whisper_device env c = Inr d"
    using assms by (auto simp: validate_faster_whisper_runtime_def split: sum.splits)
  have same: "resolved_compute_type (with_backend_device c b d) d = resolved_compute_type c d" for b
    by (simp add: resolved_compute_type_def with_backend_device_def)
  show ?thesis
  proof (cases "d = ''cuda''")
    case True
    then have g: "validate_whisper_gpu_runtime env (resolved_compute_type c d) = Inr st"
      using assms d by (simp add: validate_faster_whisper_runtime_def)
    have "resolved_faster_whisper_device env (with_backend_device c ''faster-whisper'' ''cuda'') = Inr ''cuda''"
      by (simp add: resolved_faster_whisper_device_def with_backend_device_def whisper_cpp_only_def)
    then show ?thesis
      using gpu_runtime[OF g] g same True by (auto simp: runtime_ok_def validate_faster_whisper_runtime_def)
  next
    case False
    then have cpu: "d = ''cpu''" "wc_device c = ''cpu'' \<or> wc_allow_cpu_fallback c"
      using d by (auto simp: resolved_faster_whisper_device_def split: if_splits)
    have "resolved_faster_whisper_device env (with_backend_device c ''faster-whisper'' ''cpu'') = Inr ''cpu''"
      by (simp add: resolved_faster_whisper_device_def with_backend_device_def whisper_cpp_only_def)
    then have "validate_faster_whisper_runtime env (with_backend_device c ''faster-whisper'' ''cpu'') = validate_faster_whisper_runtime env c"
      using d same cpu(1) by (simp add: validate_faster_whisper_runtime_def)
    moreover have "st_backend st = ''faster-whisper'' \<and> st_device st = ''cpu'' \<and> te_ctranslate2 env"
      using assms d cpu(1) by (simp add: validate_faster_whisper_runtime_def Let_def split: if_splits) auto
    ultimately show ?thesis using assms cpu(2) by (simp add: runtime_ok_def)
  qed
qed

lemma cpp_runtime: "validate_whisper_cpp_runtime env c = Inr st \<Longrightarrow> runtime_ok env c st \<and> st_backend st = ''whisper-cpp''"
  by (auto simp: validate_whisper_cpp_runtime_def runtime_ok_def split: option.splits)

lemma whisper_cpp_only_simps [simp]: "''cpu'' \<notin> set whisper_cpp_only" "''cuda'' \<notin> set whisper_cpp_only" "''auto'' \<notin> set whisper_cpp_only"
  by (simp_all add: whisper_cpp_only_def)

lemma faster_with_device:
  assumes "validate_faster_whisper_runtime env (with_backend_device c ''faster-whisper'' d) = Inr st"
    and "d = ''cuda'' \<or> d = ''cpu'' \<and> (wc_device c = ''cpu'' \<or> wc_allow_cpu_fallback c)"
  shows "runtime_ok env c st \<and> st_backend st = ''faster-whisper''
    \<and> validate_faster_whisper_runtime env (with_backend_device c ''faster-whisper'' (st_device st)) = Inr st"
proof -
  have "st_device st = d"
    using assms by (auto simp: validate_faster_whisper_runtime_def resolved_faster_whisper_device_def with_backend_device_def
        validate_whisper_gpu_runtime_def Let_def split: if_splits sum.splits)
  then show ?thesis using faster_runtime[OF assms(1)] assms by (auto simp: runtime_ok_def with_backend_device_def)
qed

text \<open>Where the status of a validation comes from.\<close>

lemma validated_runtime:
  assumes "validate_transcription_runtime env c = Inr st"
  shows "runtime_ok env c st
    \<and> (st_backend st = ''whisper-cpp'' \<or> st_backend st = ''faster-whisper''
        \<and> validate_faster_whisper_runtime env (with_backend_device c ''faster-whisper'' (st_device st)) = Inr st)"
proof -
  consider "validate_whisper_cpp_runtime env c = Inr st" | "validate_faster_whisper_runtime env c = Inr st"
    | d where "validate_faster_whisper_runtime env (with_backend_device c ''faster-whisper'' d) = Inr st"
        "d = ''cuda'' \<or> d = ''cpu'' \<and> (wc_device c = ''cpu'' \<or> wc_allow_cpu_fallback c)"
    using assms
    by (auto simp: validate_transcription_runtime_def cuda_or_other_def whisper_cpp_or_cpu_def cpu_runtime_def
        split: if_splits sum.splits)
  then show ?thesis
    by cases (use cpp_runtime faster_runtime faster_with_device in \<open>blast+\<close>)
qed

text \<open>Every sample an engine gets is within the limits.\<close>

lemma normalized_audio_bound:
  assumes "x \<in> set (normalized_audio samples rate c)"
  shows "\<bar>x\<bar> \<le> 1"
proof (cases "wc_normalize_audio c")
  case True
  then have "\<bar>x\<bar> \<le> clamp_ceiling (wc_normalization_limiter_ceiling c)"
    using assms by (auto simp: normalized_audio_def intro: normalize_bound)
  then show ?thesis by (rule order_trans) simp
qed (use assms in \<open>auto simp: normalized_audio_def\<close>)

text \<open>A printed time stamp is read back, with whatever white space around it.\<close>

lemma digits_run_digits:
  assumes "ds \<noteq> []" "list_all is_digit ds" "rest = [] \<or> \<not> is_digit (hd rest)"
  shows "digits_run (ds @ rest) = Some (ds, rest)"
proof -
  have "takeWhile is_digit (ds @ rest) = ds"
    using assms(2,3) by (cases rest) (auto simp: takeWhile_append list_all_iff)
  then show ?thesis using assms(1) by (simp add: digits_run_def)
qed

lemma not_digit_simps [simp]: "\<not> is_digit (CHR '':'')" "\<not> is_digit (CHR '','')" "\<not> is_space (CHR '':'')"
  by code_simp+

lemma digit_not_space: "is_digit c \<Longrightarrow> \<not> is_space c"
  by (auto simp: is_digit_def is_space_def)

lemma space_not_digit: "is_space c \<Longrightarrow> \<not> is_digit c"
  using digit_not_space by blast

lemma timestamp_round_trip:
  assumes "list_all is_space before" "list_all is_space after"
    and "\<forall>ds \<in> {hours, minutes, seconds, fraction}. ds \<noteq> [] \<and> list_all is_digit ds"
  shows "timestamp_seconds (Some (JStr (before @ hours @ '':'' @ minutes @ '':'' @ seconds @ '','' @ fraction @ after)))
    = Some (of_nat (digits_value hours * 3600 + digits_value minutes * 60 + digits_value seconds) + decimal_fraction fraction)"
proof -
  let ?rest = "'':'' @ minutes @ '':'' @ seconds @ '','' @ fraction @ after"
  obtain h hs where h: "hours = h # hs" "is_digit h" using assms(3) by (cases hours) auto
  have "dropWhile is_space (before @ hours @ ?rest) = hours @ ?rest"
    using assms(1) h digit_not_space by (simp add: dropWhile_append2 list_all_iff)
  moreover have "digits_run (fraction @ after) = Some (fraction, after)"
    using assms(2,3) space_not_digit by (intro digits_run_digits) (auto simp: neq_Nil_conv)
  moreover have "digits_run (ds @ CHR '':'' # r) = Some (ds, CHR '':'' # r)" "digits_run (ds @ CHR '','' # r) = Some (ds, CHR '','' # r)"
    if "ds \<in> {hours, minutes, seconds}" for ds r
    using assms(3) that by (auto intro!: digits_run_digits)
  ultimately show ?thesis
    using assms(2) by (simp add: expect_char_def fraction_run_def)
qed

section \<open>Properties\<close>

text \<open>
  C35. A transcriber that could be created is ready: on the same machine its first use finds the
  runtime that was validated. It runs whisper.cpp with a binary and a model that were found, or
  faster-whisper on a CUDA device with a compute type the device supports and every library
  present, or on the CPU, and there only when the configuration names the CPU or allows it as a
  fall back.
\<close>

theorem created_transcriber_is_ready:
  assumes "create_transcriber env c = Inr t"
  shows "\<exists>st. validate_transcription_runtime env c = Inr st \<and> runtime_ok env c st
    \<and> (st_device st = ''cpu'' \<longrightarrow> wc_device c = ''cpu'' \<or> wc_allow_cpu_fallback c)
    \<and> (case t of
         Whisper_cpp w \<Rightarrow>
           whisper_cpp_prepare env w = (None, w\<lparr> wp_binary := st_binary st, wp_model := st_model st \<rparr>)
           \<and> st_binary st \<noteq> None \<and> st_model st \<noteq> None
       | Faster_whisper f \<Rightarrow>
           \<forall>load. load (wc_model_size_or_path c, st_device st, st_compute_type st) = None \<longrightarrow>
             load_model env load f = (Inr (wc_model_size_or_path c, st_device st, st_compute_type st),
               f\<lparr> fw_status := Some st, fw_model := Some (wc_model_size_or_path c, st_device st, st_compute_type st) \<rparr>))"
proof -
  obtain st where st: "validate_transcription_runtime env c = Inr st"
    and t: "t = (if st_backend st = ''whisper-cpp'' then Whisper_cpp (whisper_cpp_init c)
         else Faster_whisper (faster_whisper_init (with_backend_device c ''faster-whisper'' (st_device st))))"
    using assms by (cases "validate_transcription_runtime env c") (auto simp: create_transcriber_def)
  note ok = validated_runtime[OF st]
  have cpu: "st_device st = ''cpu'' \<longrightarrow> wc_device c = ''cpu'' \<or> wc_allow_cpu_fallback c"
    using ok by (auto simp: runtime_ok_def)
  show ?thesis
  proof (cases "st_backend st = ''whisper-cpp''")
    case True
    then have "st_binary st \<noteq> None" "st_model st \<noteq> None" "st_binary st = resolve_whisper_cpp_binary env (wc_whisper_cpp_bin c)"
      "st_model st = resolve_whisper_cpp_model env c"
      using ok unfolding runtime_ok_def by (elim conjE disjE; simp del: not_None_eq)+
    then show ?thesis using st t ok cpu True by (auto simp: whisper_cpp_prepare_def whisper_cpp_init_def Let_def)
  next
    case False
    then have "validate_faster_whisper_runtime env (with_backend_device c ''faster-whisper'' (st_device st)) = Inr st"
      using ok by blast
    then show ?thesis
      using st t ok cpu False by (simp add: load_model_def faster_whisper_init_def with_backend_device_def Let_def)
  qed
qed

text \<open>A machine without a graphics card, on which the fall back to the CPU is allowed.\<close>

definition ex_transcription_env :: transcription_env where
  "ex_transcription_env = \<lparr> te_platform = ''linux'', te_ctranslate2 = True, te_cuda_device_count = Inr 0,
     te_supported_compute_types = (\<lambda>_. Inr [''int8'', ''float32'']), te_loads_library = (\<lambda>_. False), te_expanduser = (\<lambda>p. p),
     te_is_file = (\<lambda>_. False), te_resolve = (\<lambda>p. p), te_which = (\<lambda>_. None) \<rparr>"

definition ex_whisper_config :: whisper_config where
  "ex_whisper_config = \<lparr> wc_model_size_or_path = ''large-v3'', wc_backend = ''auto'', wc_device = ''auto'', wc_compute_type = ''auto'',
     wc_cpu_compute_type = ''int8'', wc_allow_cpu_fallback = True, wc_whisper_cpp_bin = None, wc_whisper_cpp_model = None,
     wc_whisper_cpp_extra_args = [], wc_language = Some ''en'', wc_beam_size = 5, wc_normalize_audio = True,
     wc_normalization_target_rms = 1 / 10, wc_normalization_max_gain = 5, wc_normalization_limiter_ceiling = 95 / 100,
     wc_initial_prompt = None \<rparr>"

definition ex_cpu_status :: transcription_status where
  "ex_cpu_status = \<lparr> st_backend = ''faster-whisper'', st_device = ''cpu'', st_compute_type = Some ''int8'',
     st_detail = ''faster-whisper CPU runtime ready'', st_cuda_device_count = 0,
     st_supported_compute_types = [''float32'', ''int8''], st_binary = None, st_model = None \<rparr>"

lemma ex_validated: "validate_transcription_runtime ex_transcription_env ex_whisper_config = Inr ex_cpu_status"
  by (simp add: validate_transcription_runtime_def cuda_or_other_def whisper_cpp_or_cpu_def cpu_runtime_def whisper_cpp_only_def
      validate_whisper_cpp_runtime_def resolve_whisper_cpp_binary_def validate_faster_whisper_runtime_def with_backend_device_def
      resolved_faster_whisper_device_def resolved_compute_type_def validate_whisper_gpu_runtime_def CUDA_COMPUTE_TYPES_def
      supported_compute_types_def ex_transcription_env_def ex_whisper_config_def ex_cpu_status_def Let_def)

theorem created_transcriber_is_ready_witness:
  "load_model ex_transcription_env (\<lambda>_. None) (faster_whisper_init (with_backend_device ex_whisper_config ''faster-whisper'' ''cpu''))
     = (Inr (''large-v3'', ''cpu'', Some ''int8''),
        \<lparr> fw_config = with_backend_device ex_whisper_config ''faster-whisper'' ''cpu'', fw_model = Some (''large-v3'', ''cpu'', Some ''int8''),
          fw_status = Some ex_cpu_status \<rparr>)
   \<and> wc_allow_cpu_fallback ex_whisper_config"
proof -
  have "create_transcriber ex_transcription_env ex_whisper_config
    = Inr (Faster_whisper (faster_whisper_init (with_backend_device ex_whisper_config ''faster-whisper'' ''cpu'')))"
    by (simp add: create_transcriber_def ex_validated) (simp add: ex_cpu_status_def)
  from created_transcriber_is_ready[OF this] show ?thesis
    by (auto simp: ex_validated) (auto simp: faster_whisper_init_def ex_cpu_status_def ex_whisper_config_def)
qed

end
