(* ===== verification/Vad.thy ===== *)
theory Vad
  imports Prelude
begin

text \<open>
  Voice activity detection: \<open>voice/vad_types.py\<close> (configuration, decisions, utterances,
  segmenter events), \<open>voice/vad_energy.py\<close> (the energy detector) and \<open>voice/vad_silero.py\<close>
  (the Silero detector; the neural \<open>VADIterator\<close> is a parameter). The interface a segmenter
  relies on is the locale \<open>vad_detector\<close>, interpreted on both detectors.
\<close>

section \<open>Types\<close>

datatype voice_detector_name = DetAuto | DetSilero | DetEnergy

record vad_config =
  vc_sample_rate :: int
  vc_chunk_ms :: int
  vc_detector :: voice_detector_name
  vc_threshold :: real
  vc_min_silence_ms :: int
  vc_final_silence_ms :: int
  vc_speech_pad_ms :: int
  vc_pre_speech_ms :: int
  vc_min_utterance_ms :: int
  vc_max_utterance_seconds :: real
  vc_energy_start_threshold :: real
  vc_energy_end_threshold :: real
  vc_energy_start_ms :: int

definition default_vad_config :: vad_config where
  "default_vad_config =
     \<lparr>vc_sample_rate = 16000, vc_chunk_ms = 32, vc_detector = DetAuto,
      vc_threshold = 35 / 100, vc_min_silence_ms = 0, vc_final_silence_ms = 1450,
      vc_speech_pad_ms = 0, vc_pre_speech_ms = 320, vc_min_utterance_ms = 250,
      vc_max_utterance_seconds = 20, vc_energy_start_threshold = 12 / 1000,
      vc_energy_end_threshold = 8 / 1000, vc_energy_start_ms = 96\<rparr>"

record vad_decision =
  started :: bool
  ended :: bool
  is_speech :: bool
  speech_probability :: "real option"

record utterance =
  ut_samples :: frame
  ut_sample_rate :: int
  ut_duration_seconds :: real
  ut_forced_end :: bool

text \<open>\<open>UtteranceEvent(kind, utterance)\<close>; \<open>resumed\<close> never carries an utterance.\<close>

datatype utterance_event =
    Endpoint utterance
  | Resumed
  | Confirmed "utterance option"

section \<open>The energy detector\<close>

record energy_state =
  es_config :: vad_config
  es_in_speech :: bool
  es_speech_chunks :: nat
  es_silence_chunks :: nat

definition es_start_chunks :: "vad_config \<Rightarrow> nat" where
  "es_start_chunks c = nat (max 1 (py_round_div (vc_energy_start_ms c) (vc_chunk_ms c)))"

definition es_end_chunks :: "vad_config \<Rightarrow> nat" where
  "es_end_chunks c = nat (max 1 (py_round_div (vc_min_silence_ms c) (vc_chunk_ms c)))"

definition energy_init :: "vad_config \<Rightarrow> py_error + energy_state" where
  "energy_init c =
     (if vc_chunk_ms c = 0 then Inl ZeroDivisionError
      else Inr \<lparr>es_config = c, es_in_speech = False, es_speech_chunks = 0,
                es_silence_chunks = 0\<rparr>)"

text \<open>
  \<open>np.sqrt(np.mean(np.square(frame)))\<close>; the mean of no samples is \<open>nan\<close> (\<open>None\<close>), which
  compares false with every threshold.
\<close>

definition frame_rms :: "frame \<Rightarrow> real option" where
  "frame_rms xs =
     (if xs = [] then None
      else Some (sqrt (sum_list (map (\<lambda>x. x * x) xs) / of_nat (length xs))))"

definition nan_ge :: "real option \<Rightarrow> real \<Rightarrow> bool" where
  "nan_ge r t = (case r of None \<Rightarrow> False | Some x \<Rightarrow> t \<le> x)"

definition nan_le :: "real option \<Rightarrow> real \<Rightarrow> bool" where
  "nan_le r t = (case r of None \<Rightarrow> False | Some x \<Rightarrow> x \<le> t)"

definition energy_accept_before_start ::
  "real option \<Rightarrow> energy_state \<Rightarrow> vad_decision \<times> energy_state" where
  "energy_accept_before_start rms s =
     (let n = (if nan_ge rms (vc_energy_start_threshold (es_config s))
               then es_speech_chunks s + 1 else 0);
          s = s\<lparr>es_speech_chunks := n\<rparr>
      in if n < es_start_chunks (es_config s)
         then (\<lparr>started = False, ended = False, is_speech = False, speech_probability = rms\<rparr>, s)
         else (\<lparr>started = True, ended = False, is_speech = True, speech_probability = rms\<rparr>,
               s\<lparr>es_in_speech := True, es_silence_chunks := 0\<rparr>))"

definition energy_accept_after_start ::
  "real option \<Rightarrow> energy_state \<Rightarrow> vad_decision \<times> energy_state" where
  "energy_accept_after_start rms s =
     (let n = (if nan_le rms (vc_energy_end_threshold (es_config s))
               then es_silence_chunks s + 1 else 0);
          s = s\<lparr>es_silence_chunks := n\<rparr>
      in if n < es_end_chunks (es_config s)
         then (\<lparr>started = False, ended = False, is_speech = True, speech_probability = rms\<rparr>, s)
         else (\<lparr>started = False, ended = True, is_speech = False, speech_probability = rms\<rparr>,
               s\<lparr>es_in_speech := False, es_speech_chunks := 0, es_silence_chunks := 0\<rparr>))"

definition energy_accept :: "energy_state \<Rightarrow> frame \<Rightarrow> vad_decision \<times> energy_state" where
  "energy_accept s f =
     (if es_in_speech s then energy_accept_after_start (frame_rms f) s
      else energy_accept_before_start (frame_rms f) s)"

section \<open>The Silero detector\<close>

text \<open>
  \<open>VADIterator\<close> is code of the silero-vad package: a parameter \<open>iter\<close> from its state and a
  frame to an event. It returns \<open>None\<close>, a dict with the key \<open>start\<close> or a dict with the key
  \<open>end\<close>; the model keeps the two membership tests of the source.
\<close>

record 'i silero_state =
  si_iterator :: 'i
  si_in_speech :: bool

definition silero_supported :: "vad_config \<Rightarrow> bool" where
  "silero_supported c = (vc_sample_rate c \<in> {8000, 16000})"

definition silero_init :: "vad_config \<Rightarrow> 'i \<Rightarrow> py_error + 'i silero_state" where
  "silero_init c it =
     (if silero_supported c then Inr \<lparr>si_iterator = it, si_in_speech = False\<rparr>
      else Inl (ValueError ''Silero VAD supports 8000 Hz and 16000 Hz audio.''))"

definition silero_accept ::
  "('i \<Rightarrow> frame \<Rightarrow> string list option \<times> 'i) \<Rightarrow> 'i silero_state \<Rightarrow> frame
     \<Rightarrow> vad_decision \<times> 'i silero_state" where
  "silero_accept iter s f =
     (let (event, it) = iter (si_iterator s) f;
          st = (case event of None \<Rightarrow> False | Some ks \<Rightarrow> ''start'' \<in> set ks);
          en = (case event of None \<Rightarrow> False | Some ks \<Rightarrow> ''end'' \<in> set ks);
          sp = (if en then False else if st then True else si_in_speech s)
      in (\<lparr>started = st, ended = en, is_speech = sp, speech_probability = None\<rparr>,
          \<lparr>si_iterator = it, si_in_speech = sp\<rparr>))"

section \<open>Decisions of a run\<close>

text \<open>The decisions along a run, and the alternation of starts and ends in it.\<close>

primrec decisions :: "('d \<Rightarrow> frame \<Rightarrow> vad_decision \<times> 'd) \<Rightarrow> 'd \<Rightarrow> frame list \<Rightarrow> vad_decision list"
where
  "decisions acc d [] = []"
| "decisions acc d (f # fs) = fst (acc d f) # decisions acc (snd (acc d f)) fs"

primrec alternates :: "bool \<Rightarrow> vad_decision list \<Rightarrow> bool" where
  "alternates b [] = True"
| "alternates b (x # xs) =
     ((started x \<longrightarrow> \<not> b) \<and> (ended x \<longrightarrow> b) \<and> \<not> (started x \<and> ended x) \<and>
      alternates ((b \<or> started x) \<and> \<not> ended x) xs)"

section \<open>The detector interface\<close>

text \<open>
  What the segmenter relies on: an end of speech is reported only while the detector is in
  speech and leaves it; a start is reported only out of speech and enters it; the \<open>is_speech\<close>
  flag of a decision is the state after it.
\<close>

locale vad_detector =
  fixes accept :: "'d \<Rightarrow> frame \<Rightarrow> vad_decision \<times> 'd"
    and in_speech :: "'d \<Rightarrow> bool"
    and good :: "'d \<Rightarrow> bool"
  assumes speech_flag: "good d \<Longrightarrow> is_speech (fst (accept d f)) = in_speech (snd (accept d f))"
    and started_enters: "good d \<Longrightarrow> started (fst (accept d f)) \<Longrightarrow>
          \<not> in_speech d \<and> in_speech (snd (accept d f))"
    and ended_leaves: "good d \<Longrightarrow> ended (fst (accept d f)) \<Longrightarrow>
          in_speech d \<and> \<not> in_speech (snd (accept d f))"
    and change_reported: "good d \<Longrightarrow> in_speech (snd (accept d f)) \<noteq> in_speech d \<Longrightarrow>
          started (fst (accept d f)) \<or> ended (fst (accept d f))"
    and good_step: "good d \<Longrightarrow> good (snd (accept d f))"
begin

lemma not_both: "good d \<Longrightarrow> \<not> (started (fst (accept d f)) \<and> ended (fst (accept d f)))"
  using started_enters ended_leaves by blast

lemma ended_is_silent:
  "good d \<Longrightarrow> ended (fst (accept d f)) \<Longrightarrow>
     \<not> started (fst (accept d f)) \<and> \<not> is_speech (fst (accept d f))"
  using started_enters ended_leaves speech_flag by blast

lemma decisions_alternate: "good d \<Longrightarrow> alternates (in_speech d) (decisions accept d fs)"
proof (induction fs arbitrary: d)
  case Nil
  then show ?case by simp
next
  case (Cons f fs)
  let ?x = "fst (accept d f)" and ?d = "snd (accept d f)"
  have "((in_speech d \<or> started ?x) \<and> \<not> ended ?x) = in_speech ?d"
    using Cons.prems started_enters ended_leaves change_reported by blast
  then show ?case
    using Cons started_enters ended_leaves not_both good_step by auto
qed

end

subsection \<open>Both detectors provide it\<close>

definition energy_good :: "energy_state \<Rightarrow> bool" where
  "energy_good s \<longleftrightarrow>
     (es_in_speech s \<longrightarrow> es_silence_chunks s < es_end_chunks (es_config s)) \<and>
     (\<not> es_in_speech s \<longrightarrow> es_speech_chunks s < es_start_chunks (es_config s))"

lemmas energy_defs = energy_accept_def energy_accept_before_start_def
  energy_accept_after_start_def Let_def

lemma energy_chunks_pos [simp]: "0 < es_start_chunks c" "0 < es_end_chunks c"
  by (simp_all add: es_start_chunks_def es_end_chunks_def)

interpretation energy: vad_detector energy_accept es_in_speech energy_good
  by unfold_locales (auto simp: energy_defs energy_good_def split: if_splits)

text \<open>Silero's documented behaviour: \<open>start\<close> only out of speech, \<open>end\<close> only in speech.\<close>

definition silero_iter_ok ::
  "('i \<Rightarrow> frame \<Rightarrow> string list option \<times> 'i) \<Rightarrow> ('i \<Rightarrow> bool) \<Rightarrow> bool" where
  "silero_iter_ok iter triggered \<longleftrightarrow>
     (\<forall>i f. case fst (iter i f) of
        None \<Rightarrow> triggered (snd (iter i f)) = triggered i
      | Some ks \<Rightarrow> (ks = [''start''] \<and> \<not> triggered i \<and> triggered (snd (iter i f))) \<or>
                  (ks = [''end''] \<and> triggered i \<and> \<not> triggered (snd (iter i f))))"

lemma silero_detector:
  assumes "silero_iter_ok iter triggered"
  shows "vad_detector (silero_accept iter) si_in_speech
           (\<lambda>s. si_in_speech s = triggered (si_iterator s))"
proof
  fix d :: "'a silero_state" and f
  have ok: "case fst (iter (si_iterator d) f) of
        None \<Rightarrow> triggered (snd (iter (si_iterator d) f)) = triggered (si_iterator d)
      | Some ks \<Rightarrow> (ks = [''start''] \<and> \<not> triggered (si_iterator d) \<and>
                     triggered (snd (iter (si_iterator d) f))) \<or>
                  (ks = [''end''] \<and> triggered (si_iterator d) \<and>
                     \<not> triggered (snd (iter (si_iterator d) f)))"
    using assms by (simp add: silero_iter_ok_def)
  assume good: "si_in_speech d = triggered (si_iterator d)"
  note facts = ok good
  show "is_speech (fst (silero_accept iter d f)) = si_in_speech (snd (silero_accept iter d f))"
    by (simp add: silero_accept_def Let_def split: prod.splits)
  show "si_in_speech (snd (silero_accept iter d f)) =
        triggered (si_iterator (snd (silero_accept iter d f)))"
    using facts by (auto simp: silero_accept_def split: prod.splits option.splits)
  show "started (fst (silero_accept iter d f)) \<Longrightarrow>
        \<not> si_in_speech d \<and> si_in_speech (snd (silero_accept iter d f))"
    using facts by (auto simp: silero_accept_def split: prod.splits option.splits)
  show "ended (fst (silero_accept iter d f)) \<Longrightarrow>
        si_in_speech d \<and> \<not> si_in_speech (snd (silero_accept iter d f))"
    using facts by (auto simp: silero_accept_def split: prod.splits option.splits)
  show "si_in_speech (snd (silero_accept iter d f)) \<noteq> si_in_speech d \<Longrightarrow>
        started (fst (silero_accept iter d f)) \<or> ended (fst (silero_accept iter d f))"
    using facts by (auto simp: silero_accept_def split: prod.splits option.splits)
qed

section \<open>Hysteresis of the energy detector\<close>

definition energy_run :: "energy_state \<Rightarrow> frame list \<Rightarrow> energy_state" where
  "energy_run s fs = foldl (\<lambda>s f. snd (energy_accept s f)) s fs"

definition loud :: "vad_config \<Rightarrow> frame \<Rightarrow> bool" where
  "loud c f \<longleftrightarrow> nan_ge (frame_rms f) (vc_energy_start_threshold c)"

definition quiet :: "vad_config \<Rightarrow> frame \<Rightarrow> bool" where
  "quiet c f \<longleftrightarrow> nan_le (frame_rms f) (vc_energy_end_threshold c)"

definition energy_history :: "vad_config \<Rightarrow> frame list \<Rightarrow> energy_state \<Rightarrow> bool" where
  "energy_history c h s \<longleftrightarrow> es_config s = c \<and>
     (if es_in_speech s
      then es_silence_chunks s \<le> length h \<and> list_all (quiet c) (last_n (es_silence_chunks s) h)
      else es_speech_chunks s \<le> length h \<and> list_all (loud c) (last_n (es_speech_chunks s) h))"

lemma energy_history_step:
  "energy_history c h s \<Longrightarrow> energy_history c (h @ [f]) (snd (energy_accept s f))"
  by (auto simp: energy_history_def energy_defs loud_def quiet_def split: if_splits)

lemma energy_history_run:
  "energy_init c = Inr s \<Longrightarrow> energy_history c fs (energy_run s fs)"
proof (induction fs rule: rev_induct)
  case Nil
  then show ?case
    by (auto simp: energy_init_def energy_run_def energy_history_def split: if_splits)
next
  case (snoc f fs)
  then show ?case using energy_history_step by (auto simp: energy_run_def)
qed

lemma energy_good_run: "energy_good s \<Longrightarrow> energy_good (energy_run s fs)"
  by (induction fs rule: rev_induct) (auto simp: energy_run_def energy.good_step)

lemma energy_started_loud:
  assumes "energy_good s" "energy_history c h s" "started (fst (energy_accept s f))"
  shows "es_start_chunks c \<le> length (h @ [f]) \<and> list_all (loud c) (last_n (es_start_chunks c) (h @ [f]))"
proof -
  from assms have "es_start_chunks c = Suc (es_speech_chunks s)" and "loud c f" and "\<not> es_in_speech s"
    by (auto simp: energy_good_def energy_history_def energy_defs loud_def split: if_splits)
  with assms(2) show ?thesis by (simp add: energy_history_def)
qed

lemma energy_ended_quiet:
  assumes "energy_good s" "energy_history c h s" "ended (fst (energy_accept s f))"
  shows "es_end_chunks c \<le> length (h @ [f]) \<and> list_all (quiet c) (last_n (es_end_chunks c) (h @ [f]))"
proof -
  from assms have "es_end_chunks c = Suc (es_silence_chunks s)" and "quiet c f" and "es_in_speech s"
    by (auto simp: energy_good_def energy_history_def energy_defs quiet_def split: if_splits)
  with assms(2) show ?thesis by (simp add: energy_history_def)
qed

text \<open>
  C23. The energy detector reports a start of speech only after \<open>energy_start_ms\<close> worth of
  consecutive chunks at or above the start threshold, and an end only after
  \<open>min_silence_ms\<close> worth of consecutive chunks at or below the end threshold; starts and
  ends strictly alternate along every run.
\<close>

theorem energy_detector_hysteresis:
  assumes init: "energy_init c = Inr s"
  shows "alternates False (decisions energy_accept s (fs @ [f])) \<and>
    (started (fst (energy_accept (energy_run s fs) f)) \<longrightarrow>
       es_start_chunks c \<le> length (fs @ [f]) \<and>
       list_all (loud c) (last_n (es_start_chunks c) (fs @ [f]))) \<and>
    (ended (fst (energy_accept (energy_run s fs) f)) \<longrightarrow>
       es_end_chunks c \<le> length (fs @ [f]) \<and>
       list_all (quiet c) (last_n (es_end_chunks c) (fs @ [f])))"
proof -
  have s: "energy_good s" "\<not> es_in_speech s"
    using init by (auto simp: energy_init_def energy_good_def split: if_splits)
  note run = energy_good_run [OF s(1), of fs] energy_history_run [OF init, of fs]
  show ?thesis
    using energy.decisions_alternate [OF s(1), of "fs @ [f]"] s(2)
      energy_started_loud [OF run] energy_ended_quiet [OF run] by simp
qed

theorem energy_detector_hysteresis_witness:
  "\<exists>s. energy_init default_vad_config = Inr s \<and>
     started (fst (energy_accept (energy_run s [[1], [1]]) [1])) \<and>
     es_start_chunks default_vad_config \<le> length [[1], [1], [1 :: real]] \<and>
     list_all (loud default_vad_config)
       (last_n (es_start_chunks default_vad_config) [[1], [1], [1]])"
proof -
  let ?s = "\<lparr>es_config = default_vad_config, es_in_speech = False, es_speech_chunks = 0,
             es_silence_chunks = 0\<rparr>"
  have init: "energy_init default_vad_config = Inr ?s"
    by (simp add: energy_init_def default_vad_config_def)
  have "started (fst (energy_accept (energy_run ?s [[1], [1]]) [1]))"
    by (simp add: energy_run_def energy_defs es_start_chunks_def py_round_div_def frame_rms_def
        nan_ge_def default_vad_config_def)
  with energy_detector_hysteresis [OF init, of "[[1], [1]]" "[1]"] init show ?thesis
    by auto
qed

end
