(* ===== verification/Segmenter.thy ===== *)
theory Segmenter
  imports Vad
begin

text \<open>
  The utterance segmenter, \<open>voice/utterance_segmenter.py\<close>: it cuts the microphone stream
  into chunks, keeps a pre-roll, records from the detector's start, and reports
  \<open>endpoint\<close>, \<open>resumed\<close> and \<open>confirmed\<close> events. The detector is an argument of the
  operations (\<open>acc\<close>), so every lemma holds for any detector.
\<close>

section \<open>State and constants of the configuration\<close>

record 'd segmenter =
  sg_detector :: 'd
  sg_config :: vad_config
  sg_pre_roll :: "frame list"
  sg_pending :: frame
  sg_frames :: "frame list"
  sg_pending_end_samples :: "nat option"
  sg_pending_endpoint :: "utterance option"
  sg_recording_samples :: nat
  sg_recording :: bool

definition remaining_final_silence_ms :: "vad_config \<Rightarrow> int" where
  "remaining_final_silence_ms c = max 0 (vc_final_silence_ms c - vc_min_silence_ms c)"

definition pre_roll_maxlen :: "vad_config \<Rightarrow> nat" where
  "pre_roll_maxlen c = nat (max 1 (py_round_div (vc_pre_speech_ms c) (vc_chunk_ms c)))"

definition chunk_samples :: "vad_config \<Rightarrow> nat" where
  "chunk_samples c = nat (max 1 (py_int_div (vc_sample_rate c * vc_chunk_ms c) 1000))"

definition final_silence_samples :: "vad_config \<Rightarrow> nat" where
  "final_silence_samples c =
     nat (max 0 (py_int_div (vc_sample_rate c * remaining_final_silence_ms c) 1000))"

definition segmenter_init :: "'d \<Rightarrow> vad_config \<Rightarrow> py_error + 'd segmenter" where
  "segmenter_init d c =
     (if vc_chunk_ms c = 0 then Inl ZeroDivisionError
      else Inr \<lparr>sg_detector = d, sg_config = c, sg_pre_roll = [], sg_pending = [],
                sg_frames = [], sg_pending_end_samples = None, sg_pending_endpoint = None,
                sg_recording_samples = 0, sg_recording = False\<rparr>)"

section \<open>Operations\<close>

definition seg_reset :: "'d segmenter \<Rightarrow> 'd segmenter" where
  "seg_reset s = s\<lparr>sg_pending := [], sg_frames := [], sg_pending_end_samples := None,
     sg_pending_endpoint := None, sg_recording_samples := 0, sg_recording := False,
     sg_pre_roll := []\<rparr>"

definition build_utterance :: "'d segmenter \<Rightarrow> bool \<Rightarrow> utterance option" where
  "build_utterance s forced_end =
     (let samples = concat (sg_frames s);
          rate = vc_sample_rate (sg_config s);
          duration = of_nat (length samples) / of_int rate
      in if duration * 1000 < of_int (vc_min_utterance_ms (sg_config s)) then None
         else Some \<lparr>ut_samples = samples, ut_sample_rate = rate,
                    ut_duration_seconds = duration, ut_forced_end = forced_end\<rparr>)"

definition endpoint_event ::
  "'d segmenter \<Rightarrow> bool \<Rightarrow> bool \<Rightarrow> utterance_event option \<times> 'd segmenter" where
  "endpoint_event s forced_end do_reset =
     (case build_utterance s forced_end of
        None \<Rightarrow> (None, seg_reset s)
      | Some u \<Rightarrow>
          (Some (Endpoint u),
           if do_reset then seg_reset s else s\<lparr>sg_pending_endpoint := Some u\<rparr>))"

definition accept_before_start ::
  "('d \<Rightarrow> frame \<Rightarrow> vad_decision \<times> 'd) \<Rightarrow> frame \<Rightarrow> 'd segmenter
     \<Rightarrow> utterance_event option \<times> 'd segmenter" where
  "accept_before_start acc f s =
     (let roll = deque_append (pre_roll_maxlen (sg_config s)) (sg_pre_roll s) f;
          (d, det) = acc (sg_detector s) f;
          s = s\<lparr>sg_pre_roll := roll, sg_detector := det\<rparr>
      in (None,
          if started d
          then s\<lparr>sg_recording := True, sg_frames := roll,
                 sg_recording_samples := total_len roll\<rparr>
          else s))"

definition accept_after_start ::
  "('d \<Rightarrow> frame \<Rightarrow> vad_decision \<times> 'd) \<Rightarrow> frame \<Rightarrow> 'd segmenter
     \<Rightarrow> utterance_event option \<times> 'd segmenter" where
  "accept_after_start acc f s =
     (let (d, det) = acc (sg_detector s) f;
          s = s\<lparr>sg_frames := sg_frames s @ [f],
                sg_recording_samples := sg_recording_samples s + length f,
                sg_detector := det\<rparr>;
          c = sg_config s;
          forced_end = (vc_max_utterance_seconds c
             \<le> of_nat (sg_recording_samples s) / of_int (vc_sample_rate c))
      in if forced_end then endpoint_event s forced_end True
         else if started d \<or> is_speech d then
           (if sg_pending_end_samples s \<noteq> None then Some Resumed else None,
            s\<lparr>sg_pending_end_samples := None, sg_pending_endpoint := None\<rparr>)
         else if ended d then
           endpoint_event (s\<lparr>sg_pending_end_samples := Some 0\<rparr>) forced_end
             (final_silence_samples c \<le> 0)
         else (case sg_pending_end_samples s of
             None \<Rightarrow> (None, s)
           | Some n \<Rightarrow>
               (let s = s\<lparr>sg_pending_end_samples := Some (n + length f)\<rparr>
                in if n + length f < final_silence_samples c then (None, s)
                   else (Some (Confirmed (sg_pending_endpoint s)), seg_reset s))))"

definition accept_chunk ::
  "('d \<Rightarrow> frame \<Rightarrow> vad_decision \<times> 'd) \<Rightarrow> frame \<Rightarrow> 'd segmenter
     \<Rightarrow> utterance_event option \<times> 'd segmenter" where
  "accept_chunk acc f s =
     (if sg_recording s then accept_after_start acc f s else accept_before_start acc f s)"

lemmas seg_defs = accept_chunk_def accept_before_start_def accept_after_start_def
  endpoint_event_def seg_reset_def Let_def

lemma accept_chunk_config [simp]: "sg_config (snd (accept_chunk acc f s)) = sg_config s"
  by (auto simp: seg_defs split: prod.splits option.splits)

lemma accept_chunk_pending:
  "sg_pending (snd (accept_chunk acc f s)) = sg_pending s \<or>
   sg_pending (snd (accept_chunk acc f s)) = []"
  by (auto simp: seg_defs split: prod.splits option.splits)

lemma chunk_samples_pos [simp]: "0 < chunk_samples c"
  by (simp add: chunk_samples_def)

text \<open>The \<open>while\<close> loop of \<open>accept_event\<close>: it stops at the first event.\<close>

function drain ::
  "('d \<Rightarrow> frame \<Rightarrow> vad_decision \<times> 'd) \<Rightarrow> 'd segmenter \<Rightarrow> utterance_event option \<times> 'd segmenter"
where
  "drain acc s =
     (let n = chunk_samples (sg_config s)
      in if n \<le> length (sg_pending s)
         then (let r = accept_chunk acc (take n (sg_pending s))
                         (s\<lparr>sg_pending := drop n (sg_pending s)\<rparr>)
               in case fst r of Some e \<Rightarrow> (Some e, snd r) | None \<Rightarrow> drain acc (snd r))
         else (None, s))"
  by pat_completeness auto
termination
proof (relation "measure (\<lambda>(acc, s). length (sg_pending s))", goal_cases)
  case 1
  show ?case by simp
next
  case (2 acc s n r)
  then have n: "n = chunk_samples (sg_config s)" "n \<le> length (sg_pending s)" "0 < n"
    and r: "r = accept_chunk acc (take n (sg_pending s)) (s\<lparr>sg_pending := drop n (sg_pending s)\<rparr>)"
    by simp_all
  from accept_chunk_pending [of acc "take n (sg_pending s)" "s\<lparr>sg_pending := drop n (sg_pending s)\<rparr>"]
  have "length (sg_pending (snd r)) \<le> length (sg_pending s) - n"
    unfolding r by auto
  with n(2,3) show ?case by simp
qed

declare drain.simps [simp del]

text \<open>The loop equation in the form that evaluates: guards before bodies.\<close>

lemma drain_unfold:
  "drain acc s =
     (if chunk_samples (sg_config s) \<le> length (sg_pending s)
      then (case fst (accept_chunk acc (take (chunk_samples (sg_config s)) (sg_pending s))
                   (s\<lparr>sg_pending := drop (chunk_samples (sg_config s)) (sg_pending s)\<rparr>)) of
              Some e \<Rightarrow> (Some e, snd (accept_chunk acc (take (chunk_samples (sg_config s)) (sg_pending s))
                   (s\<lparr>sg_pending := drop (chunk_samples (sg_config s)) (sg_pending s)\<rparr>)))
            | None \<Rightarrow> drain acc (snd (accept_chunk acc (take (chunk_samples (sg_config s)) (sg_pending s))
                   (s\<lparr>sg_pending := drop (chunk_samples (sg_config s)) (sg_pending s)\<rparr>))))
      else (None, s))"
  by (subst drain.simps) (simp add: Let_def)

definition accept_event ::
  "('d \<Rightarrow> frame \<Rightarrow> vad_decision \<times> 'd) \<Rightarrow> frame \<Rightarrow> 'd segmenter
     \<Rightarrow> utterance_event option \<times> 'd segmenter" where
  "accept_event acc frame s =
     (if frame = [] then (None, s)
      else drain acc (s\<lparr>sg_pending := sg_pending s @ frame\<rparr>))"

definition seg_accept ::
  "('d \<Rightarrow> frame \<Rightarrow> vad_decision \<times> 'd) \<Rightarrow> frame \<Rightarrow> 'd segmenter
     \<Rightarrow> utterance option \<times> 'd segmenter" where
  "seg_accept acc frame s =
     (let (e, s) = accept_event acc frame s
      in (case e of Some (Endpoint u) \<Rightarrow> Some u | _ \<Rightarrow> None, s))"

section \<open>Invariant\<close>

definition seg_config_ok :: "vad_config \<Rightarrow> bool" where
  [wf_simps]: "seg_config_ok c \<longleftrightarrow> 0 < vc_sample_rate c \<and> vc_chunk_ms c \<noteq> 0"

text \<open>No recording outlives this many samples without a forced end.\<close>

definition max_recording :: "vad_config \<Rightarrow> real" where
  "max_recording c = max (of_nat (pre_roll_maxlen c * chunk_samples c))
     (vc_max_utterance_seconds c * of_int (vc_sample_rate c))"

definition long_enough :: "vad_config \<Rightarrow> nat \<Rightarrow> bool" where
  "long_enough c n \<longleftrightarrow>
     of_int (vc_min_utterance_ms c) \<le> (of_nat n / of_int (vc_sample_rate c)) * (1000 :: real)"

text \<open>\<open>h\<close> is the audio consumed so far: what is recorded is its most recent part.\<close>

definition seg_inv :: "frame \<Rightarrow> 'd segmenter \<Rightarrow> bool" where
  "seg_inv h s \<longleftrightarrow>
     sg_recording_samples s = total_len (sg_frames s) \<and>
     suffix (concat (sg_frames s)) h \<and>
     length (sg_pre_roll s) \<le> pre_roll_maxlen (sg_config s) \<and>
     (\<forall>f \<in> set (sg_pre_roll s). length f = chunk_samples (sg_config s)) \<and>
     (sg_recording s \<longrightarrow> of_nat (total_len (sg_frames s)) \<le> max_recording (sg_config s)) \<and>
     (\<not> sg_recording s \<longrightarrow> sg_frames s = [] \<and> sg_pending_endpoint s = None \<and>
        suffix (concat (sg_pre_roll s)) h) \<and>
     (sg_pending_end_samples s = None \<longleftrightarrow> sg_pending_endpoint s = None) \<and>
     (sg_pending_endpoint s \<noteq> None \<longrightarrow> long_enough (sg_config s) (total_len (sg_frames s)))"

definition utterance_ok :: "vad_config \<Rightarrow> frame \<Rightarrow> utterance \<Rightarrow> bool" where
  "utterance_ok c h u \<longleftrightarrow>
     sublist (ut_samples u) h \<and> ut_sample_rate u = vc_sample_rate c \<and>
     ut_duration_seconds u = of_nat (length (ut_samples u)) / of_int (vc_sample_rate c) \<and>
     long_enough c (length (ut_samples u)) \<and>
     of_nat (length (ut_samples u)) \<le> max_recording c + of_nat (chunk_samples c)"

text \<open>What one event may be, from the outstanding endpoint \<open>out\<close> before to \<open>out'\<close> after.\<close>

fun event_ok ::
  "vad_config \<Rightarrow> frame \<Rightarrow> utterance option \<Rightarrow> utterance_event option \<Rightarrow> utterance option \<Rightarrow> bool"
where
  "event_ok c h out None out' = (out' = out)"
| "event_ok c h out (Some (Endpoint u)) out' =
     (utterance_ok c h u \<and>
      out' = (if ut_forced_end u \<or> final_silence_samples c = 0 then None else Some u))"
| "event_ok c h out (Some Resumed) out' = (out \<noteq> None \<and> out' = None)"
| "event_ok c h out (Some (Confirmed v)) out' = (out \<noteq> None \<and> v = out \<and> out' = None)"

lemma seg_inv_reset [simp]:
  "seg_inv h (seg_reset s)" "sg_pending_endpoint (seg_reset s) = None"
  "sg_pending (seg_reset s) = []"
  by (simp_all add: seg_inv_def seg_reset_def)

lemma build_utterance_None:
  "build_utterance s b = None \<longleftrightarrow> \<not> long_enough (sg_config s) (total_len (sg_frames s))"
  by (simp add: build_utterance_def long_enough_def Let_def not_le)

lemma build_utterance_Some:
  assumes "build_utterance s b = Some u" "suffix (concat (sg_frames s)) h"
    "of_nat (total_len (sg_frames s)) \<le> max_recording (sg_config s) + of_nat (chunk_samples (sg_config s))"
  shows "utterance_ok (sg_config s) h u" "ut_forced_end u = b"
  using assms
  by (auto simp: build_utterance_def utterance_ok_def long_enough_def Let_def not_less
      split: if_splits)

lemma long_enough_mono:
  "long_enough c m \<Longrightarrow> 0 < vc_sample_rate c \<Longrightarrow> m \<le> n \<Longrightarrow> long_enough c n"
  unfolding long_enough_def
  by (erule order_trans) (intro mult_right_mono divide_right_mono, simp_all)

section \<open>Every step keeps the invariant and the event protocol\<close>

lemma accept_before_start_inv:
  assumes "seg_inv h s" "\<not> sg_recording s" "length f = chunk_samples (sg_config s)"
    and r: "accept_before_start acc f s = (e, s')"
  shows "seg_inv (h @ f) s' \<and> event_ok (sg_config s) (h @ f) (sg_pending_endpoint s) e (sg_pending_endpoint s')"
proof -
  let ?c = "sg_config s"
  let ?roll = "deque_append (pre_roll_maxlen ?c) (sg_pre_roll s) f"
  have lens: "\<forall>g \<in> set ?roll. length g = chunk_samples ?c"
    using assms(1,3) set_deque_append [of "pre_roll_maxlen ?c" "sg_pre_roll s" f]
    by (auto simp: seg_inv_def)
  have suf: "suffix (concat ?roll) (h @ f)"
    using assms(1,2) by (intro concat_deque_append_suffix) (simp add: seg_inv_def)
  have "total_len ?roll \<le> length ?roll * chunk_samples ?c"
    using lens by (intro total_len_bound) simp
  also have "\<dots> \<le> pre_roll_maxlen ?c * chunk_samples ?c"
    by (intro mult_right_mono) simp_all
  finally have "real (total_len ?roll) \<le> max_recording ?c"
    unfolding max_recording_def by (simp add: le_max_iff_disj flip: of_nat_mult)
  then show ?thesis
    using assms lens suf
    by (auto simp: seg_inv_def accept_before_start_def Let_def split: prod.splits if_splits)
qed

lemma endpoint_event_inv:
  assumes r: "endpoint_event s b rst = (e, s')"
    and inv: "sg_recording_samples s = total_len (sg_frames s)" "suffix (concat (sg_frames s)) h"
      "length (sg_pre_roll s) \<le> pre_roll_maxlen (sg_config s)"
      "\<forall>f \<in> set (sg_pre_roll s). length f = chunk_samples (sg_config s)" "sg_recording s"
      "of_nat (total_len (sg_frames s)) \<le> max_recording (sg_config s) + of_nat (chunk_samples (sg_config s))"
      "\<not> rst \<Longrightarrow> of_nat (total_len (sg_frames s)) \<le> max_recording (sg_config s)"
      "\<not> rst \<Longrightarrow> sg_pending_end_samples s \<noteq> None"
      "rst \<longleftrightarrow> b \<or> final_silence_samples (sg_config s) = 0"
      "out \<noteq> None \<Longrightarrow> long_enough (sg_config s) (total_len (sg_frames s))"
  shows "seg_inv h s' \<and> event_ok (sg_config s) h out e (sg_pending_endpoint s')"
proof (cases "build_utterance s b")
  case None
  then have "out = None" using inv(10) by (cases out) (auto simp: build_utterance_None)
  with None r show ?thesis by (auto simp: endpoint_event_def)
next
  case (Some u)
  then have u: "utterance_ok (sg_config s) h u" "ut_forced_end u = b"
    and long: "long_enough (sg_config s) (total_len (sg_frames s))"
    using build_utterance_Some [OF Some] inv(2,6) build_utterance_None [of s b] by auto
  show ?thesis
  proof (cases rst)
    case True
    with Some r u inv(9) show ?thesis by (auto simp: endpoint_event_def)
  next
    case False
    with Some r u inv long show ?thesis
      by (auto simp: endpoint_event_def seg_inv_def)
  qed
qed

lemma not_forced_bound:
  "0 < vc_sample_rate c \<Longrightarrow>
   \<not> vc_max_utterance_seconds c \<le> of_nat n / of_int (vc_sample_rate c) \<Longrightarrow>
   of_nat n \<le> max_recording c"
  by (simp add: max_recording_def le_max_iff_disj not_le pos_divide_less_eq)

lemma accept_after_start_inv:
  assumes inv: "seg_inv h s" "sg_recording s" "length f = chunk_samples (sg_config s)"
    and rate: "0 < vc_sample_rate (sg_config s)"
    and r: "accept_after_start acc f s = (e, s')"
  shows "seg_inv (h @ f) s' \<and> event_ok (sg_config s) (h @ f) (sg_pending_endpoint s) e (sg_pending_endpoint s')"
proof -
  let ?c = "sg_config s" and ?fs = "sg_frames s @ [f]"
  obtain d det where d: "acc (sg_detector s) f = (d, det)" by fastforce
  let ?s1 = "s\<lparr>sg_frames := ?fs, sg_recording_samples := sg_recording_samples s + length f,
              sg_detector := det\<rparr>"
  let ?forced = "vc_max_utterance_seconds ?c \<le>
    of_nat (sg_recording_samples s + length f) / of_int (vc_sample_rate ?c)"
  have suf: "suffix (concat ?fs) (h @ f)"
    using inv(1) by (auto simp: seg_inv_def suffix_def)
  have cnt: "sg_recording_samples s + length f = total_len ?fs"
    using inv(1) by (simp add: seg_inv_def)
  have bound: "of_nat (total_len ?fs) \<le> max_recording ?c + of_nat (chunk_samples ?c)"
    using inv by (simp add: seg_inv_def)
  have long: "sg_pending_endpoint s \<noteq> None \<Longrightarrow> long_enough ?c (total_len ?fs)"
    using inv(1) rate long_enough_mono [of ?c "total_len (sg_frames s)" "total_len ?fs"]
    by (simp add: seg_inv_def)
  note base = inv(1,2) suf cnt bound long
  show ?thesis
  proof (cases ?forced)
    case True
    then have "endpoint_event ?s1 True True = (e, s')"
      using r d by (simp add: accept_after_start_def Let_def)
    then have "seg_inv (h @ f) s' \<and>
        event_ok (sg_config ?s1) (h @ f) (sg_pending_endpoint s) e (sg_pending_endpoint s')"
      by (rule endpoint_event_inv) (use base in \<open>simp_all add: seg_inv_def\<close>)
    then show ?thesis by simp
  next
    case False
    then have small: "of_nat (total_len ?fs) \<le> max_recording ?c"
      using not_forced_bound [OF rate] unfolding cnt by blast
    consider (speech) "started d \<or> is_speech d"
      | (ended) "\<not> (started d \<or> is_speech d)" "ended d"
      | (silence) "\<not> (started d \<or> is_speech d)" "\<not> ended d" by blast
    then show ?thesis
    proof cases
      case speech
      with False r d base small show ?thesis
        by (auto simp: accept_after_start_def Let_def seg_inv_def)
    next
      case ended
      with False r d have "endpoint_event (?s1\<lparr>sg_pending_end_samples := Some 0\<rparr>) False
          (final_silence_samples ?c = 0) = (e, s')"
        by (simp add: accept_after_start_def Let_def)
      then have "seg_inv (h @ f) s' \<and> event_ok (sg_config (?s1\<lparr>sg_pending_end_samples := Some 0\<rparr>))
          (h @ f) (sg_pending_endpoint s) e (sg_pending_endpoint s')"
        by (rule endpoint_event_inv) (use base small in \<open>simp_all add: seg_inv_def\<close>)
      then show ?thesis by simp
    next
      case silence
      with False r d base small show ?thesis
        by (auto simp: accept_after_start_def Let_def seg_inv_def seg_reset_def
            split: option.splits if_splits)
    qed
  qed
qed

lemma accept_chunk_inv:
  assumes "seg_inv h s" "length f = chunk_samples (sg_config s)" "0 < vc_sample_rate (sg_config s)"
  shows "seg_inv (h @ f) (snd (accept_chunk acc f s)) \<and>
    event_ok (sg_config s) (h @ f) (sg_pending_endpoint s) (fst (accept_chunk acc f s))
      (sg_pending_endpoint (snd (accept_chunk acc f s)))"
  using accept_before_start_inv [OF assms(1) _ assms(2), of acc]
    accept_after_start_inv [OF assms(1) _ assms(2,3), of acc]
  by (cases "sg_recording s"; cases "accept_before_start acc f s"; cases "accept_after_start acc f s")
    (auto simp: accept_chunk_def)

text \<open>When a chunk throws the pending audio away, the segmenter is back at rest.\<close>

lemma accept_chunk_drops:
  "sg_pending (snd (accept_chunk acc f s)) = sg_pending s \<or>
   (sg_pending (snd (accept_chunk acc f s)) = [] \<and> (\<forall>h. seg_inv h (snd (accept_chunk acc f s))))"
  by (auto simp: accept_chunk_def accept_before_start_def accept_after_start_def endpoint_event_def
      Let_def split: prod.splits option.splits)

text \<open>The invariant over the whole input stream \<open>t\<close>.\<close>

definition seg_stream :: "frame \<Rightarrow> 'd segmenter \<Rightarrow> bool" where
  "seg_stream t s \<longleftrightarrow> (\<exists>h. t = h @ sg_pending s \<and> seg_inv h s)"

lemma utterance_ok_append: "utterance_ok c h u \<Longrightarrow> utterance_ok c (h @ t) u"
  by (auto simp: utterance_ok_def sublist_append)

lemma event_ok_append: "event_ok c h out e out' \<Longrightarrow> event_ok c (h @ t) out e out'"
  by (induction c h out e out' rule: event_ok.induct) (auto simp: utterance_ok_append)

lemma drain_stream:
  assumes "seg_stream t s" "0 < vc_sample_rate (sg_config s)"
  shows "seg_stream t (snd (drain acc s)) \<and> sg_config (snd (drain acc s)) = sg_config s \<and>
    event_ok (sg_config s) t (sg_pending_endpoint s) (fst (drain acc s))
      (sg_pending_endpoint (snd (drain acc s)))"
  using assms
proof (induction acc s rule: drain.induct)
  case (1 acc s)
  let ?n = "chunk_samples (sg_config s)"
  let ?f = "take ?n (sg_pending s)" and ?s0 = "s\<lparr>sg_pending := drop ?n (sg_pending s)\<rparr>"
  let ?r = "accept_chunk acc ?f ?s0"
  show ?case
  proof (cases "?n \<le> length (sg_pending s)")
    case False
    with "1.prems" show ?thesis by (simp add: drain.simps [of acc s] Let_def)
  next
    case True
    obtain h where h: "t = h @ sg_pending s" "seg_inv h s"
      using "1.prems"(1) by (auto simp: seg_stream_def)
    have "seg_inv h ?s0" using h(2) by (simp add: seg_inv_def)
    from accept_chunk_inv [OF this, of ?f acc] True "1.prems"(2)
    have step: "seg_inv (h @ ?f) (snd ?r)"
      "event_ok (sg_config s) (h @ ?f) (sg_pending_endpoint s) (fst ?r) (sg_pending_endpoint (snd ?r))"
      by simp_all
    have t: "t = (h @ ?f) @ drop ?n (sg_pending s)" using h(1) by simp
    have stream: "seg_stream t (snd ?r)"
    proof (cases "sg_pending (snd ?r) = drop ?n (sg_pending s)")
      case True
      with step(1) t show ?thesis unfolding seg_stream_def by metis
    next
      case False
      with accept_chunk_drops [of acc ?f ?s0] show ?thesis by (auto simp: seg_stream_def)
    qed
    have ev: "event_ok (sg_config s) t (sg_pending_endpoint s) (fst ?r) (sg_pending_endpoint (snd ?r))"
      using event_ok_append [OF step(2), of "drop ?n (sg_pending s)"] t by simp
    show ?thesis
    proof (cases "fst ?r")
      case (Some e)
      with True stream ev show ?thesis by (simp add: drain.simps [of acc s] Let_def)
    next
      case None
      with True have eq: "drain acc s = drain acc (snd ?r)"
        by (simp add: drain.simps [of acc s] Let_def)
      have "seg_stream t (snd (drain acc (snd ?r))) \<and>
          sg_config (snd (drain acc (snd ?r))) = sg_config (snd ?r) \<and>
          event_ok (sg_config (snd ?r)) t (sg_pending_endpoint (snd ?r)) (fst (drain acc (snd ?r)))
            (sg_pending_endpoint (snd (drain acc (snd ?r))))"
        using "1.IH" [OF refl True refl None stream] "1.prems"(2) by simp
      with eq ev None show ?thesis by simp
    qed
  qed
qed

lemma accept_event_stream:
  assumes "seg_stream t s" "0 < vc_sample_rate (sg_config s)"
  shows "seg_stream (t @ f) (snd (accept_event acc f s)) \<and>
    sg_config (snd (accept_event acc f s)) = sg_config s \<and>
    event_ok (sg_config s) (t @ f) (sg_pending_endpoint s) (fst (accept_event acc f s))
      (sg_pending_endpoint (snd (accept_event acc f s)))"
proof -
  let ?s = "s\<lparr>sg_pending := sg_pending s @ f\<rparr>"
  have "seg_stream (t @ f) ?s"
    using assms(1) by (auto simp: seg_stream_def seg_inv_def)
  from drain_stream [OF this, of acc] assms show ?thesis
    by (auto simp: accept_event_def)
qed

section \<open>Runs\<close>

primrec seg_events ::
  "('d \<Rightarrow> frame \<Rightarrow> vad_decision \<times> 'd) \<Rightarrow> 'd segmenter \<Rightarrow> frame list \<Rightarrow> utterance_event list"
where
  "seg_events acc s [] = []"
| "seg_events acc s (f # fs) =
     (case fst (accept_event acc f s) of None \<Rightarrow> [] | Some e \<Rightarrow> [e]) @
     seg_events acc (snd (accept_event acc f s)) fs"

text \<open>
  The event protocol: \<open>resumed\<close> and \<open>confirmed\<close> answer an outstanding speculative endpoint,
  and a confirmation hands back exactly the utterance of that endpoint.
\<close>

fun protocol :: "vad_config \<Rightarrow> frame \<Rightarrow> utterance option \<Rightarrow> utterance_event list \<Rightarrow> bool" where
  "protocol c t out [] = True"
| "protocol c t out (Endpoint u # es) =
     (utterance_ok c t u \<and>
      protocol c t (if ut_forced_end u \<or> final_silence_samples c = 0 then None else Some u) es)"
| "protocol c t out (Resumed # es) = (out \<noteq> None \<and> protocol c t None es)"
| "protocol c t out (Confirmed v # es) = (out \<noteq> None \<and> v = out \<and> protocol c t None es)"

lemma event_protocol:
  assumes "event_ok c h out e out'" "protocol c (h @ t) out' es"
  shows "protocol c (h @ t) out ((case e of None \<Rightarrow> [] | Some e \<Rightarrow> [e]) @ es)"
  using assms by (induction c h out e out' rule: event_ok.induct) (auto simp: utterance_ok_append)

lemma seg_events_protocol:
  assumes "seg_stream t s" "0 < vc_sample_rate (sg_config s)"
  shows "protocol (sg_config s) (t @ concat fs) (sg_pending_endpoint s) (seg_events acc s fs)"
  using assms
proof (induction fs arbitrary: t s)
  case Nil
  then show ?case by simp
next
  case (Cons f fs)
  note step = accept_event_stream [OF Cons.prems, of f acc]
  show ?case
    using event_protocol [of "sg_config s" "t @ f" "sg_pending_endpoint s" "fst (accept_event acc f s)" _
        "concat fs"] Cons.IH [of "t @ f" "snd (accept_event acc f s)"] step Cons.prems(2)
    by auto
qed

text \<open>
  C5. For every detector and every stream of microphone frames, the events of a fresh
  segmenter follow the speculative-endpoint protocol: \<open>resumed\<close> and \<open>confirmed\<close> occur only
  while an endpoint is outstanding, a confirmation returns exactly the outstanding
  utterance, forced endpoints are final at once; and every reported utterance is a
  contiguous piece of the input audio, at least \<open>min_utterance_ms\<close> long and at most one
  chunk over the recording limit.
\<close>

theorem segmenter_event_protocol:
  assumes "segmenter_init d c = Inr s" "0 < vc_sample_rate c"
  shows "protocol c (concat fs) None (seg_events acc s fs)"
proof -
  have "seg_stream [] s" "sg_config s = c" "sg_pending_endpoint s = None"
    using assms(1) by (auto simp: segmenter_init_def seg_stream_def seg_inv_def split: if_splits)
  with seg_events_protocol [of "[]" s fs acc] assms(2) show ?thesis by simp
qed

subsection \<open>A run\<close>

definition ex_config :: vad_config where
  "ex_config = default_vad_config\<lparr>vc_sample_rate := 1000, vc_chunk_ms := 1,
     vc_final_silence_ms := 2, vc_min_utterance_ms := 1, vc_pre_speech_ms := 2\<rparr>"

text \<open>A detector that replays a list of decisions.\<close>

definition scripted :: "vad_decision list \<Rightarrow> frame \<Rightarrow> vad_decision \<times> vad_decision list" where
  "scripted ds f = (case ds of
       [] \<Rightarrow> (\<lparr>started = False, ended = False, is_speech = False, speech_probability = None\<rparr>, [])
     | d # ds \<Rightarrow> (d, ds))"

definition ex_script :: "vad_decision list" where
  "ex_script = [\<lparr>started = True, ended = False, is_speech = True, speech_probability = None\<rparr>,
     \<lparr>started = False, ended = True, is_speech = False, speech_probability = None\<rparr>]"

definition ex_segmenter :: "vad_decision list segmenter" where
  "ex_segmenter = \<lparr>sg_detector = ex_script, sg_config = ex_config, sg_pre_roll = [],
     sg_pending = [], sg_frames = [], sg_pending_end_samples = None,
     sg_pending_endpoint = None, sg_recording_samples = 0, sg_recording = False\<rparr>"

lemma ex_config_simps:
  "chunk_samples ex_config = 1" "pre_roll_maxlen ex_config = 2"
  "final_silence_samples ex_config = 2" "vc_sample_rate ex_config = 1000"
  "vc_min_utterance_ms ex_config = 1" "vc_max_utterance_seconds ex_config = 20"
  "vc_chunk_ms ex_config = 1"
  by (simp_all add: ex_config_def default_vad_config_def chunk_samples_def py_int_div_def
      pre_roll_maxlen_def py_round_div_def final_silence_samples_def remaining_final_silence_ms_def)

lemmas ex_run_simps = ex_config_simps ex_segmenter_def ex_script_def scripted_def
  segmenter_init_def accept_event_def drain_unfold seg_defs deque_append_def build_utterance_def

lemma ex_segmenter_init: "segmenter_init ex_script ex_config = Inr ex_segmenter"
  by (simp add: segmenter_init_def ex_segmenter_def ex_config_simps)

theorem segmenter_event_protocol_witness:
  "protocol ex_config (concat [[1, 2], [3], [4]]) None
      (seg_events scripted ex_segmenter [[1, 2], [3], [4]]) \<and>
   (\<exists>u. ut_samples u = [1, 2] \<and>
      seg_events scripted ex_segmenter [[1, 2], [3], [4]] = [Endpoint u, Confirmed (Some u)])"
proof
  show "protocol ex_config (concat [[1, 2], [3], [4]]) None
      (seg_events scripted ex_segmenter [[1, 2], [3], [4]])"
    by (rule segmenter_event_protocol [OF ex_segmenter_init]) (simp add: ex_config_simps)
  have "seg_events scripted ex_segmenter [[1, 2], [3], [4]] =
      (let u = \<lparr>ut_samples = [1, 2], ut_sample_rate = 1000, ut_duration_seconds = 2 / 1000,
                ut_forced_end = False\<rparr>
       in [Endpoint u, Confirmed (Some u)])"
    by (simp add: ex_run_simps)
  then show "\<exists>u. ut_samples u = [1, 2] \<and>
      seg_events scripted ex_segmenter [[1, 2], [3], [4]] = [Endpoint u, Confirmed (Some u)]"
    by (simp add: Let_def)
qed

end
