(* ===== verification/Keyphrases.thy ===== *)
theory Keyphrases
  imports Text "HOL-Library.AList" "HOL-Library.Product_Lexorder"
begin

text \<open>
  \<open>keyphrases/types.py\<close>, \<open>aliases.py\<close>, \<open>pocketsphinx_helpers.py\<close> and
  \<open>pocketsphinx_phrase.py\<close>: phrase normalisation and matching, the conversion to 16-bit
  PCM, the rolling sample buffer of the phrase spotter, its detections and the frames it
  replays. The PocketSphinx decoder is a parameter: a record of the operations the spotter
  calls. Python dicts are association lists in insertion order.
\<close>

section \<open>Types\<close>

datatype keyphrase_kind = Wake_command | Conversation_on

record keyphrase_detection =
  kd_kind :: keyphrase_kind
  kd_phrase :: string
  kd_hypstr :: string
  kd_confirmed :: bool
  kd_phrase_start_sample :: "int option"
  kd_phrase_end_sample :: "int option"

record phrase_match =
  pm_phrase :: string
  pm_matched_phrase :: string
  pm_kind :: keyphrase_kind

record keyphrase_config =
  kc_trigger_words :: "string list"
  kc_conversation_on_phrases :: "string list"
  kc_conversation_on_confirm_window_ms :: int
  kc_check_interval_ms :: int
  kc_carry_ms :: int
  kc_replay_pre_ms :: int
  kc_gain :: real
  kc_kws_threshold :: real

definition default_keyphrase_config :: keyphrase_config where
  "default_keyphrase_config =
     \<lparr> kc_trigger_words = [''jarvis''],
       kc_conversation_on_phrases = [''conversation on''],
       kc_conversation_on_confirm_window_ms = 2000,
       kc_check_interval_ms = 320,
       kc_carry_ms = 2000,
       kc_replay_pre_ms = 0,
       kc_gain = 1,
       kc_kws_threshold = 1 / 10 ^ 30 \<rparr>"

section \<open>Aliases\<close>

definition built_in_aliases :: "(string \<times> string list) list" where
  "built_in_aliases =
     [(''jarvis'', [''gervais'', ''java'', ''jervis'', ''jarivs'', ''jar viss'', ''travis'']),
      (''conversation on'', [''conversation one'', ''conservation on'', ''conservation one''])]"

definition phrase_alias_map ::
  "(string \<times> keyphrase_kind) list \<Rightarrow> (string \<times> (string \<times> keyphrase_kind)) list" where
  "phrase_alias_map phrase_kinds =
     foldl (\<lambda>aliases (phrase, kind).
         foldl (\<lambda>aliases alias. AList.update alias (phrase, kind) aliases)
           (AList.update phrase (phrase, kind) aliases)
           (case map_of built_in_aliases phrase of None \<Rightarrow> [] | Some as \<Rightarrow> as))
       [] phrase_kinds"

section \<open>Normalisation and matching\<close>

text \<open>\<open>re.sub(r"\(\d+\)$", "", word)\<close>: drop a trailing pronunciation variant.\<close>

definition strip_variant :: "string \<Rightarrow> string" where
  "strip_variant w =
     (case rev w of
        [] \<Rightarrow> w
      | c # r \<Rightarrow>
          (if c = CHR '')'' \<and> takeWhile is_digit r \<noteq> [] then
             (case dropWhile is_digit r of
                [] \<Rightarrow> w
              | d # rest \<Rightarrow> if d = CHR ''('' then rev rest else w)
           else w))"

definition normalize_phrase :: "string \<Rightarrow> string" where
  "normalize_phrase s = py_join '' '' (map strip_variant (py_split (py_strip (py_lower s))))"

definition contains_phrase :: "string \<Rightarrow> string \<Rightarrow> bool" where
  "contains_phrase hypstr phrase =
     (let hyp_words = py_split hypstr; phrase_words = py_split phrase in
      if phrase_words = [] \<or> length hyp_words < length phrase_words then False
      else list_ex (\<lambda>index. take (length phrase_words) (drop index hyp_words) = phrase_words)
             [0 ..< length hyp_words - length phrase_words + 1])"

definition phrase_key :: "string \<Rightarrow> int \<times> int" where
  "phrase_key s = (int (length (py_split s)), int (length s))"

definition phrases_longest_first :: "string list \<Rightarrow> string list" where
  "phrases_longest_first ps =
     sort_key (\<lambda>v. (- fst (phrase_key v), - snd (phrase_key v))) ps"

definition matched_phrase ::
  "string \<Rightarrow> (string \<times> (string \<times> keyphrase_kind)) list \<Rightarrow> phrase_match option" where
  "matched_phrase hypstr phrase_map =
     (let normalized = normalize_phrase hypstr in
      case find (contains_phrase normalized) (phrases_longest_first (map fst phrase_map)) of
        None \<Rightarrow> None
      | Some matched \<Rightarrow>
          (case map_of phrase_map matched of
             None \<Rightarrow> None
           | Some (phrase, kind) \<Rightarrow>
               Some \<lparr> pm_phrase = phrase, pm_matched_phrase = matched, pm_kind = kind \<rparr>))"

definition contains_keyphrase :: "string \<Rightarrow> string \<Rightarrow> bool" where
  "contains_keyphrase hypstr phrase \<longleftrightarrow> normalize_phrase hypstr = normalize_phrase phrase"

record decoder_segment =
  dg_word :: string
  dg_start_frame :: int
  dg_end_frame :: int

fun find_window :: "'a list \<Rightarrow> 'a list \<Rightarrow> nat \<Rightarrow> nat list \<Rightarrow> nat option" where
  "find_window ws xs n [] = None"
| "find_window ws xs n (i # is) =
     (if take n (drop i xs) = ws then Some i else find_window ws xs n is)"

definition phrase_sample_span ::
  "decoder_segment list \<Rightarrow> string \<Rightarrow> (int \<times> int) option" where
  "phrase_sample_span segments phrase =
     (let phrase_words = py_split phrase in
      if phrase_words = [] then None
      else
        let words = filter (\<lambda>g. py_strip_chars ''<>'' (normalize_phrase (dg_word g)) \<notin>
                        set [''s'', ''/s'', ''sil'']) segments;
            word_values = map (\<lambda>g. normalize_phrase (dg_word g)) words
        in case find_window phrase_words word_values (length phrase_words)
                  [0 ..< length word_values + 1 - length phrase_words] of
             None \<Rightarrow> None
           | Some index \<Rightarrow>
               Some (dg_start_frame (words ! index) * 160,
                     (dg_end_frame (words ! (index + length phrase_words - 1)) + 1) * 160))"

section \<open>PCM conversion\<close>

definition frame_peak :: "frame \<Rightarrow> real" where
  "frame_peak xs = foldr (\<lambda>x m. max \<bar>x\<bar> m) xs 0"

definition clip_sample :: "real \<Rightarrow> real" where
  "clip_sample x = max (-1) (min 1 x)"

definition float_samples_to_int16 :: "frame \<Rightarrow> real \<Rightarrow> int list" where
  "float_samples_to_int16 samples gain =
     (let mono = (if 0 < gain then map (\<lambda>x. x * gain) samples else samples);
          peak = frame_peak mono;
          scaled = (if 2 / 1000 \<le> peak \<and> peak < 4 / 10
                    then map (\<lambda>x. x * min 8 (65 / 100 / peak)) mono else mono)
      in map (\<lambda>x. py_int (clip_sample x * 32767)) scaled)"

section \<open>The phrase spotter\<close>

text \<open>The operations of \<open>pocketsphinx.Decoder\<close> the spotter calls.\<close>

record 'dec decoder_api =
  dx_grammar :: "string \<Rightarrow> 'dec"
  dx_keyphrase :: "string \<Rightarrow> real \<Rightarrow> 'dec"
  dx_process_raw :: "int list \<Rightarrow> 'dec \<Rightarrow> 'dec"
  dx_hyp :: "'dec \<Rightarrow> string option"
  dx_seg :: "'dec \<Rightarrow> decoder_segment list"
  dx_end_utt :: "'dec \<Rightarrow> 'dec"

record 'dec spotter =
  sp_grammar_phrases :: "string list"
  sp_phrase_aliases :: "(string \<times> (string \<times> keyphrase_kind)) list"
  sp_check_interval_frames :: int
  sp_gain :: real
  sp_kws_threshold :: real
  sp_buffer_samples :: int
  sp_buffer_start_sample :: int
  sp_processed_samples :: int
  sp_max_buffer_samples :: int
  sp_frames_since_check :: int
  sp_frames :: "frame list"
  sp_decoder :: 'dec
  sp_last_hypstr :: "string option"
  sp_closed :: bool
  sp_detection_emitted :: bool

definition phrase_grammar :: "string list \<Rightarrow> string" where
  "phrase_grammar phrases =
     ''#JSGF V1.0; grammar reframewake; public <phrase> = '' @
     py_join '' | '' (sort_key (\<lambda>p. - int (length p)) phrases) @ '';''"

definition normalized_kinds ::
  "(string \<times> keyphrase_kind) list \<Rightarrow> (string \<times> keyphrase_kind) list" where
  "normalized_kinds phrase_kinds =
     foldl (\<lambda>d (phrase, kind).
         let normalized = normalize_phrase phrase in
         if normalized \<noteq> [] then AList.update normalized kind d else d)
       [] phrase_kinds"

definition spotter_init ::
  "'dec decoder_api \<Rightarrow> (string \<times> keyphrase_kind) list \<Rightarrow> int \<Rightarrow> real \<Rightarrow> int \<Rightarrow> real \<Rightarrow>
   py_error + 'dec spotter" where
  "spotter_init api phrase_kinds check_interval_frames gain max_buffer_ms kws_threshold =
     (let kinds = normalized_kinds phrase_kinds in
      if kinds = [] then Inl (ValueError ''At least one phrase is required.'')
      else Inr \<lparr> sp_grammar_phrases = map fst kinds,
                 sp_phrase_aliases = phrase_alias_map kinds,
                 sp_check_interval_frames = max 1 check_interval_frames,
                 sp_gain = gain,
                 sp_kws_threshold = kws_threshold,
                 sp_buffer_samples = 0,
                 sp_buffer_start_sample = 0,
                 sp_processed_samples = 0,
                 sp_max_buffer_samples = max 1 (py_int_div (16000 * max_buffer_ms) 1000),
                 sp_frames_since_check = 0,
                 sp_frames = [],
                 sp_decoder = dx_grammar api (phrase_grammar (map fst kinds)),
                 sp_last_hypstr = None,
                 sp_closed = False,
                 sp_detection_emitted = False \<rparr>)"

text \<open>\<open>PocketSphinxPhraseConfirmationSpotter\<close>: one kind for every phrase.\<close>

definition confirmation_spotter_init ::
  "'dec decoder_api \<Rightarrow> string list \<Rightarrow> keyphrase_kind \<Rightarrow> int \<Rightarrow> real \<Rightarrow> int \<Rightarrow> real \<Rightarrow>
   py_error + 'dec spotter" where
  "confirmation_spotter_init api phrases kind check_interval_frames gain max_buffer_ms kws_threshold =
     spotter_init api (map (\<lambda>p. (p, kind)) (dict_fromkeys phrases))
       check_interval_frames gain max_buffer_ms kws_threshold"

fun trim_buffer_loop :: "int \<Rightarrow> frame list \<Rightarrow> int \<Rightarrow> int \<Rightarrow> frame list \<times> int \<times> int" where
  "trim_buffer_loop extra [] buffered start = ([], buffered, start)"
| "trim_buffer_loop extra (f # fs) buffered start =
     (if 0 < extra then
        if int (length f) \<le> extra then
          trim_buffer_loop (extra - int (length f)) fs
            (buffered - int (length f)) (start + int (length f))
        else (drop (nat extra) f # fs, buffered - extra, start + extra)
      else (f # fs, buffered, start))"

definition trim_buffer :: "'dec spotter \<Rightarrow> 'dec spotter" where
  "trim_buffer s =
     (case trim_buffer_loop (sp_buffer_samples s - sp_max_buffer_samples s)
             (sp_frames s) (sp_buffer_samples s) (sp_buffer_start_sample s) of
        (fs, buffered, start) \<Rightarrow>
          s\<lparr> sp_frames := fs, sp_buffer_samples := buffered, sp_buffer_start_sample := start \<rparr>)"

definition spotter_append :: "'dec decoder_api \<Rightarrow> 'dec spotter \<Rightarrow> frame \<Rightarrow> 'dec spotter" where
  "spotter_append api s f =
     (let s1 = trim_buffer
                 (s\<lparr> sp_frames := sp_frames s @ [f],
                     sp_buffer_samples := sp_buffer_samples s + int (length f),
                     sp_processed_samples := sp_processed_samples s + int (length f) \<rparr>)
      in s1\<lparr> sp_frames_since_check := sp_frames_since_check s1 + 1,
             sp_decoder := dx_process_raw api (float_samples_to_int16 f (sp_gain s1)) (sp_decoder s1) \<rparr>)"

definition spotter_phrase_sample_span ::
  "'dec decoder_api \<Rightarrow> 'dec spotter \<Rightarrow> string \<Rightarrow> int option \<times> int option" where
  "spotter_phrase_sample_span api s matched =
     (case phrase_sample_span (dx_seg api (sp_decoder s)) matched of
        None \<Rightarrow> (None, None)
      | Some (start_sample, end_sample) \<Rightarrow>
          (Some (max 0 (start_sample - sp_buffer_start_sample s)),
           Some (max 0 (end_sample - sp_buffer_start_sample s))))"

definition span_or_none :: "(int \<times> int) option \<Rightarrow> int option \<times> int option" where
  "span_or_none sp = (case sp of None \<Rightarrow> (None, None) | Some (a, b) \<Rightarrow> (Some a, Some b))"

text \<open>The loop of \<open>_keyword_spotted\<close>: a hit returns at once; otherwise the utterance ends.\<close>

fun keyword_loop ::
  "'dec decoder_api \<Rightarrow> real \<Rightarrow> string \<Rightarrow> 'dec \<Rightarrow> frame list \<Rightarrow>
   (int option \<times> int option) option" where
  "keyword_loop api gain phrase dec [] =
     (let ended = dx_end_utt api dec in
      case dx_hyp api ended of
        None \<Rightarrow> None
      | Some h \<Rightarrow>
          if \<not> contains_keyphrase h phrase then None
          else Some (span_or_none (phrase_sample_span (dx_seg api ended) phrase)))"
| "keyword_loop api gain phrase dec (f # fs) =
     (let dec' = dx_process_raw api (float_samples_to_int16 f gain) dec in
      case dx_hyp api dec' of
        None \<Rightarrow> keyword_loop api gain phrase dec' fs
      | Some h \<Rightarrow>
          if contains_keyphrase h phrase
          then Some (span_or_none (phrase_sample_span (dx_seg api dec') phrase))
          else keyword_loop api gain phrase dec' fs)"

definition keyword_spotted ::
  "'dec decoder_api \<Rightarrow> 'dec spotter \<Rightarrow> string \<Rightarrow> (int option \<times> int option) option" where
  "keyword_spotted api s phrase =
     keyword_loop api (sp_gain s) phrase (dx_keyphrase api phrase (sp_kws_threshold s)) (sp_frames s)"

definition confirmed_phrase_span ::
  "'dec decoder_api \<Rightarrow> 'dec spotter \<Rightarrow> phrase_match \<Rightarrow> (int option \<times> int option) option" where
  "confirmed_phrase_span api s m =
     (if pm_kind m = Conversation_on
      then Some (spotter_phrase_sample_span api s (pm_matched_phrase m))
      else case keyword_spotted api s (pm_matched_phrase m) of
             Some sp \<Rightarrow> Some sp
           | None \<Rightarrow> keyword_spotted api s (pm_phrase m))"

definition spotter_detect ::
  "'dec decoder_api \<Rightarrow> 'dec spotter \<Rightarrow> bool \<Rightarrow> 'dec spotter \<times> keyphrase_detection option" where
  "spotter_detect api s force =
     (if sp_detection_emitted s then (s, None)
      else if sp_frames s = [] then (s, None)
      else if \<not> force \<and> sp_frames_since_check s < sp_check_interval_frames s then (s, None)
      else
        let s1 = s\<lparr> sp_frames_since_check := 0 \<rparr> in
        case dx_hyp api (sp_decoder s1) of
          None \<Rightarrow> (s1\<lparr> sp_last_hypstr := None \<rparr>, None)
        | Some h \<Rightarrow>
            let hypstr = normalize_phrase h; s2 = s1\<lparr> sp_last_hypstr := Some hypstr \<rparr> in
            case matched_phrase hypstr (sp_phrase_aliases s2) of
              None \<Rightarrow> (s2, None)
            | Some m \<Rightarrow>
                (case confirmed_phrase_span api s2 m of
                   None \<Rightarrow> (s2, None)
                 | Some (start, end) \<Rightarrow>
                     (s2\<lparr> sp_detection_emitted := True \<rparr>,
                      Some \<lparr> kd_kind = pm_kind m, kd_phrase = pm_phrase m, kd_hypstr = hypstr,
                             kd_confirmed = True, kd_phrase_start_sample = start,
                             kd_phrase_end_sample = end \<rparr>)))"

definition spotter_close :: "'dec decoder_api \<Rightarrow> 'dec spotter \<Rightarrow> 'dec spotter" where
  "spotter_close api s =
     (if sp_closed s then s
      else s\<lparr> sp_closed := True, sp_decoder := dx_end_utt api (sp_decoder s) \<rparr>)"

section \<open>Replayed audio\<close>

fun trim_from_loop :: "int \<Rightarrow> frame list \<Rightarrow> frame list" where
  "trim_from_loop skip [] = []"
| "trim_from_loop skip (f # fs) =
     (if int (length f) \<le> skip then trim_from_loop (skip - int (length f)) fs
      else if 0 < skip then drop (nat skip) f # trim_from_loop 0 fs
      else f # trim_from_loop skip fs)"

definition trim_frames_from_sample :: "frame list \<Rightarrow> int \<Rightarrow> frame list" where
  "trim_frames_from_sample frames start_sample = trim_from_loop (max 0 start_sample) frames"

fun trim_between_loop :: "int \<Rightarrow> int \<Rightarrow> frame list \<Rightarrow> frame list" where
  "trim_between_loop skip tk [] = []"
| "trim_between_loop skip tk (f # fs) =
     (if tk \<le> 0 then []
      else if int (length f) \<le> skip then trim_between_loop (skip - int (length f)) tk fs
      else
        let g = (if 0 < skip then drop (nat skip) f else f);
            skip' = (if 0 < skip then 0 else skip);
            h = (if tk < int (length g) then take (nat tk) g else g)
        in h # trim_between_loop skip' (tk - int (length h)) fs)"

definition trim_frames_between_samples :: "frame list \<Rightarrow> int \<Rightarrow> int \<Rightarrow> frame list" where
  "trim_frames_between_samples frames start_sample end_sample =
     (if end_sample \<le> start_sample then []
      else trim_between_loop (max 0 start_sample) (end_sample - max 0 start_sample) frames)"

definition replay_frames_for_detection ::
  "'dec spotter \<Rightarrow> keyphrase_detection \<Rightarrow> int \<Rightarrow> frame list" where
  "replay_frames_for_detection s d pre_roll_ms =
     (let boundary = (case kd_phrase_end_sample d of
                        None \<Rightarrow> kd_phrase_start_sample d | Some b \<Rightarrow> Some b)
      in case boundary of
           None \<Rightarrow> sp_frames s
         | Some b \<Rightarrow>
             let pre_roll_samples = max 0 (py_int_div (16000 * pre_roll_ms) 1000)
             in trim_frames_from_sample (sp_frames s) (max 0 (b - pre_roll_samples)))"

definition confirmation_frames_for_detection ::
  "'dec spotter \<Rightarrow> keyphrase_detection \<Rightarrow> int \<Rightarrow> frame list" where
  "confirmation_frames_for_detection s d window_ms =
     (case (kd_phrase_start_sample d, kd_phrase_end_sample d) of
        (Some ps, Some pe) \<Rightarrow>
          let window_samples = max 1 (py_int_div (16000 * window_ms) 1000);
              phrase_start = max 0 ps;
              phrase_end = max phrase_start pe;
              start_sample = max (max 0 (phrase_end - window_samples)) phrase_start
          in trim_frames_between_samples (sp_frames s) start_sample phrase_end
      | _ \<Rightarrow> sp_frames s)"

section \<open>Matching picks the most specific phrase\<close>

lemma contains_phrase_iff:
  "contains_phrase h p \<longleftrightarrow> py_split p \<noteq> [] \<and> sublist (py_split p) (py_split h)"
proof -
  let ?h = "py_split h" and ?p = "py_split p"
  have "(\<exists>i < length ?h - length ?p + 1. take (length ?p) (drop i ?h) = ?p) \<longleftrightarrow> sublist ?p ?h"
    if le: "length ?p \<le> length ?h"
  proof
    assume "\<exists>i < length ?h - length ?p + 1. take (length ?p) (drop i ?h) = ?p"
    then obtain i where "take (length ?p) (drop i ?h) = ?p" by blast
    then have "?h = take i ?h @ ?p @ drop (length ?p) (drop i ?h)"
      by (metis append_take_drop_id)
    then show "sublist ?p ?h" by (metis sublist_appendI)
  next
    assume "sublist ?p ?h"
    then obtain a b where ab: "?h = a @ ?p @ b" by (auto simp: sublist_def)
    then have "take (length ?p) (drop (length a) ?h) = ?p" by simp
    moreover have "length a < length ?h - length ?p + 1" using ab by simp
    ultimately show "\<exists>i < length ?h - length ?p + 1. take (length ?p) (drop i ?h) = ?p" by blast
  qed
  moreover have "contains_phrase h p \<longleftrightarrow> ?p \<noteq> [] \<and> length ?p \<le> length ?h \<and>
      (\<exists>i < length ?h - length ?p + 1. take (length ?p) (drop i ?h) = ?p)"
    unfolding contains_phrase_def Let_def list_ex_iff set_upt Bex_def atLeast0LessThan lessThan_iff
    by (simp add: not_less)
  ultimately show ?thesis by (meson sublist_length_le)
qed

lemma set_phrases_longest_first [simp]: "set (phrases_longest_first ps) = set ps"
  by (simp add: phrases_longest_first_def)

lemma find_sorted_minimal:
  "sorted (map k xs) \<Longrightarrow> find P xs = Some x \<Longrightarrow> y \<in> set xs \<Longrightarrow> P y \<Longrightarrow> k x \<le> k y"
  by (induction xs) (auto split: if_splits)

lemma neg_pair_le:
  "((- a, - b) :: int \<times> int) \<le> (- c, - d) \<longleftrightarrow> (c, d) \<le> (a, b)"
  by (auto simp: less_eq_prod_def)

lemma matched_phrase_cases:
  "(case matched_phrase h m of
      None \<Rightarrow> \<forall>p \<in> fst ` set m. \<not> contains_phrase (normalize_phrase h) p
    | Some r \<Rightarrow>
        contains_phrase (normalize_phrase h) (pm_matched_phrase r) \<and>
        map_of m (pm_matched_phrase r) = Some (pm_phrase r, pm_kind r) \<and>
        (\<forall>p \<in> fst ` set m. contains_phrase (normalize_phrase h) p \<longrightarrow>
           phrase_key p \<le> phrase_key (pm_matched_phrase r)))"
proof (cases "find (contains_phrase (normalize_phrase h)) (phrases_longest_first (map fst m))")
  case None
  moreover from None have "\<forall>p \<in> fst ` set m. \<not> contains_phrase (normalize_phrase h) p"
    by (auto simp: find_None_iff)
  ultimately show ?thesis by (simp add: matched_phrase_def Let_def)
next
  case (Some x)
  then have x: "x \<in> fst ` set m" "contains_phrase (normalize_phrase h) x"
    by (auto simp: find_Some_iff image_iff) (metis nth_mem set_phrases_longest_first image_iff set_map)
  have "phrase_key p \<le> phrase_key x"
    if "p \<in> fst ` set m" "contains_phrase (normalize_phrase h) p" for p
    using find_sorted_minimal [OF _ Some, of "\<lambda>v. (- fst (phrase_key v), - snd (phrase_key v))" p] that
    by (simp add: phrases_longest_first_def neg_pair_le less_eq_prod_def)
  moreover obtain v where "map_of m x = Some v" using x(1) by (metis domIff dom_map_of_conv_image_fst not_None_eq)
  ultimately show ?thesis
    using Some x by (cases v) (auto simp: matched_phrase_def Let_def)
qed

section \<open>The rolling buffer\<close>

lemma trim_buffer_loop_spec:
  "0 \<le> extra \<Longrightarrow> extra \<le> int (total_len fs) \<Longrightarrow>
   (case trim_buffer_loop extra fs buffered start of (gs, b, st) \<Rightarrow>
      concat gs = drop (nat extra) (concat fs) \<and> b = buffered - extra \<and> st = start + extra)"
proof (induction extra fs buffered start rule: trim_buffer_loop.induct)
  case (1 extra buffered start)
  then show ?case by simp
next
  case (2 extra f fs buffered start)
  show ?case
  proof (cases "0 < extra \<and> int (length f) \<le> extra")
    case True
    then have "nat extra = length f + nat (extra - int (length f))" by linarith
    then have "drop (nat extra) (concat (f # fs)) = drop (nat (extra - int (length f))) (concat fs)"
      by simp
    with 2(1) 2(2,3) True show ?thesis by (auto split: prod.splits)
  next
    case False
    with 2(2) show ?thesis by (cases "extra = 0") (auto simp: nat_le_iff)
  qed
qed

definition spotter_inv :: "frame list \<Rightarrow> 'dec spotter \<Rightarrow> bool" where
  "spotter_inv history s \<longleftrightarrow>
     1 \<le> sp_max_buffer_samples s \<and>
     concat (sp_frames s) = last_n (nat (sp_max_buffer_samples s)) (concat history) \<and>
     sp_buffer_samples s = int (total_len (sp_frames s)) \<and>
     sp_processed_samples s = int (total_len history) \<and>
     sp_buffer_start_sample s + sp_buffer_samples s = sp_processed_samples s"

lemma last_n_append_trim:
  "drop (length (last_n n xs @ ys) - n) (last_n n xs @ ys) = last_n n (xs @ ys)"
  by (cases "length xs \<le> n") (simp_all add: last_n_def min_def add.commute)

lemma spotter_init_inv: "spotter_init api kinds ci g mb th = Inr s \<Longrightarrow> spotter_inv [] s"
  by (auto simp: spotter_init_def spotter_inv_def Let_def last_n_def split: if_splits)

lemma trim_buffer_inv:
  assumes "1 \<le> sp_max_buffer_samples s" "concat (sp_frames s) = last_n (nat (sp_max_buffer_samples s)) xs @ ys"
    "sp_buffer_samples s = int (total_len (sp_frames s))"
    "sp_buffer_start_sample s + sp_buffer_samples s = sp_processed_samples s"
  shows "concat (sp_frames (trim_buffer s)) = last_n (nat (sp_max_buffer_samples s)) (xs @ ys) \<and>
    sp_buffer_samples (trim_buffer s) = int (total_len (sp_frames (trim_buffer s))) \<and>
    sp_buffer_start_sample (trim_buffer s) + sp_buffer_samples (trim_buffer s) = sp_processed_samples s"
proof (cases "sp_buffer_samples s \<le> sp_max_buffer_samples s")
  case True
  then have "length (last_n (nat (sp_max_buffer_samples s)) xs @ ys) \<le> nat (sp_max_buffer_samples s)"
    using assms(1,3) assms(2) [THEN arg_cong [where f = length]] by simp
  then have "last_n (nat (sp_max_buffer_samples s)) (xs @ ys) = concat (sp_frames s)"
    using last_n_append_trim [of "nat (sp_max_buffer_samples s)" xs ys] assms(2) by simp
  moreover have "trim_buffer s = s"
    using True by (cases "sp_frames s") (simp_all add: trim_buffer_def)
  ultimately show ?thesis using assms by simp
next
  case False
  define e where "e = sp_buffer_samples s - sp_max_buffer_samples s"
  obtain gs b st where r: "trim_buffer_loop e (sp_frames s) (sp_buffer_samples s)
      (sp_buffer_start_sample s) = (gs, b, st)" by (metis prod_cases3)
  have "concat gs = drop (nat e) (concat (sp_frames s)) \<and> b = sp_buffer_samples s - e \<and>
      st = sp_buffer_start_sample s + e"
    using trim_buffer_loop_spec [of e "sp_frames s" "sp_buffer_samples s" "sp_buffer_start_sample s"]
      False assms(1,3) r by (simp add: e_def)
  moreover have "nat e = length (last_n (nat (sp_max_buffer_samples s)) xs @ ys) - nat (sp_max_buffer_samples s)"
    using assms(1,3) assms(2) [THEN arg_cong [where f = length]] False
    by (simp add: e_def nat_diff_distrib nat_add_distrib nat_int_add)
  ultimately have gs: "concat gs = last_n (nat (sp_max_buffer_samples s)) (xs @ ys)"
    "b = sp_max_buffer_samples s" "st + b = sp_processed_samples s"
    using last_n_append_trim [of "nat (sp_max_buffer_samples s)" xs ys] assms(2,4) by (auto simp: e_def)
  have "trim_buffer s = s\<lparr> sp_frames := gs, sp_buffer_samples := b, sp_buffer_start_sample := st \<rparr>"
    using r by (simp add: trim_buffer_def e_def)
  moreover have "int (total_len gs) = b"
    using gs(1) [THEN arg_cong [where f = length]] gs(2) False assms(1,3)
      assms(2) [THEN arg_cong [where f = length]] by simp
  ultimately show ?thesis using gs by simp
qed

lemma trim_buffer_keeps [simp]:
  "sp_max_buffer_samples (trim_buffer s) = sp_max_buffer_samples s"
  "sp_processed_samples (trim_buffer s) = sp_processed_samples s"
  "sp_detection_emitted (trim_buffer s) = sp_detection_emitted s"
  by (auto simp: trim_buffer_def split: prod.splits)

lemma spotter_append_inv:
  "spotter_inv history s \<Longrightarrow> spotter_inv (history @ [f]) (spotter_append api s f)"
  using trim_buffer_inv [of "s\<lparr> sp_frames := sp_frames s @ [f],
      sp_buffer_samples := sp_buffer_samples s + int (length f),
      sp_processed_samples := sp_processed_samples s + int (length f) \<rparr>" "concat history" f]
  by (simp add: spotter_inv_def spotter_append_def Let_def)

lemma spotter_detect_frame_state [simp]:
  "sp_frames (fst (spotter_detect api s force)) = sp_frames s"
  "sp_buffer_samples (fst (spotter_detect api s force)) = sp_buffer_samples s"
  "sp_buffer_start_sample (fst (spotter_detect api s force)) = sp_buffer_start_sample s"
  "sp_processed_samples (fst (spotter_detect api s force)) = sp_processed_samples s"
  "sp_max_buffer_samples (fst (spotter_detect api s force)) = sp_max_buffer_samples s"
  by (auto simp: spotter_detect_def Let_def split: option.splits)

lemma spotter_detect_inv:
  "spotter_inv history s \<Longrightarrow> spotter_inv history (fst (spotter_detect api s force))"
  by (simp add: spotter_inv_def)

lemma spotter_close_inv: "spotter_inv history s \<Longrightarrow> spotter_inv history (spotter_close api s)"
  by (simp add: spotter_inv_def spotter_close_def)

section \<open>Detections\<close>

lemma spotter_detect_emits:
  "snd (spotter_detect api s force) \<noteq> None \<Longrightarrow>
   \<not> sp_detection_emitted s \<and> sp_detection_emitted (fst (spotter_detect api s force))"
  by (auto simp: spotter_detect_def Let_def split: if_splits option.splits)

lemma spotter_detect_emitted_mono:
  "sp_detection_emitted s \<Longrightarrow> spotter_detect api s force = (s, None)"
  by (simp add: spotter_detect_def)

lemma spotter_append_emitted [simp]:
  "sp_detection_emitted (spotter_append api s f) = sp_detection_emitted s"
  by (simp add: spotter_append_def Let_def)

lemma spotter_close_emitted [simp]:
  "sp_detection_emitted (spotter_close api s) = sp_detection_emitted s"
  by (simp add: spotter_close_def)

text \<open>A client drives a spotter by any sequence of the three calls.\<close>

datatype spotter_call = Append frame | Detect bool | Close

fun spotter_run ::
  "'dec decoder_api \<Rightarrow> 'dec spotter \<Rightarrow> spotter_call list \<Rightarrow> 'dec spotter \<times> keyphrase_detection list" where
  "spotter_run api s [] = (s, [])"
| "spotter_run api s (Append f # cs) = spotter_run api (spotter_append api s f) cs"
| "spotter_run api s (Close # cs) = spotter_run api (spotter_close api s) cs"
| "spotter_run api s (Detect force # cs) =
     (let (s1, d) = spotter_detect api s force; (s2, ds) = spotter_run api s1 cs
      in (s2, (case d of None \<Rightarrow> ds | Some x \<Rightarrow> x # ds)))"

definition appended_frames :: "spotter_call list \<Rightarrow> frame list" where
  "appended_frames cs = concat (map (\<lambda>c. case c of Append f \<Rightarrow> [f] | _ \<Rightarrow> []) cs)"

lemma appended_frames_simps [simp]:
  "appended_frames [] = []"
  "appended_frames (Append f # cs) = f # appended_frames cs"
  "appended_frames (Detect b # cs) = appended_frames cs"
  "appended_frames (Close # cs) = appended_frames cs"
  by (simp_all add: appended_frames_def)

lemma spotter_run_Detect:
  "spotter_run api s (Detect force # cs) =
    (fst (spotter_run api (fst (spotter_detect api s force)) cs),
     (case snd (spotter_detect api s force) of
        None \<Rightarrow> snd (spotter_run api (fst (spotter_detect api s force)) cs)
      | Some x \<Rightarrow> x # snd (spotter_run api (fst (spotter_detect api s force)) cs)))"
  by (simp add: Let_def split: prod.splits option.splits)

lemma spotter_run_emitted: "sp_detection_emitted s \<Longrightarrow> snd (spotter_run api s cs) = []"
proof (induction cs arbitrary: s)
  case (Cons c cs)
  then show ?case
    by (cases c) (simp_all add: spotter_detect_emitted_mono split: prod.splits)
qed simp

lemma spotter_run_inv:
  "spotter_inv h s \<Longrightarrow>
   spotter_inv (h @ appended_frames cs) (fst (spotter_run api s cs)) \<and>
   length (snd (spotter_run api s cs)) \<le> 1"
proof (induction cs arbitrary: h s)
  case Nil
  then show ?case by simp
next
  case (Cons c cs)
  show ?case
  proof (cases c)
    case (Append f)
    then show ?thesis using Cons.IH [OF spotter_append_inv [OF Cons.prems]] by simp
  next
    case Close
    then show ?thesis using Cons.IH [OF spotter_close_inv [OF Cons.prems]] by simp
  next
    case (Detect force)
    note IH = Cons.IH [OF spotter_detect_inv [OF Cons.prems, of api force]]
    show ?thesis
    proof (cases "snd (spotter_detect api s force)")
      case None
      then show ?thesis using IH Detect by (simp add: spotter_run_Detect del: spotter_run.simps)
    next
      case (Some d)
      then have "snd (spotter_run api (fst (spotter_detect api s force)) cs) = []"
        using spotter_detect_emits [of api s force] by (simp add: spotter_run_emitted)
      then show ?thesis
        using IH Detect Some by (simp add: spotter_run_Detect del: spotter_run.simps)
    qed
  qed
qed

section \<open>Trimming\<close>

lemma trim_from_loop_spec:
  "0 \<le> skip \<Longrightarrow> concat (trim_from_loop skip fs) = drop (nat skip) (concat fs)"
proof (induction skip fs rule: trim_from_loop.induct)
  case (2 skip f fs)
  show ?case
  proof (cases "int (length f) \<le> skip")
    case True
    then have "nat skip = length f + nat (skip - int (length f))" by linarith
    then have "drop (nat skip) (concat (f # fs)) = drop (nat (skip - int (length f))) (concat fs)"
      by simp
    with True 2 show ?thesis by simp
  next
    case False
    with 2 show ?thesis by (cases "skip = 0") (auto simp: nat_le_iff)
  qed
qed simp

lemma trim_between_loop_0: "trim_between_loop skip 0 fs = []"
  by (cases fs) simp_all

lemma trim_between_loop_spec:
  "0 \<le> skip \<Longrightarrow> concat (trim_between_loop skip tk fs) = take (nat tk) (drop (nat skip) (concat fs))"
proof (induction skip tk fs rule: trim_between_loop.induct)
  case (2 skip tk f fs)
  consider (stop) "tk \<le> 0" | (skip) "0 < tk" "int (length f) \<le> skip"
    | (cut) "0 < tk" "skip < int (length f)" by linarith
  then show ?case
  proof cases
    case stop
    then show ?thesis by simp
  next
    case skip
    then have "nat skip = length f + nat (skip - int (length f))" by linarith
    then have "drop (nat skip) (concat (f # fs)) = drop (nat (skip - int (length f))) (concat fs)"
      by simp
    with skip 2 show ?thesis by simp
  next
    case cut
    define g where "g = (if 0 < skip then drop (nat skip) f else f)"
    have g: "drop (nat skip) (concat (f # fs)) = g @ concat fs" "(if 0 < skip then 0 else skip) = 0"
      using cut 2(3) by (auto simp: g_def nat_le_iff)
    show ?thesis
    proof (cases "tk < int (length g)")
      case True
      with cut g show ?thesis
        by (simp add: g_def [symmetric] Let_def trim_between_loop_0 min_absorb2 nat_le_iff)
    next
      case False
      then have "nat tk - length g = nat (tk - int (length g))" "length g \<le> nat tk" by linarith+
      moreover have "concat (trim_between_loop 0 (tk - int (length g)) fs) =
          take (nat (tk - int (length g))) (concat fs)"
        using 2(2) [OF _ _ g_def refl refl] cut False g(2) by simp
      ultimately show ?thesis
        using cut g False by (simp add: g_def [symmetric] Let_def)
    qed
  qed
qed simp

lemma trim_between_concat:
  "concat (trim_frames_between_samples frames start_sample end_sample) =
     (if end_sample \<le> start_sample then []
      else take (nat (end_sample - max 0 start_sample))
             (drop (nat (max 0 start_sample)) (concat frames)))"
  by (simp add: trim_frames_between_samples_def trim_between_loop_spec)

section \<open>PCM\<close>

lemma py_int_bounds: "\<bar>x\<bar> \<le> real n \<Longrightarrow> \<bar>py_int x\<bar> \<le> int n"
  unfolding py_int_def abs_le_iff by (simp split: if_split) linarith

lemma clip_sample_bounds: "\<bar>clip_sample x\<bar> \<le> 1"
  by (auto simp: clip_sample_def)

section \<open>Properties of the phrase spotter\<close>

text \<open>
  C24. After any sequence of \<open>append\<close>, \<open>detect\<close> and \<open>close\<close> calls on a fresh spotter, the buffered
  frames hold exactly the last \<open>_max_buffer_samples\<close> samples of the appended audio, the
  sample counters agree with it, and at most one detection was returned.
\<close>

theorem spotter_buffer_and_single_detection:
  assumes "spotter_init api kinds interval gain max_ms threshold = Inr s0"
    and "spotter_run api s0 calls = (s, detections)"
  shows "concat (sp_frames s) =
           last_n (nat (sp_max_buffer_samples s)) (concat (appended_frames calls)) \<and>
         sp_buffer_samples s = int (length (concat (sp_frames s))) \<and>
         sp_buffer_start_sample s = int (length (concat (appended_frames calls))) - sp_buffer_samples s \<and>
         length detections \<le> 1"
  using spotter_run_inv [OF spotter_init_inv [OF assms(1)], of calls api] assms(2)
  unfolding spotter_inv_def length_concat_total by simp

text \<open>
  The frames cut between two samples are, concatenated, exactly that slice of the
  concatenated buffer: negative starts count as zero and an empty or reversed range is empty.
\<close>

lemma trim_frames_between_samples_slice:
  "concat (trim_frames_between_samples frames start_sample end_sample) =
     (if end_sample \<le> start_sample then []
      else take (nat (end_sample - max 0 start_sample))
             (drop (nat (max 0 start_sample)) (concat frames)))"
  by (rule trim_between_concat)

text \<open>
  \<open>matched_phrase\<close> returns a phrase that occurs in the hypothesis as a run of whole words,
  with the canonical phrase and kind its alias maps to, and no contained phrase has more
  words, or as many words and more characters; it returns None only when no phrase occurs.
\<close>

lemma matched_phrase_most_specific:
  "(case matched_phrase h m of
      None \<Rightarrow> \<forall>p \<in> fst ` set m. \<not> sublist (py_split p) (py_split (normalize_phrase h)) \<or> py_split p = []
    | Some r \<Rightarrow>
        py_split (pm_matched_phrase r) \<noteq> [] \<and>
        sublist (py_split (pm_matched_phrase r)) (py_split (normalize_phrase h)) \<and>
        map_of m (pm_matched_phrase r) = Some (pm_phrase r, pm_kind r) \<and>
        (\<forall>p \<in> fst ` set m. py_split p \<noteq> [] \<and> sublist (py_split p) (py_split (normalize_phrase h)) \<longrightarrow>
           phrase_key p \<le> phrase_key (pm_matched_phrase r)))"
  using matched_phrase_cases [of m h] by (auto simp: contains_phrase_iff split: option.splits)

text \<open>
  The PCM handed to the decoder has one value per sample, and every value lies in the
  symmetric 16-bit range, whatever the gain and the automatic level do.
\<close>

lemma float_samples_to_int16_range:
  "length (float_samples_to_int16 samples gain) = length samples \<and>
   list_all (\<lambda>v. - 32767 \<le> v \<and> v \<le> 32767) (float_samples_to_int16 samples gain)"
proof -
  have "\<bar>py_int (clip_sample x * 32767)\<bar> \<le> int 32767" for x
    using clip_sample_bounds [of x] by (intro py_int_bounds) (simp add: abs_mult)
  then have "- 32767 \<le> py_int (clip_sample x * 32767) \<and> py_int (clip_sample x * 32767) \<le> 32767" for x
    by (simp add: abs_le_iff minus_le_iff)
  then show ?thesis
    by (auto simp: float_samples_to_int16_def Let_def list_all_iff)
qed

text \<open>
  The audio confirmed for a detection is a contiguous part of the buffer, and when the
  detection carries a span it is no longer than the confirmation window (at least one sample).
\<close>

lemma confirmation_frames_bounded:
  "sublist (concat (confirmation_frames_for_detection s d window_ms)) (concat (sp_frames s)) \<and>
   (kd_phrase_start_sample d = None \<or> kd_phrase_end_sample d = None \<or>
    int (length (concat (confirmation_frames_for_detection s d window_ms)))
      \<le> max 1 (py_int_div (16000 * window_ms) 1000))"
proof -
  have sub: "sublist (take n (drop k xs)) xs" for n k and xs :: "sample list"
    by (metis append_take_drop_id sublist_appendI)
  show ?thesis
  proof (cases "kd_phrase_start_sample d = None \<or> kd_phrase_end_sample d = None")
    case True
    then show ?thesis by (auto simp: confirmation_frames_for_detection_def split: option.splits)
  next
    case False
    then obtain ps pe where ps: "kd_phrase_start_sample d = Some ps" and pe: "kd_phrase_end_sample d = Some pe"
      by auto
    define w e a where "w = max 1 (py_int_div (16000 * window_ms) 1000)"
      and "e = max (max 0 ps) pe" and "a = max (max 0 (e - w)) (max 0 ps)"
    have eq: "concat (confirmation_frames_for_detection s d window_ms) =
        (if e \<le> a then [] else take (nat (e - max 0 a)) (drop (nat (max 0 a)) (concat (sp_frames s))))"
      unfolding trim_between_concat [symmetric]
      by (simp only: confirmation_frames_for_detection_def Let_def w_def e_def a_def
          prod.case option.case ps pe)
    have len: "int (length (take (nat k) xs)) \<le> k" if "0 \<le> k" for k and xs :: "sample list"
      using that by simp
    have a: "0 \<le> a" "e - max 0 a \<le> w" "1 \<le> w" unfolding a_def w_def by linarith+
    have "int (length (concat (confirmation_frames_for_detection s d window_ms))) \<le> w"
      using len [of "e - max 0 a" "drop (nat (max 0 a)) (concat (sp_frames s))"]
      unfolding eq using a by (cases "e \<le> a") simp_all
    then show ?thesis unfolding w_def using sub by (simp only: eq split: if_split) simp
  qed
qed

section \<open>Witnesses\<close>

text \<open>A decoder that hears the wake word from its second frame on.\<close>

definition ex_decoder :: "nat decoder_api" where
  "ex_decoder = \<lparr> dx_grammar = \<lambda>_. 0, dx_keyphrase = \<lambda>_ _. 0, dx_process_raw = \<lambda>_ n. Suc n,
     dx_hyp = \<lambda>n. if 2 \<le> n then Some ''jarvis'' else None,
     dx_seg = \<lambda>_. [\<lparr> dg_word = ''jarvis'', dg_start_frame = 0, dg_end_frame = 0 \<rparr>],
     dx_end_utt = \<lambda>n. n \<rparr>"

definition ex_kinds :: "(string \<times> keyphrase_kind) list" where
  "ex_kinds = [(''Jarvis'', Wake_command), (''conversation on'', Conversation_on)]"

definition ex_spotter :: "nat spotter" where
  "ex_spotter = projr (spotter_init ex_decoder ex_kinds 1 1 1 1)"

definition ex_calls :: "spotter_call list" where
  "ex_calls = [Append [0, 1, 0], Detect False, Append [1], Detect False, Detect True, Close]"

lemma ex_normalized_kinds:
  "normalized_kinds ex_kinds = [(''jarvis'', Wake_command), (''conversation on'', Conversation_on)]"
  by code_simp

lemma ex_spotter_init: "spotter_init ex_decoder ex_kinds 1 1 1 1 = Inr ex_spotter"
  by (simp add: ex_spotter_def spotter_init_def ex_normalized_kinds Let_def)

theorem spotter_buffer_and_single_detection_witness:
  "spotter_init ex_decoder ex_kinds 1 1 1 1 = Inr ex_spotter \<and>
   concat (sp_frames (fst (spotter_run ex_decoder ex_spotter ex_calls))) =
     last_n (nat (sp_max_buffer_samples (fst (spotter_run ex_decoder ex_spotter ex_calls)))) [0, 1, 0, 1] \<and>
   length (snd (spotter_run ex_decoder ex_spotter ex_calls)) \<le> 1"
  using spotter_buffer_and_single_detection
    [OF ex_spotter_init, of ex_calls "fst (spotter_run ex_decoder ex_spotter ex_calls)"
      "snd (spotter_run ex_decoder ex_spotter ex_calls)"]
  by (simp add: ex_spotter_init ex_calls_def)

definition ex_aliases :: "(string \<times> (string \<times> keyphrase_kind)) list" where
  "ex_aliases = phrase_alias_map [(''conversation on'', Conversation_on)]"

lemma ex_match:
  "matched_phrase ''Conservation One(2)'' ex_aliases =
     Some \<lparr> pm_phrase = ''conversation on'', pm_matched_phrase = ''conservation one'',
            pm_kind = Conversation_on \<rparr>"
  by code_simp

lemma matched_phrase_most_specific_witness:
  "map_of ex_aliases ''conservation one'' = Some (''conversation on'', Conversation_on) \<and>
   sublist (py_split ''conservation one'') (py_split (normalize_phrase ''Conservation One(2)''))"
  using matched_phrase_most_specific [of ex_aliases "''Conservation One(2)''"]
  unfolding ex_match by simp

end
