(* ===== verification/Capture.thy ===== *)
theory Capture
  imports Segmenter Keyphrases
begin

text \<open>
  One voice capture, \<open>voice/conversation_mode.py\<close>, \<open>capture_state.py\<close>, \<open>capture_types.py\<close>,
  \<open>capture_setup.py\<close>, \<open>keyphrase_gate.py\<close>, \<open>capture_flow.py\<close>, \<open>capture_results.py\<close>,
  \<open>capture_finish.py\<close>, \<open>capture_frame_router.py\<close> and the capture loop of \<open>turn_capture.py\<close>.
  The pipeline's environment (detector, decoder, configuration) is one record. Every
  handler returns its result, the changed state and what it reported to the event handler;
  the clock and the microphone's counters come with each frame, one reading per frame.
\<close>

section \<open>Conversation mode\<close>

datatype conversation_mode = WAKE_COMMAND | CONTINUOUS_CONVERSATION

record mode_controller =
  mc_mode :: conversation_mode
  mc_version :: nat

definition mode_controller_init :: "conversation_mode \<Rightarrow> mode_controller" where
  "mode_controller_init mode = \<lparr> mc_mode = mode, mc_version = 0 \<rparr>"

definition mode_snapshot :: "mode_controller \<Rightarrow> conversation_mode \<times> nat" where
  "mode_snapshot c = (mc_mode c, mc_version c)"

definition mode_set :: "conversation_mode \<Rightarrow> mode_controller \<Rightarrow> bool \<times> mode_controller" where
  "mode_set mode c =
     (if mc_mode c = mode then (False, c)
      else (True, c\<lparr> mc_mode := mode, mc_version := mc_version c + 1 \<rparr>))"

definition turn_off_conversation :: "mode_controller \<Rightarrow> bool \<times> mode_controller" where
  "turn_off_conversation c = mode_set WAKE_COMMAND c"

section \<open>Environment, microphone and reports\<close>

record pipeline_config =
  pc_audio_sample_rate :: int
  pc_voice_activity :: vad_config
  pc_keyphrases :: keyphrase_config
  pc_listen_timeout_seconds :: real

record ('d, 'dec) voice_env =
  ve_config :: pipeline_config
  ve_new_detector :: "py_error + 'd"
  ve_accept :: "'d \<Rightarrow> frame \<Rightarrow> vad_decision \<times> 'd"
  ve_decoder :: "'dec decoder_api"

text \<open>What one iteration of a capture loop reads: the frame, the clocks and the counters.\<close>

record mic_input =
  mi_frame :: frame
  mi_now :: real
  mi_monotonic :: real
  mi_dropped_frames :: nat
  mi_last_status :: string
  mi_stop :: bool

datatype log_event =
    Waiting_for "string list"
  | Detected string string
  | No_confirmation_audio
  | Confirming_conversation
  | No_replay_audio
  | Replaying real
  | Speech_started
  | Speech_resumed
  | Speech_ended bool
  | Dropped_frames nat
  | Microphone_status string
  | Debug_audio string
  | Listening bool
  | Input_started
  | Audio_source
  | Input_stopped

section \<open>Capture state and results\<close>

record 'dec capture_state =
  cs_conversation_mode :: conversation_mode
  cs_keyphrase_required :: bool
  cs_carry_frames :: "frame list"
  cs_carry_maxlen :: nat
  cs_keyphrase_wait_seconds :: "real option"
  cs_keyphrase_detection :: "keyphrase_detection option"
  cs_keyphrase_spotter :: "'dec spotter option"
  cs_mode_switched :: bool
  cs_post_activation_deadline :: "real option"
  cs_speech_started_at :: "real option"
  cs_was_recording :: bool

text \<open>The spotter is closed and dropped; nothing can call it afterwards.\<close>

definition close_spotters :: "'dec capture_state \<Rightarrow> 'dec capture_state" where
  "close_spotters s = s\<lparr> cs_keyphrase_spotter := None \<rparr>"

record capture_result =
  cr_conversation_mode :: conversation_mode
  cr_keyphrase_detection :: "keyphrase_detection option"
  cr_utterance :: "utterance option"
  cr_mode_switched :: bool
  cr_keyphrase_wait_seconds :: "real option"
  cr_listen_seconds :: real
  cr_wait_for_speech_seconds :: "real option"
  cr_speech_capture_wall_seconds :: "real option"

datatype capture_stream_event =
    Ev_endpoint nat capture_result
  | Ev_resumed nat
  | Ev_confirmed nat capture_result
  | Ev_mode_switch nat capture_result

section \<open>Set-up\<close>

definition create_segmenter :: "('d, 'dec) voice_env \<Rightarrow> py_error + 'd segmenter" where
  "create_segmenter env =
     (case ve_new_detector env of
        Inl e \<Rightarrow> Inl e
      | Inr d \<Rightarrow> segmenter_init d (pc_voice_activity (ve_config env)))"

definition frame_deque :: "pipeline_config \<Rightarrow> int \<Rightarrow> py_error + nat" where
  "frame_deque c duration_ms =
     (if vc_chunk_ms (pc_voice_activity c) = 0 then Inl ZeroDivisionError
      else Inr (nat (max 1 (py_round_div duration_ms (vc_chunk_ms (pc_voice_activity c))))))"

definition create_capture_state ::
  "pipeline_config \<Rightarrow> conversation_mode \<Rightarrow> py_error + 'dec capture_state" where
  "create_capture_state c mode =
     (case frame_deque c (kc_carry_ms (pc_keyphrases c)) of
        Inl e \<Rightarrow> Inl e
      | Inr n \<Rightarrow>
          Inr \<lparr> cs_conversation_mode = mode,
                cs_keyphrase_required = (mode = WAKE_COMMAND),
                cs_carry_frames = [],
                cs_carry_maxlen = n,
                cs_keyphrase_wait_seconds = None,
                cs_keyphrase_detection = None,
                cs_keyphrase_spotter = None,
                cs_mode_switched = False,
                cs_post_activation_deadline = None,
                cs_speech_started_at = None,
                cs_was_recording = False \<rparr>)"

definition listen_deadline :: "pipeline_config \<Rightarrow> real \<Rightarrow> real option" where
  "listen_deadline c monotonic =
     (if pc_listen_timeout_seconds c \<le> 0 then None
      else Some (monotonic + pc_listen_timeout_seconds c))"

definition listen_timed_out :: "real option \<Rightarrow> 'dec capture_state \<Rightarrow> real \<Rightarrow> bool" where
  "listen_timed_out deadline s monotonic =
     (case deadline of
        None \<Rightarrow> False
      | Some t \<Rightarrow>
          if cs_keyphrase_detection s \<noteq> None \<or> cs_speech_started_at s \<noteq> None then False
          else t \<le> monotonic)"

definition timeout_message :: "'dec capture_state \<Rightarrow> string" where
  "timeout_message s =
     (if cs_keyphrase_required s \<and> cs_keyphrase_detection s = None
      then ''No keyphrase was detected before timeout.''
      else ''No complete utterance was detected before timeout.'')"

section \<open>Results\<close>

definition microphone_warnings :: "mic_input \<Rightarrow> log_event list" where
  "microphone_warnings mi =
     (if mi_dropped_frames mi \<noteq> 0 then [Dropped_frames (mi_dropped_frames mi)] else []) @
     (if mi_last_status mi \<noteq> [] then [Microphone_status (mi_last_status mi)] else [])"

definition finish_with_utterance_result ::
  "'dec capture_state \<Rightarrow> utterance \<Rightarrow> mic_input \<Rightarrow> real \<Rightarrow> capture_result \<times> log_event list" where
  "finish_with_utterance_result s u mi listen_started_at =
     (\<lparr> cr_conversation_mode = cs_conversation_mode s,
        cr_keyphrase_detection = cs_keyphrase_detection s,
        cr_utterance = Some u,
        cr_mode_switched = cs_mode_switched s,
        cr_keyphrase_wait_seconds = cs_keyphrase_wait_seconds s,
        cr_listen_seconds = mi_now mi - listen_started_at,
        cr_wait_for_speech_seconds =
          map_option (\<lambda>t. t - listen_started_at) (cs_speech_started_at s),
        cr_speech_capture_wall_seconds =
          map_option (\<lambda>t. mi_now mi - t) (cs_speech_started_at s) \<rparr>,
      Speech_ended (ut_forced_end u) # microphone_warnings mi)"

definition finish_mode_switch_result ::
  "'dec capture_state \<Rightarrow> real \<Rightarrow> real \<Rightarrow> capture_result" where
  "finish_mode_switch_result s now listen_started_at =
     \<lparr> cr_conversation_mode = cs_conversation_mode s,
       cr_keyphrase_detection = cs_keyphrase_detection s,
       cr_utterance = None,
       cr_mode_switched = cs_mode_switched s,
       cr_keyphrase_wait_seconds = cs_keyphrase_wait_seconds s,
       cr_listen_seconds = now - listen_started_at,
       cr_wait_for_speech_seconds = None,
       cr_speech_capture_wall_seconds = None \<rparr>"

definition finish_with_debug_audio ::
  "'dec capture_state \<Rightarrow> utterance \<Rightarrow> mic_input \<Rightarrow> real \<Rightarrow> capture_result \<times> log_event list" where
  "finish_with_debug_audio s u mi listen_started_at =
     (let (result, lg) = finish_with_utterance_result s u mi listen_started_at
      in (result, lg @ [Debug_audio ''utterance'']))"

section \<open>The keyphrase gate\<close>

record gate_result =
  gr_detection :: keyphrase_detection
  gr_conversation_enabled :: bool
  gr_replay_frames :: "frame list"

definition configured_kinds :: "keyphrase_config \<Rightarrow> (string \<times> keyphrase_kind) list" where
  "configured_kinds k =
     foldl (\<lambda>d p. AList.update p Conversation_on d)
       (foldl (\<lambda>d p. AList.update p Wake_command d) [] (kc_trigger_words k))
       (kc_conversation_on_phrases k)"

definition gate_phrase_spotter :: "('d, 'dec) voice_env \<Rightarrow> py_error + 'dec spotter" where
  "gate_phrase_spotter env =
     (let k = pc_keyphrases (ve_config env);
          chunk_ms = vc_chunk_ms (pc_voice_activity (ve_config env))
      in if chunk_ms = 0 then Inl ZeroDivisionError
         else spotter_init (ve_decoder env) (configured_kinds k)
                (max 1 (py_round_div (kc_check_interval_ms k) chunk_ms))
                (kc_gain k)
                (max (kc_carry_ms k) (kc_conversation_on_confirm_window_ms k))
                (kc_kws_threshold k))"

definition gate_start ::
  "('d, 'dec) voice_env \<Rightarrow> 'dec capture_state \<Rightarrow> py_error + ('dec capture_state \<times> log_event list)" where
  "gate_start env s =
     (case gate_phrase_spotter env of
        Inl e \<Rightarrow> Inl e
      | Inr sp \<Rightarrow>
          let k = pc_keyphrases (ve_config env) in
          Inr (s\<lparr> cs_keyphrase_spotter := Some sp \<rparr>,
               [Waiting_for (kc_trigger_words k @ kc_conversation_on_phrases k)]))"

definition gate_replay_frames ::
  "pipeline_config \<Rightarrow> 'dec capture_state \<Rightarrow> keyphrase_detection \<Rightarrow> frame list" where
  "gate_replay_frames c s d =
     (case cs_keyphrase_spotter s of
        None \<Rightarrow> []
      | Some sp \<Rightarrow>
          if kd_kind d = Conversation_on
          then confirmation_frames_for_detection sp d
                 (kc_conversation_on_confirm_window_ms (pc_keyphrases c))
          else replay_frames_for_detection sp d (kc_replay_pre_ms (pc_keyphrases c)))"

definition gate_accept ::
  "('d, 'dec) voice_env \<Rightarrow> frame \<Rightarrow> 'dec capture_state \<Rightarrow> real \<Rightarrow> real \<Rightarrow>
   gate_result option \<times> 'dec capture_state \<times> log_event list" where
  "gate_accept env f s0 now listen_started_at =
     (let s = s0\<lparr> cs_carry_frames := deque_append (cs_carry_maxlen s0) (cs_carry_frames s0) f \<rparr> in
      case cs_keyphrase_spotter s of
        None \<Rightarrow> (None, s, [])
      | Some sp \<Rightarrow>
          let (sp1, detection) = spotter_detect (ve_decoder env) (spotter_append (ve_decoder env) sp f) False;
              s1 = s\<lparr> cs_keyphrase_spotter := Some sp1 \<rparr>
          in case detection of
               None \<Rightarrow> (None, s1, [])
             | Some d \<Rightarrow>
                 let s2 = s1\<lparr> cs_keyphrase_detection := Some d,
                              cs_keyphrase_wait_seconds := Some (now - listen_started_at) \<rparr>;
                     frames = gate_replay_frames (ve_config env) s2 d
                 in (Some \<lparr> gr_detection = d, gr_conversation_enabled = (kd_kind d = Conversation_on),
                            gr_replay_frames = frames \<rparr>,
                     close_spotters s2,
                     [Detected (kd_phrase d) (kd_hypstr d)]))"

section \<open>The capture flow\<close>

definition finish_conversation_mode_confirmation ::
  "pipeline_config \<Rightarrow> gate_result \<Rightarrow> 'dec capture_state \<Rightarrow> mic_input \<Rightarrow> real \<Rightarrow>
   (py_error \<times> log_event list) + (capture_result option \<times> log_event list)" where
  "finish_conversation_mode_confirmation c r s mi listen_started_at =
     (if gr_replay_frames r = [] then Inr (None, [No_confirmation_audio])
      else if pc_audio_sample_rate c = 0
      then Inl (ZeroDivisionError, Confirming_conversation # microphone_warnings mi)
      else
        let samples = concat (gr_replay_frames r);
            seconds = of_nat (length samples) / of_int (pc_audio_sample_rate c)
        in Inr (Some \<lparr> cr_conversation_mode = cs_conversation_mode s,
                 cr_keyphrase_detection = cs_keyphrase_detection s,
                 cr_utterance = Some \<lparr> ut_samples = samples,
                                      ut_sample_rate = pc_audio_sample_rate c,
                                      ut_duration_seconds = seconds,
                                      ut_forced_end = True \<rparr>,
                 cr_mode_switched = False,
                 cr_keyphrase_wait_seconds = cs_keyphrase_wait_seconds s,
                 cr_listen_seconds = mi_now mi - listen_started_at,
                 cr_wait_for_speech_seconds = None,
                 cr_speech_capture_wall_seconds = Some seconds \<rparr>,
               Confirming_conversation # microphone_warnings mi))"

definition note_recording ::
  "bool \<Rightarrow> real \<Rightarrow> 'dec capture_state \<Rightarrow> 'dec capture_state \<times> log_event list" where
  "note_recording recording now s =
     (if recording \<and> \<not> cs_was_recording s
      then (s\<lparr> cs_speech_started_at := Some now, cs_post_activation_deadline := None \<rparr>, [Speech_started])
      else (s, []))"

definition accept_speech_frame ::
  "('d, 'dec) voice_env \<Rightarrow> frame \<Rightarrow> real \<Rightarrow> 'd segmenter \<Rightarrow> 'dec capture_state \<Rightarrow>
   utterance option \<times> 'd segmenter \<times> 'dec capture_state \<times> log_event list" where
  "accept_speech_frame env f now g s =
     (let (u, g') = seg_accept (ve_accept env) f g;
          (s', lg) = note_recording (sg_recording g') now s
      in (u, g', s'\<lparr> cs_was_recording := sg_recording g' \<rparr>, lg))"

definition accept_speech_event ::
  "('d, 'dec) voice_env \<Rightarrow> frame \<Rightarrow> real \<Rightarrow> 'd segmenter \<Rightarrow> 'dec capture_state \<Rightarrow>
   utterance_event option \<times> 'd segmenter \<times> 'dec capture_state \<times> log_event list" where
  "accept_speech_event env f now g s =
     (let (e, g') = accept_event (ve_accept env) f g;
          (s', lg) = note_recording (sg_recording g') now s
      in (e, g', s'\<lparr> cs_was_recording := sg_recording g' \<rparr>,
          lg @ (if e = Some Resumed then [Speech_resumed] else [])))"

fun replay_loop ::
  "('d, 'dec) voice_env \<Rightarrow> real \<Rightarrow> frame list \<Rightarrow> 'd segmenter \<Rightarrow> 'dec capture_state \<Rightarrow>
   utterance option \<times> 'd segmenter \<times> 'dec capture_state \<times> log_event list" where
  "replay_loop env now [] g s = (None, g, s, [])"
| "replay_loop env now (f # fs) g s =
     (let (u, g1, s1, log1) = accept_speech_frame env f now g s
      in case u of
           Some x \<Rightarrow> (Some x, g1, s1, log1)
         | None \<Rightarrow> (let (r, g2, s2, log2) = replay_loop env now fs g1 s1
                     in (r, g2, s2, log1 @ log2)))"

definition replay_wake_audio ::
  "('d, 'dec) voice_env \<Rightarrow> gate_result \<Rightarrow> real \<Rightarrow> 'd segmenter \<Rightarrow> 'dec capture_state \<Rightarrow>
   py_error + (utterance option \<times> 'd segmenter \<times> 'dec capture_state \<times> log_event list)" where
  "replay_wake_audio env r now g s =
     (if gr_replay_frames r = [] then
        Inr (None, g, s\<lparr> cs_carry_frames := [] \<rparr>, [No_replay_audio])
      else if pc_audio_sample_rate (ve_config env) = 0 then Inl ZeroDivisionError
      else
        let (u, g', s', lg) = replay_loop env now (gr_replay_frames r) g s
        in Inr (u, g', s'\<lparr> cs_carry_frames := [] \<rparr>,
                Replaying (of_nat (total_len (gr_replay_frames r)) /
                           of_int (pc_audio_sample_rate (ve_config env))) # lg))"

section \<open>Routing a frame\<close>

definition accept_keyphrase_frame ::
  "('d, 'dec) voice_env \<Rightarrow> mic_input \<Rightarrow> real \<Rightarrow> 'd segmenter \<Rightarrow> 'dec capture_state \<Rightarrow>
   (py_error \<times> log_event list) + (capture_result option \<times> 'd segmenter \<times> 'dec capture_state \<times> log_event list)" where
  "accept_keyphrase_frame env mi listen_started_at g s =
     (let (gate, s1, log1) = gate_accept env (mi_frame mi) s (mi_now mi) listen_started_at in
      case gate of
        None \<Rightarrow> Inr (None, g, s1, log1)
      | Some r \<Rightarrow>
          let log2 = log1 @ [Debug_audio (''keyphrase-'' @ kd_phrase (gr_detection r))] in
          if gr_conversation_enabled r then
            (case finish_conversation_mode_confirmation (ve_config env) r s1 mi listen_started_at of
               Inl (e, log3) \<Rightarrow> Inl (e, log2 @ log3)
             | Inr (result, log3) \<Rightarrow> Inr (result, g, s1, log2 @ log3))
          else
            (case replay_wake_audio env r (mi_now mi) g s1 of
               Inl e \<Rightarrow> Inl (e, log2)
             | Inr (None, g2, s2, log3) \<Rightarrow> Inr (None, g2, s2, log2 @ log3)
             | Inr (Some u, g2, s2, log3) \<Rightarrow>
                 let (result, log4) = finish_with_debug_audio s2 u mi listen_started_at
                 in Inr (Some result, g2, s2, log2 @ log3 @ log4)))"

definition activation_window_expired :: "'dec capture_state \<Rightarrow> real \<Rightarrow> bool" where
  "activation_window_expired s now =
     (cs_mode_switched s \<and>
      (case cs_post_activation_deadline s of None \<Rightarrow> False | Some t \<Rightarrow> t \<le> now))"

definition accept_utterance_frame ::
  "('d, 'dec) voice_env \<Rightarrow> mic_input \<Rightarrow> real \<Rightarrow> 'd segmenter \<Rightarrow> 'dec capture_state \<Rightarrow>
   capture_result option \<times> 'd segmenter \<times> 'dec capture_state \<times> log_event list" where
  "accept_utterance_frame env mi listen_started_at g s =
     (let (u, g1, s1, log1) = accept_speech_frame env (mi_frame mi) (mi_now mi) g s in
      case u of
        Some u' \<Rightarrow>
          (let (result, log2) = finish_with_debug_audio s1 u' mi listen_started_at
           in (Some result, g1, s1, log1 @ log2))
      | None \<Rightarrow>
          (if activation_window_expired s1 (mi_now mi)
           then Some (finish_mode_switch_result s1 (mi_now mi) listen_started_at) else None,
           g1, s1, log1))"

definition accept_frame ::
  "('d, 'dec) voice_env \<Rightarrow> mic_input \<Rightarrow> real \<Rightarrow> 'd segmenter \<Rightarrow> 'dec capture_state \<Rightarrow>
   (py_error \<times> log_event list) + (capture_result option \<times> 'd segmenter \<times> 'dec capture_state \<times> log_event list)" where
  "accept_frame env mi listen_started_at g s =
     (if cs_keyphrase_required s \<and> cs_keyphrase_detection s = None
      then accept_keyphrase_frame env mi listen_started_at g s
      else Inr (accept_utterance_frame env mi listen_started_at g s))"

section \<open>The one-shot capture\<close>

text \<open>
  A handler that raises gives the error with what it had reported before. The loop of \<open>VoiceTurnCapture.capture\<close> over the frames the microphone delivers, its end
  (\<open>stopped\<close>: the stop event is set when the stream closes) and the \<open>finally\<close> clause; \<open>mic_error\<close> is
  the error of opening the microphone, if it has one.
\<close>

fun capture_loop ::
  "('d, 'dec) voice_env \<Rightarrow> real option \<Rightarrow> real \<Rightarrow> bool \<Rightarrow> mic_input list \<Rightarrow> 'd segmenter \<Rightarrow>
   'dec capture_state \<Rightarrow> (py_error + capture_result) \<times> log_event list" where
  "capture_loop env deadline listen_started_at stopped [] g s =
     (Inl (if stopped then InterruptedError ''Voice capture was stopped.''
           else RuntimeError ''Microphone stream closed before an utterance was detected.''), [])"
| "capture_loop env deadline listen_started_at stopped (mi # mis) g s =
     (if mi_stop mi then (Inl (InterruptedError ''Voice capture was stopped.''), [])
      else
        case accept_frame env mi listen_started_at g s of
          Inl (e, log1) \<Rightarrow> (Inl e, log1)
        | Inr (Some result, g1, s1, log1) \<Rightarrow> (Inr result, log1)
        | Inr (None, g1, s1, log1) \<Rightarrow>
            if listen_timed_out deadline s1 (mi_monotonic mi)
            then (Inl (TimeoutError (timeout_message s1)), log1 @ [Debug_audio ''timeout''])
            else
              let (r, log2) = capture_loop env deadline listen_started_at stopped mis g1 s1
              in (r, log1 @ log2))"

definition start_keyphrase_gate ::
  "('d, 'dec) voice_env \<Rightarrow> 'dec capture_state \<Rightarrow> py_error + ('dec capture_state \<times> log_event list)" where
  "start_keyphrase_gate env s =
     (if cs_keyphrase_required s then gate_start env s else Inr (s, []))"

definition capture ::
  "('d, 'dec) voice_env \<Rightarrow> conversation_mode \<Rightarrow> py_error option \<Rightarrow> real \<Rightarrow> real \<Rightarrow> bool \<Rightarrow> mic_input list \<Rightarrow>
   (py_error + capture_result) \<times> log_event list" where
  "capture env mode mic_error now monotonic stopped mis =
     (case create_segmenter env of
        Inl e \<Rightarrow> (Inl e, [])
      | Inr g \<Rightarrow>
          (case create_capture_state (ve_config env) mode of
             Inl e \<Rightarrow> (Inl e, [])
           | Inr s \<Rightarrow>
               let opened = [Input_started, Audio_source] in
               if mic_error \<noteq> None then (Inl (the mic_error), [])
               else (case start_keyphrase_gate env s of
                  Inl e \<Rightarrow> (Inl e, opened @ [Input_stopped])
                | Inr (s1, log1) \<Rightarrow>
                    let (r, log2) = capture_loop env (listen_deadline (ve_config env) monotonic) now
                                      stopped mis g s1
                    in (r, opened @ log1 @ [Listening (cs_keyphrase_required s1)] @ log2 @
                           [Input_stopped]))))"

section \<open>Invariant of a capture\<close>

text \<open>
  A capture requires a key phrase exactly in wake mode, never switches the mode by itself,
  keeps the carry buffer bounded, and has a spotter only while it waits for the phrase.
\<close>

definition capture_inv :: "'dec capture_state \<Rightarrow> bool" where
  "capture_inv s \<longleftrightarrow>
     (cs_keyphrase_required s \<longleftrightarrow> cs_conversation_mode s = WAKE_COMMAND) \<and>
     \<not> cs_mode_switched s \<and>
     length (cs_carry_frames s) \<le> cs_carry_maxlen s \<and>
     (cs_keyphrase_spotter s \<noteq> None \<longrightarrow> cs_keyphrase_required s \<and> cs_keyphrase_detection s = None)"

definition same_mode :: "'dec capture_state \<Rightarrow> 'dec capture_state \<Rightarrow> bool" where
  "same_mode s s' \<longleftrightarrow> cs_conversation_mode s' = cs_conversation_mode s \<and>
     (cs_keyphrase_detection s \<noteq> None \<longrightarrow> cs_keyphrase_detection s' = cs_keyphrase_detection s)"

lemma same_mode_refl [simp]: "same_mode s s"
  by (simp add: same_mode_def)

lemma same_mode_trans: "same_mode s t \<Longrightarrow> same_mode t u \<Longrightarrow> same_mode s u"
  by (auto simp: same_mode_def)

text \<open>A result is usable: it has the capture's mode, an utterance, and in wake mode a detection.\<close>

definition result_ok :: "conversation_mode \<Rightarrow> capture_result \<Rightarrow> bool" where
  "result_ok mode r \<longleftrightarrow>
     cr_conversation_mode r = mode \<and> cr_utterance r \<noteq> None \<and> \<not> cr_mode_switched r \<and>
     (mode = WAKE_COMMAND \<longrightarrow> cr_keyphrase_detection r \<noteq> None)"

lemma create_capture_state_inv:
  "create_capture_state c mode = Inr s \<Longrightarrow>
   capture_inv s \<and> cs_conversation_mode s = mode \<and> cs_keyphrase_detection s = None \<and>
   cs_keyphrase_spotter s = None"
  by (auto simp: create_capture_state_def capture_inv_def split: sum.splits)

lemma start_keyphrase_gate_inv:
  "start_keyphrase_gate env s = Inr (s', lg) \<Longrightarrow> capture_inv s \<Longrightarrow> cs_keyphrase_detection s = None \<Longrightarrow>
   capture_inv s' \<and> cs_conversation_mode s' = cs_conversation_mode s \<and> cs_keyphrase_detection s' = None"
  by (auto simp: start_keyphrase_gate_def gate_start_def Let_def capture_inv_def
      split: if_splits sum.splits)

lemma gate_accept_inv:
  assumes "gate_accept env f s now t = (r, s', lg)" "capture_inv s"
  shows "capture_inv s' \<and> same_mode s s' \<and> (r \<noteq> None \<longrightarrow> cs_keyphrase_detection s' \<noteq> None)"
  using assms
  by (auto simp: gate_accept_def Let_def capture_inv_def same_mode_def close_spotters_def
      split: option.splits prod.splits)

lemma note_recording_inv:
  assumes "note_recording rec now s = (s', lg)" "capture_inv s"
  shows "capture_inv (s'\<lparr> cs_was_recording := b \<rparr>) \<and> same_mode s (s'\<lparr> cs_was_recording := b \<rparr>) \<and>
    cs_keyphrase_detection s' = cs_keyphrase_detection s"
  using assms by (auto simp: note_recording_def capture_inv_def same_mode_def split: if_splits)

lemma accept_speech_frame_inv:
  assumes "accept_speech_frame env f now g s = (u, g', s', lg)" "capture_inv s"
  shows "capture_inv s' \<and> same_mode s s' \<and> cs_keyphrase_detection s' = cs_keyphrase_detection s"
  using assms note_recording_inv [OF _ assms(2)]
  by (fastforce simp: accept_speech_frame_def Let_def split: prod.splits)

lemma accept_speech_event_inv:
  assumes "accept_speech_event env f now g s = (e, g', s', lg)" "capture_inv s"
  shows "capture_inv s' \<and> same_mode s s' \<and> cs_keyphrase_detection s' = cs_keyphrase_detection s"
  using assms note_recording_inv [OF _ assms(2)]
  by (fastforce simp: accept_speech_event_def Let_def split: prod.splits)

lemma replay_loop_inv:
  "replay_loop env now fs g s = (u, g', s', lg) \<Longrightarrow> capture_inv s \<Longrightarrow>
   capture_inv s' \<and> same_mode s s' \<and> cs_keyphrase_detection s' = cs_keyphrase_detection s"
proof (induction fs arbitrary: u g s g' s' lg)
  case Nil
  then show ?case by simp
next
  case (Cons f fs)
  obtain v g1 s1 log1 where a: "accept_speech_frame env f now g s = (v, g1, s1, log1)"
    by (metis prod_cases4)
  note inv1 = accept_speech_frame_inv [OF a Cons.prems(2)]
  show ?case
  proof (cases v)
    case (Some x)
    then show ?thesis using Cons.prems a inv1 by simp
  next
    case None
    obtain r g2 s2 log2 where b: "replay_loop env now fs g1 s1 = (r, g2, s2, log2)"
      by (metis prod_cases4)
    with Cons.IH [OF b] Cons.prems a inv1 None show ?thesis
      by (auto intro: same_mode_trans)
  qed
qed

lemma replay_wake_audio_inv:
  assumes "replay_wake_audio env r now g s = Inr (u, g', s', lg)" "capture_inv s"
  shows "capture_inv s' \<and> same_mode s s' \<and> cs_keyphrase_detection s' = cs_keyphrase_detection s"
proof (cases "gr_replay_frames r = []")
  case True
  then show ?thesis using assms
    by (auto simp: replay_wake_audio_def capture_inv_def same_mode_def)
next
  case False
  obtain v g1 s1 log1 where a: "replay_loop env now (gr_replay_frames r) g s = (v, g1, s1, log1)"
    by (metis prod_cases4)
  from replay_loop_inv [OF a assms(2)] assms(1) False a show ?thesis
    by (auto simp: replay_wake_audio_def capture_inv_def same_mode_def split: if_splits)
qed

lemma finish_with_debug_audio_ok:
  assumes "finish_with_debug_audio s u mi t = (r, lg)" "capture_inv s"
    "cs_keyphrase_required s \<Longrightarrow> cs_keyphrase_detection s \<noteq> None"
  shows "result_ok (cs_conversation_mode s) r"
  using assms
  by (auto simp: finish_with_debug_audio_def finish_with_utterance_result_def result_ok_def
      capture_inv_def)

lemma finish_conversation_ok:
  assumes "finish_conversation_mode_confirmation c r s mi t = Inr (Some res, lg)" "capture_inv s"
    "cs_keyphrase_detection s \<noteq> None"
  shows "result_ok (cs_conversation_mode s) res"
  using assms
  by (auto simp: finish_conversation_mode_confirmation_def result_ok_def Let_def split: if_splits)

lemma accept_keyphrase_frame_inv:
  assumes "accept_keyphrase_frame env mi t g s = Inr (res, g', s', lg)" "capture_inv s"
  shows "capture_inv s' \<and> same_mode s s' \<and>
    (\<forall>r. res = Some r \<longrightarrow> result_ok (cs_conversation_mode s) r)"
proof -
  obtain gate s1 log1 where a: "gate_accept env (mi_frame mi) s (mi_now mi) t = (gate, s1, log1)"
    by (metis prod_cases3)
  note inv1 = gate_accept_inv [OF a assms(2)]
  show ?thesis
  proof (cases gate)
    case None
    then show ?thesis using assms(1) a inv1 by (simp add: accept_keyphrase_frame_def)
  next
    case (Some r)
    show ?thesis
    proof (cases "gr_conversation_enabled r")
      case True
      then obtain log3 where
        f: "finish_conversation_mode_confirmation (ve_config env) r s1 mi t = Inr (res, log3)"
        and "s' = s1"
        using assms(1) a Some by (auto simp: accept_keyphrase_frame_def Let_def split: sum.splits)
      then show ?thesis
        using inv1 Some finish_conversation_ok [of "ve_config env" r s1 mi t _ log3]
        by (auto simp: same_mode_def)
    next
      case False
      then obtain u g2 s2 log3 where
        f: "replay_wake_audio env r (mi_now mi) g s1 = Inr (u, g2, s2, log3)" and s': "s' = s2"
        and res: "res = (case u of None \<Rightarrow> None | Some v \<Rightarrow> Some (fst (finish_with_debug_audio s2 v mi t)))"
        using assms(1) a Some
        by (auto simp: accept_keyphrase_frame_def Let_def split: sum.splits option.splits prod.splits)
      from replay_wake_audio_inv [OF f] inv1
      have inv2: "capture_inv s2" "same_mode s s2" "cs_keyphrase_detection s2 \<noteq> None"
        using Some by (auto intro: same_mode_trans)
      have "result_ok (cs_conversation_mode s2) (fst (finish_with_debug_audio s2 v mi t))" for v
        using finish_with_debug_audio_ok [OF _ inv2(1), of v mi t] inv2(3)
        by (cases "finish_with_debug_audio s2 v mi t") auto
      then show ?thesis using inv2 s' res by (auto simp: same_mode_def split: option.splits)
    qed
  qed
qed

lemma accept_utterance_frame_inv:
  assumes "accept_utterance_frame env mi t g s = (res, g', s', lg)" "capture_inv s"
    "cs_keyphrase_required s \<Longrightarrow> cs_keyphrase_detection s \<noteq> None"
  shows "capture_inv s' \<and> same_mode s s' \<and>
    (\<forall>r. res = Some r \<longrightarrow> result_ok (cs_conversation_mode s) r)"
proof -
  obtain u g1 s1 lg1 where a: "accept_speech_frame env (mi_frame mi) (mi_now mi) g s = (u, g1, s1, lg1)"
    by (metis prod_cases4)
  note inv1 = accept_speech_frame_inv [OF a assms(2)]
  then have req: "cs_keyphrase_required s1 \<Longrightarrow> cs_keyphrase_detection s1 \<noteq> None"
    using assms(2,3) by (auto simp: capture_inv_def same_mode_def)
  show ?thesis
  proof (cases u)
    case None
    then show ?thesis using assms(1) a inv1
      by (auto simp: accept_utterance_frame_def activation_window_expired_def capture_inv_def)
  next
    case (Some v)
    have "result_ok (cs_conversation_mode s1) (fst (finish_with_debug_audio s1 v mi t))"
      using finish_with_debug_audio_ok [of s1 v mi t] inv1 req
      by (cases "finish_with_debug_audio s1 v mi t") auto
    then show ?thesis using assms(1) a inv1 Some
      by (auto simp: accept_utterance_frame_def same_mode_def split: prod.splits)
  qed
qed

lemma accept_frame_inv:
  assumes "accept_frame env mi t g s = Inr (res, g', s', lg)" "capture_inv s"
  shows "capture_inv s' \<and> same_mode s s' \<and>
    (\<forall>r. res = Some r \<longrightarrow> result_ok (cs_conversation_mode s) r)"
proof (cases "cs_keyphrase_required s \<and> cs_keyphrase_detection s = None")
  case True
  then show ?thesis using assms accept_keyphrase_frame_inv [of env mi t g s res g' s' lg]
    by (simp add: accept_frame_def)
next
  case False
  then show ?thesis using assms accept_utterance_frame_inv [of env mi t g s res g' s' lg]
    by (auto simp: accept_frame_def)
qed

lemma capture_loop_ok:
  "capture_inv s \<Longrightarrow>
   case fst (capture_loop env deadline t stopped mis g s) of
     Inl e \<Rightarrow> True | Inr r \<Rightarrow> result_ok (cs_conversation_mode s) r"
proof (induction mis arbitrary: g s)
  case Nil
  then show ?case by simp
next
  case (Cons mi mis)
  show ?case
  proof (cases "accept_frame env mi t g s")
    case (Inl e)
    then show ?thesis by (cases e) simp
  next
    case (Inr x)
    then obtain res g1 s1 lg1 where x: "accept_frame env mi t g s = Inr (res, g1, s1, lg1)"
      by (cases x) auto
    note inv = accept_frame_inv [OF x Cons.prems]
    then show ?thesis using x Cons.IH [of s1 g1]
      by (cases res) (auto simp: same_mode_def Let_def split: prod.splits sum.splits)
  qed
qed

section \<open>Properties of a capture\<close>

definition capture_opens :: "('d, 'dec) voice_env \<Rightarrow> conversation_mode \<Rightarrow> py_error option \<Rightarrow> bool" where
  "capture_opens env mode mic_error \<longleftrightarrow>
     \<not> isl (create_segmenter env) \<and> \<not> isl (frame_deque (ve_config env) (kc_carry_ms (pc_keyphrases (ve_config env)))) \<and>
     mic_error = None"

lemma capture_opens_cases:
  "create_segmenter env = Inl e \<Longrightarrow> \<not> capture_opens env mode mic_error"
  "create_capture_state (ve_config env) mode = Inl e \<Longrightarrow> \<not> capture_opens env mode mic_error"
  "create_segmenter env = Inr g \<Longrightarrow> create_capture_state (ve_config env) mode = Inr s \<Longrightarrow>
     capture_opens env mode mic_error \<longleftrightarrow> mic_error = None"
  by (auto simp: capture_opens_def create_capture_state_def split: sum.splits)

lemma capture_reports:
  fixes env :: "('d, 'dec) voice_env"
  shows "(case capture env mode mic_error now monotonic stopped mis of (r, lg) \<Rightarrow>
      if capture_opens env mode mic_error then hd lg = Input_started \<and> last lg = Input_stopped \<and> 2 \<le> length lg
      else lg = [] \<and> isl r)"
proof (cases "create_segmenter env")
  case (Inl e)
  then show ?thesis using capture_opens_cases(1) by (simp add: capture_def)
next
  case g: (Inr g)
  show ?thesis
  proof (cases "create_capture_state (ve_config env) mode :: py_error + 'dec capture_state")
    case (Inl e)
    then show ?thesis using g capture_opens_cases(2) [OF Inl] by (simp add: capture_def)
  next
    case s: (Inr s)
    show ?thesis
      unfolding capture_opens_cases(3) [OF g s, of mic_error] unfolding capture_def g s
      by (auto simp: Let_def split: sum.splits prod.splits)
  qed
qed

text \<open>
  C25. A one-shot capture that returns gives an utterance captured in the requested mode; in
  wake-command mode the result always carries the key-phrase detection that opened it. When the
  detector, the segmenter and the carry buffer can be made and the microphone opens, the reports
  start with \<open>input-started\<close> and end with \<open>input-stopped\<close>, on every return and on every exception
  after that, a failure of the key-phrase gate included. Otherwise nothing is reported and the
  capture raises.
\<close>

theorem capture_result_ok:
  "(case capture env mode mic_error now monotonic stopped mis of (res, lg) \<Rightarrow>
     (case res of
        Inl e \<Rightarrow> True
      | Inr r \<Rightarrow> cr_conversation_mode r = mode \<and> cr_utterance r \<noteq> None \<and> \<not> cr_mode_switched r \<and>
                 (if mode = WAKE_COMMAND then cr_keyphrase_detection r \<noteq> None else True)) \<and>
     (if capture_opens env mode mic_error
      then hd lg = Input_started \<and> last lg = Input_stopped \<and> 2 \<le> length lg
      else lg = [] \<and> isl res))"
proof -
  have res: "result_ok mode r \<longleftrightarrow> cr_conversation_mode r = mode \<and> cr_utterance r \<noteq> None \<and>
      \<not> cr_mode_switched r \<and> (if mode = WAKE_COMMAND then cr_keyphrase_detection r \<noteq> None else True)" for r
    by (simp add: result_ok_def)
  have run: "result_ok mode r"
    if "create_capture_state (ve_config env) mode = Inr s0" "start_keyphrase_gate env s0 = Inr (s, lg)"
      "capture_loop env d t stopped mis g s = (Inr r, lg2)"
    for d t g s s0 lg lg2 r
    using create_capture_state_inv [OF that(1)] start_keyphrase_gate_inv [OF that(2)]
      capture_loop_ok [of s env d t stopped mis g] that(3) by simp
  have "case fst (capture env mode mic_error now monotonic stopped mis) of Inl e \<Rightarrow> True | Inr r \<Rightarrow> result_ok mode r"
    unfolding capture_def Let_def by (auto intro: run split: sum.splits prod.splits)
  then show ?thesis
    unfolding res [symmetric] using capture_reports [of env mode mic_error now monotonic stopped mis]
    by (cases "capture env mode mic_error now monotonic stopped mis") simp
qed

end
