(* ===== verification/Session.thy ===== *)
theory Session
  imports Capture
begin

text \<open>
  The speculative capture session, \<open>voice/speculative_capture_session.py\<close>: the loop that
  turns microphone frames into \<open>endpoint\<close>, \<open>resumed\<close>, \<open>confirmed\<close> and \<open>mode_switch\<close> events,
  each with a turn id. One step of the model is one iteration of the loop; its input is the
  frame with the clock readings, and the mode another component set on the controller since
  the previous frame.
\<close>

section \<open>State\<close>

datatype outcome = Running | Returned | Raised py_error

record session_input = mic_input +
  si_external_mode :: "conversation_mode option"

record ('d, 'dec) session =
  ss_conversation_mode :: conversation_mode
  ss_mode_version :: nat
  ss_mode_controller :: "mode_controller option"
  ss_turn_id :: nat
  ss_pending_turn_id :: "nat option"
  ss_pending_capture :: "capture_result option"
  ss_completed_turns :: nat
  ss_segmenter :: "'d segmenter"
  ss_state :: "'dec capture_state"
  ss_deadline :: "real option"
  ss_listen_started_at :: real
  ss_outcome :: outcome
  ss_log :: "log_event list"

section \<open>Turns\<close>

definition add_log :: "log_event list \<Rightarrow> ('d, 'dec) session \<Rightarrow> ('d, 'dec) session" where
  "add_log lg s = s\<lparr> ss_log := ss_log s @ lg \<rparr>"

definition new_turn ::
  "('d, 'dec) voice_env \<Rightarrow> conversation_mode \<Rightarrow> py_error + 'd segmenter \<times> 'dec capture_state \<times> log_event list" where
  "new_turn env mode =
     (case create_segmenter env of
        Inl e \<Rightarrow> Inl e
      | Inr g \<Rightarrow>
          (case create_capture_state (ve_config env) mode of
             Inl e \<Rightarrow> Inl e
           | Inr st \<Rightarrow>
               (case start_keyphrase_gate env st of
                  Inl e \<Rightarrow> Inl e
                | Inr (st1, lg) \<Rightarrow> Inr (g, st1, lg @ [Listening (cs_keyphrase_required st1)]))))"

definition start_turn ::
  "('d, 'dec) voice_env \<Rightarrow> real \<Rightarrow> real \<Rightarrow> ('d, 'dec) session \<Rightarrow> ('d, 'dec) session" where
  "start_turn env now monotonic s0 =
     (let s = (case ss_mode_controller s0 of
                 None \<Rightarrow> s0
               | Some c \<Rightarrow> s0\<lparr> ss_conversation_mode := fst (mode_snapshot c),
                               ss_mode_version := snd (mode_snapshot c) \<rparr>)
      in case new_turn env (ss_conversation_mode s) of
           Inl e \<Rightarrow> s\<lparr> ss_outcome := Raised e \<rparr>
         | Inr (g, st, lg) \<Rightarrow>
             add_log lg
               (s\<lparr> ss_segmenter := g, ss_state := st,
                   ss_deadline := listen_deadline (ve_config env) monotonic,
                   ss_listen_started_at := now \<rparr>))"

text \<open>\<open>state.close_spotters()\<close> and a new turn.\<close>

definition restart_turn ::
  "('d, 'dec) voice_env \<Rightarrow> session_input \<Rightarrow> ('d, 'dec) session \<Rightarrow> ('d, 'dec) session" where
  "restart_turn env inp s =
     start_turn env (mi_now inp) (mi_monotonic inp) (s\<lparr> ss_state := close_spotters (ss_state s) \<rparr>)"

definition sync_external_mode_change ::
  "('d, 'dec) session \<Rightarrow> bool \<times> ('d, 'dec) session" where
  "sync_external_mode_change s =
     (case ss_mode_controller s of
        None \<Rightarrow> (False, s)
      | Some c \<Rightarrow>
          let (mode, version) = mode_snapshot c in
          if version = ss_mode_version s then (False, s)
          else
            let s1 = s\<lparr> ss_mode_version := version \<rparr> in
            if mode = cs_conversation_mode (ss_state s) then (False, s1)
            else (True, s1\<lparr> ss_conversation_mode := mode \<rparr>))"

definition endpoint_is_final :: "pipeline_config \<Rightarrow> capture_result \<Rightarrow> bool" where
  "endpoint_is_final c r =
     (case cr_utterance r of
        None \<Rightarrow> False
      | Some u \<Rightarrow>
          ut_forced_end u \<or>
          vc_final_silence_ms (pc_voice_activity c) \<le> vc_min_silence_ms (pc_voice_activity c))"

definition emit_endpoint ::
  "pipeline_config \<Rightarrow> capture_result \<Rightarrow> ('d, 'dec) session \<Rightarrow>
   ('d, 'dec) session \<times> capture_stream_event list" where
  "emit_endpoint c r s0 =
     (let current = ss_turn_id s0 + 1; s = s0\<lparr> ss_turn_id := current \<rparr> in
      if endpoint_is_final c r
      then (s\<lparr> ss_pending_turn_id := None, ss_pending_capture := None \<rparr>,
            [Ev_endpoint current r, Ev_confirmed current r])
      else (s\<lparr> ss_pending_turn_id := Some current, ss_pending_capture := Some r \<rparr>,
            [Ev_endpoint current r]))"

definition turn_finished ::
  "int \<Rightarrow> capture_result \<Rightarrow> ('d, 'dec) session \<Rightarrow> bool \<times> ('d, 'dec) session" where
  "turn_finished max_turns r s0 =
     (let s1 = s0\<lparr> ss_conversation_mode := cr_conversation_mode r \<rparr>;
          s2 = (case ss_mode_controller s1 of
                  None \<Rightarrow> s1
                | Some c \<Rightarrow>
                    let c' = snd (mode_set (cr_conversation_mode r) c)
                    in s1\<lparr> ss_mode_controller := Some c', ss_mode_version := snd (mode_snapshot c') \<rparr>);
          s3 = s2\<lparr> ss_completed_turns := ss_completed_turns s2 + 1 \<rparr>
      in (0 < max_turns \<and> max_turns \<le> int (ss_completed_turns s3), s3))"

definition finish_turn ::
  "('d, 'dec) voice_env \<Rightarrow> int \<Rightarrow> session_input \<Rightarrow> capture_result \<Rightarrow> ('d, 'dec) session \<Rightarrow>
   ('d, 'dec) session" where
  "finish_turn env max_turns inp r s =
     (let (finished, s1) = turn_finished max_turns r s
      in if finished then s1\<lparr> ss_outcome := Returned \<rparr> else restart_turn env inp s1)"

section \<open>One iteration of the loop\<close>

definition endpoint_step ::
  "('d, 'dec) voice_env \<Rightarrow> int \<Rightarrow> session_input \<Rightarrow> capture_result \<Rightarrow> ('d, 'dec) session \<Rightarrow>
   ('d, 'dec) session \<times> capture_stream_event list" where
  "endpoint_step env max_turns inp r s =
     (let (s1, es) = emit_endpoint (ve_config env) r s
      in (if endpoint_is_final (ve_config env) r then finish_turn env max_turns inp r s1 else s1, es))"

definition keyphrase_step ::
  "('d, 'dec) voice_env \<Rightarrow> int \<Rightarrow> session_input \<Rightarrow> ('d, 'dec) session \<Rightarrow>
   ('d, 'dec) session \<times> capture_stream_event list" where
  "keyphrase_step env max_turns inp s =
     (case accept_keyphrase_frame env (mic_input.truncate inp) (ss_listen_started_at s)
             (ss_segmenter s) (ss_state s) of
        Inl (e, lg) \<Rightarrow> (add_log lg (s\<lparr> ss_outcome := Raised e \<rparr>), [])
      | Inr (result, g, st, lg) \<Rightarrow>
          let s1 = add_log lg (s\<lparr> ss_segmenter := g, ss_state := st \<rparr>)
          in case result of
               None \<Rightarrow> (s1, [])
             | Some r \<Rightarrow> endpoint_step env max_turns inp r s1)"

definition speech_step ::
  "('d, 'dec) voice_env \<Rightarrow> int \<Rightarrow> session_input \<Rightarrow> ('d, 'dec) session \<Rightarrow>
   ('d, 'dec) session \<times> capture_stream_event list" where
  "speech_step env max_turns inp s =
     (let (e, g, st, lg) = accept_speech_event env (mi_frame inp) (mi_now inp)
                             (ss_segmenter s) (ss_state s);
          s1 = add_log lg (s\<lparr> ss_segmenter := g, ss_state := st \<rparr>)
      in case e of
           None \<Rightarrow> (s1, [])
         | Some (Endpoint u) \<Rightarrow>
             let (r, lg2) = finish_with_debug_audio (ss_state s1) u (mic_input.truncate inp)
                              (ss_listen_started_at s1)
             in endpoint_step env max_turns inp r (add_log lg2 s1)
         | Some Resumed \<Rightarrow>
             (case ss_pending_turn_id s1 of
                None \<Rightarrow> (s1, [])
              | Some i \<Rightarrow> (s1\<lparr> ss_pending_turn_id := None, ss_pending_capture := None \<rparr>, [Ev_resumed i]))
         | Some (Confirmed _) \<Rightarrow>
             (case (ss_pending_turn_id s1, ss_pending_capture s1) of
                (Some i, Some r) \<Rightarrow>
                  (finish_turn env max_turns inp r
                     (s1\<lparr> ss_pending_turn_id := None, ss_pending_capture := None \<rparr>),
                   [Ev_confirmed i r])
              | _ \<Rightarrow> (s1, [])))"

definition mode_switch_step ::
  "('d, 'dec) voice_env \<Rightarrow> int \<Rightarrow> session_input \<Rightarrow> ('d, 'dec) session \<Rightarrow>
   ('d, 'dec) session \<times> capture_stream_event list" where
  "mode_switch_step env max_turns inp s =
     (if activation_window_expired (ss_state s) (mi_now inp) then
        let current = ss_turn_id s + 1;
            r = finish_mode_switch_result (ss_state s) (mi_now inp) (ss_listen_started_at s)
        in (finish_turn env max_turns inp r (s\<lparr> ss_turn_id := current \<rparr>), [Ev_mode_switch current r])
      else (s, []))"

definition timeout_step :: "session_input \<Rightarrow> ('d, 'dec) session \<Rightarrow> ('d, 'dec) session" where
  "timeout_step inp s =
     (if listen_timed_out (ss_deadline s) (ss_state s) (mi_monotonic inp)
      then add_log [Debug_audio ''timeout'']
             (s\<lparr> ss_outcome := Raised (TimeoutError (timeout_message (ss_state s))) \<rparr>)
      else s)"

definition external_mode :: "session_input \<Rightarrow> ('d, 'dec) session \<Rightarrow> ('d, 'dec) session" where
  "external_mode inp s =
     (case (si_external_mode inp, ss_mode_controller s) of
        (Some mode, Some c) \<Rightarrow> s\<lparr> ss_mode_controller := Some (snd (mode_set mode c)) \<rparr>
      | _ \<Rightarrow> s)"

definition session_step ::
  "('d, 'dec) voice_env \<Rightarrow> int \<Rightarrow> ('d, 'dec) session \<Rightarrow> session_input \<Rightarrow>
   ('d, 'dec) session \<times> capture_stream_event list" where
  "session_step env max_turns s0 inp =
     (if ss_outcome s0 \<noteq> Running then (s0, [])
      else if mi_stop inp then
        (s0\<lparr> ss_outcome := Raised (InterruptedError ''Voice capture was stopped.'') \<rparr>, [])
      else
        let (changed, s) = sync_external_mode_change (external_mode inp s0) in
        if changed then
          (restart_turn env inp (s\<lparr> ss_pending_turn_id := None, ss_pending_capture := None \<rparr>), [])
        else if cs_keyphrase_required (ss_state s) \<and> cs_keyphrase_detection (ss_state s) = None then
          keyphrase_step env max_turns inp s
        else
          let (s1, es1) = speech_step env max_turns inp s in
          if ss_outcome s1 \<noteq> Running then (s1, es1)
          else
            let (s2, es2) = mode_switch_step env max_turns inp s1 in
            if ss_outcome s2 \<noteq> Running then (s2, es1 @ es2)
            else (timeout_step inp s2, es1 @ es2))"

section \<open>The run\<close>

definition session_init ::
  "('d, 'dec) voice_env \<Rightarrow> conversation_mode \<Rightarrow> mode_controller option \<Rightarrow> real \<Rightarrow> real \<Rightarrow>
   py_error + ('d, 'dec) session" where
  "session_init env mode0 controller now monotonic =
     (let mode = (case controller of None \<Rightarrow> mode0 | Some c \<Rightarrow> fst (mode_snapshot c)) in
      case new_turn env mode of
        Inl e \<Rightarrow> Inl e
      | Inr (g, st, lg) \<Rightarrow>
          Inr \<lparr> ss_conversation_mode = mode,
                ss_mode_version = (case controller of None \<Rightarrow> 0 | Some c \<Rightarrow> snd (mode_snapshot c)),
                ss_mode_controller = controller,
                ss_turn_id = 0,
                ss_pending_turn_id = None,
                ss_pending_capture = None,
                ss_completed_turns = 0,
                ss_segmenter = g,
                ss_state = st,
                ss_deadline = listen_deadline (ve_config env) monotonic,
                ss_listen_started_at = now,
                ss_outcome = Running,
                ss_log = [Input_started, Audio_source] @ lg \<rparr>)"

text \<open>
  \<open>run\<close>: the events it hands to its consumer, the reports (the \<open>finally\<close> clause closes the
  input), and how it ends; \<open>stopped\<close> is the stop event when the stream ran dry.
\<close>

definition session_run ::
  "('d, 'dec) voice_env \<Rightarrow> int \<Rightarrow> conversation_mode \<Rightarrow> mode_controller option \<Rightarrow> real \<Rightarrow> real \<Rightarrow>
   bool \<Rightarrow> session_input list \<Rightarrow> outcome \<times> capture_stream_event list \<times> log_event list" where
  "session_run env max_turns mode controller now monotonic stopped inputs =
     (case session_init env mode controller now monotonic of
        Inl e \<Rightarrow> (Raised e, [], [Input_started, Audio_source, Input_stopped])
      | Inr s0 \<Rightarrow>
          let (s, es) = run_steps (session_step env max_turns) s0 inputs
          in (if ss_outcome s = Running
              then Raised (if stopped then InterruptedError ''Voice capture was stopped.''
                           else RuntimeError ''Microphone stream closed before an utterance was detected.'')
              else ss_outcome s,
              es, ss_log s @ [Input_stopped]))"

section \<open>The event protocol\<close>

text \<open>
  A consumer's view of the stream: the last turn id given out and the endpoint that is
  open. Ids grow by one; \<open>resumed\<close> and \<open>confirmed\<close> name the open endpoint, and a
  confirmation carries the capture of that endpoint.
\<close>

type_synonym stream_state = "nat \<times> (nat \<times> capture_result) option"

fun stream_step :: "stream_state \<Rightarrow> capture_stream_event \<Rightarrow> stream_state option" where
  "stream_step (n, opn) (Ev_endpoint i r) = (if i = n + 1 then Some (i, Some (i, r)) else None)"
| "stream_step (n, opn) (Ev_confirmed i r) = (if opn = Some (i, r) then Some (n, None) else None)"
| "stream_step (n, opn) (Ev_resumed i) =
     (case opn of Some (j, r) \<Rightarrow> if i = j then Some (n, None) else None | None \<Rightarrow> None)"
| "stream_step (n, opn) (Ev_mode_switch i r) = (if i = n + 1 then Some (i, None) else None)"

fun stream_run :: "stream_state \<Rightarrow> capture_stream_event list \<Rightarrow> stream_state option" where
  "stream_run st [] = Some st"
| "stream_run st (e # es) = (case stream_step st e of None \<Rightarrow> None | Some st' \<Rightarrow> stream_run st' es)"

lemma stream_run_append:
  "stream_run st (es @ fs) = (case stream_run st es of None \<Rightarrow> None | Some st' \<Rightarrow> stream_run st' fs)"
  by (induction st es rule: stream_run.induct) (simp_all split: option.splits)

fun event_capture_ok :: "capture_stream_event \<Rightarrow> bool" where
  "event_capture_ok (Ev_endpoint i r) = result_ok (cr_conversation_mode r) r"
| "event_capture_ok (Ev_confirmed i r) = result_ok (cr_conversation_mode r) r"
| "event_capture_ok (Ev_resumed i) = True"
| "event_capture_ok (Ev_mode_switch i r) = False"

definition finished_events :: "capture_stream_event list \<Rightarrow> nat" where
  "finished_events es = length (filter (\<lambda>e. case e of Ev_confirmed _ _ \<Rightarrow> True | _ \<Rightarrow> False) es)"

lemma finished_events_simps [simp]:
  "finished_events [] = 0"
  "finished_events (es @ fs) = finished_events es + finished_events fs"
  "finished_events [Ev_endpoint i r] = 0"
  "finished_events [Ev_resumed i] = 0"
  "finished_events [Ev_confirmed i r] = 1"
  "finished_events [Ev_endpoint i r, Ev_confirmed i r] = 1"
  by (simp_all add: finished_events_def)

text \<open>The stream part of the invariant: the session's pending endpoint is the open one.\<close>

definition stream_inv :: "('d, 'dec) session \<Rightarrow> capture_stream_event list \<Rightarrow> bool" where
  "stream_inv s es \<longleftrightarrow>
     (\<exists>opn. stream_run (0, None) es = Some (ss_turn_id s, opn) \<and>
        ((ss_pending_turn_id s = None \<and> ss_pending_capture s = None) \<or>
         (\<exists>i r. ss_pending_turn_id s = Some i \<and> ss_pending_capture s = Some r \<and>
            opn = Some (i, r) \<and> result_ok (cr_conversation_mode r) r))) \<and>
     list_all event_capture_ok es \<and>
     (ss_outcome s = Returned \<longrightarrow> stream_run (0, None) es = Some (ss_turn_id s, None))"

text \<open>The counting part: \<open>k\<close> confirmations are not yet counted as completed turns.\<close>

definition count_inv :: "int \<Rightarrow> nat \<Rightarrow> ('d, 'dec) session \<Rightarrow> capture_stream_event list \<Rightarrow> bool" where
  "count_inv max_turns k s es \<longleftrightarrow>
     finished_events es = ss_completed_turns s + k \<and>
     (0 < max_turns \<and> ss_outcome s = Running \<longrightarrow> int (ss_completed_turns s) < max_turns) \<and>
     (0 < max_turns \<longrightarrow> int (ss_completed_turns s) \<le> max_turns) \<and>
     (ss_outcome s = Returned \<longrightarrow> 0 < max_turns \<and> int (ss_completed_turns s) = max_turns)"

definition session_inv :: "int \<Rightarrow> ('d, 'dec) session \<Rightarrow> capture_stream_event list \<Rightarrow> bool" where
  "session_inv max_turns s es \<longleftrightarrow>
     capture_inv (ss_state s) \<and> stream_inv s es \<and> count_inv max_turns 0 s es"

lemma add_log_simps [simp]:
  "ss_state (add_log lg s) = ss_state s" "ss_outcome (add_log lg s) = ss_outcome s"
  "ss_turn_id (add_log lg s) = ss_turn_id s" "ss_completed_turns (add_log lg s) = ss_completed_turns s"
  "ss_pending_turn_id (add_log lg s) = ss_pending_turn_id s"
  "ss_pending_capture (add_log lg s) = ss_pending_capture s"
  "ss_deadline (add_log lg s) = ss_deadline s"
  "ss_listen_started_at (add_log lg s) = ss_listen_started_at s"
  "ss_segmenter (add_log lg s) = ss_segmenter s"
  "ss_mode_controller (add_log lg s) = ss_mode_controller s"
  by (simp_all add: add_log_def)

lemma new_turn_inv:
  "new_turn env mode = Inr (g, st, lg) \<Longrightarrow>
   capture_inv st \<and> cs_conversation_mode st = mode \<and> cs_keyphrase_detection st = None"
  using create_capture_state_inv start_keyphrase_gate_inv
  by (fastforce simp: new_turn_def split: sum.splits prod.splits)

lemma close_spotters_inv [simp]: "capture_inv s \<Longrightarrow> capture_inv (close_spotters s)"
  by (simp add: close_spotters_def capture_inv_def)

lemma start_turn_keeps [simp]:
  "ss_turn_id (start_turn env now mt s) = ss_turn_id s"
  "ss_pending_turn_id (start_turn env now mt s) = ss_pending_turn_id s"
  "ss_pending_capture (start_turn env now mt s) = ss_pending_capture s"
  "ss_completed_turns (start_turn env now mt s) = ss_completed_turns s"
  by (auto simp: start_turn_def Let_def split: option.splits sum.splits)

lemma start_turn_capture_inv:
  "capture_inv (ss_state s) \<Longrightarrow> capture_inv (ss_state (start_turn env now mt s))"
  using new_turn_inv by (fastforce simp: start_turn_def Let_def split: option.splits sum.splits)

lemma start_turn_outcome:
  "ss_outcome (start_turn env now mt s) = ss_outcome s \<or>
   (\<exists>e. ss_outcome (start_turn env now mt s) = Raised e)"
  by (auto simp: start_turn_def Let_def split: option.splits sum.splits)

lemma restart_turn_inv:
  assumes "session_inv mx s es" "ss_outcome s = Running"
  shows "session_inv mx (restart_turn env inp s) es"
  using assms start_turn_outcome [of env "mi_now inp" "mi_monotonic inp" "s\<lparr> ss_state := close_spotters (ss_state s) \<rparr>"]
  by (auto simp: session_inv_def restart_turn_def start_turn_capture_inv stream_inv_def count_inv_def)

lemma turn_finished_keeps:
  "turn_finished mx r s = (fin, s') \<Longrightarrow>
   ss_turn_id s' = ss_turn_id s \<and> ss_pending_turn_id s' = ss_pending_turn_id s \<and>
   ss_pending_capture s' = ss_pending_capture s \<and> ss_state s' = ss_state s \<and>
   ss_outcome s' = ss_outcome s \<and> ss_completed_turns s' = Suc (ss_completed_turns s) \<and>
   (fin \<longleftrightarrow> 0 < mx \<and> mx \<le> int (ss_completed_turns s) + 1)"
  by (auto simp: turn_finished_def Let_def split: option.splits)

lemma finish_turn_inv:
  assumes "capture_inv (ss_state s)" "stream_inv s es" "count_inv mx 1 s es" "ss_outcome s = Running"
    "stream_run (0, None) es = Some (ss_turn_id s, None)"
  shows "session_inv mx (finish_turn env mx inp r s) es"
proof -
  obtain fin s1 where t: "turn_finished mx r s = (fin, s1)" by fastforce
  note k = turn_finished_keeps [OF t]
  show ?thesis
  proof (cases fin)
    case True
    with t k assms show ?thesis
      by (simp add: finish_turn_def session_inv_def stream_inv_def count_inv_def)
  next
    case False
    with k assms have "session_inv mx s1 es" "ss_outcome s1 = Running"
      by (auto simp: session_inv_def stream_inv_def count_inv_def)
    with t False show ?thesis by (simp add: finish_turn_def restart_turn_inv)
  qed
qed

lemma endpoint_step_inv:
  assumes "session_inv mx s es" "ss_outcome s = Running" "result_ok (cr_conversation_mode r) r"
    and e: "endpoint_step env mx inp r s = (s', es')"
  shows "session_inv mx s' (es @ es')"
proof -
  obtain s1 fs where m: "emit_endpoint (ve_config env) r s = (s1, fs)" by fastforce
  have si: "stream_inv s1 (es @ fs)" "capture_inv (ss_state s1)" "ss_outcome s1 = Running"
    using m assms(1-3)
    by (auto simp: emit_endpoint_def Let_def stream_inv_def session_inv_def stream_run_append split: if_splits)
  show ?thesis
  proof (cases "endpoint_is_final (ve_config env) r")
    case True
    have "count_inv mx 1 s1 (es @ fs)"
      using m assms(1) True by (auto simp: emit_endpoint_def Let_def count_inv_def session_inv_def)
    moreover have "stream_run (0, None) (es @ fs) = Some (ss_turn_id s1, None)"
      using m assms(1) True
      by (auto simp: emit_endpoint_def Let_def session_inv_def stream_inv_def stream_run_append)
    ultimately show ?thesis using finish_turn_inv [OF si(2,1) _ si(3), of mx env inp r] e m True
      by (auto simp: endpoint_step_def)
  next
    case False
    have "count_inv mx 0 s1 (es @ fs)"
      using m assms(1) False by (auto simp: emit_endpoint_def Let_def count_inv_def session_inv_def)
    with si e m False show ?thesis by (simp add: endpoint_step_def session_inv_def)
  qed
qed

lemma session_inv_state:
  "session_inv mx s es \<Longrightarrow> capture_inv st \<Longrightarrow>
   session_inv mx (add_log lg (s\<lparr> ss_segmenter := g, ss_state := st \<rparr>)) es"
  by (simp add: session_inv_def stream_inv_def count_inv_def)

lemma session_inv_log: "session_inv mx s es \<Longrightarrow> session_inv mx (add_log lg s) es"
  by (simp add: session_inv_def stream_inv_def count_inv_def)

lemma session_inv_raise:
  "session_inv mx s es \<Longrightarrow> session_inv mx (s\<lparr> ss_outcome := Raised e \<rparr>) es"
  by (simp add: session_inv_def stream_inv_def count_inv_def)

lemma result_ok_mode: "result_ok m r \<Longrightarrow> result_ok (cr_conversation_mode r) r"
  by (simp add: result_ok_def)

lemma keyphrase_step_inv:
  assumes "session_inv mx s es" "ss_outcome s = Running"
    and e: "keyphrase_step env mx inp s = (s', es')"
  shows "session_inv mx s' (es @ es')"
proof (cases "accept_keyphrase_frame env (mic_input.truncate inp) (ss_listen_started_at s)
                (ss_segmenter s) (ss_state s)")
  case (Inl x)
  with e assms(1) show ?thesis by (cases x) (auto simp: keyphrase_step_def session_inv_raise session_inv_log)
next
  case (Inr x)
  obtain res g st lg where x: "x = (res, g, st, lg)" by (cases x)
  from accept_keyphrase_frame_inv [OF Inr [unfolded x]] assms(1)
  have st: "capture_inv st" "\<And>r. res = Some r \<Longrightarrow> result_ok (cr_conversation_mode r) r"
    by (auto simp: session_inv_def intro: result_ok_mode)
  let ?s1 = "add_log lg (s\<lparr> ss_segmenter := g, ss_state := st \<rparr>)"
  have inv1: "session_inv mx ?s1 es" using session_inv_state [OF assms(1) st(1)] .
  show ?thesis
  proof (cases res)
    case None
    with e Inr x inv1 show ?thesis by (auto simp: keyphrase_step_def Let_def)
  next
    case (Some r)
    then have "endpoint_step env mx inp r ?s1 = (s', es')"
      using e Inr x by (simp add: keyphrase_step_def Let_def)
    from endpoint_step_inv [OF inv1 _ st(2) [OF Some] this] assms(2) show ?thesis by simp
  qed
qed

lemma speech_step_inv:
  assumes inv: "session_inv mx s es" and run: "ss_outcome s = Running"
    and det: "cs_keyphrase_required (ss_state s) \<Longrightarrow> cs_keyphrase_detection (ss_state s) \<noteq> None"
    and e: "speech_step env mx inp s = (s', es')"
  shows "session_inv mx s' (es @ es')"
proof -
  obtain ev g st lg where a: "accept_speech_event env (mi_frame inp) (mi_now inp)
      (ss_segmenter s) (ss_state s) = (ev, g, st, lg)" by (metis prod_cases4)
  have st: "capture_inv st" "same_mode (ss_state s) st"
    "cs_keyphrase_detection st = cs_keyphrase_detection (ss_state s)"
    using accept_speech_event_inv [OF a] inv by (auto simp: session_inv_def)
  then have req: "cs_keyphrase_required st \<Longrightarrow> cs_keyphrase_detection st \<noteq> None"
    using det inv by (auto simp: session_inv_def capture_inv_def same_mode_def)
  define s1 where "s1 = add_log lg (s\<lparr> ss_segmenter := g, ss_state := st \<rparr>)"
  have s1: "session_inv mx s1 es" "ss_outcome s1 = Running" "ss_state s1 = st"
    unfolding s1_def using session_inv_state [OF inv st(1)] run by simp_all
  note step = e [unfolded speech_step_def a Let_def prod.case s1_def [symmetric]]
  consider (none) "ev = None" | (endpoint) u where "ev = Some (Endpoint u)"
    | (resumed) "ev = Some Resumed" | (confirmed) v where "ev = Some (Confirmed v)"
    by (cases ev) (auto, metis utterance_event.exhaust)
  then show ?thesis
  proof cases
    case none
    with step s1 show ?thesis by auto
  next
    case (endpoint u)
    obtain r lg2 where f: "finish_with_debug_audio st u (mic_input.truncate inp)
        (ss_listen_started_at s1) = (r, lg2)" by fastforce
    have "endpoint_step env mx inp r (add_log lg2 s1) = (s', es')"
      using step endpoint f s1(3) by simp
    moreover have "result_ok (cr_conversation_mode r) r"
      using finish_with_debug_audio_ok [OF f st(1) req] by (rule result_ok_mode)
    ultimately show ?thesis
      using endpoint_step_inv [OF session_inv_log [OF s1(1)]] s1(2) by simp
  next
    case resumed
    show ?thesis
    proof (cases "ss_pending_turn_id s1")
      case None
      with step resumed s1 show ?thesis by auto
    next
      case (Some i)
      then show ?thesis using step resumed s1
        by (auto simp: session_inv_def stream_inv_def count_inv_def stream_run_append)
    qed
  next
    case (confirmed v)
    show ?thesis
    proof (cases "ss_pending_turn_id s1 = None \<or> ss_pending_capture s1 = None")
      case True
      with step confirmed s1 show ?thesis by (auto split: option.splits)
    next
      case False
      then obtain i r where p: "ss_pending_turn_id s1 = Some i" "ss_pending_capture s1 = Some r" by auto
      let ?s2 = "s1\<lparr> ss_pending_turn_id := None, ss_pending_capture := None \<rparr>"
      have "capture_inv (ss_state ?s2)" "stream_inv ?s2 (es @ [Ev_confirmed i r])"
        "count_inv mx 1 ?s2 (es @ [Ev_confirmed i r])" "ss_outcome ?s2 = Running"
        "stream_run (0, None) (es @ [Ev_confirmed i r]) = Some (ss_turn_id ?s2, None)"
        using s1 p by (auto simp: session_inv_def stream_inv_def count_inv_def stream_run_append)
      from finish_turn_inv [OF this, of env inp r] step confirmed p show ?thesis by auto
    qed
  qed
qed

lemma mode_switch_step_none:
  "session_inv mx s es \<Longrightarrow> mode_switch_step env mx inp s = (s, [])"
  by (simp add: mode_switch_step_def activation_window_expired_def session_inv_def capture_inv_def)

lemma timeout_step_inv: "session_inv mx s es \<Longrightarrow> session_inv mx (timeout_step inp s) es"
  by (simp add: timeout_step_def session_inv_log session_inv_raise)

lemma sync_fields:
  assumes "sync_external_mode_change (external_mode inp s) = (b, s')"
  shows "\<exists>c v m. s' = s\<lparr> ss_mode_controller := c, ss_mode_version := v, ss_conversation_mode := m \<rparr>"
proof -
  have "\<exists>c. external_mode inp s = s\<lparr> ss_mode_controller := c \<rparr>"
    by (cases s) (auto simp: external_mode_def split: option.splits)
  moreover have "\<exists>v m. snd (sync_external_mode_change t) = t\<lparr> ss_mode_version := v, ss_conversation_mode := m \<rparr>"
    for t :: "('a, 'b) session"
    by (cases t) (auto simp: sync_external_mode_change_def mode_snapshot_def Let_def split: option.splits)
  ultimately show ?thesis using assms by (metis snd_conv)
qed

lemma sync_keeps:
  assumes "sync_external_mode_change (external_mode inp s) = (b, s')"
  shows "(session_inv mx s es \<longrightarrow> session_inv mx s' es) \<and> ss_outcome s' = ss_outcome s"
  using sync_fields [OF assms] by (auto simp: session_inv_def stream_inv_def count_inv_def)

lemma session_step_inv:
  assumes inv: "session_inv mx s es"
  shows "session_inv mx (fst (session_step env mx s inp)) (es @ snd (session_step env mx s inp))"
proof (cases "ss_outcome s \<noteq> Running \<or> mi_stop inp")
  case True
  then show ?thesis using inv by (auto simp: session_step_def session_inv_raise)
next
  case False
  obtain b s1 where c: "sync_external_mode_change (external_mode inp s) = (b, s1)" by fastforce
  note k = sync_keeps [OF c, of mx es]
  then have inv1: "session_inv mx s1 es" "ss_outcome s1 = Running" using inv False by auto
  consider (changed) b | (key) "\<not> b" "cs_keyphrase_required (ss_state s1)" "cs_keyphrase_detection (ss_state s1) = None"
    | (speech) "\<not> b" "cs_keyphrase_required (ss_state s1) \<Longrightarrow> cs_keyphrase_detection (ss_state s1) \<noteq> None"
    by blast
  then show ?thesis
  proof cases
    case changed
    have "session_inv mx (s1\<lparr> ss_pending_turn_id := None, ss_pending_capture := None \<rparr>) es"
      using inv1 by (auto simp: session_inv_def stream_inv_def count_inv_def)
    from restart_turn_inv [OF this, of env inp] changed c False inv1 show ?thesis
      by (simp add: session_step_def)
  next
    case key
    then show ?thesis using keyphrase_step_inv [OF inv1] c False
      by (cases "keyphrase_step env mx inp s1") (simp add: session_step_def)
  next
    case speech
    obtain s2 fs where sp: "speech_step env mx inp s1 = (s2, fs)" by fastforce
    have inv2: "session_inv mx s2 (es @ fs)" using speech_step_inv [OF inv1 speech(2) sp] .
    then have "session_step env mx s inp = (if ss_outcome s2 \<noteq> Running then s2 else timeout_step inp s2, fs)"
      using speech c False sp mode_switch_step_none [OF inv2, of env inp]
      by (auto simp: session_step_def Let_def)
    then show ?thesis using inv2 by (auto simp: timeout_step_inv)
  qed
qed

interpretation session_loop: event_loop "session_step env mx" "session_inv mx" for env mx
  by unfold_locales (rule session_step_inv)

lemma session_init_inv: "session_init env mode c now mt = Inr s \<Longrightarrow> session_inv mx s []"
  using new_turn_inv
  by (fastforce simp: session_init_def Let_def session_inv_def stream_inv_def count_inv_def
      split: sum.splits)

lemma session_run_inv:
  assumes "session_init env mode controller now mt = Inr s0"
  shows "session_inv mx (fst (run_steps (session_step env mx) s0 inputs))
    (snd (run_steps (session_step env mx) s0 inputs))"
  using session_loop.run_inv [OF session_init_inv [OF assms]] by fastforce

section \<open>Properties of the session\<close>

text \<open>
  C7. The events a session hands to its consumer follow the turn protocol: every endpoint has
  the next turn id, \<open>resumed\<close> and \<open>confirmed\<close> refer to the open endpoint, a confirmation
  carries exactly the capture of that endpoint, every capture has an utterance and, in wake
  mode, a key-phrase detection, and no \<open>mode_switch\<close> event is ever emitted. With a turn limit,
  at most that many turns are confirmed, and the session returns only when they are.
\<close>

theorem session_event_protocol:
  "(case session_run env mx mode controller now mt stopped inputs of
      (outcome, es, lg) \<Rightarrow>
        stream_run (0, None) es \<noteq> None \<and> list_all event_capture_ok es \<and>
        (mx \<le> 0 \<or> int (finished_events es) \<le> mx) \<and>
        (if outcome = Returned then 0 < mx \<and> int (finished_events es) = mx else True) \<and> outcome \<noteq> Running)"
proof (cases "session_init env mode controller now mt")
  case (Inl e)
  then show ?thesis by (auto simp: session_run_def finished_events_def)
next
  case (Inr s0)
  from session_run_inv [OF Inr, of mx inputs] Inr show ?thesis
    by (auto simp: session_run_def Let_def session_inv_def stream_inv_def count_inv_def
        split: prod.splits)
qed

definition not_timed_out :: "('d, 'dec) session \<Rightarrow> bool" where
  "not_timed_out s \<longleftrightarrow> (\<forall>m. ss_outcome s \<noteq> Raised (TimeoutError m))"

lemma not_timed_out_cong: "ss_outcome s' = ss_outcome s \<Longrightarrow> not_timed_out s' = not_timed_out s"
  by (simp add: not_timed_out_def)

lemma new_turn_error:
  "new_turn env mode = Inl e \<Longrightarrow> ve_new_detector env = Inl e \<or> e = ZeroDivisionError \<or> (\<exists>m. e = ValueError m)"
  by (auto simp: new_turn_def Let_def create_segmenter_def segmenter_init_def
      create_capture_state_def frame_deque_def start_keyphrase_gate_def gate_start_def
      gate_phrase_spotter_def spotter_init_def
      split: option.splits sum.splits if_splits)

lemma start_turn_no_timeout:
  assumes "not_timed_out s" "\<And>e. ve_new_detector env \<noteq> Inl (TimeoutError e)"
  shows "not_timed_out (start_turn env now mt s)"
  using assms new_turn_error [of env]
  by (fastforce simp: start_turn_def Let_def not_timed_out_def split: option.splits sum.splits)

lemma finish_turn_no_timeout:
  assumes "not_timed_out s" "\<And>e. ve_new_detector env \<noteq> Inl (TimeoutError e)"
  shows "not_timed_out (finish_turn env mx inp r s)"
proof -
  obtain fin s1 where t: "turn_finished mx r s = (fin, s1)" by fastforce
  then have "not_timed_out (s1\<lparr> ss_state := close_spotters (ss_state s1) \<rparr>)"
    using turn_finished_keeps [OF t] assms(1) by (simp add: not_timed_out_def)
  from start_turn_no_timeout [OF this assms(2)] t show ?thesis
    by (auto simp: finish_turn_def restart_turn_def not_timed_out_def [of "s1\<lparr>ss_outcome := Returned\<rparr>"])
qed

lemma endpoint_step_no_timeout:
  assumes "not_timed_out s" "\<And>e. ve_new_detector env \<noteq> Inl (TimeoutError e)"
  shows "not_timed_out (fst (endpoint_step env mx inp r s))"
proof -
  obtain s1 fs where m: "emit_endpoint (ve_config env) r s = (s1, fs)" by fastforce
  then have "not_timed_out s1" using assms(1)
    by (auto simp: emit_endpoint_def Let_def not_timed_out_def split: if_splits)
  with m finish_turn_no_timeout [OF this assms(2), of mx inp r] show ?thesis
    by (simp add: endpoint_step_def)
qed

lemma accept_keyphrase_frame_error:
  "accept_keyphrase_frame env mi t g s = Inl (e, lg) \<Longrightarrow> e = ZeroDivisionError"
  by (auto simp: accept_keyphrase_frame_def finish_conversation_mode_confirmation_def
      replay_wake_audio_def Let_def split: option.splits prod.splits sum.splits if_splits)

lemma keyphrase_step_no_timeout:
  assumes "not_timed_out s" "\<And>e. ve_new_detector env \<noteq> Inl (TimeoutError e)"
  shows "not_timed_out (fst (keyphrase_step env mx inp s))"
proof (cases "accept_keyphrase_frame env (mic_input.truncate inp) (ss_listen_started_at s)
                (ss_segmenter s) (ss_state s)")
  case (Inl x)
  obtain e lg where x: "x = (e, lg)" by (cases x)
  with accept_keyphrase_frame_error [OF Inl [unfolded x]] Inl show ?thesis
    by (simp add: keyphrase_step_def not_timed_out_def)
next
  case (Inr x)
  obtain res g st lg where x: "x = (res, g, st, lg)" by (cases x)
  have "not_timed_out (add_log lg (s\<lparr> ss_segmenter := g, ss_state := st \<rparr>))"
    using assms(1) by (simp add: not_timed_out_def)
  from endpoint_step_no_timeout [OF this assms(2)] this Inr x show ?thesis
    by (simp add: keyphrase_step_def Let_def split: option.splits)
qed

text \<open>
  C27. While a session waits for its key phrase, no iteration ends in the listen timeout,
  however far the clock is past the deadline: the loop skips its timeout check on every
  frame it gives to the key-phrase gate.
\<close>

theorem session_keyphrase_wait_never_times_out:
  assumes "ss_outcome s = Running"
    and "cs_keyphrase_required (ss_state s)" "cs_keyphrase_detection (ss_state s) = None"
    and "\<And>e. ve_new_detector env \<noteq> Inl (TimeoutError e)"
  shows "ss_outcome (fst (session_step env mx s inp)) \<noteq> Raised (TimeoutError message)"
proof -
  obtain b s1 where c: "sync_external_mode_change (external_mode inp s) = (b, s1)" by fastforce
  from sync_fields [OF this] assms have s1: "not_timed_out s1" "ss_state s1 = ss_state s"
    by (auto simp: not_timed_out_def)
  then have "not_timed_out (restart_turn env inp (s1\<lparr> ss_pending_turn_id := None, ss_pending_capture := None \<rparr>))"
    unfolding restart_turn_def by (intro start_turn_no_timeout assms(4)) (simp add: not_timed_out_def)
  with assms c s1 keyphrase_step_no_timeout [OF s1(1) assms(4), of mx inp]
  have "not_timed_out (fst (session_step env mx s inp))"
    by (cases "mi_stop inp") (auto simp: session_step_def not_timed_out_def)
  then show ?thesis by (simp add: not_timed_out_def)
qed

subsection \<open>The same input to the session and to the one-shot capture\<close>

definition ex_pipeline :: pipeline_config where
  "ex_pipeline = \<lparr> pc_audio_sample_rate = 1000, pc_voice_activity = ex_config,
     pc_keyphrases = default_keyphrase_config, pc_listen_timeout_seconds = 1 \<rparr>"

definition ex_env :: "(vad_decision list, nat) voice_env" where
  "ex_env = \<lparr> ve_config = ex_pipeline, ve_new_detector = Inr ex_script, ve_accept = scripted,
     ve_decoder = ex_decoder \<rparr>"

definition ex_late_input :: session_input where
  "ex_late_input = \<lparr> mi_frame = [0], mi_now = 100, mi_monotonic = 100, mi_dropped_frames = 0,
     mi_last_status = [], mi_stop = False, si_external_mode = None \<rparr>"

definition ex_session :: "(vad_decision list, nat) session" where
  "ex_session = projr (session_init ex_env WAKE_COMMAND None 0 0)"

lemma ex_configured_kinds:
  "normalized_kinds (configured_kinds default_keyphrase_config) =
     [(''jarvis'', Wake_command), (''conversation on'', Conversation_on)]"
  by code_simp

lemma ex_keyphrase_config_simps:
  "kc_check_interval_ms default_keyphrase_config = 320" "kc_gain default_keyphrase_config = 1"
  "kc_carry_ms default_keyphrase_config = 2000"
  "kc_conversation_on_confirm_window_ms default_keyphrase_config = 2000"
  by (simp_all add: default_keyphrase_config_def)

lemmas ex_turn_simps = ex_keyphrase_config_simps session_init_def new_turn_def ex_env_def ex_pipeline_def create_segmenter_def
  ex_segmenter_init create_capture_state_def frame_deque_def ex_config_simps start_keyphrase_gate_def
  gate_start_def gate_phrase_spotter_def spotter_init_def ex_configured_kinds Let_def listen_deadline_def

lemma ex_session_fields:
  "ss_outcome ex_session = Running" "cs_keyphrase_required (ss_state ex_session)"
  "cs_keyphrase_detection (ss_state ex_session) = None" "ss_deadline ex_session = Some 1"
  "cs_speech_started_at (ss_state ex_session) = None"
  unfolding ex_session_def by (simp_all add: ex_turn_simps)

theorem session_keyphrase_wait_never_times_out_witness:
  "listen_timed_out (ss_deadline ex_session) (ss_state ex_session) (mi_monotonic ex_late_input) \<and>
   ss_outcome (fst (session_step ex_env 0 ex_session ex_late_input)) \<noteq>
     Raised (TimeoutError ''No keyphrase was detected before timeout.'') \<and>
   fst (capture ex_env WAKE_COMMAND None 0 0 False [mic_input.truncate ex_late_input]) =
     Inl (TimeoutError ''No keyphrase was detected before timeout.'')"
proof (intro conjI)
  show "listen_timed_out (ss_deadline ex_session) (ss_state ex_session) (mi_monotonic ex_late_input)"
    by (simp add: listen_timed_out_def ex_session_fields ex_late_input_def)
  show "ss_outcome (fst (session_step ex_env 0 ex_session ex_late_input)) \<noteq>
      Raised (TimeoutError ''No keyphrase was detected before timeout.'')"
    by (rule session_keyphrase_wait_never_times_out) (simp_all add: ex_session_fields ex_env_def)
  show "fst (capture ex_env WAKE_COMMAND None 0 0 False [mic_input.truncate ex_late_input]) =
      Inl (TimeoutError ''No keyphrase was detected before timeout.'')"
    by (simp add: capture_def ex_turn_simps ex_late_input_def mic_input.defs accept_frame_def
        accept_keyphrase_frame_def gate_accept_def spotter_append_def trim_buffer_def spotter_detect_def
        py_int_div_def py_round_div_def ex_decoder_def deque_append_def
        listen_timed_out_def timeout_message_def)
qed

end
