(* ===== verification/VoiceLoop.thy ===== *)
theory VoiceLoop
  imports Session
begin

text \<open>
  The consumer of the capture stream: \<open>VoiceTurnControl\<close> of \<open>voice/capture_types.py\<close> and
  the event loop of \<open>commands/voice_loop.py\<close>, which starts a speculative task per endpoint
  and cancels or commits it. What the loop relies on is the locale \<open>turn_source\<close>, which
  the session of theory \<open>Session\<close> provides.
\<close>

section \<open>Turn control\<close>

record turn_control =
  vt_cancelled :: bool
  vt_committed :: bool

definition new_turn_control :: turn_control where
  "new_turn_control = \<lparr> vt_cancelled = False, vt_committed = False \<rparr>"

definition control_cancel :: "turn_control \<Rightarrow> turn_control" where
  "control_cancel c = c\<lparr> vt_cancelled := True \<rparr>"

definition control_commit :: "turn_control \<Rightarrow> turn_control" where
  "control_commit c = c\<lparr> vt_committed := True \<rparr>"

definition checkpoint :: "turn_control \<Rightarrow> py_error + unit" where
  "checkpoint c = (if vt_cancelled c then Inl CancelledError else Inr ())"

text \<open>
  \<open>_wait\<close>: \<open>asyncio.wait\<close> returned with the commit task, the cancel task, both or (after the
  timeout) neither done; \<open>c\<close> is the control when the waiter resumes.
\<close>

definition control_wait :: "bool \<Rightarrow> bool \<Rightarrow> turn_control \<Rightarrow> py_error + bool" where
  "control_wait commit_done cancel_done c =
     (if cancel_done then Inl CancelledError
      else case checkpoint c of
             Inl e \<Rightarrow> Inl e
           | Inr _ \<Rightarrow> Inr commit_done)"

definition wait_for_commit_or_cancel ::
  "turn_control \<Rightarrow> bool \<Rightarrow> bool \<Rightarrow> turn_control \<Rightarrow> py_error + bool" where
  "wait_for_commit_or_cancel before commit_done cancel_done c =
     (if vt_committed before
      then (case checkpoint before of Inl e \<Rightarrow> Inl e | Inr _ \<Rightarrow> Inr True)
      else control_wait commit_done cancel_done c)"

definition wait_until_committed ::
  "turn_control \<Rightarrow> bool \<Rightarrow> bool \<Rightarrow> turn_control \<Rightarrow> py_error + unit" where
  "wait_until_committed before commit_done cancel_done c =
     (if vt_committed before then checkpoint before
      else case control_wait commit_done cancel_done c of Inl e \<Rightarrow> Inl e | Inr _ \<Rightarrow> Inr ())"

section \<open>The event loop\<close>

text \<open>A task created for a captured turn, with the control handed to it.\<close>

record turn_task =
  tk_turn_id :: nat
  tk_capture :: capture_result
  tk_control :: "turn_control option"
  tk_task_cancelled :: bool
  tk_prepare_seconds :: real

text \<open>\<open>active_control\<close> and \<open>active_task\<close> are assigned and cleared together: one index.\<close>

record voice_loop =
  vl_active_turn_id :: "nat option"
  vl_active_capture :: "capture_result option"
  vl_active_task :: "nat option"
  vl_tasks :: "turn_task list"
  vl_first_flow :: bool
  vl_model_prepare_seconds :: real
  vl_mode :: mode_controller
  vl_cancel_reports :: nat

definition voice_loop_init :: "real \<Rightarrow> mode_controller \<Rightarrow> voice_loop" where
  "voice_loop_init prepare mode =
     \<lparr> vl_active_turn_id = None, vl_active_capture = None, vl_active_task = None, vl_tasks = [],
       vl_first_flow = True, vl_model_prepare_seconds = prepare, vl_mode = mode,
       vl_cancel_reports = 0 \<rparr>"

definition cancel_task :: "turn_task \<Rightarrow> turn_task" where
  "cancel_task t = t\<lparr> tk_control := map_option control_cancel (tk_control t), tk_task_cancelled := True \<rparr>"

definition commit_task :: "turn_task \<Rightarrow> turn_task" where
  "commit_task t = t\<lparr> tk_control := map_option control_commit (tk_control t) \<rparr>"

definition update_active :: "(turn_task \<Rightarrow> turn_task) \<Rightarrow> voice_loop \<Rightarrow> voice_loop" where
  "update_active f v =
     (case vl_active_task v of
        None \<Rightarrow> v
      | Some i \<Rightarrow> v\<lparr> vl_tasks := (vl_tasks v)[i := f (vl_tasks v ! i)] \<rparr>)"

definition clear_active :: "voice_loop \<Rightarrow> voice_loop" where
  "clear_active v = v\<lparr> vl_active_turn_id := None, vl_active_capture := None, vl_active_task := None \<rparr>"

definition apply_capture_mode :: "capture_result \<Rightarrow> voice_loop \<Rightarrow> voice_loop" where
  "apply_capture_mode r v = v\<lparr> vl_mode := snd (mode_set (cr_conversation_mode r) (vl_mode v)) \<rparr>"

definition start_task :: "nat \<Rightarrow> capture_result \<Rightarrow> turn_control option \<Rightarrow> voice_loop \<Rightarrow> voice_loop" where
  "start_task i r control v =
     v\<lparr> vl_tasks := vl_tasks v @
          [\<lparr> tk_turn_id = i, tk_capture = r, tk_control = control, tk_task_cancelled = False,
             tk_prepare_seconds = (if vl_first_flow v then vl_model_prepare_seconds v else 0) \<rparr>],
        vl_first_flow := False \<rparr>"

fun handle_capture_event :: "voice_loop \<Rightarrow> capture_stream_event \<Rightarrow> voice_loop" where
  "handle_capture_event v (Ev_endpoint i r) =
     (let v1 = update_active cancel_task v
      in (start_task i r (Some new_turn_control) v1)
           \<lparr> vl_active_turn_id := Some i, vl_active_capture := Some r,
             vl_active_task := Some (length (vl_tasks v1)) \<rparr>)"
| "handle_capture_event v (Ev_resumed i) =
     (if Some i = vl_active_turn_id v
      then let v1 = clear_active (update_active cancel_task v)
           in v1\<lparr> vl_cancel_reports := vl_cancel_reports v1 + 1 \<rparr>
      else v)"
| "handle_capture_event v (Ev_confirmed i r) =
     (let v1 = apply_capture_mode r v;
          v2 = (if Some i = vl_active_turn_id v1 then update_active commit_task v1 else v1)
      in clear_active v2)"
| "handle_capture_event v (Ev_mode_switch i r) =
     start_task i r None (apply_capture_mode r v)"

text \<open>The \<open>except BaseException\<close> clause.\<close>

definition loop_abort :: "voice_loop \<Rightarrow> voice_loop" where
  "loop_abort v = update_active cancel_task v"

definition voice_loop_run :: "voice_loop \<Rightarrow> capture_stream_event list \<Rightarrow> voice_loop" where
  "voice_loop_run v es = foldl handle_capture_event v es"

section \<open>Fates of turns\<close>

definition committed :: "turn_task \<Rightarrow> bool" where
  "committed t = (case tk_control t of None \<Rightarrow> True | Some c \<Rightarrow> vt_committed c)"

definition cancelled :: "turn_task \<Rightarrow> bool" where
  "cancelled t = (case tk_control t of None \<Rightarrow> False | Some c \<Rightarrow> vt_cancelled c)"

definition started_turns :: "capture_stream_event list \<Rightarrow> (nat \<times> capture_result) list" where
  "started_turns es = concat (map (\<lambda>e. case e of Ev_endpoint i r \<Rightarrow> [(i, r)]
     | Ev_mode_switch i r \<Rightarrow> [(i, r)] | _ \<Rightarrow> []) es)"

lemma started_turns_simps [simp]:
  "started_turns [] = []"
  "started_turns (es @ fs) = started_turns es @ started_turns fs"
  "started_turns [Ev_endpoint i r] = [(i, r)]" "started_turns [Ev_mode_switch i r] = [(i, r)]"
  "started_turns [Ev_resumed i] = []" "started_turns [Ev_confirmed i r] = []"
  by (simp_all add: started_turns_def)

text \<open>A task is settled: exactly one of committed and cancelled, as the events decided.\<close>

definition settled :: "capture_stream_event list \<Rightarrow> turn_task \<Rightarrow> bool" where
  "settled es t \<longleftrightarrow> committed t \<noteq> cancelled t \<and> tk_task_cancelled t = cancelled t \<and>
     (committed t \<longleftrightarrow> (\<exists>r. Ev_confirmed (tk_turn_id t) r \<in> set es))"

definition undecided :: "turn_task \<Rightarrow> bool" where
  "undecided t \<longleftrightarrow> tk_control t = Some new_turn_control \<and> \<not> tk_task_cancelled t"

lemma settled_append:
  "(\<And>r. e \<noteq> Ev_confirmed (tk_turn_id t) r) \<Longrightarrow> settled (es @ [e]) t = settled es t"
  by (auto simp: settled_def)

lemma settled_all_append:
  "(\<And>i r. e \<noteq> Ev_confirmed i r) \<Longrightarrow> list_all (settled (es @ [e])) ts = list_all (settled es) ts"
  by (simp add: list_all_iff settled_append)

lemma cancel_settled:
  "undecided t \<Longrightarrow> (\<And>r. Ev_confirmed (tk_turn_id t) r \<notin> set es) \<Longrightarrow> settled es (cancel_task t)"
  by (simp add: settled_def undecided_def cancel_task_def committed_def cancelled_def
      control_cancel_def new_turn_control_def)

lemma commit_settled:
  "undecided t \<Longrightarrow> settled (es @ [Ev_confirmed (tk_turn_id t) r]) (commit_task t)"
  by (auto simp: settled_def undecided_def commit_task_def committed_def cancelled_def
      control_commit_def new_turn_control_def)

lemma task_update_ids [simp]:
  "tk_turn_id (cancel_task t) = tk_turn_id t" "tk_turn_id (commit_task t) = tk_turn_id t"
  "tk_capture (cancel_task t) = tk_capture t" "tk_capture (commit_task t) = tk_capture t"
  by (simp_all add: cancel_task_def commit_task_def)

text \<open>The loop agrees with the stream: its active turn is the open endpoint, and the last task.\<close>

definition loop_ids :: "nat \<Rightarrow> capture_stream_event list \<Rightarrow> voice_loop \<Rightarrow> bool" where
  "loop_ids n es v \<longleftrightarrow>
     map (\<lambda>t. (tk_turn_id t, tk_capture t)) (vl_tasks v) = started_turns es \<and>
     list_all (\<lambda>t. tk_turn_id t \<le> n) (vl_tasks v) \<and> distinct (map tk_turn_id (vl_tasks v)) \<and>
     (\<forall>i r. Ev_confirmed i r \<in> set es \<longrightarrow> i \<le> n)"

fun loop_active :: "(nat \<times> capture_result) option \<Rightarrow> capture_stream_event list \<Rightarrow> voice_loop \<Rightarrow> bool" where
  "loop_active None es v \<longleftrightarrow>
     vl_active_turn_id v = None \<and> vl_active_task v = None \<and> list_all (settled es) (vl_tasks v)"
| "loop_active (Some (i, r)) es v \<longleftrightarrow>
     vl_active_turn_id v = Some i \<and>
     (\<exists>ts t. vl_tasks v = ts @ [t] \<and> vl_active_task v = Some (length ts) \<and> undecided t \<and>
        tk_turn_id t = i \<and> list_all (settled es) ts \<and> (\<forall>r. Ev_confirmed i r \<notin> set es))"

definition loop_inv :: "stream_state \<Rightarrow> capture_stream_event list \<Rightarrow> voice_loop \<Rightarrow> bool" where
  "loop_inv st es v \<longleftrightarrow> loop_ids (fst st) es v \<and> loop_active (snd st) es v"

lemma cancel_active_settled:
  assumes "loop_active opn es v"
  shows "list_all (settled es) (vl_tasks (update_active cancel_task v)) \<and>
    map (\<lambda>t. (tk_turn_id t, tk_capture t)) (vl_tasks (update_active cancel_task v)) =
      map (\<lambda>t. (tk_turn_id t, tk_capture t)) (vl_tasks v) \<and>
    map tk_turn_id (vl_tasks (update_active cancel_task v)) = map tk_turn_id (vl_tasks v)"
proof (cases opn)
  case None
  then show ?thesis using assms by (simp add: update_active_def)
next
  case (Some p)
  obtain i r where p: "p = (i, r)" by (cases p)
  then obtain ts t where t: "vl_tasks v = ts @ [t]" "vl_active_task v = Some (length ts)" "undecided t"
      "tk_turn_id t = i" "list_all (settled es) ts" "\<And>r. Ev_confirmed i r \<notin> set es"
    using assms Some by auto
  then have "settled es (cancel_task t)" by (intro cancel_settled) auto
  with t show ?thesis by (simp add: update_active_def)
qed

lemma all_le_of_ids:
  "map tk_turn_id ts = map tk_turn_id us \<Longrightarrow>
   list_all (\<lambda>t. tk_turn_id t \<le> n) ts = list_all (\<lambda>t. tk_turn_id t \<le> n) us"
proof -
  assume ids: "map tk_turn_id ts = map tk_turn_id us"
  have "list_all (\<lambda>t. tk_turn_id t \<le> n) xs = list_all (\<lambda>k. k \<le> n) (map tk_turn_id xs)" for xs
    by (simp add: list.pred_map comp_def)
  then show ?thesis using ids by metis
qed

lemma handle_endpoint_inv:
  assumes "loop_inv (n, opn) es v"
  shows "loop_inv (Suc n, Some (Suc n, r)) (es @ [Ev_endpoint (Suc n) r])
           (handle_capture_event v (Ev_endpoint (Suc n) r))"
proof -
  let ?v1 = "update_active cancel_task v"
  have c: "list_all (settled es) (vl_tasks ?v1)"
    "map (\<lambda>t. (tk_turn_id t, tk_capture t)) (vl_tasks ?v1) = started_turns es"
    "map tk_turn_id (vl_tasks ?v1) = map tk_turn_id (vl_tasks v)"
    and ids: "loop_ids n es v"
    using assms cancel_active_settled [of opn es v] by (auto simp: loop_inv_def loop_ids_def)
  have le: "list_all (\<lambda>t. tk_turn_id t \<le> n) (vl_tasks ?v1)"
    using ids all_le_of_ids [OF c(3)] by (simp add: loop_ids_def)
  then have "Suc n \<notin> set (map tk_turn_id (vl_tasks ?v1))" by (auto simp: list_all_iff)
  then have "loop_ids (Suc n) (es @ [Ev_endpoint (Suc n) r]) (handle_capture_event v (Ev_endpoint (Suc n) r))"
    using ids c le by (auto simp: loop_ids_def start_task_def Let_def list_all_iff intro: le_SucI)
  moreover have "\<forall>r. Ev_confirmed (Suc n) r \<notin> set es"
    using ids unfolding loop_ids_def by (metis Suc_n_not_le_n)
  ultimately show ?thesis using c(1)
    by (simp add: loop_inv_def start_task_def Let_def undecided_def settled_all_append)
qed

lemma handle_resumed_inv:
  assumes "loop_inv (n, Some (i, r)) es v"
  shows "loop_inv (n, None) (es @ [Ev_resumed i]) (handle_capture_event v (Ev_resumed i))"
proof -
  let ?v1 = "update_active cancel_task v"
  have c: "list_all (settled es) (vl_tasks ?v1)"
    "map (\<lambda>t. (tk_turn_id t, tk_capture t)) (vl_tasks ?v1) = started_turns es"
    "map tk_turn_id (vl_tasks ?v1) = map tk_turn_id (vl_tasks v)"
    and ids: "loop_ids n es v" and act: "vl_active_turn_id v = Some i"
    using assms cancel_active_settled [of "Some (i, r)" es v] by (auto simp: loop_inv_def loop_ids_def)
  then show ?thesis
    using all_le_of_ids [OF c(3)]
    by (simp add: loop_inv_def loop_ids_def clear_active_def Let_def settled_all_append)
qed

lemma handle_confirmed_inv:
  assumes "loop_inv (n, Some (i, r)) es v"
  shows "loop_inv (n, None) (es @ [Ev_confirmed i r]) (handle_capture_event v (Ev_confirmed i r))"
proof -
  from assms obtain ts t where act: "vl_active_turn_id v = Some i" and t: "vl_tasks v = ts @ [t]"
      "vl_active_task v = Some (length ts)" "undecided t" "tk_turn_id t = i" "list_all (settled es) ts"
    and ids: "loop_ids n es v"
    by (auto simp: loop_inv_def)
  have h: "vl_tasks (handle_capture_event v (Ev_confirmed i r)) = ts @ [commit_task t]"
    "vl_active_turn_id (handle_capture_event v (Ev_confirmed i r)) = None"
    "vl_active_task (handle_capture_event v (Ev_confirmed i r)) = None"
    using act t by (simp_all add: apply_capture_mode_def update_active_def clear_active_def Let_def)
  have "settled (es @ [Ev_confirmed i r]) u" if "u \<in> set ts" for u
    using that t ids by (subst settled_append) (auto simp: loop_ids_def list_all_iff)
  moreover have "settled (es @ [Ev_confirmed i r]) (commit_task t)"
    using commit_settled [OF t(3)] t(4) by simp
  moreover have "i \<le> n" using ids t by (simp add: loop_ids_def)
  ultimately show ?thesis
    using ids t h by (auto simp: loop_inv_def loop_ids_def list_all_iff simp del: handle_capture_event.simps)
qed

lemma handle_event_inv:
  assumes "loop_inv st es v" "stream_step st e = Some st'" "event_capture_ok e"
  shows "loop_inv st' (es @ [e]) (handle_capture_event v e)"
proof (cases e)
  case (Ev_endpoint i r)
  then show ?thesis using assms handle_endpoint_inv [of "fst st" "snd st" es v r]
    by (cases st) (auto split: if_splits simp del: handle_capture_event.simps)
next
  case (Ev_resumed i)
  then show ?thesis using assms handle_resumed_inv [of "fst st" i _ es v]
    by (cases st) (auto split: if_splits option.splits simp del: handle_capture_event.simps)
next
  case (Ev_confirmed i r)
  then show ?thesis using assms handle_confirmed_inv [of "fst st" i r es v]
    by (cases st) (auto split: if_splits simp del: handle_capture_event.simps)
next
  case (Ev_mode_switch i r)
  then show ?thesis using assms by simp
qed

lemma voice_loop_run_inv:
  "loop_inv st es v \<Longrightarrow> stream_run st fs = Some st' \<Longrightarrow> list_all event_capture_ok fs \<Longrightarrow>
   loop_inv st' (es @ fs) (voice_loop_run v fs)"
proof (induction fs arbitrary: st es v)
  case Nil
  then show ?case by (simp add: voice_loop_run_def)
next
  case (Cons e fs)
  then obtain st1 where st1: "stream_step st e = Some st1" "stream_run st1 fs = Some st'"
    by (auto split: option.splits)
  from Cons.IH [OF handle_event_inv [OF Cons.prems(1) st1(1)] st1(2)] Cons.prems(3)
  show ?case by (simp add: voice_loop_run_def del: handle_capture_event.simps)
qed

lemma voice_loop_init_inv: "loop_inv (0, None) [] (voice_loop_init p m)"
  by (simp add: loop_inv_def loop_ids_def voice_loop_init_def)

section \<open>What the loop relies on\<close>

text \<open>
  A source of turns: its events follow the turn protocol, none switches the mode, and when
  the source ends in order (\<open>complete\<close>) no endpoint is left open.
\<close>

locale turn_source =
  fixes events :: "capture_stream_event list"
    and complete :: bool
  assumes protocol: "\<exists>st. stream_run (0, None) events = Some st"
    and captures: "list_all event_capture_ok events"
    and closed: "complete \<Longrightarrow> \<exists>n. stream_run (0, None) events = Some (n, None)"
begin

lemma run_inv:
  "\<exists>st. stream_run (0, None) events = Some st \<and>
     loop_inv st events (voice_loop_run (voice_loop_init p m) events)"
  using protocol voice_loop_run_inv [OF voice_loop_init_inv _ captures] by fastforce

lemma tasks_follow_events:
  "map (\<lambda>t. (tk_turn_id t, tk_capture t)) (vl_tasks (voice_loop_run (voice_loop_init p m) events)) =
     started_turns events"
  using run_inv by (auto simp: loop_inv_def loop_ids_def)

lemma never_both:
  "t \<in> set (vl_tasks (voice_loop_run (voice_loop_init p m) events)) \<Longrightarrow> \<not> (committed t \<and> cancelled t)"
  "t \<in> set (vl_tasks (voice_loop_run (voice_loop_init p m) events)) \<Longrightarrow>
   committed t \<longleftrightarrow> (\<exists>r. Ev_confirmed (tk_turn_id t) r \<in> set events)"
proof -
  assume t: "t \<in> set (vl_tasks (voice_loop_run (voice_loop_init p m) events))"
  obtain n opn where inv: "loop_active opn events (voice_loop_run (voice_loop_init p m) events)"
    using run_inv [of p m] by (auto simp: loop_inv_def)
  have "settled events t \<or> (undecided t \<and> (\<forall>r. Ev_confirmed (tk_turn_id t) r \<notin> set events))"
    using inv t by (cases opn) (auto simp: list_all_iff)
  then show "\<not> (committed t \<and> cancelled t)"
    "committed t \<longleftrightarrow> (\<exists>r. Ev_confirmed (tk_turn_id t) r \<in> set events)"
    by (auto simp: settled_def undecided_def committed_def cancelled_def new_turn_control_def)
qed

lemma complete_settled:
  "complete \<Longrightarrow> t \<in> set (vl_tasks (voice_loop_run (voice_loop_init p m) events)) \<Longrightarrow>
   committed t \<noteq> cancelled t"
  using run_inv [of p m] closed by (auto simp: loop_inv_def list_all_iff settled_def)

end

section \<open>The session is a turn source\<close>

lemma session_turn_source:
  "turn_source (fst (snd (session_run env mx mode c now mt stopped inputs)))
     (fst (session_run env mx mode c now mt stopped inputs) = Returned)"
proof (cases "session_init env mode c now mt")
  case (Inl e)
  then show ?thesis by unfold_locales (simp_all add: session_run_def)
next
  case (Inr s0)
  note inv = session_run_inv [OF Inr, of mx inputs]
  from Inr inv show ?thesis
    by unfold_locales
      (auto simp: session_run_def Let_def session_inv_def stream_inv_def split: prod.splits if_splits)
qed

interpretation session_turns: turn_source
  "fst (snd (session_run env mx mode c now mt stopped inputs))"
  "fst (session_run env mx mode c now mt stopped inputs) = Returned"
  for env mx mode c now mt stopped inputs
  by (rule session_turn_source)

section \<open>Properties\<close>

text \<open>
  C1. The voice loop driven by a capture session starts one task per endpoint, with that
  endpoint's turn id and capture and in that order. A task is committed exactly when its turn
  was confirmed and is never both committed and cancelled; and when the session has returned,
  every task has been committed or cancelled, so that none waits for a decision forever.
\<close>

theorem voice_loop_commits_confirmed_turns:
  "(case session_run env mx mode c now mt stopped inputs of
      (outcome, es, lg) \<Rightarrow>
        let tasks = vl_tasks (voice_loop_run (voice_loop_init prepare controller) es) in
        map (\<lambda>t. (tk_turn_id t, tk_capture t)) tasks = started_turns es \<and>
        list_all (\<lambda>t. \<not> (committed t \<and> cancelled t) \<and>
          (committed t \<longleftrightarrow> (\<exists>r. Ev_confirmed (tk_turn_id t) r \<in> set es))) tasks \<and>
        (if outcome = Returned then list_all (\<lambda>t. committed t \<noteq> cancelled t) tasks else True))"
proof -
  obtain outcome es lg where r: "session_run env mx mode c now mt stopped inputs = (outcome, es, lg)"
    by (metis prod_cases3)
  note src = session_turns.tasks_follow_events [where env = env and mx = mx and mode = mode and c = c
      and now = now and mt = mt and stopped = stopped and inputs = inputs, unfolded r fst_conv snd_conv]
  note both = session_turns.never_both [where env = env and mx = mx and mode = mode and c = c
      and now = now and mt = mt and stopped = stopped and inputs = inputs, unfolded r fst_conv snd_conv]
  note fin = session_turns.complete_settled [where env = env and mx = mx and mode = mode and c = c
      and now = now and mt = mt and stopped = stopped and inputs = inputs, unfolded r fst_conv snd_conv]
  show ?thesis
    unfolding r prod.case Let_def list_all_iff if_bool_eq_conj using src both fin by blast
qed

text \<open>
  A waiter that goes on after \<open>wait_until_committed\<close> does so only for a committed turn that
  was not cancelled up to the moment it resumed, provided the wait reports as done only events
  that are set and, having no timeout, reports at least one.
\<close>

lemma wait_until_committed_safe:
  assumes "commit_done \<or> cancel_done" "commit_done \<Longrightarrow> vt_committed c" "cancel_done \<Longrightarrow> vt_cancelled c"
    and "wait_until_committed before commit_done cancel_done c = Inr ()"
  shows "if vt_committed before then \<not> vt_cancelled before else vt_committed c \<and> \<not> vt_cancelled c"
  using assms
  by (auto simp: wait_until_committed_def control_wait_def checkpoint_def split: if_splits sum.splits)

end
