(* ===== verification/FsMemory.thy ===== *)
theory FsMemory
  imports Text "HOL-Library.Finite_Map"
begin

text \<open>
  Filesystem memories of the graph database: \<open>reframe_memory/ids.py\<close>, the filesystem part of
  \<open>models.py\<close>, \<open>filesystem_memories.py\<close> and the publication transaction of
  \<open>filesystem_publication.py\<close>, over a table of records and the edges of the root node. The
  path canonicalisation and the SHA-256 digest are arguments.
\<close>

section \<open>Record ids\<close>

definition is_id_char :: "char \<Rightarrow> bool" where
  "is_id_char c \<longleftrightarrow> is_alpha c \<or> is_digit c \<or> c = CHR ''_'' \<or> c = CHR ''-''"

text \<open>\<open>re.compile(r"memory_node:[A-Za-z0-9_-]+").fullmatch\<close>.\<close>

definition is_memory_node_id :: "string \<Rightarrow> bool" where
  "is_memory_node_id s =
     (take 12 s = ''memory_node:'' \<and> drop 12 s \<noteq> [] \<and> list_all is_id_char (drop 12 s))"

definition memory_node_record_id :: "string \<Rightarrow> py_error + string" where
  "memory_node_record_id record_id =
     (if is_memory_node_id record_id then Inr record_id
      else Inl (ValueError (''expected memory_node record id, got '' @ py_repr record_id)))"

section \<open>Memories and their stored form\<close>

record memory_common =
  fm_title :: string
  fm_description :: string
  fm_base_memory_ids :: "string list"

datatype fs_memory =
    Directory_memory memory_common string
  | Checkpoint_memory memory_common string string

fun memory_common_of :: "fs_memory \<Rightarrow> memory_common" where
  "memory_common_of (Directory_memory c path) = c"
| "memory_common_of (Checkpoint_memory c store manifest) = c"

text \<open>The \<open>__post_init__\<close> checks of the two dataclasses.\<close>

definition directory_memory :: "memory_common \<Rightarrow> string \<Rightarrow> py_error + fs_memory" where
  "directory_memory c path =
     (if path = [] then Inl (ValueError ''directory filesystem memory source_path cannot be empty'')
      else Inr (Directory_memory c path))"

definition checkpoint_memory :: "memory_common \<Rightarrow> string \<Rightarrow> string \<Rightarrow> py_error + fs_memory" where
  "checkpoint_memory c store manifest =
     (if store = [] \<or> manifest = []
      then Inl (ValueError ''checkpoint filesystem memories require backing_store and manifest_id'')
      else Inr (Checkpoint_memory c store manifest))"

fun fs_memory_ok :: "fs_memory \<Rightarrow> bool" where
  "fs_memory_ok (Directory_memory c path) = (path \<noteq> [])"
| "fs_memory_ok (Checkpoint_memory c store manifest) = (store \<noteq> [] \<and> manifest \<noteq> [])"

text \<open>A content object of the database: every key may be missing.\<close>

record raw_content =
  rw_source_kind :: "string option"
  rw_title :: "string option"
  rw_description :: "string option"
  rw_base_memory_ids :: "string list option"
  rw_source_path :: "string option"
  rw_backing_store :: "string option"
  rw_manifest_id :: "string option"

fun asdict :: "fs_memory \<Rightarrow> raw_content" where
  "asdict (Directory_memory c path) =
     \<lparr> rw_source_kind = Some ''directory'', rw_title = Some (fm_title c),
       rw_description = Some (fm_description c), rw_base_memory_ids = Some (fm_base_memory_ids c),
       rw_source_path = Some path, rw_backing_store = None, rw_manifest_id = None \<rparr>"
| "asdict (Checkpoint_memory c store manifest) =
     \<lparr> rw_source_kind = Some ''checkpoint'', rw_title = Some (fm_title c),
       rw_description = Some (fm_description c), rw_base_memory_ids = Some (fm_base_memory_ids c),
       rw_source_path = None, rw_backing_store = Some store, rw_manifest_id = Some manifest \<rparr>"

definition parse_memory :: "raw_content \<Rightarrow> py_error + fs_memory" where
  "parse_memory content =
     (let source_kind = (case rw_source_kind content of
                           None \<Rightarrow> ''directory'' | Some k \<Rightarrow> if k = [] then ''directory'' else k)
      in case rw_title content of
           None \<Rightarrow> Inl (KeyError ''title'')
         | Some title \<Rightarrow>
             (case rw_description content of
                None \<Rightarrow> Inl (KeyError ''description'')
              | Some description \<Rightarrow>
                  let common = \<lparr> fm_title = title, fm_description = description,
                        fm_base_memory_ids = (case rw_base_memory_ids content of None \<Rightarrow> [] | Some b \<Rightarrow> b) \<rparr>
                  in if source_kind = ''directory'' then
                       (case rw_source_path content of
                          None \<Rightarrow> Inl (ValueError ''directory filesystem memory is missing source_path'')
                        | Some path \<Rightarrow> directory_memory common path)
                     else if source_kind = ''checkpoint'' then
                       (case (rw_backing_store content, rw_manifest_id content) of
                          (Some store, Some manifest) \<Rightarrow> checkpoint_memory common store manifest
                        | _ \<Rightarrow> Inl (ValueError ''checkpoint filesystem memory is missing its locator''))
                     else Inl (ValueError (''unsupported filesystem memory source: '' @ source_kind))))"

section \<open>Identity and ids\<close>

datatype fs_identity =
    Directory_identity string
  | Checkpoint_identity string string "string list"

fun persistent_identity :: "(string \<Rightarrow> string) \<Rightarrow> fs_memory \<Rightarrow> fs_identity" where
  "persistent_identity canonical (Directory_memory c path) = Directory_identity (canonical path)"
| "persistent_identity canonical (Checkpoint_memory c store manifest) =
     Checkpoint_identity (canonical store) manifest (fm_base_memory_ids c)"

definition scoped_memory_id :: "(string \<Rightarrow> string) \<Rightarrow> string \<Rightarrow> string list \<Rightarrow> string" where
  "scoped_memory_id digest kind parts =
     ''memory_node:filesystem_'' @ kind @ ''_'' @ digest (py_join [CHR 0x00] (kind # parts))"

definition filesystem_directory_memory_id ::
  "(string \<Rightarrow> string) \<Rightarrow> (string \<Rightarrow> string) \<Rightarrow> string \<Rightarrow> string" where
  "filesystem_directory_memory_id digest canonical source_path =
     scoped_memory_id digest ''directory'' [canonical source_path]"

definition filesystem_checkpoint_memory_id ::
  "(string \<Rightarrow> string) \<Rightarrow> (string \<Rightarrow> string) \<Rightarrow> string \<Rightarrow> string \<Rightarrow> string" where
  "filesystem_checkpoint_memory_id digest canonical backing_store manifest_id =
     scoped_memory_id digest ''checkpoint'' [canonical backing_store, manifest_id]"

definition normalized_tags :: "string list \<Rightarrow> string list" where
  "normalized_tags tags = dict_fromkeys (filter (\<lambda>t. t \<noteq> []) (map py_strip tags))"

section \<open>The store\<close>

record fs_record =
  fr_tags :: "string list"
  fr_content :: raw_content
  fr_identity :: "fs_identity option"
  fr_created_at :: int
  fr_updated_at :: int
  fr_read_at :: "int option"

record fs_database =
  fd_nodes :: "(string, fs_record) fmap"
  fd_contains :: "string set"

record fs_node =
  fn_id :: string
  fn_tags :: "string list"
  fn_created_at :: int
  fn_updated_at :: int
  fn_read_at :: "int option"
  fn_content :: fs_memory

definition filesystem_memory_from_record :: "string \<Rightarrow> fs_record \<Rightarrow> py_error + fs_node" where
  "filesystem_memory_from_record record_id r =
     (case parse_memory (fr_content r) of
        Inl e \<Rightarrow> Inl e
      | Inr m \<Rightarrow>
          Inr \<lparr> fn_id = record_id, fn_tags = fr_tags r, fn_created_at = fr_created_at r,
                fn_updated_at = fr_updated_at r, fn_read_at = fr_read_at r, fn_content = m \<rparr>)"

text \<open>The transaction of \<open>_publication_query\<close>.\<close>

definition legacy_identity_matches :: "fs_memory \<Rightarrow> fs_record option \<Rightarrow> bool" where
  "legacy_identity_matches m existing =
     (case existing of
        None \<Rightarrow> True
      | Some r \<Rightarrow>
          let old = fr_content r; new = asdict m in
          if rw_source_kind old = Some ''directory'' then
            rw_source_kind new = Some ''directory'' \<and> rw_source_path old = rw_source_path new
          else if rw_source_kind old = Some ''checkpoint'' then
            rw_source_kind new = Some ''checkpoint'' \<and>
            rw_backing_store old = rw_backing_store new \<and> rw_manifest_id old = rw_manifest_id new \<and>
            rw_base_memory_ids old = rw_base_memory_ids new
          else False)"

definition identity_conflicts :: "fs_identity \<Rightarrow> fs_memory \<Rightarrow> fs_record option \<Rightarrow> bool" where
  "identity_conflicts identity m existing =
     (case existing of
        None \<Rightarrow> False
      | Some r \<Rightarrow> fr_identity r \<noteq> Some identity \<and>
                 \<not> (fr_identity r = None \<and> legacy_identity_matches m existing))"

definition publication_transaction ::
  "int \<Rightarrow> string \<Rightarrow> fs_memory \<Rightarrow> string list \<Rightarrow> fs_identity \<Rightarrow> fs_database \<Rightarrow> fs_database" where
  "publication_transaction now record_id m tags identity db =
     (let existing = fmlookup (fd_nodes db) record_id; content = asdict m in
      if identity_conflicts identity m existing then db
      else
        let r = (case existing of
               None \<Rightarrow>
                 \<lparr> fr_tags = tags, fr_content = content, fr_identity = Some identity,
                   fr_created_at = now, fr_updated_at = now, fr_read_at = None \<rparr>
             | Some old \<Rightarrow>
                 \<lparr> fr_tags = tags, fr_content = content, fr_identity = Some identity,
                   fr_created_at = fr_created_at old,
                   fr_updated_at = (if fr_tags old \<noteq> tags \<or> fr_content old \<noteq> content then now
                                    else fr_updated_at old),
                   fr_read_at = fr_read_at old \<rparr>)
        in db\<lparr> fd_nodes := fmupd record_id r (fd_nodes db),
               fd_contains := insert record_id (fd_contains db) \<rparr>)"

definition fs_publish ::
  "(string \<Rightarrow> string) \<Rightarrow> int \<Rightarrow> string \<Rightarrow> fs_memory \<Rightarrow> string list \<Rightarrow> fs_database \<Rightarrow>
   (py_error + fs_node) \<times> fs_database" where
  "fs_publish canonical now memory_id m tags db =
     (case memory_node_record_id memory_id of
        Inl e \<Rightarrow> (Inl e, db)
      | Inr record_id \<Rightarrow>
          let db' = publication_transaction now record_id m (normalized_tags tags)
                      (persistent_identity canonical m) db
          in (case fmlookup (fd_nodes db') record_id of
                None \<Rightarrow> Inl (ValueError (''filesystem memory publication disappeared: '' @ record_id))
              | Some r \<Rightarrow>
                  (case filesystem_memory_from_record record_id r of
                     Inl e \<Rightarrow> Inl e
                   | Inr node \<Rightarrow>
                       if persistent_identity canonical (fn_content node) \<noteq> persistent_identity canonical m
                       then Inl (ValueError (''filesystem memory id collision: '' @ record_id))
                       else Inr node),
              db'))"

fun publish_memory ::
  "(string \<Rightarrow> string) \<Rightarrow> (string \<Rightarrow> string) \<Rightarrow> int \<Rightarrow> fs_memory \<Rightarrow> string list \<Rightarrow> fs_database \<Rightarrow>
   (py_error + fs_node) \<times> fs_database" where
  "publish_memory digest canonical now (Directory_memory c path) tags db =
     fs_publish canonical now (filesystem_directory_memory_id digest canonical path)
       (Directory_memory c path) tags db"
| "publish_memory digest canonical now (Checkpoint_memory c store manifest) tags db =
     fs_publish canonical now (filesystem_checkpoint_memory_id digest canonical store manifest)
       (Checkpoint_memory c store manifest) tags db"

definition fs_get ::
  "int \<Rightarrow> bool \<Rightarrow> string \<Rightarrow> fs_database \<Rightarrow> (py_error + fs_node option) \<times> fs_database" where
  "fs_get now mark_read memory_id db =
     (case memory_node_record_id memory_id of
        Inl e \<Rightarrow> (Inl e, db)
      | Inr record_id \<Rightarrow>
          (case (if record_id \<in> fd_contains db then fmlookup (fd_nodes db) record_id else None) of
             None \<Rightarrow> (Inr None, db)
           | Some r0 \<Rightarrow>
               let r = (if mark_read then r0\<lparr> fr_read_at := Some now \<rparr> else r0);
                   db' = (if mark_read then db\<lparr> fd_nodes := fmupd record_id r (fd_nodes db) \<rparr> else db)
               in (case filesystem_memory_from_record record_id r of
                     Inl e \<Rightarrow> Inl e | Inr node \<Rightarrow> Inr (Some node), db')))"

section \<open>Lemmas\<close>

lemma parse_asdict [simp]: "fs_memory_ok m \<Longrightarrow> parse_memory (asdict m) = Inr m"
  by (cases m) (simp_all add: parse_memory_def directory_memory_def checkpoint_memory_def)

lemma scoped_memory_id_valid:
  assumes "\<And>s. list_all is_id_char (digest s)" "list_all is_id_char kind"
  shows "is_memory_node_id (scoped_memory_id digest kind parts)"
proof -
  have "scoped_memory_id digest kind parts =
      ''memory_node:'' @ ''filesystem_'' @ kind @ ''_'' @ digest (py_join [CHR 0x00] (kind # parts))"
    by (simp add: scoped_memory_id_def)
  moreover have "list_all is_id_char ''filesystem_''" "is_id_char CHR ''_''"
    by (simp_all add: is_id_char_def is_alpha_def code_def)
  ultimately show ?thesis
    using assms by (simp add: is_memory_node_id_def)
qed

definition memory_id_of :: "(string \<Rightarrow> string) \<Rightarrow> (string \<Rightarrow> string) \<Rightarrow> fs_memory \<Rightarrow> string" where
  "memory_id_of digest canonical m = (case m of
     Directory_memory c path \<Rightarrow> filesystem_directory_memory_id digest canonical path
   | Checkpoint_memory c store manifest \<Rightarrow> filesystem_checkpoint_memory_id digest canonical store manifest)"

lemma publish_memory_eq:
  "publish_memory digest canonical now m tags db =
     fs_publish canonical now (memory_id_of digest canonical m) m tags db"
  by (cases m) (simp_all add: memory_id_of_def)

lemma memory_id_valid:
  assumes "\<And>s. list_all is_id_char (digest s)"
  shows "memory_node_record_id (memory_id_of digest canonical m) = Inr (memory_id_of digest canonical m)"
proof -
  have "list_all is_id_char ''directory''" "list_all is_id_char ''checkpoint''"
    by (simp_all add: is_id_char_def is_alpha_def code_def)
  then have "is_memory_node_id (memory_id_of digest canonical m)"
    using assms by (cases m) (simp_all add: memory_id_of_def filesystem_directory_memory_id_def
        filesystem_checkpoint_memory_id_def scoped_memory_id_valid)
  then show ?thesis by (simp add: memory_node_record_id_def)
qed

lemma transaction_stores:
  assumes "\<not> identity_conflicts identity m (fmlookup (fd_nodes db) i)"
  shows "\<exists>r. publication_transaction now i m tags identity db =
      db\<lparr> fd_nodes := fmupd i r (fd_nodes db), fd_contains := insert i (fd_contains db) \<rparr> \<and>
    fr_content r = asdict m \<and> fr_identity r = Some identity \<and> fr_tags r = tags \<and>
    (\<forall>old. fmlookup (fd_nodes db) i = Some old \<longrightarrow> fr_created_at r = fr_created_at old \<and> fr_read_at r = fr_read_at old)"
  using assms by (auto simp: publication_transaction_def Let_def split: option.splits)

lemma transaction_conflict:
  "identity_conflicts identity m (fmlookup (fd_nodes db) i) \<Longrightarrow> publication_transaction now i m tags identity db = db"
  by (simp add: publication_transaction_def Let_def)

lemma fmupd_same: "fmlookup m k = Some v \<Longrightarrow> fmupd k v m = m"
  by (rule fmap_ext) auto

lemma transaction_again:
  assumes "fmlookup (fd_nodes db) i = Some r" "fr_content r = asdict m" "fr_identity r = Some identity"
    "fr_tags r = tags" "i \<in> fd_contains db"
  shows "publication_transaction now i m tags identity db = db"
proof -
  have "\<lparr> fr_tags = tags, fr_content = asdict m, fr_identity = Some identity,
      fr_created_at = fr_created_at r, fr_updated_at = fr_updated_at r, fr_read_at = fr_read_at r \<rparr> = r"
    using assms(2-4) by (cases r) simp
  then show ?thesis
    using assms by (cases db)
      (auto simp: publication_transaction_def identity_conflicts_def Let_def insert_absorb fmupd_same)
qed

lemma record_of_memory:
  assumes "fr_content r = asdict m" "fs_memory_ok m"
  shows "\<exists>node. filesystem_memory_from_record i r = Inr node \<and> fn_content node = m \<and> fn_id node = i \<and>
    fn_created_at node = fr_created_at r \<and> fn_read_at node = fr_read_at r"
  using assms by (simp add: filesystem_memory_from_record_def)

section \<open>Properties\<close>

text \<open>
  C6. Publishing a filesystem memory, with a digest made of id characters: a failed publication
  leaves the database as it was. A successful one returns a node of the same identity, keeps
  the creation and read times of a record it updates, is idempotent (publishing again, at any
  later time, returns the same node and changes nothing), and, unless the id was taken by
  another identity, the node is found again by its id.
\<close>

theorem publish_memory_sound:
  assumes "\<And>s. list_all is_id_char (digest s)" and "fs_memory_ok m"
    and "publish_memory digest canonical now m tags db = (result, db')"
  shows "case result of
      Inl e \<Rightarrow> db' = db
    | Inr node \<Rightarrow>
        persistent_identity canonical (fn_content node) = persistent_identity canonical m \<and>
        publish_memory digest canonical later m tags db' = (Inr node, db') \<and>
        (case fmlookup (fd_nodes db) (fn_id node) of
           None \<Rightarrow> fn_created_at node = now
         | Some old \<Rightarrow> fn_created_at node = fr_created_at old \<and> fn_read_at node = fr_read_at old) \<and>
        (identity_conflicts (persistent_identity canonical m) m (fmlookup (fd_nodes db) (fn_id node)) \<or>
         fs_get later False (fn_id node) db' = (Inr (Some node), db'))"
proof -
  let ?i = "memory_id_of digest canonical m" and ?ident = "persistent_identity canonical m"
    and ?t = "normalized_tags tags"
  note valid = memory_id_valid [where canonical = canonical and m = m, OF assms(1)]
  show ?thesis
  proof (cases "identity_conflicts ?ident m (fmlookup (fd_nodes db) ?i)")
    case True
    note conflict = transaction_conflict [OF True]
    from True obtain old where "fmlookup (fd_nodes db) ?i = Some old"
      by (auto simp: identity_conflicts_def split: option.splits)
    then show ?thesis using assms(3) True valid conflict
      by (auto simp: publish_memory_eq fs_publish_def Let_def filesystem_memory_from_record_def
          split: sum.splits if_splits)
  next
    case False
    obtain r where r: "publication_transaction now ?i m ?t ?ident db =
        db\<lparr> fd_nodes := fmupd ?i r (fd_nodes db), fd_contains := insert ?i (fd_contains db) \<rparr>"
      "fr_content r = asdict m" "fr_identity r = Some ?ident" "fr_tags r = ?t"
      "\<forall>old. fmlookup (fd_nodes db) ?i = Some old \<longrightarrow> fr_created_at r = fr_created_at old \<and> fr_read_at r = fr_read_at old"
      using transaction_stores [OF False] by blast
    have new: "fmlookup (fd_nodes db) ?i = None \<Longrightarrow> fr_created_at r = now"
      using arg_cong [OF r(1), of "\<lambda>d. map_option fr_created_at (fmlookup (fd_nodes d) ?i)"] False
      by (simp add: publication_transaction_def Let_def)
    let ?db = "db\<lparr> fd_nodes := fmupd ?i r (fd_nodes db), fd_contains := insert ?i (fd_contains db) \<rparr>"
    obtain node where n: "filesystem_memory_from_record ?i r = Inr node" "fn_content node = m"
      "fn_id node = ?i" "fn_created_at node = fr_created_at r" "fn_read_at node = fr_read_at r"
      using record_of_memory [OF r(2) assms(2)] by blast
    have res: "result = Inr node" "db' = ?db"
      using assms(3) valid r(1) n by (auto simp: publish_memory_eq fs_publish_def Let_def)
    have "publication_transaction later ?i m ?t ?ident ?db = ?db"
      by (rule transaction_again [where r = r]) (simp_all add: r)
    then have again: "publish_memory digest canonical later m tags ?db = (Inr node, ?db)"
      using valid n by (simp add: publish_memory_eq fs_publish_def Let_def)
    have got: "fs_get later False ?i ?db = (Inr (Some node), ?db)"
      using valid n(1) by (simp add: fs_get_def Let_def)
    show ?thesis
      using n(2-5) r(5) new by (auto simp: res again got split: option.split)
  qed
qed

definition ex_fs_memory :: fs_memory where
  "ex_fs_memory = Checkpoint_memory \<lparr> fm_title = ''t'', fm_description = ''d'', fm_base_memory_ids = [] \<rparr>
     ''/store'' ''m1''"

definition ex_fs_database :: fs_database where
  "ex_fs_database = \<lparr> fd_nodes = fmempty, fd_contains = {} \<rparr>"

theorem publish_memory_sound_witness:
  "\<exists>node db'. publish_memory (\<lambda>_. ''abc'') (\<lambda>p. p) 1 ex_fs_memory [''workspace''] ex_fs_database = (Inr node, db') \<and>
     publish_memory (\<lambda>_. ''abc'') (\<lambda>p. p) 2 ex_fs_memory [''workspace''] db' = (Inr node, db') \<and>
     fn_created_at node = 1"
proof -
  obtain result db' where p: "publish_memory (\<lambda>_. ''abc'') (\<lambda>p. p) 1 ex_fs_memory [''workspace''] ex_fs_database = (result, db')"
    by fastforce
  have dig: "list_all is_id_char ''abc''" by (simp add: is_id_char_def is_alpha_def code_def)
  have ok: "fs_memory_ok ex_fs_memory" by (simp add: ex_fs_memory_def)
  have "db' \<noteq> ex_fs_database"
  proof -
    have "fd_contains (snd (publish_memory (\<lambda>_. ''abc'') (\<lambda>p. p) 1 ex_fs_memory [''workspace''] ex_fs_database)) \<noteq> {}"
      using memory_id_valid [where digest = "\<lambda>_. ''abc''" and canonical = "\<lambda>p. p" and m = ex_fs_memory] dig
      by (simp add: publish_memory_eq fs_publish_def Let_def publication_transaction_def
          identity_conflicts_def ex_fs_database_def)
    then show ?thesis using p by (auto simp: ex_fs_database_def)
  qed
  then obtain node where n: "result = Inr node"
    using publish_memory_sound [OF dig ok p] by (cases result) auto
  have "publish_memory (\<lambda>_. ''abc'') (\<lambda>p. p) 2 ex_fs_memory [''workspace''] db' = (Inr node, db') \<and> fn_created_at node = 1"
    using publish_memory_sound [OF dig ok p, of 2] n by (simp add: ex_fs_database_def)
  with p n show ?thesis by blast
qed

end
