(* ===== verification/LiveConversation.thy ===== *)
theory LiveConversation
  imports FsMemory "HOL-Library.Sublist"
begin

text \<open>
  \<open>agent_flow/live_conversation.py\<close>: the messages of the running process, which the prompt shows
  before (or as well as) the database has them. \<open>add_message\<close>, \<open>resolve_human_reply\<close>,
  \<open>active_human_reply_created_at\<close> and \<open>merge\<close> with its two passes. A UTC instant is a number of
  microseconds; how \<open>datetime\<close> prints and parses an instant is an argument.
\<close>

section \<open>Messages\<close>

text \<open>A parsed timestamp carries a zone or not; Python refuses to order one kind with the other.\<close>

datatype datetime = Aware nat | Naive nat

record time_text =
  tt_isoformat :: "nat \<Rightarrow> string"
  tt_fromisoformat :: "string \<Rightarrow> datetime option"

definition datetime_le :: "datetime \<Rightarrow> datetime \<Rightarrow> py_error + bool" where
  "datetime_le a b =
     (case (a, b) of
        (Aware x, Aware y) \<Rightarrow> Inr (x \<le> y)
      | (Naive x, Naive y) \<Rightarrow> Inr (x \<le> y)
      | _ \<Rightarrow> Inl (TypeError ''can't compare offset-naive and offset-aware datetimes''))"

record live_message =
  lm_conversation_id :: string
  lm_role :: string
  lm_content :: string
  lm_captured_at :: string

record live_context =
  lc_messages :: "live_message list"
  lc_active_human_replies :: "string set"
  lc_last_captured_at :: "nat option"

definition live_context_init :: live_context where
  "live_context_init = \<lparr> lc_messages = [], lc_active_human_replies = {}, lc_last_captured_at = None \<rparr>"

definition next_captured_at :: "nat \<Rightarrow> live_context \<Rightarrow> nat" where
  "next_captured_at now c =
     (case lc_last_captured_at c of
        None \<Rightarrow> now
      | Some l \<Rightarrow> if now \<le> l then l + 1 else now)"

definition live_add_message ::
  "time_text \<Rightarrow> nat \<Rightarrow> string option \<Rightarrow> string \<Rightarrow> string \<Rightarrow> live_context \<Rightarrow>
   (py_error + string option) \<times> live_context" where
  "live_add_message tt now conversation_id role content c =
     (case conversation_id of
        None \<Rightarrow> (Inr None, c)
      | Some cid \<Rightarrow>
          let clean = normalize_ws content in
          if clean = [] then (Inr None, c)
          else
            let t = next_captured_at now c; stamp = tt_isoformat tt t;
                c1 = c\<lparr> lc_last_captured_at := Some t \<rparr>
            in case memory_node_record_id cid of
                 Inl e \<Rightarrow> (Inl e, c1)
               | Inr i \<Rightarrow>
                   (Inr (Some stamp),
                    c1\<lparr> lc_messages := lc_messages c1 @
                          [\<lparr> lm_conversation_id = i, lm_role = role, lm_content = clean, lm_captured_at = stamp \<rparr>],
                        lc_active_human_replies :=
                          (if role = ''human'' then insert stamp (lc_active_human_replies c1)
                           else lc_active_human_replies c1) \<rparr>))"

definition resolve_human_reply :: "string option \<Rightarrow> live_context \<Rightarrow> live_context" where
  "resolve_human_reply captured_at c =
     (case captured_at of
        None \<Rightarrow> c
      | Some stamp \<Rightarrow> c\<lparr> lc_active_human_replies := lc_active_human_replies c - {stamp} \<rparr>)"

definition messages_for :: "string \<Rightarrow> live_context \<Rightarrow> live_message list" where
  "messages_for i c = filter (\<lambda>m. lm_conversation_id m = i) (lc_messages c)"

definition active_human_reply_created_at :: "string option \<Rightarrow> live_context \<Rightarrow> py_error + string list" where
  "active_human_reply_created_at conversation_id c =
     (case conversation_id of
        None \<Rightarrow> Inr []
      | Some cid \<Rightarrow>
          (case memory_node_record_id cid of
             Inl e \<Rightarrow> Inl e
           | Inr i \<Rightarrow>
               Inr (map lm_captured_at
                     (filter (\<lambda>m. lm_conversation_id m = i \<and> lm_captured_at m \<in> lc_active_human_replies c)
                       (lc_messages c)))))"

section \<open>Merging with the persisted history\<close>

record history_message =
  hm_created_at :: string
  hm_updated_at :: string
  hm_read_at :: string
  hm_role :: string
  hm_content :: string

record conversation_history =
  ch_id :: string
  ch_name :: string
  ch_created_at :: string
  ch_updated_at :: string
  ch_read_at :: string
  ch_messages :: "history_message list"

definition history_message_of :: "live_message \<Rightarrow> history_message" where
  "history_message_of m =
     \<lparr> hm_created_at = lm_captured_at m, hm_updated_at = lm_captured_at m, hm_read_at = ''NONE'',
       hm_role = lm_role m, hm_content = lm_content m \<rparr>"

definition live_key :: "live_message \<Rightarrow> string \<times> string" where
  "live_key m = (lm_role m, lm_content m)"

definition history_key :: "history_message \<Rightarrow> string \<times> string" where
  "history_key m = (hm_role m, hm_content m)"

text \<open>
  The scan of \<open>_replace_persisted_active_reply\<close>, from the last message back: the argument and
  the result are in reverse order.
\<close>

fun replace_scan ::
  "time_text \<Rightarrow> live_message \<Rightarrow> history_message list \<Rightarrow> py_error + history_message list" where
  "replace_scan tt live [] = Inr []"
| "replace_scan tt live (m # ms) =
     (if hm_role m \<noteq> lm_role live \<or> hm_content m \<noteq> lm_content live
      then map_sum id ((#) m) (replace_scan tt live ms)
      else if hm_created_at m = lm_captured_at live then Inr (m # ms)
      else case tt_fromisoformat tt (hm_created_at m) of
             None \<Rightarrow> map_sum id ((#) m) (replace_scan tt live ms)
           | Some persisted \<Rightarrow>
               (case (case tt_fromisoformat tt (lm_captured_at live) of
                        None \<Rightarrow> Inr True
                      | Some l \<Rightarrow> datetime_le l persisted) of
                  Inl e \<Rightarrow> Inl e
                | Inr True \<Rightarrow> Inr ms
                | Inr False \<Rightarrow> map_sum id ((#) m) (replace_scan tt live ms)))"

definition replace_persisted_active_reply ::
  "time_text \<Rightarrow> live_message \<Rightarrow> history_message list \<Rightarrow> py_error + history_message list" where
  "replace_persisted_active_reply tt live merged = map_sum id rev (replace_scan tt live (rev merged))"

fun replace_active ::
  "time_text \<Rightarrow> string list \<Rightarrow> live_message list \<Rightarrow> history_message list \<Rightarrow> py_error + history_message list" where
  "replace_active tt active [] merged = Inr merged"
| "replace_active tt active (m # ms) merged =
     (if lm_captured_at m \<notin> set active then replace_active tt active ms merged
      else case replace_persisted_active_reply tt m merged of
             Inl e \<Rightarrow> Inl e
           | Inr merged1 \<Rightarrow> replace_active tt active ms merged1)"

text \<open>The second pass: \<open>counts\<close> is the \<open>Counter\<close> of the keys that are already there.\<close>

fun append_missing ::
  "(string \<times> string \<Rightarrow> nat) \<Rightarrow> live_message list \<Rightarrow> history_message list" where
  "append_missing counts [] = []"
| "append_missing counts (m # ms) =
     (if 0 < counts (live_key m)
      then append_missing (counts(live_key m := counts (live_key m) - 1)) ms
      else history_message_of m # append_missing counts ms)"

definition live_merge ::
  "time_text \<Rightarrow> nat \<Rightarrow> conversation_history option \<Rightarrow> string option \<Rightarrow> live_context \<Rightarrow>
   py_error + conversation_history option" where
  "live_merge tt now conversation conversation_id c =
     (case conversation_id of
        None \<Rightarrow> Inr conversation
      | Some cid \<Rightarrow>
          (case memory_node_record_id cid of
             Inl e \<Rightarrow> Inl e
           | Inr i \<Rightarrow>
               let live = messages_for i c in
               if live = [] then Inr conversation
               else
                 (case conversation of
                    None \<Rightarrow>
                      Inr (Some \<lparr> ch_id = i, ch_name = ''Current conversation'',
                                  ch_created_at = tt_isoformat tt now, ch_updated_at = tt_isoformat tt now,
                                  ch_read_at = ''NONE'', ch_messages = map history_message_of live \<rparr>)
                  | Some h \<Rightarrow>
                      (case active_human_reply_created_at conversation_id c of
                         Inl e \<Rightarrow> Inl e
                       | Inr active \<Rightarrow>
                           (case replace_active tt active live (ch_messages h) of
                              Inl e \<Rightarrow> Inl e
                            | Inr merged \<Rightarrow>
                                Inr (Some (h\<lparr> ch_messages := merged @
                                  append_missing (\<lambda>k. count_list (map history_key merged) k) live \<rparr>)))))))"

section \<open>The live context over a run\<close>

datatype live_op =
    Add_message nat "string option" string string
  | Resolve "string option"

definition live_step :: "time_text \<Rightarrow> live_context \<Rightarrow> live_op \<Rightarrow> live_context \<times> live_message list" where
  "live_step tt c oper =
     (case oper of
        Add_message now cid role content \<Rightarrow>
          (let c' = snd (live_add_message tt now cid role content c)
           in (c', drop (length (lc_messages c)) (lc_messages c')))
      | Resolve stamp \<Rightarrow> (resolve_human_reply stamp c, []))"

text \<open>
  The context's invariant: the stamps are printed from strictly increasing instants, none after
  the last one, and the open replies are stamps of human messages.
\<close>

definition live_inv :: "time_text \<Rightarrow> live_context \<Rightarrow> bool" where
  "live_inv tt c \<longleftrightarrow>
     (\<exists>ts. map lm_captured_at (lc_messages c) = map (tt_isoformat tt) ts \<and> sorted_wrt (<) ts \<and>
        (\<forall>t \<in> set ts. \<exists>l. lc_last_captured_at c = Some l \<and> t \<le> l)) \<and>
     lc_active_human_replies c \<subseteq> lm_captured_at ` {m \<in> set (lc_messages c). lm_role m = ''human''} \<and>
     list_all (\<lambda>m. is_memory_node_id (lm_conversation_id m) \<and> lm_content m \<noteq> [] \<and>
                    normalize_ws (lm_content m) = lm_content m) (lc_messages c)"

lemma next_captured_at_later:
  "lc_last_captured_at c = Some l \<Longrightarrow> l < next_captured_at now c"
  by (simp add: next_captured_at_def)

lemma live_add_cases:
  assumes "live_add_message tt now cid role content c = (r, c')"
  obtains (nothing) "r = Inr None" "c' = c"
  | (refused) e where "r = Inl e" "c' = c\<lparr> lc_last_captured_at := Some (next_captured_at now c) \<rparr>"
  | (added) i where "cid = Some i" "is_memory_node_id i" "normalize_ws content \<noteq> []"
      "r = Inr (Some (tt_isoformat tt (next_captured_at now c)))"
      "c' = c\<lparr> lc_last_captured_at := Some (next_captured_at now c),
               lc_messages := lc_messages c @ [\<lparr> lm_conversation_id = i, lm_role = role,
                 lm_content = normalize_ws content, lm_captured_at = tt_isoformat tt (next_captured_at now c) \<rparr>],
               lc_active_human_replies :=
                 (if role = ''human'' then insert (tt_isoformat tt (next_captured_at now c)) (lc_active_human_replies c)
                  else lc_active_human_replies c) \<rparr>"
proof (cases cid)
  case None
  then have "r = Inr None" "c' = c" using assms by (simp_all add: live_add_message_def)
  then show thesis by (rule nothing)
next
  case (Some i)
  show thesis
  proof (cases "normalize_ws content = []")
    case True
    then have "r = Inr None" "c' = c" using assms Some by (simp_all add: live_add_message_def)
    then show thesis by (rule nothing)
  next
    case False
    show thesis
    proof (cases "is_memory_node_id i")
      case True
      show thesis
        by (rule added [of i])
          (use assms Some False True in \<open>auto simp: live_add_message_def memory_node_record_id_def Let_def\<close>)
    next
      case id: False
      then show thesis
        using assms Some False refused by (auto simp: live_add_message_def memory_node_record_id_def Let_def)
    qed
  qed
qed

lemma live_inv_last:
  assumes "live_inv tt c" and "\<And>l. lc_last_captured_at c = Some l \<Longrightarrow> l \<le> t"
  shows "live_inv tt (c\<lparr> lc_last_captured_at := Some t \<rparr>)"
  using assms by (fastforce simp: live_inv_def)

lemma live_add_inv:
  assumes inv: "live_inv tt c" and a: "live_add_message tt now cid role content c = (r, c')"
  shows "live_inv tt c'"
  using a
proof (cases rule: live_add_cases)
  case nothing
  then show ?thesis using inv by simp
next
  case (refused e)
  then show ?thesis using live_inv_last [OF inv, of "next_captured_at now c"]
    by (simp add: less_imp_le next_captured_at_later)
next
  case (added i)
  from inv obtain ts where ts: "map lm_captured_at (lc_messages c) = map (tt_isoformat tt) ts"
      "sorted_wrt (<) ts" "\<forall>t \<in> set ts. \<exists>l. lc_last_captured_at c = Some l \<and> t \<le> l"
    by (auto simp: live_inv_def)
  let ?t = "next_captured_at now c"
  have less: "\<forall>t \<in> set ts. t < ?t" using ts(3) next_captured_at_later le_less_trans by blast
  have times: "\<exists>us. map lm_captured_at (lc_messages c') = map (tt_isoformat tt) us \<and> sorted_wrt (<) us \<and>
      (\<forall>t \<in> set us. \<exists>l. lc_last_captured_at c' = Some l \<and> t \<le> l)"
    using ts less added(5) by (intro exI [of _ "ts @ [?t]"]) (auto simp: sorted_wrt_append less_imp_le)
  have "list_all (\<lambda>m. is_memory_node_id (lm_conversation_id m) \<and> lm_content m \<noteq> [] \<and>
      normalize_ws (lm_content m) = lm_content m) (lc_messages c')"
    using inv added by (simp add: live_inv_def)
  moreover have "lc_active_human_replies c' \<subseteq> lm_captured_at ` {m \<in> set (lc_messages c'). lm_role m = ''human''}"
  proof -
    let ?m = "\<lparr> lm_conversation_id = i, lm_role = role, lm_content = normalize_ws content, lm_captured_at = tt_isoformat tt ?t \<rparr>"
    have msgs: "set (lc_messages c') = insert ?m (set (lc_messages c))" using added(5) by simp
    have "lm_captured_at ` {m \<in> set (lc_messages c). lm_role m = ''human''} \<subseteq>
        lm_captured_at ` {m \<in> set (lc_messages c'). lm_role m = ''human''}" unfolding msgs by blast
    moreover have "role = ''human'' \<Longrightarrow> tt_isoformat tt ?t \<in> lm_captured_at ` {m \<in> set (lc_messages c'). lm_role m = ''human''}"
      unfolding msgs by (intro image_eqI [of _ _ ?m]) simp_all
    moreover have "lc_active_human_replies c' =
        (if role = ''human'' then insert (tt_isoformat tt ?t) (lc_active_human_replies c) else lc_active_human_replies c)"
      using added(5) by simp
    ultimately show ?thesis using inv unfolding live_inv_def by auto
  qed
  ultimately show ?thesis using times by (simp add: live_inv_def)
qed

lemma resolve_inv: "live_inv tt c \<Longrightarrow> live_inv tt (resolve_human_reply stamp c)"
  by (cases stamp) (auto simp: live_inv_def resolve_human_reply_def)

lemma live_step_inv: "live_inv tt c \<Longrightarrow> live_inv tt (fst (live_step tt c oper))"
  by (cases oper) (auto simp: live_step_def Let_def resolve_inv intro: live_add_inv [OF _ surjective_pairing])

interpretation live_loop: event_loop "live_step tt" "\<lambda>c es. live_inv tt c"
  for tt
  by unfold_locales (rule live_step_inv)

lemma live_inv_init: "live_inv tt live_context_init"
  by (simp add: live_inv_def live_context_init_def)

section \<open>What a merge does\<close>

lemma replace_scan_removes:
  "replace_scan tt live ms = Inr r \<Longrightarrow>
   r = ms \<or> (\<exists>xs y ys. ms = xs @ y # ys \<and> r = xs @ ys \<and> history_key y = live_key live)"
proof (induction ms arbitrary: r)
  case (Cons m ms)
  have keep: "m # r' = m # ms \<or> (\<exists>xs y ys. m # ms = xs @ y # ys \<and> m # r' = xs @ ys \<and> history_key y = live_key live)"
    if "replace_scan tt live ms = Inr r'" for r'
    using Cons.IH [OF that] by (metis append_Cons)
  have drop: "\<exists>xs y ys. m # ms = xs @ y # ys \<and> ms = xs @ ys \<and> history_key y = live_key live"
    if "history_key m = live_key live"
    using that by (intro exI [of _ "[]"] exI [of _ m] exI [of _ ms]) simp
  have "(\<exists>r'. replace_scan tt live ms = Inr r' \<and> r = m # r') \<or> r = m # ms \<or> (r = ms \<and> history_key m = live_key live)"
    using Cons.prems
    by (cases "replace_scan tt live ms")
      (auto simp: history_key_def live_key_def split: if_splits option.splits sum.splits bool.splits)
  then show ?case using keep drop by blast
qed simp

lemma replace_persisted_removes:
  assumes "replace_persisted_active_reply tt live ms = Inr r"
  shows "r = ms \<or> (\<exists>xs y ys. ms = xs @ y # ys \<and> r = xs @ ys \<and> history_key y = live_key live)"
proof -
  obtain r' where r': "replace_scan tt live (rev ms) = Inr r'" "r = rev r'"
    using assms by (cases "replace_scan tt live (rev ms)") (auto simp: replace_persisted_active_reply_def)
  from replace_scan_removes [OF r'(1)] show ?thesis
  proof
    assume "r' = rev ms"
    then show ?thesis using r'(2) by simp
  next
    assume "\<exists>xs y ys. rev ms = xs @ y # ys \<and> r' = xs @ ys \<and> history_key y = live_key live"
    then obtain xs y ys where "rev ms = xs @ y # ys" "r' = xs @ ys" "history_key y = live_key live" by blast
    then have "ms = rev ys @ y # rev xs \<and> r = rev ys @ rev xs"
      using r'(2) by (metis append.assoc append_Cons append_Nil rev.simps(2) rev_append rev_rev_ident)
    then show ?thesis using \<open>history_key y = live_key live\<close> by blast
  qed
qed

lemma subseq_remove: "subseq (xs @ ys) (xs @ y # ys)"
  by (induction xs) auto

lemma replace_active_removes:
  "replace_active tt active live ms = Inr r \<Longrightarrow>
   subseq r ms \<and>
   (\<forall>k. count_list (map history_key ms) k \<le>
      count_list (map history_key r) k +
      length (filter (\<lambda>m. live_key m = k \<and> lm_captured_at m \<in> set active) live))"
proof (induction live arbitrary: ms)
  case (Cons m live)
  show ?case
  proof (cases "lm_captured_at m \<in> set active")
    case False
    then show ?thesis using Cons by simp
  next
    case True
    then obtain ms1 where ms1: "replace_persisted_active_reply tt m ms = Inr ms1"
        "replace_active tt active live ms1 = Inr r"
      using Cons.prems by (auto split: sum.splits)
    have rem: "subseq ms1 ms \<and> (\<forall>k. count_list (map history_key ms) k \<le>
        count_list (map history_key ms1) k + (if live_key m = k then 1 else 0))"
      using replace_persisted_removes [OF ms1(1)] by (auto simp: subseq_remove)
    note ih = Cons.IH [OF ms1(2)]
    have "count_list (map history_key ms) k \<le> count_list (map history_key r) k +
        length (filter (\<lambda>m. live_key m = k \<and> lm_captured_at m \<in> set active) (m # live))" for k
      using rem [THEN conjunct2, rule_format, of k] ih [THEN conjunct2, rule_format, of k] True by auto
    then show ?thesis using rem ih subseq_order.trans by blast
  qed
qed simp

lemma append_missing_counts:
  "count_list (map history_key (append_missing counts live)) k + min (counts k) (count_list (map live_key live) k) =
   count_list (map live_key live) k"
proof (induction live arbitrary: counts)
  case (Cons m live)
  have key: "history_key (history_message_of m) = live_key m"
    by (simp add: history_key_def live_key_def history_message_of_def)
  show ?case
  proof (cases "0 < counts (live_key m)")
    case True
    define counts1 where "counts1 = counts(live_key m := counts (live_key m) - 1)"
    have "append_missing counts (m # live) = append_missing counts1 live" using True by (simp add: counts1_def)
    moreover have "counts1 k = (if live_key m = k then counts k - 1 else counts k)" by (simp add: counts1_def)
    ultimately show ?thesis using Cons.IH [of counts1] True by (cases "live_key m = k") auto
  next
    case False
    then show ?thesis using Cons.IH [of counts] key by (cases "live_key m = k") auto
  qed
qed simp

lemma append_missing_subseq: "subseq (append_missing counts live) (map history_message_of live)"
  by (induction live arbitrary: counts) auto

section \<open>Properties\<close>

text \<open>
  C20. Over any sequence of messages and resolutions, with any clock (repeated or going back):
  no two messages have the same capture stamp, so the stamp that \<open>add_message\<close> returns
  identifies the message; every stored message has a valid conversation id and collapsed
  non-empty text; and the open replies of a conversation are stamps of its human messages, in
  the order of capture.
\<close>

theorem live_stamps_identify_messages:
  assumes "\<And>t. tt_fromisoformat tt (tt_isoformat tt t) = Some (Aware t)"
    and "c = fst (run_steps (live_step tt) live_context_init ops)"
  shows "distinct (map lm_captured_at (lc_messages c)) \<and>
    list_all (\<lambda>m. is_memory_node_id (lm_conversation_id m) \<and> lm_content m \<noteq> [] \<and>
                   normalize_ws (lm_content m) = lm_content m) (lc_messages c) \<and>
    (\<forall>i stamps. active_human_reply_created_at (Some i) c = Inr stamps \<longrightarrow>
       subseq stamps (map lm_captured_at (filter (\<lambda>m. lm_conversation_id m = i \<and> lm_role m = ''human'') (lc_messages c))))"
proof -
  have inv: "live_inv tt c"
    using live_loop.run_inv [OF live_inv_init] unfolding assms(2) by blast
  then obtain ts where ts: "map lm_captured_at (lc_messages c) = map (tt_isoformat tt) ts" "sorted_wrt (<) ts"
    by (auto simp: live_inv_def)
  have "inj (tt_isoformat tt)" by (metis assms(1) datetime.inject(1) injI option.inject)
  then have dist: "distinct (map lm_captured_at (lc_messages c))"
    using ts by (simp add: distinct_map inj_on_def inj_def strict_sorted_iff)
  have human: "lm_role m = ''human''" if "m \<in> set (lc_messages c)" "lm_captured_at m \<in> lc_active_human_replies c" for m
  proof -
    from that(2) inv obtain m' where "m' \<in> set (lc_messages c)" "lm_role m' = ''human''"
        "lm_captured_at m' = lm_captured_at m" by (fastforce simp: live_inv_def)
    then show ?thesis using that(1) dist by (metis distinct_map inj_onD)
  qed
  have "subseq stamps (map lm_captured_at (filter (\<lambda>m. lm_conversation_id m = i \<and> lm_role m = ''human'') (lc_messages c)))"
    if "active_human_reply_created_at (Some i) c = Inr stamps" for i stamps
  proof -
    have st: "stamps = map lm_captured_at (filter (\<lambda>m. lm_conversation_id m = i \<and>
        lm_captured_at m \<in> lc_active_human_replies c) (lc_messages c))"
      using that by (auto simp: active_human_reply_created_at_def memory_node_record_id_def split: if_splits)
    have "filter (\<lambda>m. lm_conversation_id m = i \<and> lm_captured_at m \<in> lc_active_human_replies c) (lc_messages c) =
        filter (\<lambda>m. lm_captured_at m \<in> lc_active_human_replies c)
          (filter (\<lambda>m. lm_conversation_id m = i \<and> lm_role m = ''human'') (lc_messages c))"
      unfolding filter_filter using human by (intro filter_cong) auto
    then show ?thesis unfolding st by (simp only:) (intro subseq_map subseq_filter_left)
  qed
  moreover have "list_all (\<lambda>m. is_memory_node_id (lm_conversation_id m) \<and> lm_content m \<noteq> [] \<and>
      normalize_ws (lm_content m) = lm_content m) (lc_messages c)"
    using inv unfolding live_inv_def by blast
  ultimately show ?thesis using dist by blast
qed

definition ex_time_text :: time_text where
  "ex_time_text = \<lparr> tt_isoformat = \<lambda>t. replicate t CHR ''t'', tt_fromisoformat = \<lambda>s. Some (Aware (length s)) \<rparr>"

theorem live_stamps_identify_messages_witness:
  "distinct (map lm_captured_at (lc_messages (fst (run_steps (live_step ex_time_text) live_context_init
     [Add_message 5 (Some ''memory_node:a'') ''human'' ''hi'', Add_message 5 (Some ''memory_node:a'') ''human'' ''hi'']))))"
  using live_stamps_identify_messages [of ex_time_text _
      "[Add_message 5 (Some ''memory_node:a'') ''human'' ''hi'', Add_message 5 (Some ''memory_node:a'') ''human'' ''hi'']",
      OF _ refl]
  by (simp add: ex_time_text_def)

text \<open>
  C19. A merge with a persisted history keeps the persisted messages and their order, except at
  most one copy of each reply that is still open; appends only live messages, in order; and
  then has every text as often as the kept history or the live conversation has it, whichever
  is more: nothing live is missing and nothing is shown twice.
\<close>

theorem live_merge_counts:
  "live_merge tt now (Some h) (Some i) c = Inr result \<Longrightarrow>
   (\<exists>kept added. result = Some (h\<lparr> ch_messages := kept @ added \<rparr>) \<and>
      subseq kept (ch_messages h) \<and>
      subseq added (map history_message_of (messages_for i c)) \<and>
      (\<forall>k. count_list (map history_key (ch_messages h)) k \<le>
           count_list (map history_key kept) k +
           length (filter (\<lambda>m. live_key m = k \<and> lm_captured_at m \<in> lc_active_human_replies c) (messages_for i c))) \<and>
      (\<forall>k. count_list (map history_key (kept @ added)) k =
           max (count_list (map history_key kept) k) (count_list (map live_key (messages_for i c)) k)))"
proof -
  assume m: "live_merge tt now (Some h) (Some i) c = Inr result"
  then have id: "memory_node_record_id i = Inr i"
    by (auto simp: live_merge_def memory_node_record_id_def split: if_splits)
  show ?thesis
  proof (cases "messages_for i c = []")
    case True
    then have "result = Some (h\<lparr> ch_messages := ch_messages h @ [] \<rparr>)"
      using m id by (simp add: live_merge_def Let_def)
    then show ?thesis using True by (intro exI [of _ "ch_messages h"] exI [of _ "[]"]) simp
  next
    case False
    obtain active where active: "active_human_reply_created_at (Some i) c = Inr active"
      "set active = lm_captured_at ` {m \<in> set (messages_for i c). lm_captured_at m \<in> lc_active_human_replies c}"
      using id by (auto simp: active_human_reply_created_at_def messages_for_def)
    obtain kept where kept: "replace_active tt active (messages_for i c) (ch_messages h) = Inr kept"
      "result = Some (h\<lparr> ch_messages := kept @ append_missing (\<lambda>k. count_list (map history_key kept) k) (messages_for i c) \<rparr>)"
      using m id False active(1) by (auto simp: live_merge_def Let_def split: sum.splits)
    have same: "filter (\<lambda>m. live_key m = k \<and> lm_captured_at m \<in> set active) (messages_for i c) =
        filter (\<lambda>m. live_key m = k \<and> lm_captured_at m \<in> lc_active_human_replies c) (messages_for i c)" for k
      unfolding active(2) by (intro filter_cong) auto
    have "count_list (map history_key (kept @ append_missing (\<lambda>k. count_list (map history_key kept) k) (messages_for i c))) k =
        max (count_list (map history_key kept) k) (count_list (map live_key (messages_for i c)) k)" for k
      using append_missing_counts [of "\<lambda>k. count_list (map history_key kept) k" "messages_for i c" k]
      by (simp add: max_def min_def split: if_splits)
    then show ?thesis
      using kept(2) replace_active_removes [OF kept(1)] append_missing_subseq unfolding same by blast
  qed
qed

definition ex_history :: conversation_history where
  "ex_history = \<lparr> ch_id = ''memory_node:a'', ch_name = ''n'', ch_created_at = ''t'', ch_updated_at = ''t'',
     ch_read_at = ''NONE'', ch_messages = [\<lparr> hm_created_at = ''tttttt'', hm_updated_at = ''tttttt'',
       hm_read_at = ''NONE'', hm_role = ''human'', hm_content = ''hi'' \<rparr>] \<rparr>"

definition ex_live_context :: live_context where
  "ex_live_context = fst (run_steps (live_step ex_time_text) live_context_init
     [Add_message 5 (Some ''memory_node:a'') ''human'' ''hi'', Add_message 5 (Some ''memory_node:a'') ''agent'' ''yes''])"

theorem live_merge_counts_witness:
  "\<exists>kept added. live_merge ex_time_text 9 (Some ex_history) (Some ''memory_node:a'') ex_live_context =
     Inr (Some (ex_history\<lparr> ch_messages := kept @ added \<rparr>)) \<and> subseq kept (ch_messages ex_history) \<and>
     length (kept @ added) = 2"
proof -
  let ?r = "live_merge ex_time_text 9 (Some ex_history) (Some ''memory_node:a'') ex_live_context"
  have r: "?r = Inr (Some (ex_history\<lparr> ch_messages := [history_message_of (lc_messages ex_live_context ! 0),
      history_message_of (lc_messages ex_live_context ! 1)] \<rparr>))"
    by code_simp
  from live_merge_counts [OF r] obtain kept added where
      "ex_history\<lparr> ch_messages := [history_message_of (lc_messages ex_live_context ! 0),
         history_message_of (lc_messages ex_live_context ! 1)] \<rparr> = ex_history\<lparr> ch_messages := kept @ added \<rparr>"
      "subseq kept (ch_messages ex_history)" by blast
  moreover from this(1) have "kept @ added = [history_message_of (lc_messages ex_live_context ! 0),
      history_message_of (lc_messages ex_live_context ! 1)]"
    by (simp add: ex_history_def)
  ultimately show ?thesis unfolding r by (intro exI [of _ kept] exI [of _ added]) simp
qed

end
