(* ===== verification/TaskFlowHost.thy ===== *)
theory TaskFlowHost
  imports VoiceLoop LiveConversation
begin

text \<open>
  \<open>voice/task_flow_host.py\<close> with \<open>task_flow_state.py\<close>, and the operations of \<open>turn_side_effects.py\<close> it
  calls: the callbacks through which the generated flow of a turn acts on the program. What they
  call is an argument: the context of the turn, the retriever, the planner of tasks, the dispatcher
  of actions, the summarizer, the memory database and the clocks, each answering after the effects
  so far. The objects the host only passes on have the type \<open>'o\<close>.
\<close>

named_theorems inward_ops \<open>operations without an effect outside the process\<close>
named_theorems acting_ops \<open>operations with at most one\<close>
named_theorems balanced_ops \<open>operations that close what they open\<close>
named_theorems frame_ops \<open>operations that keep the states' keys and the executions\<close>

section \<open>State\<close>

record 'o understanding =
  un_selected_task :: 'o
  un_memory_search_hints :: 'o
  un_search_depths :: 'o
  un_hints_candidate :: "string option"
  un_depths_candidate :: "string option"

record continuation =
  co_relevance_candidate :: "string option"
  co_prompt_candidate :: "string option"

record task_choice_decision =
  ch_selected_task_id :: string
  ch_candidate_memory :: "string option"

record 'o cycle_state =
  cy_context_inputs :: "'o option"
  cy_understanding :: "'o understanding option"
  cy_retrieved_memories :: "'o option"
  cy_retrieved_memory_graph :: "'o option"
  cy_post_vad_understanding_seconds :: "real option"
  cy_memory_retrieval_seconds :: "real option"
  cy_post_vad_memory_retrieval_seconds :: "real option"
  cy_post_vad_continuation_seconds :: "real option"

record 'o attempt_state =
  at_task_execution :: "'o option"
  at_task_execution_seconds :: "real option"
  at_post_vad_task_execution_seconds :: "real option"
  at_primitive_dispatch :: "'o option"
  at_primitive_dispatch_seconds :: "real option"
  at_post_vad_primitive_dispatch_seconds :: "real option"
  at_output_summary :: "string option"
  at_output_summary_seconds :: "real option"
  at_post_vad_output_summary_seconds :: "real option"

definition new_cycle :: "'o \<Rightarrow> 'o cycle_state" where
  "new_cycle inputs = \<lparr> cy_context_inputs = Some inputs, cy_understanding = None, cy_retrieved_memories = None,
     cy_retrieved_memory_graph = None, cy_post_vad_understanding_seconds = None, cy_memory_retrieval_seconds = None,
     cy_post_vad_memory_retrieval_seconds = None, cy_post_vad_continuation_seconds = None \<rparr>"

definition new_attempt :: "'o option \<Rightarrow> real option \<Rightarrow> real option \<Rightarrow> 'o attempt_state" where
  "new_attempt execution seconds post_seconds = \<lparr> at_task_execution = execution, at_task_execution_seconds = seconds,
     at_post_vad_task_execution_seconds = post_seconds, at_primitive_dispatch = None, at_primitive_dispatch_seconds = None,
     at_post_vad_primitive_dispatch_seconds = None, at_output_summary = None, at_output_summary_seconds = None,
     at_post_vad_output_summary_seconds = None \<rparr>"

text \<open>What the callbacks do; of an event for the user its stage is kept, of a database that it was opened or closed.\<close>

datatype 'o host_effect =
    Hx_emit string
  | Hx_checkpoint
  | Hx_inputs
  | Hx_conversation
  | Hx_note string
  | Hx_retrieve 'o 'o
  | Hx_execute string string
  | Hx_open
  | Hx_dispatch 'o
  | Hx_summarize string "string option"
  | Hx_message string string
  | Hx_close
  | Hx_remember string
  | Hx_write 'o

record 'o host_state =
  hs_cycles :: "string \<rightharpoonup> 'o cycle_state"
  hs_attempts :: "string \<rightharpoonup> 'o attempt_state"
  hs_cycle_number :: nat
  hs_attempt_number :: nat
  hs_live :: "live_context option"
  hs_effects :: "'o host_effect list"

definition new_host :: "live_context option \<Rightarrow> 'o host_state" where
  "new_host live = \<lparr> hs_cycles = Map.empty, hs_attempts = Map.empty, hs_cycle_number = 0, hs_attempt_number = 0,
     hs_live = live, hs_effects = [] \<rparr>"

text \<open>
  The surroundings. A recorder that the turn flow lacks is \<open>None\<close>, as are a missing turn control and
  planner; every other argument maps the number of effects so far to what the call answers then.
\<close>

record 'o host_world =
  hw_current_user_request :: string
  hw_conversation_id :: "string option"
  hw_post_vad_started_at :: real
  hw_control :: "(nat \<Rightarrow> turn_control) option"
  hw_perf_counter :: "nat \<Rightarrow> real"
  hw_wall_clock :: "nat \<Rightarrow> nat"
  hw_time_text :: time_text
  hw_voice_turn_inputs :: "nat \<Rightarrow> py_error + 'o"
  hw_current_conversation :: "nat \<Rightarrow> py_error + 'o"
  hw_task_conversation_scope :: "nat \<Rightarrow> py_error + 'o"
  hw_update :: "'o \<Rightarrow> 'o \<Rightarrow> 'o"
  hw_with_request :: "string \<Rightarrow> 'o \<Rightarrow> 'o"
  hw_record_task_choice :: "(nat \<Rightarrow> py_error option) option"
  hw_record_understanding :: "(nat \<Rightarrow> py_error option) option"
  hw_record_continuation :: "(nat \<Rightarrow> py_error option) option"
  hw_retrieve :: "nat \<Rightarrow> 'o \<Rightarrow> 'o \<Rightarrow> py_error + 'o"
  hw_empty_context :: 'o
  hw_retrieved_memory_graph :: "'o \<Rightarrow> 'o"
  hw_task_execution :: "(nat \<Rightarrow> string \<Rightarrow> string \<Rightarrow> py_error + 'o) option"
  hw_has_returns :: "'o \<Rightarrow> bool"
  hw_open_memory_database :: "nat \<Rightarrow> py_error option"
  hw_close_memory_database :: "nat \<Rightarrow> py_error option"
  hw_dispatch :: "nat \<Rightarrow> 'o \<Rightarrow> py_error + 'o"
  hw_task_history_id :: "'o \<Rightarrow> string option"
  hw_summarize :: "nat \<Rightarrow> string \<Rightarrow> string option \<Rightarrow> py_error + string"
  hw_close_summarizer :: "nat \<Rightarrow> py_error option"
  hw_add_message :: "nat \<Rightarrow> string \<Rightarrow> string \<Rightarrow> py_error option"
  hw_write_candidate_memories :: "nat \<Rightarrow> 'o \<Rightarrow> py_error option"

section \<open>Sequencing\<close>

type_synonym ('o, 'a) host_op = "'o host_state \<Rightarrow> (py_error + 'a) \<times> 'o host_state"

definition host_return :: "'a \<Rightarrow> ('o, 'a) host_op" where
  "host_return x s = (Inr x, s)"

definition host_raise :: "py_error \<Rightarrow> ('o, 'a) host_op" where
  "host_raise e s = (Inl e, s)"

definition host_then :: "('o, 'a) host_op \<Rightarrow> ('a \<Rightarrow> ('o, 'b) host_op) \<Rightarrow> ('o, 'b) host_op" where
  "host_then m f s = (case m s of (Inl e, s1) \<Rightarrow> (Inl e, s1) | (Inr x, s1) \<Rightarrow> f x s1)"

text \<open>\<open>try: m finally: f\<close>.\<close>

definition host_finally :: "('o, 'a) host_op \<Rightarrow> ('o, unit) host_op \<Rightarrow> ('o, 'a) host_op" where
  "host_finally m f s = (case m s of (r, s1) \<Rightarrow> (case f s1 of (Inl e, s2) \<Rightarrow> (Inl e, s2) | (Inr _, s2) \<Rightarrow> (r, s2)))"

definition host_now :: "'o host_state \<Rightarrow> nat" where
  "host_now s = length (hs_effects s)"

text \<open>An effect with the answer of its call, read before it.\<close>

definition host_call :: "'o host_effect \<Rightarrow> (nat \<Rightarrow> py_error + 'a) \<Rightarrow> ('o, 'a) host_op" where
  "host_call e answer s = (answer (host_now s), s\<lparr> hs_effects := hs_effects s @ [e] \<rparr>)"

definition host_do :: "'o host_effect \<Rightarrow> (nat \<Rightarrow> py_error option) \<Rightarrow> ('o, unit) host_op" where
  "host_do e answer = host_call e (\<lambda>n. case answer n of None \<Rightarrow> Inr () | Some err \<Rightarrow> Inl err)"

definition host_emit :: "string \<Rightarrow> ('o, unit) host_op" where
  "host_emit stage = host_do (Hx_emit stage) (\<lambda>_. None)"

definition emit_candidate_memory :: "string option \<Rightarrow> ('o, unit) host_op" where
  "emit_candidate_memory candidate =
     (case candidate of None \<Rightarrow> host_return () | Some _ \<Rightarrow> host_emit ''candidate-memory'')"

definition host_checkpoint :: "'o host_world \<Rightarrow> ('o, unit) host_op" where
  "host_checkpoint w =
     (case hw_control w of
        None \<Rightarrow> host_return ()
      | Some ctl \<Rightarrow> host_call Hx_checkpoint (\<lambda>n. checkpoint (ctl n)))"

definition perf_counter :: "'o host_world \<Rightarrow> ('o, real) host_op" where
  "perf_counter w s = (Inr (hw_perf_counter w (host_now s)), s)"

definition post_vad_seconds :: "'o host_world \<Rightarrow> ('o, real) host_op" where
  "post_vad_seconds w s = (Inr (hw_perf_counter w (host_now s) - hw_post_vad_started_at w), s)"

definition get_cycle :: "string \<Rightarrow> ('o, 'o cycle_state) host_op" where
  "get_cycle cycle_id s = ((case hs_cycles s cycle_id of None \<Rightarrow> Inl (KeyError cycle_id) | Some c \<Rightarrow> Inr c), s)"

definition get_attempt :: "string \<Rightarrow> ('o, 'o attempt_state) host_op" where
  "get_attempt attempt_id s = ((case hs_attempts s attempt_id of None \<Rightarrow> Inl (KeyError attempt_id) | Some a \<Rightarrow> Inr a), s)"

definition set_cycle :: "string \<Rightarrow> ('o cycle_state \<Rightarrow> 'o cycle_state) \<Rightarrow> ('o, unit) host_op" where
  "set_cycle cycle_id f s = (Inr (), s\<lparr> hs_cycles := (hs_cycles s)(cycle_id := map_option f (hs_cycles s cycle_id)) \<rparr>)"

definition set_attempt :: "string \<Rightarrow> ('o attempt_state \<Rightarrow> 'o attempt_state) \<Rightarrow> ('o, unit) host_op" where
  "set_attempt attempt_id f s = (Inr (), s\<lparr> hs_attempts := (hs_attempts s)(attempt_id := map_option f (hs_attempts s attempt_id)) \<rparr>)"

section \<open>Side effects\<close>

type_synonym 'a timed = "'a option \<times> real option \<times> real option"

text \<open>Around a call: the stage before it, the seconds it took, the stage after it and the seconds since the utterance.\<close>

definition timed_call :: "'o host_world \<Rightarrow> string \<Rightarrow> ('o, 'a) host_op \<Rightarrow> string \<Rightarrow> ('o, 'a timed) host_op" where
  "timed_call w before m after =
     host_then (host_emit before) (\<lambda>_.
     host_then (perf_counter w) (\<lambda>started_at.
     host_then m (\<lambda>result.
     host_then (perf_counter w) (\<lambda>ended_at.
     host_then (host_emit after) (\<lambda>_.
     host_then (post_vad_seconds w) (\<lambda>post_seconds.
     host_return (Some result, Some (ended_at - started_at), Some post_seconds)))))))"

definition fx_retrieve_memories :: "'o host_world \<Rightarrow> 'o option \<Rightarrow> 'o option \<Rightarrow> ('o, 'o timed) host_op" where
  "fx_retrieve_memories w hints depths =
     (case (hints, depths) of
        (Some h, Some d) \<Rightarrow>
          timed_call w ''memory-retrieval'' (host_call (Hx_retrieve h d) (\<lambda>n. hw_retrieve w n h d)) ''memory-retrieved''
      | _ \<Rightarrow> host_return (None, None, None))"

definition fx_execute_task ::
  "'o host_world \<Rightarrow> task_choice_decision option \<Rightarrow> string option \<Rightarrow> ('o, 'o timed) host_op" where
  "fx_execute_task w task_choice task_prompt =
     (case (hw_task_execution w, task_choice, task_prompt) of
        (Some planner, Some choice, Some prompt) \<Rightarrow>
          timed_call w ''task-execution''
            (host_call (Hx_execute (ch_selected_task_id choice) prompt) (\<lambda>n. planner n (ch_selected_task_id choice) prompt))
            ''task-executed''
      | _ \<Rightarrow> host_return (None, None, None))"

text \<open>\<open>database = await open_memory_database()\<close>, \<open>try: m finally: await database.close()\<close>.\<close>

definition with_database :: "'o host_world \<Rightarrow> ('o, 'a) host_op \<Rightarrow> ('o, 'a) host_op" where
  "with_database w m s =
     (case hw_open_memory_database w (host_now s) of
        Some e \<Rightarrow> (Inl e, s)
      | None \<Rightarrow>
          host_then (host_do Hx_open (\<lambda>_. None)) (\<lambda>_.
            host_finally m (host_do Hx_close (hw_close_memory_database w))) s)"

definition fx_dispatch_primitives :: "'o host_world \<Rightarrow> 'o option \<Rightarrow> ('o, 'o timed) host_op" where
  "fx_dispatch_primitives w execution =
     (case execution of
        None \<Rightarrow> host_return (None, None, None)
      | Some x \<Rightarrow>
          if \<not> hw_has_returns w x then host_return (None, None, None)
          else timed_call w ''primitive-dispatch''
                 (with_database w (host_call (Hx_dispatch x) (\<lambda>n. hw_dispatch w n x))) ''primitive-dispatched'')"

definition fx_summarize_action_history ::
  "'o host_world \<Rightarrow> 'o option \<Rightarrow> task_choice_decision option \<Rightarrow> ('o, string timed) host_op" where
  "fx_summarize_action_history w dispatch task_choice =
     (case Option.bind dispatch (hw_task_history_id w) of
        None \<Rightarrow> host_return (None, None, None)
      | Some history \<Rightarrow>
          (let task_id = map_option ch_selected_task_id task_choice
           in timed_call w ''action-history-summary''
                (host_finally (host_call (Hx_summarize history task_id) (\<lambda>n. hw_summarize w n history task_id))
                   (host_do (Hx_note ''close-summarizer'') (hw_close_summarizer w)))
                ''action-history-summarized''))"

definition add_live_reply :: "'o host_world \<Rightarrow> string \<Rightarrow> ('o, unit) host_op" where
  "add_live_reply w clean s =
     (case hs_live s of
        None \<Rightarrow> (Inr (), s)
      | Some live \<Rightarrow>
          (case live_add_message (hw_time_text w) (hw_wall_clock w (host_now s)) (hw_conversation_id w) ''validation_reply'' clean live of
             (r, live1) \<Rightarrow>
               (map_sum id (\<lambda>_. ()) r, s\<lparr> hs_effects := hs_effects s @ [Hx_remember clean], hs_live := Some live1 \<rparr>)))"

definition store_message :: "'o host_world \<Rightarrow> string \<Rightarrow> string \<Rightarrow> ('o, unit) host_op" where
  "store_message w role content =
     with_database w (host_do (Hx_message role content) (\<lambda>n. hw_add_message w n role content))"

definition fx_record_validation_reply :: "'o host_world \<Rightarrow> string option \<Rightarrow> ('o, unit) host_op" where
  "fx_record_validation_reply w reply =
     (let clean = normalize_ws (case reply of None \<Rightarrow> [] | Some r \<Rightarrow> r)
      in if clean = [] then host_return ()
         else
           host_then (add_live_reply w clean) (\<lambda>_.
           host_then (if hw_conversation_id w = None then host_return () else store_message w ''validation_reply'' clean) (\<lambda>_.
           host_emit ''validation-reply'')))"

text \<open>The body of the thread that records the request of the user.\<close>

definition fx_record_human_reply :: "'o host_world \<Rightarrow> string \<Rightarrow> ('o, unit) host_op" where
  "fx_record_human_reply w transcript =
     host_then (store_message w ''human'' transcript) (\<lambda>_. host_emit ''conversation-context'')"

section \<open>Callbacks\<close>

definition cycle_name :: "nat \<Rightarrow> string" where
  "cycle_name n = ''voice-cycle-'' @ py_str_nat n"

definition attempt_name :: "nat \<Rightarrow> string" where
  "attempt_name n = ''task-attempt-'' @ py_str_nat n"

definition next_cycle_id :: "('o, string) host_op" where
  "next_cycle_id s = (let n = Suc (hs_cycle_number s) in (Inr (cycle_name n), s\<lparr> hs_cycle_number := n \<rparr>))"

definition next_attempt_id :: "('o, string) host_op" where
  "next_attempt_id s = (let n = Suc (hs_attempt_number s) in (Inr (attempt_name n), s\<lparr> hs_attempt_number := n \<rparr>))"

definition put_cycle :: "string \<Rightarrow> 'o cycle_state \<Rightarrow> ('o, unit) host_op" where
  "put_cycle cycle_id c s = (Inr (), s\<lparr> hs_cycles := (hs_cycles s)(cycle_id \<mapsto> c) \<rparr>)"

definition put_attempt :: "string \<Rightarrow> 'o attempt_state \<Rightarrow> ('o, unit) host_op" where
  "put_attempt attempt_id a s = (Inr (), s\<lparr> hs_attempts := (hs_attempts s)(attempt_id \<mapsto> a) \<rparr>)"

definition load_context :: "'o host_world \<Rightarrow> ('o, string \<times> 'o) host_op" where
  "load_context w =
     host_then next_cycle_id (\<lambda>cycle_id.
     host_then (host_call Hx_inputs (hw_voice_turn_inputs w)) (\<lambda>inputs.
     host_then (put_cycle cycle_id (new_cycle (hw_with_request w (hw_current_user_request w) inputs))) (\<lambda>_.
     host_return (cycle_id, inputs))))"

definition load_request_conversation :: "'o host_world \<Rightarrow> ('o, 'o) host_op" where
  "load_request_conversation w = host_call Hx_conversation (hw_current_conversation w)"

text \<open>A recorder of the turn flow runs when there is one and the cycle has its inputs.\<close>

definition run_recorder :: "string \<Rightarrow> (nat \<Rightarrow> py_error option) option \<Rightarrow> bool \<Rightarrow> ('o, unit) host_op" where
  "run_recorder name recorder ready =
     (case recorder of
        None \<Rightarrow> host_return ()
      | Some r \<Rightarrow> if ready then host_do (Hx_note name) r else host_return ())"

definition report_task_choice :: "'o host_world \<Rightarrow> string \<Rightarrow> task_choice_decision \<Rightarrow> ('o, bool) host_op" where
  "report_task_choice w cycle_id task_choice =
     host_then (get_cycle cycle_id) (\<lambda>cycle.
     host_then (run_recorder ''record_task_choice'' (hw_record_task_choice w) (cy_context_inputs cycle \<noteq> None)) (\<lambda>_.
     host_then (host_emit ''task-chosen'') (\<lambda>_.
     host_then (emit_candidate_memory (ch_candidate_memory task_choice)) (\<lambda>_.
     host_then (host_checkpoint w) (\<lambda>_.
     host_return True)))))"

definition retrieve_memories :: "'o host_world \<Rightarrow> string \<Rightarrow> 'o understanding \<Rightarrow> ('o, 'o) host_op" where
  "retrieve_memories w cycle_id u =
     host_then (get_cycle cycle_id) (\<lambda>cycle.
     host_then (set_cycle cycle_id (\<lambda>c. c\<lparr> cy_understanding := Some u \<rparr>)) (\<lambda>_.
     host_then (run_recorder ''record_understanding'' (hw_record_understanding w) (cy_context_inputs cycle \<noteq> None)) (\<lambda>_.
     host_then (post_vad_seconds w) (\<lambda>seconds.
     host_then (set_cycle cycle_id (\<lambda>c. c\<lparr> cy_post_vad_understanding_seconds := Some seconds \<rparr>)) (\<lambda>_.
     host_then (host_emit ''memory-search-hints'') (\<lambda>_.
     host_then (emit_candidate_memory (un_hints_candidate u)) (\<lambda>_.
     host_then (host_emit ''search-depths'') (\<lambda>_.
     host_then (emit_candidate_memory (un_depths_candidate u)) (\<lambda>_.
     host_then (host_checkpoint w) (\<lambda>_.
     host_then (fx_retrieve_memories w (Some (un_memory_search_hints u)) (Some (un_search_depths u))) (\<lambda>(result, seconds, post_seconds).
     host_then (set_cycle cycle_id (\<lambda>c. c\<lparr> cy_retrieved_memories := result, cy_memory_retrieval_seconds := seconds,
       cy_post_vad_memory_retrieval_seconds := post_seconds \<rparr>)) (\<lambda>_.
     host_then (host_checkpoint w) (\<lambda>_.
     (let graph = hw_retrieved_memory_graph w (case result of None \<Rightarrow> hw_empty_context w | Some r \<Rightarrow> r)
      in host_then (set_cycle cycle_id (\<lambda>c. c\<lparr> cy_retrieved_memory_graph := Some graph \<rparr>)) (\<lambda>_.
         host_return graph)))))))))))))))"

definition load_task_conversation_scope :: "'o host_world \<Rightarrow> ('o, 'o) host_op" where
  "load_task_conversation_scope w =
     host_then (host_call Hx_conversation (hw_task_conversation_scope w)) (\<lambda>scope s.
     host_then (set_cycle (cycle_name (hs_cycle_number s))
         (\<lambda>c. c\<lparr> cy_context_inputs := map_option (\<lambda>i. hw_update w i scope) (cy_context_inputs c) \<rparr>)) (\<lambda>_.
     host_return scope) s)"

definition report_continuation :: "'o host_world \<Rightarrow> string \<Rightarrow> 'o cycle_state \<Rightarrow> continuation \<Rightarrow> ('o, unit) host_op" where
  "report_continuation w cycle_id cycle co =
     (if cy_post_vad_continuation_seconds cycle \<noteq> None then host_return ()
      else
        host_then (run_recorder ''record_continuation'' (hw_record_continuation w)
           (cy_context_inputs cycle \<noteq> None \<and> cy_understanding cycle \<noteq> None \<and> cy_retrieved_memory_graph cycle \<noteq> None)) (\<lambda>_.
        host_then (post_vad_seconds w) (\<lambda>seconds.
        host_then (set_cycle cycle_id (\<lambda>c. c\<lparr> cy_post_vad_continuation_seconds := Some seconds \<rparr>)) (\<lambda>_.
        host_then (host_emit ''memory-relevance-decision'') (\<lambda>_.
        host_then (emit_candidate_memory (co_relevance_candidate co)) (\<lambda>_.
        host_then (host_emit ''task-prompt-generated'') (\<lambda>_.
        host_then (emit_candidate_memory (co_prompt_candidate co)) (\<lambda>_.
        host_checkpoint w))))))))"

definition execute_task ::
  "'o host_world \<Rightarrow> string \<Rightarrow> task_choice_decision option \<Rightarrow> string \<Rightarrow> continuation \<Rightarrow> ('o, string \<times> 'o option) host_op" where
  "execute_task w cycle_id task_choice full_prompt co =
     host_then (get_cycle cycle_id) (\<lambda>cycle.
     host_then (report_continuation w cycle_id cycle co) (\<lambda>_.
     host_then next_attempt_id (\<lambda>attempt_id.
     host_then (fx_execute_task w task_choice (Some full_prompt)) (\<lambda>(execution, seconds, post_seconds).
     host_then (host_checkpoint w) (\<lambda>_.
     host_then (put_attempt attempt_id (new_attempt execution seconds post_seconds)) (\<lambda>_.
     host_return (attempt_id, execution)))))))"

definition dispatch_task_outputs :: "'o host_world \<Rightarrow> string \<Rightarrow> ('o, bool) host_op" where
  "dispatch_task_outputs w attempt_id =
     host_then (get_attempt attempt_id) (\<lambda>attempt.
     host_then (fx_dispatch_primitives w (at_task_execution attempt)) (\<lambda>(dispatch, seconds, post_seconds).
     host_then (host_checkpoint w) (\<lambda>_.
     host_then (set_attempt attempt_id (\<lambda>a. a\<lparr> at_primitive_dispatch := dispatch, at_primitive_dispatch_seconds := seconds,
       at_post_vad_primitive_dispatch_seconds := post_seconds \<rparr>)) (\<lambda>_.
     host_return True))))"

definition summarize_task_actions :: "'o host_world \<Rightarrow> string \<Rightarrow> task_choice_decision option \<Rightarrow> ('o, string option) host_op" where
  "summarize_task_actions w attempt_id task_choice =
     host_then (get_attempt attempt_id) (\<lambda>attempt.
     host_then (fx_summarize_action_history w (at_primitive_dispatch attempt) task_choice) (\<lambda>(summary, seconds, post_seconds).
     host_then (host_checkpoint w) (\<lambda>_.
     host_then (set_attempt attempt_id (\<lambda>a. a\<lparr> at_output_summary := summary, at_output_summary_seconds := seconds,
       at_post_vad_output_summary_seconds := post_seconds \<rparr>)) (\<lambda>_.
     host_return summary))))"

definition record_validation_reply :: "'o host_world \<Rightarrow> string option \<Rightarrow> ('o, bool) host_op" where
  "record_validation_reply w reply =
     host_then (fx_record_validation_reply w reply) (\<lambda>_.
     host_then (host_checkpoint w) (\<lambda>_. host_return True))"

definition host_write_candidate_memories :: "'o host_world \<Rightarrow> 'o \<Rightarrow> ('o, bool) host_op" where
  "host_write_candidate_memories w batch =
     host_then (host_do (Hx_write batch) (\<lambda>n. hw_write_candidate_memories w n batch)) (\<lambda>_.
     host_then (host_checkpoint w) (\<lambda>_. host_return True))"

section \<open>The flow\<close>

text \<open>A call of the generated flow and the value it gets back; an error ends the flow.\<close>

datatype 'o flow_call =
    Load_context
  | Load_request_conversation
  | Load_task_conversation_scope
  | Report_task_choice string task_choice_decision
  | Retrieve_memories string "'o understanding"
  | Execute_task string "task_choice_decision option" string continuation
  | Dispatch_task_outputs string
  | Summarize_task_actions string "task_choice_decision option"
  | Record_validation_reply "string option"
  | Write_candidate_memories 'o

datatype 'o flow_value =
    V_context string 'o
  | V_execution string "'o option"
  | V_object 'o
  | V_text "string option"
  | V_bool bool

definition host_map :: "('a \<Rightarrow> 'b) \<Rightarrow> ('o, 'a) host_op \<Rightarrow> ('o, 'b) host_op" where
  "host_map f m = host_then m (\<lambda>x. host_return (f x))"

fun callback :: "'o host_world \<Rightarrow> 'o flow_call \<Rightarrow> ('o, 'o flow_value) host_op" where
  "callback w Load_context = host_map (\<lambda>(i, x). V_context i x) (load_context w)"
| "callback w Load_request_conversation = host_map V_object (load_request_conversation w)"
| "callback w Load_task_conversation_scope = host_map V_object (load_task_conversation_scope w)"
| "callback w (Report_task_choice cycle choice) = host_map V_bool (report_task_choice w cycle choice)"
| "callback w (Retrieve_memories cycle u) = host_map V_object (retrieve_memories w cycle u)"
| "callback w (Execute_task cycle choice prompt co) = host_map (\<lambda>(i, x). V_execution i x) (execute_task w cycle choice prompt co)"
| "callback w (Dispatch_task_outputs attempt) = host_map V_bool (dispatch_task_outputs w attempt)"
| "callback w (Summarize_task_actions attempt choice) = host_map V_text (summarize_task_actions w attempt choice)"
| "callback w (Record_validation_reply reply) = host_map V_bool (record_validation_reply w reply)"
| "callback w (Write_candidate_memories batch) = host_map V_bool (host_write_candidate_memories w batch)"

text \<open>The calls of one turn, each with what the flow decided from the values before it.\<close>

fun host_run :: "'o host_world \<Rightarrow> 'o flow_call list \<Rightarrow> 'o host_state \<Rightarrow> 'o flow_value list \<times> py_error option \<times> 'o host_state" where
  "host_run w [] s = ([], None, s)"
| "host_run w (c # cs) s =
     (case callback w c s of
        (Inl e, s1) \<Rightarrow> ([], Some e, s1)
      | (Inr v, s1) \<Rightarrow> (case host_run w cs s1 of (vs, r, s2) \<Rightarrow> (v # vs, r, s2)))"


section \<open>What an operation logs\<close>

text \<open>
  \<open>op_log Q m\<close>: whatever the state, \<open>m\<close> only adds to the log, and \<open>Q\<close> holds of the number of effects
  before it, whether it returned and what it added.
\<close>

definition op_log :: "(nat \<Rightarrow> bool \<Rightarrow> 'o host_effect list \<Rightarrow> bool) \<Rightarrow> ('o, 'a) host_op \<Rightarrow> bool" where
  "op_log Q m \<longleftrightarrow> (\<forall>s. \<exists>es. hs_effects (snd (m s)) = hs_effects s @ es \<and> Q (host_now s) (isl (fst (m s))) es)"

lemma op_log_then:
  assumes "op_log Q m" "\<And>x. op_log R (f x)"
    and "\<And>n es. Q n True es \<Longrightarrow> T n True es"
    and "\<And>n b es fs. Q n False es \<Longrightarrow> R (n + length es) b fs \<Longrightarrow> T n b (es @ fs)"
  shows "op_log T (host_then m f)"
  unfolding op_log_def
proof
  fix s
  obtain r s1 where m: "m s = (r, s1)" by fastforce
  obtain es where es: "hs_effects s1 = hs_effects s @ es" "Q (host_now s) (isl r) es"
    using assms(1) m unfolding op_log_def by (metis fst_conv snd_conv)
  show "\<exists>es. hs_effects (snd (host_then m f s)) = hs_effects s @ es \<and> T (host_now s) (isl (fst (host_then m f s))) es"
  proof (cases r)
    case (Inl e)
    then show ?thesis using es assms(3) by (auto simp: host_then_def m)
  next
    case (Inr x)
    obtain fs where fs: "hs_effects (snd (f x s1)) = hs_effects s1 @ fs" "R (host_now s1) (isl (fst (f x s1))) fs"
      using assms(2) unfolding op_log_def by blast
    have "host_now s1 = host_now s + length es" by (simp add: host_now_def es(1))
    then show ?thesis using es fs assms(4) by (auto simp: host_then_def m Inr)
  qed
qed

lemma op_log_mono: "op_log Q m \<Longrightarrow> (\<And>n b es. Q n b es \<Longrightarrow> R n b es) \<Longrightarrow> op_log R m"
  unfolding op_log_def by blast

lemma op_log_call: "(\<And>n. Q n (isl (answer n)) [e]) \<Longrightarrow> op_log Q (host_call e answer)"
  by (auto simp: op_log_def host_call_def)

lemma op_log_none:
  assumes "\<And>s. hs_effects (snd (m s)) = hs_effects s" "\<And>n b. Q n b []"
  shows "op_log Q m"
  using assms by (simp add: op_log_def)

text \<open>The effects that leave the process: memory, the language model, the actions of a task.\<close>

fun outside :: "'o host_effect \<Rightarrow> bool" where
  "outside (Hx_retrieve _ _) = True"
| "outside (Hx_execute _ _) = True"
| "outside (Hx_dispatch _) = True"
| "outside (Hx_summarize _ _) = True"
| "outside (Hx_message _ _) = True"
| "outside (Hx_write _) = True"
| "outside _ = False"

definition all_inside :: "'o host_effect list \<Rightarrow> bool" where
  "all_inside es \<longleftrightarrow> filter outside es = []"

definition few_outside :: "'o host_effect list \<Rightarrow> bool" where
  "few_outside es \<longleftrightarrow> length (filter outside es) \<le> 1"

definition passed :: "(nat \<Rightarrow> turn_control) \<Rightarrow> nat \<Rightarrow> 'o host_effect list \<Rightarrow> bool" where
  "passed ctl n es \<longleftrightarrow> (\<exists>k < length es. es ! k = Hx_checkpoint \<and> \<not> vt_cancelled (ctl (n + k)))"

text \<open>At most one effect outside, and after it, unless an error ended the call, a checkpoint that was passed.\<close>

definition tidy_log :: "(nat \<Rightarrow> turn_control) \<Rightarrow> nat \<Rightarrow> bool \<Rightarrow> 'o host_effect list \<Rightarrow> bool" where
  "tidy_log ctl n failed es \<longleftrightarrow>
     length (filter outside es) \<le> 1 \<and>
     (\<not> failed \<longrightarrow> all_inside es \<or> (\<exists>es1 es2. es = es1 @ es2 \<and> all_inside es2 \<and> passed ctl (n + length es1) es2))"

abbreviation inward :: "('o, 'a) host_op \<Rightarrow> bool" where
  "inward m \<equiv> op_log (\<lambda>_ _ es. all_inside es) m"

abbreviation acting :: "('o, 'a) host_op \<Rightarrow> bool" where
  "acting m \<equiv> op_log (\<lambda>_ _ es. few_outside es) m"

abbreviation closing :: "(nat \<Rightarrow> turn_control) \<Rightarrow> ('o, 'a) host_op \<Rightarrow> bool" where
  "closing ctl m \<equiv> op_log (\<lambda>n failed es. all_inside es \<and> (\<not> failed \<longrightarrow> passed ctl n es)) m"

abbreviation tidy :: "(nat \<Rightarrow> turn_control) \<Rightarrow> ('o, 'a) host_op \<Rightarrow> bool" where
  "tidy ctl m \<equiv> op_log (tidy_log ctl) m"

lemma inside_append [simp]: "all_inside (es @ fs) \<longleftrightarrow> all_inside es \<and> all_inside fs"
  by (simp add: all_inside_def)

lemma inside_Nil [simp]: "all_inside []"
  by (simp add: all_inside_def)

lemma inside_Cons [simp]: "all_inside (e # es) \<longleftrightarrow> \<not> outside e \<and> all_inside es"
  by (simp add: all_inside_def)

lemma passed_prepend: "passed ctl (n + length es) fs \<Longrightarrow> passed ctl n (es @ fs)"
  unfolding passed_def by (metis add.assoc length_append nat_add_left_cancel_less nth_append_length_plus)

lemma passed_append: "passed ctl n es \<Longrightarrow> passed ctl n (es @ fs)"
  unfolding passed_def by (metis length_append nth_append trans_less_add1)

lemma inward_then: "inward m \<Longrightarrow> (\<And>x. inward (f x)) \<Longrightarrow> inward (host_then m f)"
  by (rule op_log_then, assumption, assumption) auto

lemma acting_then: "inward m \<Longrightarrow> (\<And>x. acting (f x)) \<Longrightarrow> acting (host_then m f)"
  by (rule op_log_then, assumption, assumption) (auto simp: all_inside_def few_outside_def)

lemma acted_then: "acting m \<Longrightarrow> (\<And>x. inward (f x)) \<Longrightarrow> acting (host_then m f)"
  by (rule op_log_then, assumption, assumption) (auto simp: all_inside_def few_outside_def)

lemma closing_then: "inward m \<Longrightarrow> (\<And>x. closing ctl (f x)) \<Longrightarrow> closing ctl (host_then m f)"
  by (rule op_log_then, assumption, assumption) (auto intro: passed_prepend)

lemma closed_then: "closing ctl m \<Longrightarrow> (\<And>x. inward (f x)) \<Longrightarrow> closing ctl (host_then m f)"
  by (rule op_log_then, assumption, assumption) (auto intro: passed_append)

lemma tidy_silent: "inward m \<Longrightarrow> tidy ctl m"
  by (erule op_log_mono) (simp add: tidy_log_def all_inside_def)

lemma tidy_then: "inward m \<Longrightarrow> (\<And>x. tidy ctl (f x)) \<Longrightarrow> tidy ctl (host_then m f)"
proof (rule op_log_then, assumption, assumption)
  fix n b and es fs :: "'a host_effect list"
  assume "all_inside es" "tidy_log ctl (n + length es) b fs"
  then show "tidy_log ctl n b (es @ fs)"
    unfolding tidy_log_def by (fastforce simp: all_inside_def add.assoc simp flip: append_assoc length_append)
qed (auto simp: tidy_log_def all_inside_def)

lemma tidy_acted: "acting m \<Longrightarrow> (\<And>x. closing ctl (f x)) \<Longrightarrow> tidy ctl (host_then m f)"
  by (rule op_log_then, assumption, assumption) (auto simp: tidy_log_def all_inside_def few_outside_def)

lemma op_log_finally:
  assumes "op_log Q m" "op_log R f" and "\<And>n b b1 es fs. Q n b es \<Longrightarrow> R (n + length es) b1 fs \<Longrightarrow> T n (b \<or> b1) (es @ fs)"
  shows "op_log T (host_finally m f)"
  unfolding op_log_def
proof
  fix s
  obtain r s1 where m: "m s = (r, s1)" by fastforce
  obtain r1 s2 where f: "f s1 = (r1, s2)" by fastforce
  obtain es where es: "hs_effects s1 = hs_effects s @ es" "Q (host_now s) (isl r) es"
    using assms(1) m unfolding op_log_def by (metis fst_conv snd_conv)
  obtain fs where fs: "hs_effects s2 = hs_effects s1 @ fs" "R (host_now s1) (isl r1) fs"
    using assms(2) f unfolding op_log_def by (metis fst_conv snd_conv)
  have "host_now s1 = host_now s + length es" by (simp add: host_now_def es(1))
  then have "T (host_now s) (isl r \<or> isl r1) (es @ fs)" using es fs assms(3) by simp
  then show "\<exists>es. hs_effects (snd (host_finally m f s)) = hs_effects s @ es \<and> T (host_now s) (isl (fst (host_finally m f s))) es"
    using es fs by (cases r1) (auto simp: host_finally_def m f)
qed

lemma op_log_do: "(\<And>n b. Q n b [e]) \<Longrightarrow> op_log Q (host_do e answer)"
  unfolding host_do_def by (rule op_log_call) simp

lemma op_log_pure:
  assumes "\<And>n b. Q n b []"
  shows "op_log Q (host_return x)" "op_log Q (get_cycle i)" "op_log Q (get_attempt i)" "op_log Q (set_cycle i f)"
    "op_log Q (set_attempt i g)" "op_log Q (put_cycle i c)" "op_log Q (put_attempt i a)" "op_log Q next_cycle_id"
    "op_log Q next_attempt_id" "op_log Q (perf_counter w)" "op_log Q (post_vad_seconds w)"
  by (auto intro!: op_log_none assms simp: host_return_def get_cycle_def get_attempt_def set_cycle_def set_attempt_def
      put_cycle_def put_attempt_def next_cycle_id_def next_attempt_id_def perf_counter_def post_vad_seconds_def Let_def)

lemma op_log_emit: "(\<And>n b. Q n b [Hx_emit stage]) \<Longrightarrow> op_log Q (host_emit stage)"
  unfolding host_emit_def by (rule op_log_do)

lemma op_log_candidate: "(\<And>n b. Q n b []) \<Longrightarrow> (\<And>n b. Q n b [Hx_emit ''candidate-memory'']) \<Longrightarrow> op_log Q (emit_candidate_memory c)"
  by (auto simp: emit_candidate_memory_def intro: op_log_emit op_log_pure split: option.splits)

lemma op_log_recorder: "(\<And>n b. Q n b []) \<Longrightarrow> (\<And>n b. Q n b [Hx_note name]) \<Longrightarrow> op_log Q (run_recorder name r ready)"
  by (auto simp: run_recorder_def intro: op_log_do op_log_pure split: option.splits)

lemma op_log_checkpoint: "(\<And>n b. Q n b []) \<Longrightarrow> (\<And>n b. Q n b [Hx_checkpoint]) \<Longrightarrow> op_log Q (host_checkpoint w)"
  by (auto simp: host_checkpoint_def intro: op_log_call op_log_pure split: option.splits)

lemma op_log_with_database:
  assumes "op_log (\<lambda>_ _. P) m" "\<And>es. P es \<Longrightarrow> R ([Hx_open] @ es @ [Hx_close])" "R []"
  shows "op_log (\<lambda>_ _. R) (with_database w m)"
proof -
  let ?f = "host_do Hx_close (hw_close_memory_database w)"
  have opened: "op_log (\<lambda>_ failed es. \<not> failed \<and> es = [Hx_open]) (host_do Hx_open (\<lambda>_. None))"
    unfolding host_do_def by (rule op_log_call) simp
  have "op_log (\<lambda>_ _ es. es = [Hx_close]) ?f" by (rule op_log_do) simp
  then have "op_log (\<lambda>_ _ es. \<exists>es1. P es1 \<and> es = es1 @ [Hx_close]) (host_finally m ?f)"
    by (rule op_log_finally[OF assms(1)]) blast
  then have "op_log (\<lambda>_ _. R) (host_then (host_do Hx_open (\<lambda>_. None)) (\<lambda>_. host_finally m ?f))"
    by (rule op_log_then[OF opened]) (use assms(2) in auto)
  then show ?thesis using assms(3) by (auto simp: op_log_def with_database_def split: option.splits)
qed

section \<open>Effects outside and checkpoints\<close>

lemmas inward_pure [inward_ops] = op_log_pure[where Q = "\<lambda>_ _ es. all_inside es", simplified]

lemma inward_basic [inward_ops]:
  "inward (host_emit stage)" "inward (emit_candidate_memory c)" "inward (run_recorder name r ready)" "inward (host_checkpoint w)"
  "inward (host_call Hx_inputs a)" "inward (host_call Hx_conversation b)" "inward (add_live_reply v clean)"
  by (auto intro!: op_log_emit op_log_candidate op_log_recorder op_log_checkpoint op_log_call)
    (auto simp: op_log_def add_live_reply_def split: option.splits prod.splits)

lemma acting_silent: "inward m \<Longrightarrow> acting m"
  by (erule op_log_mono) (simp add: all_inside_def few_outside_def)

lemma acting_call [acting_ops]: "acting (host_call e answer)" "acting (host_do e answer1)"
  by (auto intro!: op_log_call op_log_do simp: few_outside_def)

lemma acting_with_database [acting_ops]: "acting m \<Longrightarrow> acting (with_database w m)"
  by (erule op_log_with_database) (simp_all add: few_outside_def)

lemma acting_finally: "acting m \<Longrightarrow> inward f \<Longrightarrow> acting (host_finally m f)"
  by (rule op_log_finally, assumption, assumption) (simp add: all_inside_def few_outside_def)

lemma acting_timed [acting_ops]: "acting m \<Longrightarrow> acting (timed_call w before m after)"
  unfolding timed_call_def by (intro acting_then acted_then inward_then inward_ops) simp_all

lemma acting_return [acting_ops]: "acting (host_return x)"
  by (intro acting_silent inward_ops)

lemma acting_summarizer [acting_ops]:
  "acting (host_finally (host_call (Hx_summarize h t) a) (host_do (Hx_note ''close-summarizer'') b))"
  by (intro acting_finally acting_ops op_log_do) simp

lemma acting_effects [acting_ops]:
  "acting (fx_retrieve_memories w h d)" "acting (fx_execute_task w c p)" "acting (fx_dispatch_primitives w x)"
  "acting (fx_summarize_action_history w y c)" "acting (store_message w role content)"
  by (auto simp: fx_retrieve_memories_def fx_execute_task_def fx_dispatch_primitives_def fx_summarize_action_history_def
      store_message_def Let_def intro!: acting_ops split: option.splits)

lemma acting_reply [acting_ops]: "acting (fx_record_validation_reply w reply)"
proof -
  have "acting (host_then (if hw_conversation_id w = None then host_return () else store_message w role clean) (\<lambda>_. host_emit stage))"
    for role clean stage
    by (intro acted_then inward_ops) (auto intro: acting_ops)
  then show ?thesis by (auto simp: fx_record_validation_reply_def Let_def intro!: acting_then[OF inward_basic(7)] acting_ops)
qed

lemma closing_checkpoint: "hw_control w = Some ctl \<Longrightarrow> closing ctl (host_checkpoint w)"
  by (auto simp: host_checkpoint_def passed_def checkpoint_def intro!: op_log_call)

lemma inward_continuation [inward_ops]: "inward (report_continuation w i c co)"
  by (auto simp: report_continuation_def intro!: inward_then inward_ops)

lemma tidy_map: "tidy ctl m \<Longrightarrow> tidy ctl (host_map f m)"
  unfolding host_map_def
proof (rule op_log_then, assumption)
  show "op_log (\<lambda>_ failed es. \<not> failed \<and> es = []) (host_return (f x))" for x
    by (simp add: op_log_def host_return_def)
qed simp_all

lemma closing_end: "hw_control w = Some ctl \<Longrightarrow> (\<And>x. inward (f x)) \<Longrightarrow> closing ctl (host_then (host_checkpoint w) f)"
  by (rule closed_then[OF closing_checkpoint])

lemmas tidy_steps = inward_pure[THEN tidy_then] inward_basic[THEN tidy_then] inward_continuation[THEN tidy_then]
  acting_effects[THEN tidy_acted] acting_reply[THEN tidy_acted] acting_call(2)[THEN tidy_acted]

lemma inward_loads [inward_ops]:
  "inward (load_context w)" "inward (load_request_conversation w)" "inward (report_task_choice w i choice)"
  unfolding load_context_def load_request_conversation_def report_task_choice_def by (intro inward_then inward_ops)+

lemma inward_scope [inward_ops]: "inward (load_task_conversation_scope w)"
  unfolding load_task_conversation_scope_def
proof (rule inward_then)
  show "inward (\<lambda>s. host_then (set_cycle (cycle_name (hs_cycle_number s)) f) (\<lambda>_. host_return scope) s)" for f scope
    by (auto simp: op_log_def host_then_def set_cycle_def host_return_def)
qed (rule inward_ops)

lemma tidy_callback:
  assumes "hw_control w = Some ctl"
  shows "tidy ctl (callback w c)"
proof -
  note ends = closing_then closing_end[OF assms] inward_then inward_ops
  have "tidy ctl (retrieve_memories w i u)" for i u
    unfolding retrieve_memories_def Let_def by (intro tidy_steps) (auto intro!: ends)
  moreover have "tidy ctl (execute_task w i choice prompt co)" for i choice prompt co
    unfolding execute_task_def by (intro tidy_steps) (auto intro!: ends)
  moreover have "tidy ctl (dispatch_task_outputs w i)" "tidy ctl (summarize_task_actions w i choice)" for i choice
    unfolding dispatch_task_outputs_def summarize_task_actions_def by (intro tidy_steps; auto intro!: ends)+
  moreover have "tidy ctl (record_validation_reply w reply)" "tidy ctl (host_write_candidate_memories w batch)" for reply batch
    unfolding record_validation_reply_def host_write_candidate_memories_def by (intro tidy_steps; auto intro!: ends)+
  moreover note inward_loads[THEN tidy_silent, of ctl] inward_scope[THEN tidy_silent, of ctl]
  ultimately show ?thesis by (cases c) (auto intro!: tidy_map)
qed

definition separated :: "(nat \<Rightarrow> turn_control) \<Rightarrow> nat \<Rightarrow> 'o host_effect list \<Rightarrow> bool" where
  "separated ctl n es \<longleftrightarrow>
     (\<forall>i j. i < j \<longrightarrow> j < length es \<longrightarrow> outside (es ! i) \<longrightarrow> outside (es ! j) \<longrightarrow>
        (\<exists>k. i < k \<and> k < j \<and> es ! k = Hx_checkpoint \<and> \<not> vt_cancelled (ctl (n + k))))"

lemma inside_nth: "all_inside es \<Longrightarrow> i < length es \<Longrightarrow> \<not> outside (es ! i)"
  by (auto simp: all_inside_def filter_empty_conv)

lemma one_outside:
  assumes "length (filter P es) \<le> 1" "i < j" "j < length es" "P (es ! i)" "P (es ! j)"
  shows False
proof -
  have "filter P es = filter P (take j es) @ filter P (drop j es)"
    by (simp flip: filter_append)
  moreover have "es ! i \<in> set (take j es)" using assms(2,3) by (auto simp: in_set_conv_nth intro!: exI[of _ i])
  then have "filter P (take j es) \<noteq> []" using assms(4) by (auto simp: filter_empty_conv)
  moreover have "filter P (drop j es) \<noteq> []" using assms(3,5) by (simp flip: Cons_nth_drop_Suc)
  ultimately show False using assms(1) by (metis One_nat_def add_is_1 le_Suc_eq length_0_conv length_append le_zero_eq add_is_0)
qed

lemma at_most_one:
  assumes "\<And>i j. i < j \<Longrightarrow> j < length es \<Longrightarrow> \<not> (P (es ! i) \<and> P (es ! j))"
  shows "length (filter P es) \<le> 1"
  using assms
proof (induction es)
  case (Cons e es)
  have "\<not> P (es ! i)" if "P e" "i < length es" for i
    using Cons.prems[of 0 "Suc i"] that by simp
  then have "filter P es = []" if "P e" using that by (auto simp: filter_empty_conv in_set_conv_nth)
  moreover have "length (filter P es) \<le> 1"
    by (rule Cons.IH) (use Cons.prems[of "Suc i" "Suc j" for i j] in auto)
  ultimately show ?case by auto
qed simp

lemma separated_tidy: "tidy_log ctl n b es \<Longrightarrow> separated ctl n es"
  unfolding separated_def tidy_log_def using one_outside by blast

lemma separated_append:
  assumes "tidy_log ctl n False es" "separated ctl (n + length es) fs"
  shows "separated ctl n (es @ fs)"
  unfolding separated_def
proof (intro allI impI)
  fix i j
  assume ij: "i < j" "j < length (es @ fs)" "outside ((es @ fs) ! i)" "outside ((es @ fs) ! j)"
  consider "j < length es" | "i < length es" "length es \<le> j" | "length es \<le> i" using ij by linarith
  then show "\<exists>k>i. k < j \<and> (es @ fs) ! k = Hx_checkpoint \<and> \<not> vt_cancelled (ctl (n + k))"
  proof cases
    case 1
    then show ?thesis using one_outside[of outside es i j] assms(1) ij by (simp add: tidy_log_def nth_append)
  next
    case 2
    then have "outside (es ! i)" using ij by (simp add: nth_append)
    then have "\<not> all_inside es" using inside_nth 2(1) by blast
    then obtain es1 es2 where e: "es = es1 @ es2" "all_inside es2" "passed ctl (n + length es1) es2"
      using assms(1) by (auto simp: tidy_log_def)
    obtain k where k: "k < length es2" "es2 ! k = Hx_checkpoint" "\<not> vt_cancelled (ctl (n + length es1 + k))"
      using e(3) by (auto simp: passed_def)
    have "i < length es1"
      using \<open>outside (es ! i)\<close> inside_nth[OF e(2), of "i - length es1"] 2(1)
      by (cases "i < length es1") (auto simp: e(1) nth_append less_diff_conv2)
    then show ?thesis using k 2 by (intro exI[of _ "length es1 + k"]) (auto simp: e(1) nth_append add.assoc)
  next
    case 3
    have "i - length es < j - length es" "j - length es < length fs" using 3 ij by auto
    then obtain k where "i - length es < k" "k < j - length es" "fs ! k = Hx_checkpoint" "\<not> vt_cancelled (ctl (n + length es + k))"
      using assms(2)[unfolded separated_def, rule_format, of "i - length es" "j - length es"] ij 3
      by (auto simp: nth_append)
    then show ?thesis using 3 by (intro exI[of _ "length es + k"]) (auto simp: nth_append add.assoc)
  qed
qed

lemma host_run_separated:
  assumes "hw_control w = Some ctl" "host_run w calls s = (vs, r, s1)"
  shows "\<exists>es. hs_effects s1 = hs_effects s @ es \<and> separated ctl (host_now s) es"
  using assms(2)
proof (induction calls arbitrary: s vs)
  case Nil
  then show ?case by (auto simp: separated_def)
next
  case (Cons c calls)
  obtain x s2 where c: "callback w c s = (x, s2)" by fastforce
  obtain es where es: "hs_effects s2 = hs_effects s @ es" "tidy_log ctl (host_now s) (isl x) es"
    using tidy_callback[OF assms(1), of c] c unfolding op_log_def by (metis fst_conv snd_conv)
  show ?case
  proof (cases x)
    case (Inl e)
    then show ?thesis using Cons.prems c es separated_tidy by auto
  next
    case (Inr v)
    obtain ws where "host_run w calls s2 = (ws, r, s1)" using Cons.prems c Inr by (auto split: prod.splits)
    then obtain fs where fs: "hs_effects s1 = hs_effects s2 @ fs" "separated ctl (host_now s2) fs" using Cons.IH by blast
    then show ?thesis using separated_append[of ctl "host_now s" es fs] es Inr by (auto simp: host_now_def)
  qed
qed

section \<open>Databases\<close>

definition balanced :: "'o host_effect list \<Rightarrow> bool" where
  "balanced es \<longleftrightarrow> length (filter (\<lambda>e. e = Hx_open) es) = length (filter (\<lambda>e. e = Hx_close) es)"

abbreviation tidy_db :: "('o, 'a) host_op \<Rightarrow> bool" where
  "tidy_db m \<equiv> op_log (\<lambda>_ _ es. balanced es) m"

lemma balanced_append: "balanced es \<Longrightarrow> balanced fs \<Longrightarrow> balanced (es @ fs)"
  by (simp add: balanced_def)

lemma balanced_one [simp]: "balanced []" "e \<noteq> Hx_open \<Longrightarrow> e \<noteq> Hx_close \<Longrightarrow> balanced [e]"
  by (simp_all add: balanced_def)

lemma db_then [balanced_ops]: "tidy_db m \<Longrightarrow> (\<And>x. tidy_db (f x)) \<Longrightarrow> tidy_db (host_then m f)"
  by (rule op_log_then, assumption, assumption) (auto intro: balanced_append)

lemma db_with_database [balanced_ops]: "tidy_db m \<Longrightarrow> tidy_db (with_database w m)"
  by (erule op_log_with_database) (simp_all add: balanced_def)

lemma db_finally [balanced_ops]: "tidy_db m \<Longrightarrow> tidy_db f \<Longrightarrow> tidy_db (host_finally m f)"
  by (rule op_log_finally, assumption, assumption) (auto intro: balanced_append)

lemmas db_pure [balanced_ops] = op_log_pure[where Q = "\<lambda>_ _ es. balanced es", simplified]

lemma db_basic [balanced_ops]:
  "tidy_db (host_emit stage)" "tidy_db (emit_candidate_memory c)" "tidy_db (run_recorder name r ready)" "tidy_db (host_checkpoint w)"
  "tidy_db (add_live_reply v clean)"
  by (auto intro!: op_log_emit op_log_candidate op_log_recorder op_log_checkpoint)
    (auto simp: op_log_def add_live_reply_def split: option.splits prod.splits)

lemma db_call [balanced_ops]:
  "e \<noteq> Hx_open \<Longrightarrow> e \<noteq> Hx_close \<Longrightarrow> tidy_db (host_call e a)" "e \<noteq> Hx_open \<Longrightarrow> e \<noteq> Hx_close \<Longrightarrow> tidy_db (host_do e b)"
  by (auto intro!: op_log_call op_log_do)

lemma db_timed [balanced_ops]: "tidy_db m \<Longrightarrow> tidy_db (timed_call w before m after)"
  unfolding timed_call_def by (intro balanced_ops)

lemma db_effects [balanced_ops]:
  "tidy_db (fx_retrieve_memories w h d)" "tidy_db (fx_execute_task w c p)" "tidy_db (fx_dispatch_primitives w x)"
  "tidy_db (fx_summarize_action_history w y c)" "tidy_db (store_message w role content)"
  by (auto simp: fx_retrieve_memories_def fx_execute_task_def fx_dispatch_primitives_def fx_summarize_action_history_def
      store_message_def Let_def intro!: balanced_ops split: option.splits)

lemma db_reply [balanced_ops]: "tidy_db (fx_record_validation_reply w reply)" "tidy_db (report_continuation w i c co)"
  by (auto simp: fx_record_validation_reply_def report_continuation_def Let_def intro!: balanced_ops)

lemma db_scope [balanced_ops]: "tidy_db (load_task_conversation_scope w)"
  unfolding load_task_conversation_scope_def
proof (rule db_then)
  show "tidy_db (\<lambda>s. host_then (set_cycle (cycle_name (hs_cycle_number s)) f) (\<lambda>_. host_return scope) s)" for f scope
    by (auto simp: op_log_def host_then_def set_cycle_def host_return_def)
qed (auto intro: balanced_ops)

lemma db_callback: "tidy_db (callback w c)"
  by (cases c) (auto simp: host_map_def load_context_def load_request_conversation_def report_task_choice_def retrieve_memories_def
      execute_task_def dispatch_task_outputs_def summarize_task_actions_def record_validation_reply_def host_write_candidate_memories_def
      Let_def intro!: balanced_ops)

lemma host_run_balanced: "host_run w calls s = (vs, r, s1) \<Longrightarrow> balanced (hs_effects s) \<Longrightarrow> balanced (hs_effects s1)"
proof (induction calls arbitrary: s vs)
  case (Cons c calls)
  have "balanced (hs_effects (snd (callback w c s)))"
    using db_callback[of w c] Cons.prems(2) balanced_append unfolding op_log_def by metis
  then show ?case using Cons by (auto split: prod.splits sum.splits)
qed simp

section \<open>Keys and executions\<close>

definition executions :: "'o host_state \<Rightarrow> (string \<rightharpoonup> 'o option)" where
  "executions s = map_option at_task_execution \<circ> hs_attempts s"

definition sent_actions :: "'o host_state \<Rightarrow> 'o set" where
  "sent_actions s = {x. Hx_dispatch x \<in> set (hs_effects s)}"

definition host_core where
  "host_core s = (dom (hs_cycles s), hs_cycle_number s, executions s, hs_attempt_number s)"

text \<open>The keys of the states and the executions stay, and nothing but \<open>D\<close> is newly dispatched.\<close>

definition keeps_core :: "'o set \<Rightarrow> ('o, 'a) host_op \<Rightarrow> bool" where
  "keeps_core D m \<longleftrightarrow> (\<forall>s. host_core (snd (m s)) = host_core s \<and> sent_actions (snd (m s)) \<subseteq> sent_actions s \<union> D)"

lemma frameD: "keeps_core D m \<Longrightarrow> m s = (r, s1) \<Longrightarrow> host_core s1 = host_core s \<and> sent_actions s1 \<subseteq> sent_actions s \<union> D"
  unfolding keeps_core_def by (metis snd_conv)

lemma frame_then [frame_ops]:
  assumes "keeps_core D m" "\<And>x. keeps_core D (f x)"
  shows "keeps_core D (host_then m f)"
  unfolding keeps_core_def
proof
  fix s
  obtain r s1 where m: "m s = (r, s1)" by fastforce
  show "host_core (snd (host_then m f s)) = host_core s \<and> sent_actions (snd (host_then m f s)) \<subseteq> sent_actions s \<union> D"
    using frameD[OF assms(1) m] assms(2) by (cases r) (auto simp: host_then_def m keeps_core_def)
qed

lemma frame_finally [frame_ops]:
  assumes "keeps_core D m" "keeps_core D f"
  shows "keeps_core D (host_finally m f)"
  unfolding keeps_core_def
proof
  fix s
  obtain r s1 where m: "m s = (r, s1)" by fastforce
  obtain q s2 where f: "f s1 = (q, s2)" by fastforce
  show "host_core (snd (host_finally m f s)) = host_core s \<and> sent_actions (snd (host_finally m f s)) \<subseteq> sent_actions s \<union> D"
    using frameD[OF assms(1) m] frameD[OF assms(2) f] by (cases q) (auto simp: host_finally_def m f)
qed

lemma frame_pure [frame_ops]:
  "keeps_core D (host_return x)" "keeps_core D (get_cycle i)" "keeps_core D (get_attempt i)" "keeps_core D (set_cycle i f)"
  "keeps_core D (perf_counter w)" "keeps_core D (post_vad_seconds w)"
  by (auto simp: keeps_core_def host_core_def executions_def sent_actions_def host_return_def get_cycle_def get_attempt_def
      set_cycle_def perf_counter_def post_vad_seconds_def split: if_splits)

lemma frame_set_attempt [frame_ops]:
  "(\<And>a. at_task_execution (f a) = at_task_execution a) \<Longrightarrow> keeps_core D (set_attempt i f)"
  by (auto simp: keeps_core_def host_core_def executions_def sent_actions_def set_attempt_def option.map_comp comp_def)

lemma frame_call [frame_ops]:
  "(\<And>x. e = Hx_dispatch x \<Longrightarrow> x \<in> D) \<Longrightarrow> keeps_core D (host_call e a)" "(\<And>x. e = Hx_dispatch x \<Longrightarrow> x \<in> D) \<Longrightarrow> keeps_core D (host_do e b)"
  by (auto simp: keeps_core_def host_core_def executions_def sent_actions_def host_do_def host_call_def)

lemma frame_basic [frame_ops]:
  "keeps_core D (host_emit stage)" "keeps_core D (emit_candidate_memory c)" "keeps_core D (run_recorder name r ready)" "keeps_core D (host_checkpoint w)"
  "keeps_core D (add_live_reply v clean)"
  by (auto simp: host_emit_def emit_candidate_memory_def run_recorder_def host_checkpoint_def intro!: frame_ops split: option.splits)
    (auto simp: keeps_core_def host_core_def executions_def sent_actions_def add_live_reply_def split: option.splits prod.splits)

lemma frame_with_database [frame_ops]:
  assumes "keeps_core D m"
  shows "keeps_core D (with_database w m)"
proof -
  have "keeps_core D (host_then (host_do Hx_open (\<lambda>_. None)) (\<lambda>_. host_finally m (host_do Hx_close (hw_close_memory_database w))))"
    by (intro frame_ops assms) simp_all
  then show ?thesis by (auto simp: keeps_core_def with_database_def split: option.splits)
qed

lemma frame_timed [frame_ops]: "keeps_core D m \<Longrightarrow> keeps_core D (timed_call w before m after)"
  unfolding timed_call_def by (intro frame_ops)

lemma frame_effects [frame_ops]:
  "keeps_core D (fx_retrieve_memories w h d)" "keeps_core D (fx_execute_task w c p)"
  "keeps_core D (fx_summarize_action_history w y c)" "keeps_core D (store_message w role content)"
  by (auto simp: fx_retrieve_memories_def fx_execute_task_def fx_summarize_action_history_def
      store_message_def Let_def intro!: frame_ops split: option.splits)

lemma frame_dispatch [frame_ops]: "(\<And>x. execution = Some x \<Longrightarrow> x \<in> D) \<Longrightarrow> keeps_core D (fx_dispatch_primitives w execution)"
  by (auto simp: fx_dispatch_primitives_def intro!: frame_ops split: option.splits)

lemma frame_reply [frame_ops]: "keeps_core D (fx_record_validation_reply w reply)" "keeps_core D (report_continuation w i c co)"
  by (auto simp: fx_record_validation_reply_def report_continuation_def Let_def intro!: frame_ops)

lemma frame_scope [frame_ops]: "keeps_core D (load_task_conversation_scope w)"
  unfolding load_task_conversation_scope_def
proof (rule frame_then)
  fix scope f
  have "keeps_core D (host_then (set_cycle i f) (\<lambda>_. host_return scope))" for i by (intro frame_ops)
  then show "keeps_core D (\<lambda>s. host_then (set_cycle (cycle_name (hs_cycle_number s)) f) (\<lambda>_. host_return scope) s)"
    by (simp add: keeps_core_def)
qed (auto intro: frame_ops)

lemma load_context_core:
  assumes "load_context w s = (r, s1)"
  shows "sent_actions s1 = sent_actions s \<and> executions s1 = executions s \<and> hs_attempt_number s1 = hs_attempt_number s
    \<and> hs_cycle_number s1 = Suc (hs_cycle_number s)
    \<and> (case r of Inl _ \<Rightarrow> dom (hs_cycles s1) = dom (hs_cycles s)
       | Inr (i, _) \<Rightarrow> i = cycle_name (hs_cycle_number s1) \<and> dom (hs_cycles s1) = insert i (dom (hs_cycles s)))"
  using assms by (auto simp: load_context_def host_then_def next_cycle_id_def host_call_def put_cycle_def host_return_def
      executions_def sent_actions_def Let_def split: sum.splits prod.splits)

lemma execute_task_core:
  assumes "execute_task w i choice prompt co s = (r, s1)"
  shows "sent_actions s1 \<subseteq> sent_actions s \<and> dom (hs_cycles s1) = dom (hs_cycles s) \<and> hs_cycle_number s1 = hs_cycle_number s
    \<and> (case r of
         Inl _ \<Rightarrow> executions s1 = executions s \<and> hs_attempt_number s \<le> hs_attempt_number s1
       | Inr (j, x) \<Rightarrow> hs_attempt_number s1 = Suc (hs_attempt_number s) \<and> j = attempt_name (hs_attempt_number s1)
           \<and> executions s1 = (executions s)(j \<mapsto> x))"
proof -
  let ?work = "\<lambda>j. host_then (fx_execute_task w choice (Some prompt)) (\<lambda>t. host_then (host_checkpoint w) (\<lambda>_. host_return t))"
  let ?pre = "host_then (get_cycle i) (\<lambda>cycle. report_continuation w i cycle co)"
  have pre: "keeps_core {} ?pre" and work: "keeps_core {} (?work j)" for j by (intro frame_ops)+
  obtain p s2 where p: "?pre s = (p, s2)" by fastforce
  note kept = frameD[OF pre p]
  show ?thesis
  proof (cases p)
    case (Inl e)
    then show ?thesis using assms p kept
      by (auto simp: execute_task_def host_then_def host_core_def split: sum.splits prod.splits)
  next
    case (Inr u)
    let ?j = "attempt_name (Suc (hs_attempt_number s2))" and ?s = "s2\<lparr> hs_attempt_number := Suc (hs_attempt_number s2) \<rparr>"
    obtain t s3 where t: "?work ?j ?s = (t, s3)" by fastforce
    note worked = frameD[OF work t]
    have "(r, s1) = (case t of Inl e \<Rightarrow> (Inl e, s3)
       | Inr (x, a, b) \<Rightarrow> (Inr (?j, x), s3\<lparr> hs_attempts := (hs_attempts s3)(?j \<mapsto> new_attempt x a b) \<rparr>))"
      using assms p t Inr
      by (auto simp: execute_task_def host_then_def next_attempt_id_def put_attempt_def host_return_def Let_def split: sum.splits prod.splits)
    then show ?thesis using kept worked
      by (auto simp: host_core_def executions_def sent_actions_def new_attempt_def split: sum.splits prod.splits)
  qed
qed

lemma dispatch_task_core:
  assumes "dispatch_task_outputs w i s = (r, s1)"
  shows "host_core s1 = host_core s \<and> sent_actions s1 \<subseteq> sent_actions s \<union> {x. executions s i = Some (Some x)}"
proof (cases "hs_attempts s i")
  case None
  then show ?thesis using assms by (auto simp: dispatch_task_outputs_def host_then_def get_attempt_def)
next
  case (Some a)
  let ?rest = "host_then (fx_dispatch_primitives w (at_task_execution a)) (\<lambda>(dispatch, seconds, post_seconds).
     host_then (host_checkpoint w) (\<lambda>_.
     host_then (set_attempt i (\<lambda>a. a\<lparr> at_primitive_dispatch := dispatch, at_primitive_dispatch_seconds := seconds,
       at_post_vad_primitive_dispatch_seconds := post_seconds \<rparr>)) (\<lambda>_.
     host_return True)))"
  have "keeps_core {x. at_task_execution a = Some x} ?rest"
    by (auto intro!: frame_ops)
  moreover have "?rest s = (r, s1)"
    using assms Some by (simp add: dispatch_task_outputs_def host_then_def get_attempt_def)
  ultimately show ?thesis using frameD[of _ ?rest s r s1] Some by (fastforce simp: executions_def)
qed

fun cycle_ids :: "'o flow_value list \<Rightarrow> string list" where
  "cycle_ids [] = []"
| "cycle_ids (V_context i _ # vs) = i # cycle_ids vs"
| "cycle_ids (_ # vs) = cycle_ids vs"

fun results :: "'o flow_value list \<Rightarrow> (string \<times> 'o option) list" where
  "results [] = []"
| "results (V_execution i x # vs) = (i, x) # results vs"
| "results (_ # vs) = results vs"

lemma ids_append [simp]: "cycle_ids (vs @ us) = cycle_ids vs @ cycle_ids us"
  by (induction vs rule: cycle_ids.induct) simp_all

lemma results_append [simp]: "results (vs @ us) = results vs @ results us"
  by (induction vs rule: results.induct) simp_all

definition flow_inv :: "'o flow_value list \<Rightarrow> 'o host_state \<Rightarrow> bool" where
  "flow_inv vs s \<longleftrightarrow>
     distinct (cycle_ids vs) \<and> dom (hs_cycles s) = set (cycle_ids vs)
     \<and> set (cycle_ids vs) \<subseteq> cycle_name ` {.. hs_cycle_number s}
     \<and> distinct (map fst (results vs)) \<and> executions s = map_of (results vs)
     \<and> fst ` set (results vs) \<subseteq> attempt_name ` {.. hs_attempt_number s}
     \<and> Some ` sent_actions s \<subseteq> snd ` set (results vs)"

lemma names_inj [simp]: "cycle_name m = cycle_name n \<longleftrightarrow> m = n" "attempt_name m = attempt_name n \<longleftrightarrow> m = n"
  by (simp_all add: cycle_name_def attempt_name_def)

lemma flow_inv_keep:
  assumes "flow_inv vs s" "host_core s1 = host_core s" "sent_actions s1 \<subseteq> sent_actions s \<union> {x. executions s i = Some (Some x)}"
    and "cycle_ids us = []" "results us = []"
  shows "flow_inv (vs @ us) s1"
proof -
  have "Some x \<in> snd ` set (results vs)" if "x \<in> sent_actions s1" for x
  proof (cases "x \<in> sent_actions s")
    case False
    then have "map_of (results vs) i = Some (Some x)" using assms(1,3) that by (auto simp: flow_inv_def)
    then show ?thesis by (metis image_eqI map_of_SomeD snd_conv)
  qed (use assms(1) in \<open>auto simp: flow_inv_def\<close>)
  then show ?thesis using assms(1,2,4,5) by (auto simp: flow_inv_def host_core_def)
qed

lemma flow_inv_context:
  assumes "flow_inv vs s" "load_context w s = (r, s1)"
  shows "flow_inv (vs @ (case r of Inl _ \<Rightarrow> [] | Inr (i, x) \<Rightarrow> [V_context i x])) s1"
proof -
  have "cycle_name (Suc (hs_cycle_number s)) \<notin> set (cycle_ids vs)"
    using assms(1) by (auto simp: flow_inv_def)
  moreover have "cycle_name ` {.. hs_cycle_number s} \<subseteq> cycle_name ` {.. Suc (hs_cycle_number s)}" by auto
  ultimately show ?thesis
    using load_context_core[OF assms(2)] assms(1) by (auto simp: flow_inv_def split: sum.splits prod.splits)
qed

lemma flow_inv_execution:
  assumes "flow_inv vs s" "execute_task w i choice prompt co s = (r, s1)"
  shows "flow_inv (vs @ (case r of Inl _ \<Rightarrow> [] | Inr (j, x) \<Rightarrow> [V_execution j x])) s1"
proof -
  note core = execute_task_core[OF assms(2)]
  let ?j = "attempt_name (Suc (hs_attempt_number s))"
  have "?j \<notin> fst ` set (results vs)" using assms(1) by (auto simp: flow_inv_def)
  then have new: "distinct (map fst (results vs @ [(?j, x)]))" "map_of (results vs) ?j = None" for x
    using assms(1) by (auto simp: flow_inv_def map_of_eq_None_iff)
  have upd: "map_of (results vs @ [(?j, x)]) = (executions s)(?j \<mapsto> x)" for x
    using assms(1) new(2) by (auto simp: flow_inv_def map_add_def fun_eq_iff split: option.split)
  have sent: "Some ` sent_actions s1 \<subseteq> snd ` set (results vs)"
    using conjunct1[OF core] assms(1) unfolding flow_inv_def by (meson image_mono subset_trans)
  show ?thesis
  proof (cases r)
    case (Inl e)
    then have "attempt_name ` {.. hs_attempt_number s} \<subseteq> attempt_name ` {.. hs_attempt_number s1}" using core by auto
    then have "fst ` set (results vs) \<subseteq> attempt_name ` {.. hs_attempt_number s1}" using assms(1) unfolding flow_inv_def by (meson subset_trans)
    then show ?thesis using core assms(1) sent by (simp add: flow_inv_def Inl)
  next
    case (Inr y)
    obtain x where y: "y = (?j, x)" "hs_attempt_number s1 = Suc (hs_attempt_number s)" "executions s1 = (executions s)(?j \<mapsto> x)"
      using core Inr by (auto split: prod.splits)
    have "attempt_name ` {.. hs_attempt_number s} \<subseteq> attempt_name ` {.. hs_attempt_number s1}" using y(2) by auto
    then have "fst ` set (results vs) \<subseteq> attempt_name ` {.. hs_attempt_number s1}" using assms(1) unfolding flow_inv_def by (meson subset_trans)
    then show ?thesis
      using core assms(1) new(1)[of x] upd[of x] sent y(2,3) by (auto simp: flow_inv_def Inr y(1))
  qed
qed

lemma flow_inv_callback:
  assumes "flow_inv vs s" "callback w c s = (r, s1)"
  shows "flow_inv (vs @ (case r of Inl _ \<Rightarrow> [] | Inr v \<Rightarrow> [v])) s1"
proof -
  have other: "flow_inv (vs @ (case r of Inl _ \<Rightarrow> [] | Inr v \<Rightarrow> [v])) s1"
    if "keeps_core {} m" "callback w c = host_map f m" "\<And>x. cycle_ids [f x] = []" "\<And>x. results [f x] = []" for m f
  proof -
    have "keeps_core {} (host_map f m)" unfolding host_map_def by (intro frame_ops that(1))
    from frameD[OF this] that(2) assms(2) have "host_core s1 = host_core s" "sent_actions s1 \<subseteq> sent_actions s \<union> {x. executions s [] = Some (Some x)}"
      by auto
    note keep = flow_inv_keep[OF assms(1) this]
    show ?thesis
      using that(2-4) assms(2) keep[of "[]"] keep[of "[f x]" for x]
      by (auto simp: host_map_def host_then_def host_return_def split: sum.splits prod.splits)
  qed
  have acts: "keeps_core {} (report_task_choice w i choice)" "keeps_core {} (retrieve_memories w i u)" "keeps_core {} (summarize_task_actions w i choice1)"
    "keeps_core {} (record_validation_reply w reply)" "keeps_core {} (host_write_candidate_memories w batch)" "keeps_core {} (load_request_conversation w)"
    for i choice choice1 u reply batch
    by (auto simp: report_task_choice_def retrieve_memories_def summarize_task_actions_def record_validation_reply_def
        host_write_candidate_memories_def load_request_conversation_def Let_def intro!: frame_ops)
  note mapped = host_map_def host_then_def host_return_def
  show ?thesis
  proof (cases c)
    case Load_context
    obtain q s2 where "load_context w s = (q, s2)" by fastforce
    with flow_inv_context[OF assms(1) this] show ?thesis
      using assms(2) Load_context by (auto simp: mapped split: sum.splits prod.splits)
  next
    case (Execute_task i choice prompt co)
    obtain q s2 where "execute_task w i choice prompt co s = (q, s2)" by fastforce
    with flow_inv_execution[OF assms(1) this] show ?thesis
      using assms(2) Execute_task by (auto simp: mapped split: sum.splits prod.splits)
  next
    case (Dispatch_task_outputs i)
    obtain q s2 where q: "dispatch_task_outputs w i s = (q, s2)" by fastforce
    note keep = flow_inv_keep[OF assms(1) conjunct1[OF dispatch_task_core[OF q]] conjunct2[OF dispatch_task_core[OF q]]]
    show ?thesis
      using assms(2) q Dispatch_task_outputs keep[of "[]"] keep[of "[V_bool b]" for b] by (auto simp: mapped split: sum.splits prod.splits)
  qed (rule other, rule acts frame_scope, simp, simp, simp)+
qed

lemma host_run_inv:
  "flow_inv us s \<Longrightarrow> host_run w calls s = (vs, r, s1) \<Longrightarrow> flow_inv (us @ vs) s1"
proof (induction calls arbitrary: us s vs)
  case (Cons c calls)
  obtain x s2 where c: "callback w c s = (x, s2)" by fastforce
  note step = flow_inv_callback[OF Cons.prems(1) c]
  show ?case
  proof (cases x)
    case (Inr v)
    then obtain ws where "host_run w calls s2 = (ws, r, s1)" "vs = v # ws" using Cons.prems(2) c by (auto split: prod.splits)
    then show ?thesis using Cons.IH[of "us @ [v]" s2 ws] step Inr by simp
  qed (use Cons.prems(2) c step in auto)
qed simp

lemma flow_inv_new: "flow_inv [] (new_host live)"
  by (auto simp: flow_inv_def new_host_def executions_def sent_actions_def)

section \<open>An example\<close>

text \<open>A turn whose task is executed; it is cancelled while the actions are dispatched.\<close>

definition ex_host_control :: "nat \<Rightarrow> turn_control" where
  "ex_host_control n = \<lparr> vt_cancelled = (9 \<le> n), vt_committed = False \<rparr>"

definition ex_host_world :: "nat host_world" where
  "ex_host_world = \<lparr> hw_current_user_request = ''go'', hw_conversation_id = None, hw_post_vad_started_at = 0,
     hw_control = Some ex_host_control, hw_perf_counter = (\<lambda>_. 0), hw_wall_clock = (\<lambda>_. 0), hw_time_text = \<lparr> tt_isoformat = (\<lambda>_. []), tt_fromisoformat = (\<lambda>_. None) \<rparr>,
     hw_voice_turn_inputs = (\<lambda>_. Inr 1), hw_current_conversation = (\<lambda>_. Inr 2), hw_task_conversation_scope = (\<lambda>_. Inr 3),
     hw_update = (\<lambda>i _. i), hw_with_request = (\<lambda>_ i. i), hw_record_task_choice = None, hw_record_understanding = None,
     hw_record_continuation = None, hw_retrieve = (\<lambda>_ _ _. Inr 4), hw_empty_context = 0, hw_retrieved_memory_graph = (\<lambda>i. i),
     hw_task_execution = Some (\<lambda>_ _ _. Inr 7), hw_has_returns = (\<lambda>_. True), hw_open_memory_database = (\<lambda>_. None),
     hw_close_memory_database = (\<lambda>_. None), hw_dispatch = (\<lambda>_ _. Inr 8), hw_task_history_id = (\<lambda>_. None),
     hw_summarize = (\<lambda>_ _ _. Inr []), hw_close_summarizer = (\<lambda>_. None), hw_add_message = (\<lambda>_ _ _. None),
     hw_write_candidate_memories = (\<lambda>_ _. None) \<rparr>"

definition ex_host_calls :: "nat flow_call list" where
  "ex_host_calls = [Load_context,
     Execute_task ''voice-cycle-1'' (Some \<lparr> ch_selected_task_id = ''t'', ch_candidate_memory = None \<rparr>) ''do it''
       \<lparr> co_relevance_candidate = None, co_prompt_candidate = None \<rparr>,
     Dispatch_task_outputs ''task-attempt-1'']"

definition ex_host_effects :: "nat host_effect list" where
  "ex_host_effects = [Hx_inputs, Hx_emit ''memory-relevance-decision'', Hx_emit ''task-prompt-generated'', Hx_checkpoint,
     Hx_emit ''task-execution'', Hx_execute ''t'' ''do it'', Hx_emit ''task-executed'', Hx_checkpoint,
     Hx_emit ''primitive-dispatch'', Hx_open, Hx_dispatch 7, Hx_close, Hx_emit ''primitive-dispatched'', Hx_checkpoint]"

definition ex_host_end :: "nat host_state" where
  "ex_host_end = snd (snd (host_run ex_host_world ex_host_calls (new_host None)))"

lemma ex_names: "cycle_name (Suc 0) = ''voice-cycle-1''" "attempt_name (Suc 0) = ''task-attempt-1''"
  by code_simp+

lemma ex_host_run:
  "host_run ex_host_world ex_host_calls (new_host None) = ([V_context ''voice-cycle-1'' 1, V_execution ''task-attempt-1'' (Some 7)], Some CancelledError, ex_host_end)"
  "hs_effects ex_host_end = ex_host_effects"
  by (simp_all add: ex_host_end_def ex_host_calls_def ex_host_effects_def new_host_def host_map_def host_then_def host_return_def load_context_def
      next_cycle_id_def host_call_def put_cycle_def host_now_def execute_task_def get_cycle_def report_continuation_def
      new_cycle_def run_recorder_def post_vad_seconds_def set_cycle_def host_emit_def host_do_def emit_candidate_memory_def
      host_checkpoint_def checkpoint_def next_attempt_id_def fx_execute_task_def timed_call_def perf_counter_def put_attempt_def
      new_attempt_def dispatch_task_outputs_def get_attempt_def fx_dispatch_primitives_def with_database_def host_finally_def
      ex_names ex_host_control_def ex_host_world_def Let_def)

section \<open>Properties\<close>

text \<open>
  C4. Once a speculative turn is cancelled, its flow does at most one more thing outside the
  process, the one already under way: between two retrievals, executions, dispatches, summaries or
  writes there is a checkpoint that was passed. And whatever the flow calls and wherever it fails,
  every memory database it opened has been closed again.
\<close>

theorem cancelled_turn_stops_acting:
  assumes "hw_control w = Some ctl" "\<And>m n. m \<le> n \<Longrightarrow> vt_cancelled (ctl m) \<Longrightarrow> vt_cancelled (ctl n)" "vt_cancelled (ctl t)"
    and "host_run w calls (new_host live) = (vs, r, s)"
  shows "length (filter outside (drop t (hs_effects s))) \<le> 1
    \<and> length (filter (\<lambda>e. e = Hx_open) (hs_effects s)) = length (filter (\<lambda>e. e = Hx_close) (hs_effects s))"
proof -
  have sep: "separated ctl 0 (hs_effects s)"
    using host_run_separated[OF assms(1,4)] by (auto simp: new_host_def host_now_def)
  have "\<not> (i < j \<and> j < length (drop t (hs_effects s)) \<and> outside (drop t (hs_effects s) ! i) \<and> outside (drop t (hs_effects s) ! j))" for i j
    using sep[unfolded separated_def, rule_format, of "t + i" "t + j"] assms(2)[of t] assms(3)
    by (auto simp: less_diff_conv add.commute)
  then have "length (filter outside (drop t (hs_effects s))) \<le> 1" using at_most_one[of "drop t (hs_effects s)" outside] by blast
  then show ?thesis using host_run_balanced[OF assms(4)] by (simp add: balanced_def new_host_def)
qed

theorem cancelled_turn_stops_acting_witness:
  "filter outside (drop 9 ex_host_effects) = [Hx_dispatch 7] \<and> length (filter outside (drop 9 ex_host_effects)) \<le> 1"
proof -
  have "hw_control ex_host_world = Some ex_host_control" by (simp add: ex_host_world_def)
  moreover have "vt_cancelled (ex_host_control n)" if "m \<le> n" "vt_cancelled (ex_host_control m)" for m n
    using that by (simp add: ex_host_control_def)
  moreover have "vt_cancelled (ex_host_control 9)" by (simp add: ex_host_control_def)
  ultimately show ?thesis
    using cancelled_turn_stops_acting[OF _ _ _ ex_host_run(1), of ex_host_control 9] ex_host_run(2)
    by (simp add: ex_host_effects_def)
qed

text \<open>
  C17. Whatever a flow calls, and up to the call that fails, the host gives every cycle and every
  attempt an identifier of its own, keeps the state of exactly those it gave one to, and never
  changes the execution recorded for an attempt; every set of actions it dispatched was the result
  of an execution it had returned to the flow before.
\<close>

theorem host_keeps_its_attempts:
  assumes "host_run w calls (new_host live) = (vs, r, s)"
  shows "distinct (cycle_ids vs) \<and> dom (hs_cycles s) = set (cycle_ids vs)
    \<and> distinct (map fst (results vs)) \<and> executions s = map_of (results vs)
    \<and> (\<forall>x. Hx_dispatch x \<in> set (hs_effects s) \<longrightarrow> Some x \<in> snd ` set (results vs))"
  using host_run_inv[OF flow_inv_new assms] by (auto simp: flow_inv_def sent_actions_def)

theorem host_keeps_its_attempts_witness:
  "executions ex_host_end = [''task-attempt-1'' \<mapsto> Some 7] \<and> dom (hs_cycles ex_host_end) = {''voice-cycle-1''}
    \<and> Hx_dispatch 7 \<in> set (hs_effects ex_host_end)"
  using host_keeps_its_attempts[OF ex_host_run(1)] ex_host_run(2) by (simp add: ex_host_effects_def)

end
