(* ===== verification/Triggers.thy ===== *)
theory Triggers
  imports Keyphrases
begin

text \<open>
  Trigger phrases at the start of a transcript (\<open>speech/triggers.py\<close>). The regular expression of
  \<open>_compile_prefix_pattern\<close> is matched by backtracking: every part returns the rests it can leave,
  in the order in which Python's matcher tries them.
\<close>

section \<open>Characters and parts of the pattern\<close>

text \<open>\<open>\w\<close> on 8-bit characters.\<close>

definition word_char :: "char \<Rightarrow> bool" where
  "word_char c =
     (is_digit c \<or> is_alpha c \<or> code c = 95 \<or> code c \<in> {170, 178, 179, 181, 185, 186, 188, 189, 190}
      \<or> (192 \<le> code c \<and> code c \<noteq> 215 \<and> code c \<noteq> 247))"

text \<open>\<open>[\W_]\<close> and \<open>[\s,.;:!?-]\<close>\<close>

definition lead_char :: "char \<Rightarrow> bool" where
  "lead_char c = (\<not> word_char c \<or> c = CHR ''_'')"

definition separator_char :: "char \<Rightarrow> bool" where
  "separator_char c = (is_space c \<or> c \<in> set '',.;:!?-'')"

definition newline :: char where
  "newline = CHR 0x0A"

text \<open>A greedy \<open>[..]*\<close>, and \<open>[..]+\<close>.\<close>

fun re_star :: "(char \<Rightarrow> bool) \<Rightarrow> string \<Rightarrow> string list" where
  "re_star p [] = [[]]"
| "re_star p (c # cs) = (if p c then re_star p cs else []) @ [c # cs]"

fun re_plus :: "(char \<Rightarrow> bool) \<Rightarrow> string \<Rightarrow> string list" where
  "re_plus p [] = []"
| "re_plus p (c # cs) = (if p c then re_star p cs else [])"

text \<open>A literal with \<open>re.IGNORECASE\<close>.\<close>

fun re_literal :: "string \<Rightarrow> string \<Rightarrow> string list" where
  "re_literal [] s = [s]"
| "re_literal (w # ws) [] = []"
| "re_literal (w # ws) (c # cs) = (if lower_char w = lower_char c then re_literal ws cs else [])"

fun re_words :: "string list \<Rightarrow> string \<Rightarrow> string list" where
  "re_words [] s = [s]"
| "re_words [w] s = re_literal w s"
| "re_words (w # v # ws) s = concat (map (\<lambda>r. concat (map (re_words (v # ws)) (re_plus separator_char r))) (re_literal w s))"

text \<open>\<open>\b\<close> at the rest \<open>r\<close> of \<open>s\<close>, after at least one character.\<close>

definition word_boundary :: "string \<Rightarrow> string \<Rightarrow> bool" where
  "word_boundary s r =
     (word_char (s ! (length s - length r - 1)) \<noteq> (r \<noteq> [] \<and> word_char (hd r)))"

text \<open>\<open>(?P<remainder>[\s,.;:!?-]*(?:.*))$\<close>\<close>

definition re_remainder :: "string \<Rightarrow> string list" where
  "re_remainder r =
     map (\<lambda>e. take (length r - length e) r)
       (filter (\<lambda>e. e = [] \<or> e = [newline])
         (concat (map (re_star (\<lambda>c. c \<noteq> newline)) (re_star separator_char r))))"

definition prefix_matches :: "string list \<Rightarrow> string \<Rightarrow> string list" where
  "prefix_matches ws s =
     concat (map re_remainder
       (filter (word_boundary s)
         (concat (map (re_words ws) (concat (map (re_star lead_char) (re_star is_space s)))))))"

definition pattern_match :: "string list \<Rightarrow> string \<Rightarrow> string option" where
  "pattern_match ws s = (case prefix_matches ws s of [] \<Rightarrow> None | g # _ \<Rightarrow> Some g)"

section \<open>The matcher\<close>

definition trigger_prefix_aliases :: "string \<Rightarrow> string list" where
  "trigger_prefix_aliases phrase =
     (if phrase = ''jarvis'' then
        [''java'', ''java'' @ [CHR 0x27] @ ''s'', ''javas'', ''javis'', ''jarivs'', ''jar vice'', ''jar vis'', ''jar viss'',
         ''jarvice'', ''jarviss'', ''jarvis'' @ [CHR 0x27] @ ''s'', ''jarvus'', ''jervis'', ''jervus'', ''jervais'',
         ''charvis'', ''garvis'', ''travis'']
      else if phrase = ''conversation on'' then [''conversation one'', ''conservation on'', ''conservation one'']
      else [])"

definition confirmed_wake_residues :: "string \<Rightarrow> string list" where
  "confirmed_wake_residues phrase = (if phrase = ''jarvis'' then [''just''] else [])"

record trigger_config =
  tg_trigger_words :: "string list"
  tg_conversation_on_phrases :: "string list"

definition default_trigger_config :: trigger_config where
  "default_trigger_config = \<lparr> tg_trigger_words = [''jarvis''], tg_conversation_on_phrases = [''conversation on''] \<rparr>"

record trigger_detection =
  td_kind :: keyphrase_kind
  td_phrase :: string
  td_routed_transcript :: string

definition trigger_normalize :: "string \<Rightarrow> string" where
  "trigger_normalize phrase = py_join '' '' (py_split (py_lower phrase))"

definition prefix_candidates :: "string \<Rightarrow> string list" where
  "prefix_candidates normalized = normalized # trigger_prefix_aliases normalized"

definition clean_remainder :: "string \<Rightarrow> string" where
  "clean_remainder s = py_strip_chars (CHR '' '' # [CHR 0x09, CHR 0x0D, CHR 0x0A] @ '',.;:!?-'') s"

text \<open>A compiled pattern is the list of its words.\<close>

definition compile_prefix_pattern :: "string \<Rightarrow> py_error + string list" where
  "compile_prefix_pattern phrase =
     (let normalized = trigger_normalize phrase in
      if normalized = [] then Inl (ValueError ''Trigger phrases cannot be empty.'') else Inr (py_split normalized))"

fun compile_all :: "string list \<Rightarrow> py_error + string list list" where
  "compile_all [] = Inr []"
| "compile_all (p # ps) =
     (case compile_prefix_pattern p of
        Inl e \<Rightarrow> Inl e
      | Inr ws \<Rightarrow> (case compile_all ps of Inl e \<Rightarrow> Inl e | Inr wss \<Rightarrow> Inr (ws # wss)))"

definition compile_prefix_patterns :: "string \<Rightarrow> py_error + (string \<times> string list) list" where
  "compile_prefix_patterns phrase =
     (let normalized = trigger_normalize phrase
      in map_sum id (map (Pair normalized)) (compile_all (prefix_candidates normalized)))"

type_synonym trigger_patterns = "(keyphrase_kind \<times> string \<times> string list) list"

fun patterns_of :: "keyphrase_kind \<Rightarrow> string list \<Rightarrow> py_error + trigger_patterns" where
  "patterns_of kind [] = Inr []"
| "patterns_of kind (p # ps) =
     (case compile_prefix_patterns p of
        Inl e \<Rightarrow> Inl e
      | Inr xs \<Rightarrow> (case patterns_of kind ps of Inl e \<Rightarrow> Inl e | Inr ys \<Rightarrow> Inr (map (Pair kind) xs @ ys)))"

definition trigger_matcher_init :: "trigger_config \<Rightarrow> py_error + trigger_patterns" where
  "trigger_matcher_init c =
     (case patterns_of Wake_command (tg_trigger_words c) of
        Inl e \<Rightarrow> Inl e
      | Inr xs \<Rightarrow> (case patterns_of Conversation_on (tg_conversation_on_phrases c) of
            Inl e \<Rightarrow> Inl e
          | Inr ys \<Rightarrow> Inr (xs @ ys)))"

fun trigger_match :: "trigger_patterns \<Rightarrow> string \<Rightarrow> trigger_detection option" where
  "trigger_match [] transcript = None"
| "trigger_match ((kind, phrase, ws) # ps) transcript =
     (case pattern_match ws transcript of
        Some g \<Rightarrow> Some \<lparr> td_kind = kind, td_phrase = phrase, td_routed_transcript = clean_remainder g \<rparr>
      | None \<Rightarrow> trigger_match ps transcript)"

text \<open>The two loops of \<open>match_confirmed\<close>: each candidate is compiled when its turn comes.\<close>

fun confirmed_loop :: "string list \<Rightarrow> string \<Rightarrow> keyphrase_kind \<Rightarrow> string \<Rightarrow> py_error + trigger_detection option" where
  "confirmed_loop [] transcript kind normalized = Inr None"
| "confirmed_loop (p # ps) transcript kind normalized =
     (case compile_prefix_pattern p of
        Inl e \<Rightarrow> Inl e
      | Inr ws \<Rightarrow> (case pattern_match ws transcript of
           Some g \<Rightarrow> Inr (Some \<lparr> td_kind = kind, td_phrase = normalized, td_routed_transcript = clean_remainder g \<rparr>)
         | None \<Rightarrow> confirmed_loop ps transcript kind normalized))"

definition match_confirmed :: "string \<Rightarrow> keyphrase_kind \<Rightarrow> string \<Rightarrow> py_error + trigger_detection option" where
  "match_confirmed transcript kind phrase =
     (let normalized = trigger_normalize phrase in
      case confirmed_loop (prefix_candidates normalized) transcript kind normalized of
        Inl e \<Rightarrow> Inl e
      | Inr (Some d) \<Rightarrow> Inr (Some d)
      | Inr None \<Rightarrow>
          if kind = Wake_command then confirmed_loop (confirmed_wake_residues normalized) transcript kind normalized
          else Inr None)"

section \<open>What a pattern matches\<close>

lemma in_bind: "r \<in> set (concat (map f xs)) \<longleftrightarrow> (\<exists>x \<in> set xs. r \<in> set (f x))"
  by auto

lemma in_re_star: "r \<in> set (re_star p s) \<longleftrightarrow> (\<exists>u. s = u @ r \<and> list_all p u)"
proof (induction s arbitrary: r)
  case (Cons c cs)
  have "(\<exists>u. c # cs = u @ r \<and> list_all p u) \<longleftrightarrow> r = c # cs \<or> (\<exists>u. p c \<and> cs = u @ r \<and> list_all p u)"
    by (auto simp: Cons_eq_append_conv)
  then show ?case using Cons by auto
qed auto

lemma two_parts:
  "(\<exists>a. (\<exists>u. s = u @ a \<and> P u) \<and> (\<exists>v. a = v @ e \<and> Q v)) \<longleftrightarrow> (\<exists>u v. s = u @ v @ e \<and> P u \<and> Q v)"
  by auto

lemma in_re_plus: "r \<in> set (re_plus p s) \<longleftrightarrow> (\<exists>u. u \<noteq> [] \<and> s = u @ r \<and> list_all p u)"
  by (cases s) (auto simp: in_re_star Cons_eq_append_conv)

lemma in_re_literal: "r \<in> set (re_literal w s) \<longleftrightarrow> (\<exists>u. s = u @ r \<and> py_lower u = py_lower w)"
proof (induction w s rule: re_literal.induct)
  case (3 w ws c cs)
  then show ?case by (auto simp: py_lower_def Cons_eq_append_conv)
qed (auto simp: py_lower_def)

text \<open>A spoken form of a phrase: its words in any case, with separators between them.\<close>

fun spoken :: "string list \<Rightarrow> string \<Rightarrow> bool" where
  "spoken [] t = (t = [])"
| "spoken [w] t = (py_lower t = py_lower w)"
| "spoken (w # v # ws) t = (\<exists>u sep t'. t = u @ sep @ t' \<and> py_lower u = py_lower w
     \<and> sep \<noteq> [] \<and> list_all separator_char sep \<and> spoken (v # ws) t')"

lemma in_re_words: "r \<in> set (re_words ws s) \<longleftrightarrow> (\<exists>t. s = t @ r \<and> spoken ws t)"
proof (induction ws s arbitrary: r rule: re_words.induct)
  case (3 w v ws s)
  show ?case
  proof
    assume "r \<in> set (re_words (w # v # ws) s)"
    then obtain a b where ab: "a \<in> set (re_literal w s)" "b \<in> set (re_plus separator_char a)" "r \<in> set (re_words (v # ws) b)" by auto
    obtain u where u: "s = u @ a" "py_lower u = py_lower w" using ab(1) by (auto simp: in_re_literal)
    obtain sep where sep: "sep \<noteq> []" "a = sep @ b" "list_all separator_char sep" using ab(2) by (auto simp: in_re_plus)
    obtain t where t: "b = t @ r" "spoken (v # ws) t" using 3[OF ab(1,2)] ab(3) by auto
    have "s = (u @ sep @ t) @ r" "spoken (w # v # ws) (u @ sep @ t)" using u sep t by auto
    then show "\<exists>t. s = t @ r \<and> spoken (w # v # ws) t" by blast
  next
    assume "\<exists>t. s = t @ r \<and> spoken (w # v # ws) t"
    then obtain u sep t where d: "s = u @ sep @ t @ r" "py_lower u = py_lower w" "sep \<noteq> []" "list_all separator_char sep" "spoken (v # ws) t"
      by auto
    have a: "sep @ t @ r \<in> set (re_literal w s)" using d by (auto simp: in_re_literal)
    have b: "t @ r \<in> set (re_plus separator_char (sep @ t @ r))" using d by (auto simp: in_re_plus)
    have "r \<in> set (re_words (v # ws) (t @ r))" using 3[OF a b] d(5) by auto
    then show "r \<in> set (re_words (w # v # ws) s)" using a b by fastforce
  qed
qed (auto simp: in_re_literal)

text \<open>The remainder: separators, then one line, up to the end or a final line break.\<close>

definition remainder_of :: "string \<Rightarrow> string \<Rightarrow> bool" where
  "remainder_of r g = (\<exists>sep line e. r = sep @ line @ e \<and> g = sep @ line \<and> list_all separator_char sep
     \<and> list_all (\<lambda>c. c \<noteq> newline) line \<and> (e = [] \<or> e = [newline]))"

lemma in_re_remainder: "g \<in> set (re_remainder r) \<longleftrightarrow> remainder_of r g"
proof -
  let ?E = "{e. (e = [] \<or> e = [newline]) \<and> (\<exists>sep line. r = sep @ line @ e \<and> list_all separator_char sep \<and> list_all (\<lambda>c. c \<noteq> newline) line)}"
  have E: "set (filter (\<lambda>e. e = [] \<or> e = [newline]) (concat (map (re_star (\<lambda>c. c \<noteq> newline)) (re_star separator_char r)))) = ?E"
    unfolding set_filter in_bind in_re_star Bex_def two_parts by (rule Collect_cong) (rule conj_commute)
  have "set (re_remainder r) = (\<lambda>e. take (length r - length e) r) ` ?E"
    unfolding re_remainder_def set_map E ..
  then have "g \<in> set (re_remainder r) \<longleftrightarrow> (\<exists>e. e \<in> ?E \<and> g = take (length r - length e) r)" by (simp only: image_iff Bex_def)
  also have "\<dots> \<longleftrightarrow> remainder_of r g"
  proof
    assume "\<exists>e. e \<in> ?E \<and> g = take (length r - length e) r"
    then obtain sep line e where d: "e = [] \<or> e = [newline]" "r = sep @ line @ e" "list_all separator_char sep"
      "list_all (\<lambda>c. c \<noteq> newline) line" "g = take (length r - length e) r" by blast
    have "g = sep @ line" using d(2,5) by simp
    then show "remainder_of r g" unfolding remainder_of_def using d by blast
  next
    assume "remainder_of r g"
    then obtain sep line e where d: "r = sep @ line @ e" "g = sep @ line" "list_all separator_char sep"
      "list_all (\<lambda>c. c \<noteq> newline) line" "e = [] \<or> e = [newline]" unfolding remainder_of_def by blast
    have "g = take (length r - length e) r" using d(1,2) by simp
    then show "\<exists>e. e \<in> ?E \<and> g = take (length r - length e) r" using d by blast
  qed
  finally show ?thesis .
qed

text \<open>What may precede the phrase: white space, then anything but letters and digits.\<close>

definition lead_ok :: "string \<Rightarrow> bool" where
  "lead_ok l = (\<exists>u v. l = u @ v \<and> list_all is_space u \<and> list_all lead_char v)"

definition starts_with_phrase :: "string list \<Rightarrow> string \<Rightarrow> string \<Rightarrow> bool" where
  "starts_with_phrase ws s g = (\<exists>l t r. s = l @ t @ r \<and> lead_ok l \<and> spoken ws t \<and> word_boundary s r \<and> remainder_of r g)"

lemma in_prefix_matches: "g \<in> set (prefix_matches ws s) \<longleftrightarrow> starts_with_phrase ws s g"
proof -
  have lead: "r \<in> set (concat (map (re_star lead_char) (re_star is_space s))) \<longleftrightarrow> (\<exists>l. s = l @ r \<and> lead_ok l)" for r
    unfolding in_bind in_re_star Bex_def two_parts lead_ok_def by auto blast+
  have "r \<in> set (concat (map (re_words ws) (concat (map (re_star lead_char) (re_star is_space s)))))
      \<longleftrightarrow> (\<exists>l t. s = l @ t @ r \<and> lead_ok l \<and> spoken ws t)" for r
    unfolding in_bind[of r "re_words ws"] in_re_words Bex_def lead two_parts ..
  then show ?thesis
    unfolding prefix_matches_def starts_with_phrase_def in_bind[of g re_remainder] in_re_remainder set_filter Bex_def mem_Collect_eq
    by (auto simp only:)
qed

lemma pattern_match_Some: "pattern_match ws s = Some g \<Longrightarrow> starts_with_phrase ws s g"
  by (auto simp: pattern_match_def simp flip: in_prefix_matches split: list.splits)

lemma pattern_match_None: "pattern_match ws s = None \<longleftrightarrow> \<not> (\<exists>g. starts_with_phrase ws s g)"
  by (auto simp: pattern_match_def simp flip: in_prefix_matches split: list.splits)

lemma trigger_match_Some:
  assumes "trigger_match ps s = Some d"
  shows "\<exists>pre ws post g. ps = pre @ (td_kind d, td_phrase d, ws) # post \<and> starts_with_phrase ws s g
    \<and> td_routed_transcript d = clean_remainder g \<and> (\<forall>(k, p, vs) \<in> set pre. \<forall>g'. \<not> starts_with_phrase vs s g')"
  using assms
proof (induction ps s rule: trigger_match.induct)
  case (2 kind phrase ws ps s)
  show ?case
  proof (cases "pattern_match ws s")
    case None
    then have "trigger_match ps s = Some d" using 2(2) by simp
    from 2(1)[OF None this] obtain pre vs post g where d: "ps = pre @ (td_kind d, td_phrase d, vs) # post" "starts_with_phrase vs s g"
      "td_routed_transcript d = clean_remainder g" "\<forall>(k, p, vs) \<in> set pre. \<forall>g'. \<not> starts_with_phrase vs s g'" by blast
    have "\<forall>(k, p, vs) \<in> set ((kind, phrase, ws) # pre). \<forall>g'. \<not> starts_with_phrase vs s g'"
      using d(4) None by (simp add: pattern_match_None)
    moreover have "(kind, phrase, ws) # ps = ((kind, phrase, ws) # pre) @ (td_kind d, td_phrase d, vs) # post" using d(1) by simp
    ultimately show ?thesis using d(2,3) by blast
  next
    case (Some g)
    then have d: "td_kind d = kind" "td_phrase d = phrase" "td_routed_transcript d = clean_remainder g" using 2(2) by auto
    have "(kind, phrase, ws) # ps = [] @ (td_kind d, td_phrase d, ws) # ps" using d by simp
    then show ?thesis using d(3) pattern_match_Some[OF Some] by (metis empty_iff list.set(1))
  qed
qed simp

lemma trigger_match_None:
  "trigger_match ps s = None \<longleftrightarrow> (\<forall>(k, p, ws) \<in> set ps. \<forall>g. \<not> starts_with_phrase ws s g)"
  by (induction ps s rule: trigger_match.induct) (auto simp: pattern_match_None dest: pattern_match_Some split: option.splits)

text \<open>The empty phrase is the only one that cannot be compiled.\<close>

lemma compile_prefix_pattern_fails: "(\<exists>e. compile_prefix_pattern p = Inl e) \<longleftrightarrow> py_split (py_lower p) = []"
  using py_split_words[of "py_lower p"]
  by (cases "py_split (py_lower p)" rule: list.exhaust; cases "tl (py_split (py_lower p))")
    (auto simp: compile_prefix_pattern_def trigger_normalize_def Let_def is_word_def)

section \<open>Properties\<close>

text \<open>
  A transcript is routed by the first of the compiled phrases it begins with: after white
  space and characters that are no letters or digits come the words of the phrase in any case with
  separators between them, then a word boundary, and what remains up to the end of its line, less
  the punctuation around it, is the request. When no phrase is reported, the transcript begins
  with none of them.
\<close>

lemma trigger_match_finds_first_phrase:
  "case trigger_match ps s of
     None \<Rightarrow> \<forall>(k, p, ws) \<in> set ps. \<forall>g. \<not> starts_with_phrase ws s g
   | Some d \<Rightarrow> \<exists>pre ws post g. ps = pre @ (td_kind d, td_phrase d, ws) # post \<and> starts_with_phrase ws s g
       \<and> td_routed_transcript d = clean_remainder g \<and> (\<forall>(k, p, vs) \<in> set pre. \<forall>g'. \<not> starts_with_phrase vs s g')"
proof (cases "trigger_match ps s")
  case None
  have "\<forall>(k, p, ws) \<in> set ps. \<forall>g. \<not> starts_with_phrase ws s g" using None trigger_match_None[of ps s] by blast
  then show ?thesis unfolding None by simp
next
  case (Some d)
  from trigger_match_Some[OF this] show ?thesis unfolding Some by simp
qed

text \<open>A transcript with a misheard name, matched by the second pattern.\<close>

definition ex_patterns :: trigger_patterns where
  "ex_patterns = [(Wake_command, ''jarvis'', [''jarvis'']), (Wake_command, ''jarvis'', [''jar'', ''vis''])]"

lemma ex_trigger: "trigger_match ex_patterns ''- Jar, VIS: go on!'' =
    Some \<lparr> td_kind = Wake_command, td_phrase = ''jarvis'', td_routed_transcript = ''go on'' \<rparr>"
  by code_simp

lemma trigger_match_finds_first_phrase_witness:
  "\<exists>pre ws post g. ex_patterns = pre @ (Wake_command, ''jarvis'', ws) # post
     \<and> starts_with_phrase ws ''- Jar, VIS: go on!'' g \<and> ''go on'' = clean_remainder g"
  using trigger_match_finds_first_phrase[of ex_patterns "''- Jar, VIS: go on!''"] unfolding ex_trigger
  by (simp only: option.case trigger_detection.simps) blast

end
