(* ===== verification/TurnProcessor.thy ===== *)
theory TurnProcessor
  imports VoiceLoop LiveConversation AudioLevels Triggers
begin

text \<open>
  One captured turn, from the utterance to its result: \<open>voice/turn_processor.py\<close> with the parts of
  \<open>turn_side_effects.py\<close>, \<open>agent_turn.py\<close> and \<open>turn_results.py\<close> it goes through. The control of a
  speculative turn changes while the turn runs, so it is a function of the number of effects so
  far; the transcriber, the clock and the language-model flow are arguments.
\<close>

section \<open>The surroundings of a turn\<close>

datatype flow_result = Flow_no_action | Flow_task bool

text \<open>
  \<open>tw_done\<close> and \<open>tw_timed\<close> are the sets of finished tasks \<open>asyncio.wait\<close> returns, without and with a
  timeout: commit and cancel. A \<open>Flow_task\<close> says whether its attempt was reviewed.
\<close>

record turn_world =
  tw_control :: "(nat \<Rightarrow> turn_control) option"
  tw_done :: "nat \<Rightarrow> bool \<times> bool"
  tw_timed :: "nat \<Rightarrow> bool \<times> bool"
  tw_transcribe :: "nat \<Rightarrow> frame \<Rightarrow> int \<Rightarrow> string option \<Rightarrow> py_error + string"
  tw_clock :: "nat \<Rightarrow> nat"
  tw_flow :: "(nat \<Rightarrow> string \<Rightarrow> py_error + flow_result) option"

record turn_config =
  tc_conversation_id :: "string option"
  tc_task_choice_enabled :: bool
  tc_patterns :: trigger_patterns
  tc_time_text :: time_text

text \<open>What a turn does; of an event for the user only its stage is kept.\<close>

datatype turn_effect =
    Fx_await
  | Fx_checkpoint
  | Fx_transcribe "string option"
  | Fx_emit string
  | Fx_remember string
  | Fx_bind "string option"
  | Fx_record string
  | Fx_set_mode conversation_mode
  | Fx_flow string
  | Fx_resolve "string option"

record turn_state =
  ts_effects :: "turn_effect list"
  ts_live :: "live_context option"
  ts_mode :: "mode_controller option"

datatype turn_outcome = Nothing_done | Transcribed_only | No_action | Task_done

record voice_turn_result =
  vr_mode :: conversation_mode
  vr_mode_switched :: bool
  vr_keyphrase_detection :: "keyphrase_detection option"
  vr_trigger_detection :: "trigger_detection option"
  vr_routed_transcript :: string
  vr_ignored :: bool
  vr_utterance :: "utterance option"
  vr_transcript :: "string option"
  vr_outcome :: turn_outcome

section \<open>Sequencing\<close>

type_synonym 'a turn = "turn_state \<Rightarrow> (py_error + 'a) \<times> turn_state"

definition turn_return :: "'a \<Rightarrow> 'a turn" where
  "turn_return x s = (Inr x, s)"

definition turn_raise :: "py_error \<Rightarrow> 'a turn" where
  "turn_raise e s = (Inl e, s)"

definition turn_then :: "'a turn \<Rightarrow> ('a \<Rightarrow> 'b turn) \<Rightarrow> 'b turn" where
  "turn_then m f s = (case m s of (Inl e, s1) \<Rightarrow> (Inl e, s1) | (Inr x, s1) \<Rightarrow> f x s1)"

definition add_effect :: "turn_effect \<Rightarrow> turn_state \<Rightarrow> turn_state" where
  "add_effect e s = s\<lparr> ts_effects := ts_effects s @ [e] \<rparr>"

definition effect :: "turn_effect \<Rightarrow> unit turn" where
  "effect e s = (Inr (), add_effect e s)"

definition turn_now :: "turn_state \<Rightarrow> nat" where
  "turn_now s = length (ts_effects s)"

section \<open>The turn control\<close>

definition turn_checkpoint :: "turn_world \<Rightarrow> unit turn" where
  "turn_checkpoint w s =
     (case tw_control w of
        None \<Rightarrow> (Inr (), s)
      | Some ctl \<Rightarrow> (checkpoint (ctl (turn_now s)), add_effect Fx_checkpoint s))"

definition turn_wait_until_committed :: "turn_world \<Rightarrow> unit turn" where
  "turn_wait_until_committed w s =
     (case tw_control w of
        None \<Rightarrow> (Inr (), s)
      | Some ctl \<Rightarrow>
          (wait_until_committed (ctl (turn_now s)) (fst (tw_done w (turn_now s))) (snd (tw_done w (turn_now s)))
             (ctl (Suc (turn_now s))), add_effect Fx_await s))"

definition wait_for_speculative_transcription_start :: "turn_world \<Rightarrow> unit turn" where
  "wait_for_speculative_transcription_start w s =
     (case tw_control w of
        None \<Rightarrow> (Inr (), s)
      | Some ctl \<Rightarrow>
          (map_sum id (\<lambda>_. ()) (wait_for_commit_or_cancel (ctl (turn_now s)) (fst (tw_timed w (turn_now s)))
             (snd (tw_timed w (turn_now s))) (ctl (Suc (turn_now s)))), add_effect Fx_await s))"

section \<open>Side effects\<close>

definition remember_live_human_reply :: "turn_config \<Rightarrow> turn_world \<Rightarrow> string \<Rightarrow> string option turn" where
  "remember_live_human_reply c w text s =
     (case ts_live s of
        None \<Rightarrow> (Inr None, s)
      | Some live \<Rightarrow>
          (case live_add_message (tc_time_text c) (tw_clock w (turn_now s)) (tc_conversation_id c) ''human'' text live of
             (r, live1) \<Rightarrow> (r, (add_effect (Fx_remember text) s)\<lparr> ts_live := Some live1 \<rparr>)))"

definition resolve_live_human_reply :: "string option \<Rightarrow> unit turn" where
  "resolve_live_human_reply captured_at s =
     (Inr (), (add_effect (Fx_resolve captured_at) s)\<lparr> ts_live := map_option (resolve_human_reply captured_at) (ts_live s) \<rparr>)"

definition record_human_reply_in_background :: "turn_config \<Rightarrow> string \<Rightarrow> unit turn" where
  "record_human_reply_in_background c text =
     (if tc_conversation_id c = None \<or> text = [] then turn_return () else effect (Fx_record text))"

section \<open>Results\<close>

definition mode_switch_turn_result :: "capture_result \<Rightarrow> conversation_mode \<Rightarrow> voice_turn_result" where
  "mode_switch_turn_result cap mode =
     \<lparr> vr_mode = mode, vr_mode_switched = True, vr_keyphrase_detection = cr_keyphrase_detection cap,
       vr_trigger_detection = None, vr_routed_transcript = [], vr_ignored = False, vr_utterance = None,
       vr_transcript = None, vr_outcome = Nothing_done \<rparr>"

definition ignored_turn_result :: "capture_result \<Rightarrow> conversation_mode \<Rightarrow> voice_turn_result" where
  "ignored_turn_result cap mode =
     \<lparr> vr_mode = mode, vr_mode_switched = cr_mode_switched cap,
       vr_keyphrase_detection = cr_keyphrase_detection cap, vr_trigger_detection = None,
       vr_routed_transcript = [], vr_ignored = True, vr_utterance = cr_utterance cap,
       vr_transcript = None, vr_outcome = Nothing_done \<rparr>"

definition transcribed_turn_result ::
  "capture_result \<Rightarrow> conversation_mode \<Rightarrow> string \<Rightarrow> trigger_detection option \<Rightarrow> string \<Rightarrow> turn_outcome \<Rightarrow> voice_turn_result" where
  "transcribed_turn_result cap mode transcript trigger routed outcome =
     \<lparr> vr_mode = mode, vr_mode_switched = cr_mode_switched cap,
       vr_keyphrase_detection = cr_keyphrase_detection cap, vr_trigger_detection = trigger,
       vr_routed_transcript = routed, vr_ignored = False, vr_utterance = cr_utterance cap,
       vr_transcript = Some transcript, vr_outcome = outcome \<rparr>"

section \<open>The agent turn\<close>

definition run_flow :: "turn_world \<Rightarrow> (nat \<Rightarrow> string \<Rightarrow> py_error + flow_result) \<Rightarrow> string \<Rightarrow> flow_result turn" where
  "run_flow w flow text s = (flow (turn_now s) text, add_effect (Fx_flow text) s)"

definition finish_agent_turn ::
  "turn_world \<Rightarrow> capture_result \<Rightarrow> conversation_mode \<Rightarrow> string \<Rightarrow> trigger_detection option \<Rightarrow> string \<Rightarrow> flow_result
     \<Rightarrow> voice_turn_result turn" where
  "finish_agent_turn w cap mode transcript trigger routed result =
     (case result of
        Flow_no_action \<Rightarrow> turn_return (transcribed_turn_result cap mode transcript trigger routed No_action)
      | Flow_task reviewed \<Rightarrow>
          turn_then (if reviewed then effect (Fx_emit ''task-completion-reviewed'') else turn_return ()) (\<lambda>_.
          turn_then (turn_checkpoint w) (\<lambda>_.
          turn_return (transcribed_turn_result cap mode transcript trigger routed Task_done))))"

definition process_agent_turn ::
  "turn_config \<Rightarrow> turn_world \<Rightarrow> capture_result \<Rightarrow> conversation_mode \<Rightarrow> string \<Rightarrow> trigger_detection option \<Rightarrow> string
     \<Rightarrow> voice_turn_result turn" where
  "process_agent_turn c w cap mode transcript trigger routed =
     (if \<not> tc_task_choice_enabled c \<or> routed = [] then
        turn_then (if routed = [] then effect (Fx_emit ''task-choice'') else turn_return ()) (\<lambda>_.
        turn_return (transcribed_turn_result cap mode transcript trigger routed Transcribed_only))
      else case tw_flow w of
        None \<Rightarrow> turn_raise (RuntimeError ''Voice prompt processing requires a BAML turn flow.'')
      | Some flow \<Rightarrow>
          turn_then (effect (Fx_emit ''turn-understanding'')) (\<lambda>_.
          turn_then (run_flow w flow routed) (\<lambda>result.
          finish_agent_turn w cap mode transcript trigger routed result)))"

section \<open>The processor\<close>

definition is_continuous_unprompted :: "conversation_mode \<Rightarrow> capture_result \<Rightarrow> bool" where
  "is_continuous_unprompted mode cap = (mode = CONTINUOUS_CONVERSATION \<and> cr_keyphrase_detection cap = None)"

definition is_conversation_on_confirmation :: "capture_result \<Rightarrow> bool" where
  "is_conversation_on_confirmation cap =
     (case cr_keyphrase_detection cap of
        None \<Rightarrow> False
      | Some d \<Rightarrow> kd_kind d = Conversation_on \<and> \<not> cr_mode_switched cap)"

definition is_conversation_on_trigger_only :: "trigger_detection option \<Rightarrow> bool" where
  "is_conversation_on_trigger_only trigger =
     (case trigger of None \<Rightarrow> False | Some d \<Rightarrow> td_kind d = Conversation_on \<and> td_routed_transcript d = [])"

definition mode_switch_capture :: "capture_result \<Rightarrow> conversation_mode \<Rightarrow> capture_result" where
  "mode_switch_capture cap mode =
     cap\<lparr> cr_conversation_mode := mode, cr_utterance := None, cr_mode_switched := True,
       cr_wait_for_speech_seconds := None, cr_speech_capture_wall_seconds := None \<rparr>"

definition match_trigger :: "turn_config \<Rightarrow> string \<Rightarrow> capture_result \<Rightarrow> py_error + trigger_detection option" where
  "match_trigger c transcript cap =
     (case cr_keyphrase_detection cap of
        None \<Rightarrow> Inr (trigger_match (tc_patterns c) transcript)
      | Some d \<Rightarrow> match_confirmed transcript (kd_kind d) (kd_phrase d))"

definition turn_lift :: "py_error + 'a \<Rightarrow> 'a turn" where
  "turn_lift r s = (r, s)"

definition run_transcriber :: "turn_world \<Rightarrow> utterance \<Rightarrow> string option \<Rightarrow> string turn" where
  "run_transcriber w u prompt s =
     (tw_transcribe w (turn_now s) (ut_samples u) (ut_sample_rate u) prompt, add_effect (Fx_transcribe prompt) s)"

definition transcribe_utterance :: "turn_world \<Rightarrow> utterance \<Rightarrow> string option \<Rightarrow> string turn" where
  "transcribe_utterance w u prompt =
     turn_then (effect (Fx_emit ''transcribing'')) (\<lambda>_.
     turn_then (run_transcriber w u prompt) (\<lambda>text.
     turn_then (turn_checkpoint w) (\<lambda>_.
     turn_then (effect (Fx_emit ''transcript'')) (\<lambda>_.
     turn_return text))))"

definition set_conversation_mode :: "conversation_mode \<Rightarrow> bool turn" where
  "set_conversation_mode mode s =
     (case ts_mode s of
        None \<Rightarrow> (Inr True, s)
      | Some m \<Rightarrow> (case mode_set mode m of
           (changed, m1) \<Rightarrow> (Inr changed, (add_effect (Fx_set_mode mode) s)\<lparr> ts_mode := Some m1 \<rparr>)))"

definition turn_on_conversation_mode :: "conversation_mode turn" where
  "turn_on_conversation_mode =
     turn_then (set_conversation_mode CONTINUOUS_CONVERSATION) (\<lambda>changed.
     turn_then (if changed then effect (Fx_emit ''conversation-mode'') else turn_return ()) (\<lambda>_.
     turn_return CONTINUOUS_CONVERSATION))"

definition switch_mode :: "capture_result \<Rightarrow> voice_turn_result turn" where
  "switch_mode cap =
     turn_then turn_on_conversation_mode (\<lambda>mode.
     turn_return (mode_switch_turn_result (mode_switch_capture cap mode) mode))"

definition ignore_turn :: "capture_result \<Rightarrow> conversation_mode \<Rightarrow> voice_turn_result turn" where
  "ignore_turn cap mode =
     turn_then (effect (Fx_emit ''turn-ignored'')) (\<lambda>_. turn_return (ignored_turn_result cap mode))"

text \<open>\<open>CONVERSATION_ON_CONFIRMATION_PROMPT\<close> of \<open>speech/transcription_types.py\<close> is an argument.\<close>

definition process_conversation_on_confirmation ::
  "string \<Rightarrow> turn_world \<Rightarrow> capture_result \<Rightarrow> utterance \<Rightarrow> string \<Rightarrow> conversation_mode \<Rightarrow> voice_turn_result turn" where
  "process_conversation_on_confirmation prompt w cap u phrase mode =
     turn_then (wait_for_speculative_transcription_start w) (\<lambda>_.
     turn_then (transcribe_utterance w u (Some prompt)) (\<lambda>text.
     turn_then (turn_lift (match_confirmed text Conversation_on phrase)) (\<lambda>trigger.
     turn_then (turn_wait_until_committed w) (\<lambda>_.
       if is_conversation_on_trigger_only trigger then switch_mode cap else ignore_turn cap mode))))"

definition remember_request :: "turn_config \<Rightarrow> turn_world \<Rightarrow> string \<Rightarrow> string option turn" where
  "remember_request c w routed =
     (if routed = [] then turn_return None
      else
        turn_then (remember_live_human_reply c w routed) (\<lambda>created_at.
        turn_then (if tw_flow w = None then turn_return () else effect (Fx_bind created_at)) (\<lambda>_.
        turn_then (effect (Fx_emit ''human-reply'')) (\<lambda>_.
        turn_then (record_human_reply_in_background c routed) (\<lambda>_.
        turn_return created_at)))))"

definition process_request ::
  "turn_config \<Rightarrow> turn_world \<Rightarrow> capture_result \<Rightarrow> conversation_mode \<Rightarrow> string \<Rightarrow> trigger_detection option \<Rightarrow> string
     \<Rightarrow> voice_turn_result turn" where
  "process_request c w cap mode text trigger routed =
     turn_then (remember_request c w routed) (\<lambda>created_at.
     turn_then (if trigger = None then turn_return () else effect (Fx_emit ''trigger'')) (\<lambda>_.
     turn_then (process_agent_turn c w cap mode text trigger routed) (\<lambda>result.
     turn_then (resolve_live_human_reply created_at) (\<lambda>_.
     turn_return result))))"

definition process_utterance ::
  "turn_config \<Rightarrow> turn_world \<Rightarrow> capture_result \<Rightarrow> utterance \<Rightarrow> conversation_mode \<Rightarrow> voice_turn_result turn" where
  "process_utterance c w cap u mode =
     turn_then (wait_for_speculative_transcription_start w) (\<lambda>_.
     turn_then (transcribe_utterance w u None) (\<lambda>text.
     turn_then (turn_lift (match_trigger c text cap)) (\<lambda>trigger.
     let routed = (case trigger of Some d \<Rightarrow> td_routed_transcript d | None \<Rightarrow> text) in
     turn_then (turn_wait_until_committed w) (\<lambda>_.
       if is_conversation_on_trigger_only trigger then switch_mode cap
       else process_request c w cap mode text trigger routed))))"

definition process_turn ::
  "string \<Rightarrow> turn_config \<Rightarrow> turn_world \<Rightarrow> capture_result \<Rightarrow> conversation_mode \<Rightarrow> voice_turn_result turn" where
  "process_turn prompt c w cap mode =
     (case cr_utterance cap of
        None \<Rightarrow>
          if cr_mode_switched cap then turn_return (mode_switch_turn_result cap mode)
          else turn_raise (RuntimeError ''Capture finished without an utterance.'')
      | Some u \<Rightarrow>
          if is_continuous_unprompted mode cap
             \<and> fst (should_ignore_continuous_utterance (ut_samples u) (ut_sample_rate u) default_noise_gate)
          then turn_then (turn_wait_until_committed w) (\<lambda>_. ignore_turn cap mode)
          else if is_conversation_on_confirmation cap
          then process_conversation_on_confirmation prompt w cap u
                 (case cr_keyphrase_detection cap of Some d \<Rightarrow> kd_phrase d | None \<Rightarrow> []) mode
          else process_utterance c w cap u mode)"

section \<open>What happens before the commit\<close>

text \<open>
  Effects that change something or that the user sees; a speculative turn may wait, transcribe
  and report the transcript.
\<close>

fun visible :: "turn_effect \<Rightarrow> bool" where
  "visible Fx_await = False"
| "visible Fx_checkpoint = False"
| "visible (Fx_transcribe p) = False"
| "visible (Fx_emit stage) = (stage \<noteq> ''transcribing'' \<and> stage \<noteq> ''transcript'')"
| "visible e = True"

definition confirmed_at :: "(nat \<Rightarrow> turn_control) \<Rightarrow> nat \<Rightarrow> bool" where
  "confirmed_at ctl n = (vt_committed (ctl n) \<and> \<not> vt_cancelled (ctl n))"

text \<open>Every effect that a computation adds after the first \<open>n\<close> satisfies a condition on their list.\<close>

definition leaves :: "(nat \<Rightarrow> turn_effect list \<Rightarrow> bool) \<Rightarrow> 'a turn \<Rightarrow> bool" where
  "leaves P m = (\<forall>s. \<exists>es. ts_effects (snd (m s)) = ts_effects s @ es \<and> P (length (ts_effects s)) es)"

abbreviation only_adds :: "'a turn \<Rightarrow> bool" where
  "only_adds m \<equiv> leaves (\<lambda>_ _. True) m"

abbreviation silent :: "'a turn \<Rightarrow> bool" where
  "silent m \<equiv> leaves (\<lambda>_ es. list_all (\<lambda>e. \<not> visible e) es) m"

definition guarded :: "(nat \<Rightarrow> turn_control) \<Rightarrow> nat \<Rightarrow> turn_effect list \<Rightarrow> bool" where
  "guarded ctl n es = (\<forall>i < length es. visible (es ! i) \<longrightarrow> (\<exists>j \<le> n + i. confirmed_at ctl j))"

lemma leaves_then:
  assumes "leaves P m" "\<And>x. leaves Q (f x)"
    and "\<And>n es. P n es \<Longrightarrow> R n es" "\<And>n es fs. P n es \<Longrightarrow> Q (n + length es) fs \<Longrightarrow> R n (es @ fs)"
  shows "leaves R (turn_then m f)"
  unfolding leaves_def
proof
  fix s
  obtain r s1 where m: "m s = (r, s1)" by fastforce
  obtain es where es: "ts_effects s1 = ts_effects s @ es" "P (length (ts_effects s)) es"
    using assms(1) m unfolding leaves_def by (metis snd_conv)
  show "\<exists>es. ts_effects (snd (turn_then m f s)) = ts_effects s @ es \<and> R (length (ts_effects s)) es"
  proof (cases r)
    case (Inl e)
    then show ?thesis using m es assms(3) by (auto simp: turn_then_def)
  next
    case (Inr x)
    obtain fs where fs: "ts_effects (snd (f x s1)) = ts_effects s1 @ fs" "Q (length (ts_effects s1)) fs"
      using assms(2)[of x] unfolding leaves_def by blast
    then have "R (length (ts_effects s)) (es @ fs)" using assms(4)[OF es(2)] es(1) by simp
    then show ?thesis using m es Inr fs by (auto simp: turn_then_def)
  qed
qed

named_theorems turn_rules \<open>how the effects of a turn compose\<close>

lemma adds_then [turn_rules]: "only_adds m \<Longrightarrow> (\<And>x. only_adds (f x)) \<Longrightarrow> only_adds (turn_then m f)"
  by (rule leaves_then) auto

lemma silent_then [turn_rules]: "silent m \<Longrightarrow> (\<And>x. silent (f x)) \<Longrightarrow> silent (turn_then m f)"
  by (rule leaves_then[where P = "\<lambda>_ es. list_all (\<lambda>e. \<not> visible e) es" and Q = "\<lambda>_ es. list_all (\<lambda>e. \<not> visible e) es"]) auto

lemma nothing_added [turn_rules]:
  "only_adds (turn_return x)" "only_adds (turn_raise e)" "only_adds (turn_lift r)"
  "silent (turn_return x)" "silent (turn_raise e)" "silent (turn_lift r)"
  by (simp_all add: leaves_def turn_return_def turn_raise_def turn_lift_def)

lemma one_added [turn_rules]:
  "only_adds (effect e)" "only_adds (turn_checkpoint w)" "only_adds (run_flow w flow text)"
  "only_adds (remember_live_human_reply c w text)" "only_adds (resolve_live_human_reply a)" "only_adds (set_conversation_mode mode)"
  by (auto simp: leaves_def effect_def turn_checkpoint_def run_flow_def remember_live_human_reply_def
      resolve_live_human_reply_def set_conversation_mode_def add_effect_def split: option.splits prod.splits)

lemma silent_basic [turn_rules]:
  "silent (turn_checkpoint w)" "silent (wait_for_speculative_transcription_start w)" "silent (run_transcriber w u p)"
  "silent (effect (Fx_emit ''transcribing''))" "silent (effect (Fx_emit ''transcript''))"
  by (auto simp: leaves_def turn_checkpoint_def add_effect_def effect_def wait_for_speculative_transcription_start_def
      run_transcriber_def split: option.splits)

lemma adds_branch [turn_rules]: "only_adds a \<Longrightarrow> only_adds b \<Longrightarrow> only_adds (if P then a else b)"
  by simp

lemma guarded_append:
  assumes "list_all (\<lambda>e. \<not> visible e) es" "guarded ctl (n + length es) fs"
  shows "guarded ctl n (es @ fs)"
  unfolding guarded_def
proof (intro allI impI)
  fix i assume i: "i < length (es @ fs)" and v: "visible ((es @ fs) ! i)"
  then have "length es \<le> i" using assms(1) by (auto simp: list_all_length nth_append split: if_splits)
  then have "i - length es < length fs" "visible (fs ! (i - length es))" using i v by (auto simp: nth_append)
  then obtain j where "j \<le> n + length es + (i - length es)" "confirmed_at ctl j" using assms(2) unfolding guarded_def by blast
  then show "\<exists>j \<le> n + i. confirmed_at ctl j" using \<open>length es \<le> i\<close> by auto
qed

lemma silent_guarded: "list_all (\<lambda>e. \<not> visible e) es \<Longrightarrow> guarded ctl n es"
  by (auto simp: guarded_def list_all_length)

lemma silent_then_guarded:
  "silent m \<Longrightarrow> (\<And>x. leaves (guarded ctl) (f x)) \<Longrightarrow> leaves (guarded ctl) (turn_then m f)"
  by (rule leaves_then[where P = "\<lambda>_ es. list_all (\<lambda>e. \<not> visible e) es" and Q = "guarded ctl"])
    (auto intro: guarded_append silent_guarded)

lemma silent_is_guarded: "silent m \<Longrightarrow> leaves (guarded ctl) m"
  unfolding leaves_def using silent_guarded by blast

text \<open>
  What the documentation of \<open>asyncio.wait\<close> promises: without a timeout at least one task is done,
  and the task that waits for the commit is done only when the commit is set.
\<close>

definition asyncio_wait_ok :: "turn_world \<Rightarrow> (nat \<Rightarrow> turn_control) \<Rightarrow> bool" where
  "asyncio_wait_ok w ctl =
     (tw_control w = Some ctl
      \<and> (\<forall>n. fst (tw_done w n) \<or> snd (tw_done w n)) \<and> (\<forall>n. fst (tw_done w n) \<longrightarrow> vt_committed (ctl (Suc n))))"

lemma wait_confirms:
  assumes "asyncio_wait_ok w ctl" "turn_wait_until_committed w s = (Inr (), s1)"
  shows "ts_effects s1 = ts_effects s @ [Fx_await]"
    "\<exists>j \<le> Suc (length (ts_effects s)). confirmed_at ctl j"
proof -
  show "ts_effects s1 = ts_effects s @ [Fx_await]"
    using assms by (auto simp: turn_wait_until_committed_def asyncio_wait_ok_def add_effect_def)
  show "\<exists>j \<le> Suc (length (ts_effects s)). confirmed_at ctl j"
    using assms
    by (auto simp: turn_wait_until_committed_def asyncio_wait_ok_def wait_until_committed_def control_wait_def
        checkpoint_def confirmed_at_def turn_now_def split: if_splits sum.splits)
      (metis le_SucI le_refl)+
qed

lemma wait_then_guarded:
  assumes ok: "asyncio_wait_ok w ctl" and f: "\<And>x. only_adds (f x)"
  shows "leaves (guarded ctl) (turn_then (turn_wait_until_committed w) f)"
  unfolding leaves_def
proof
  fix s
  obtain r s1 where m: "turn_wait_until_committed w s = (r, s1)" by fastforce
  have es: "ts_effects s1 = ts_effects s @ [Fx_await]"
    using m ok by (auto simp: turn_wait_until_committed_def asyncio_wait_ok_def add_effect_def)
  show "\<exists>es. ts_effects (snd (turn_then (turn_wait_until_committed w) f s)) = ts_effects s @ es
      \<and> guarded ctl (length (ts_effects s)) es"
  proof (cases r)
    case (Inl e)
    then show ?thesis using m es by (auto simp: turn_then_def guarded_def)
  next
    case (Inr u)
    obtain j where j: "j \<le> Suc (length (ts_effects s))" "confirmed_at ctl j" using wait_confirms(2)[OF ok] m Inr by auto
    obtain fs where fs: "ts_effects (snd (f u s1)) = ts_effects s1 @ fs" using f[of u] unfolding leaves_def by blast
    have "guarded ctl (length (ts_effects s)) (Fx_await # fs)"
      unfolding guarded_def
    proof (intro allI impI)
      fix i assume "visible ((Fx_await # fs) ! i)"
      then have "0 < i" by (cases i) auto
      then show "\<exists>j \<le> length (ts_effects s) + i. confirmed_at ctl j" using j by (auto intro!: exI[of _ j])
    qed
    then show ?thesis using m es Inr fs by (auto simp: turn_then_def)
  qed
qed

lemma agent_turn_adds [turn_rules]: "only_adds (process_agent_turn c w cap mode text trigger routed)"
  unfolding process_agent_turn_def finish_agent_turn_def
  by (auto intro!: turn_rules split: option.splits flow_result.splits)

lemma request_adds [turn_rules]: "only_adds (process_request c w cap mode text trigger routed)"
  unfolding process_request_def remember_request_def record_human_reply_in_background_def
  by (auto intro!: turn_rules)

lemma switch_adds [turn_rules]: "only_adds (switch_mode cap)" "only_adds (ignore_turn cap mode)"
  unfolding switch_mode_def turn_on_conversation_mode_def ignore_turn_def by (auto intro!: turn_rules)

lemma transcribe_silent [turn_rules]: "silent (transcribe_utterance w u p)"
  unfolding transcribe_utterance_def by (auto intro!: turn_rules)

lemma process_turn_guarded:
  assumes "asyncio_wait_ok w ctl"
  shows "leaves (guarded ctl) (process_turn prompt c w cap mode)"
  unfolding process_turn_def process_conversation_on_confirmation_def process_utterance_def Let_def
  by (auto split: option.splits
      intro!: silent_is_guarded[OF nothing_added(4)] silent_is_guarded[OF nothing_added(5)] wait_then_guarded[OF assms]
        silent_then_guarded[OF silent_basic(2)] silent_then_guarded[OF transcribe_silent] silent_then_guarded[OF nothing_added(6)]
        turn_rules)

section \<open>The order of the lasting effects\<close>

fun lasting :: "turn_effect \<Rightarrow> bool" where
  "lasting Fx_await = False"
| "lasting Fx_checkpoint = False"
| "lasting (Fx_transcribe p) = False"
| "lasting (Fx_emit stage) = False"
| "lasting e = True"

abbreviation lasting_effects :: "turn_state \<Rightarrow> turn_effect list" where
  "lasting_effects s \<equiv> filter lasting (ts_effects s)"

lemma turn_then_returns:
  "turn_then m f s = (Inr x, s2) \<longleftrightarrow> (\<exists>y s1. m s = (Inr y, s1) \<and> f y s1 = (Inr x, s2))"
  by (auto simp: turn_then_def split: sum.splits prod.splits)

lemma lasting_is_visible: "lasting e \<Longrightarrow> visible e"
  by (cases e) auto

lemma silent_lasting:
  assumes "silent m" "m s = (r, s1)"
  shows "lasting_effects s1 = lasting_effects s"
proof -
  have "\<exists>es. ts_effects (snd (m s)) = ts_effects s @ es \<and> list_all (\<lambda>e. \<not> visible e) es"
    using assms(1) unfolding leaves_def by (rule spec)
  then obtain es where es: "ts_effects s1 = ts_effects s @ es" "\<forall>e \<in> set es. \<not> visible e"
    using assms(2) by (auto simp: list_all_iff)
  have "filter lasting es = []" using es(2) lasting_is_visible unfolding filter_empty_conv by blast
  then show ?thesis by (simp add: es(1))
qed

lemma silent_live:
  "turn_checkpoint w s = (r, s1) \<Longrightarrow> ts_live s1 = ts_live s"
  "turn_wait_until_committed w s = (r, s1) \<Longrightarrow> ts_live s1 = ts_live s \<and> lasting_effects s1 = lasting_effects s"
  "wait_for_speculative_transcription_start w s = (r, s1) \<Longrightarrow> ts_live s1 = ts_live s"
  "run_transcriber w u p s = (r2, s1) \<Longrightarrow> ts_live s1 = ts_live s"
  by (auto simp: turn_checkpoint_def turn_wait_until_committed_def wait_for_speculative_transcription_start_def
      run_transcriber_def add_effect_def split: option.splits)

lemma effect_returns [simp]:
  "effect e s = (r, s1) \<longleftrightarrow> r = Inr () \<and> s1 = add_effect e s"
  "turn_return x s = (r2, s1) \<longleftrightarrow> r2 = Inr x \<and> s1 = s"
  "turn_lift q s = (r3, s1) \<longleftrightarrow> r3 = q \<and> s1 = s"
  by (auto simp: effect_def turn_return_def turn_lift_def)

lemma add_effect_simps [simp]:
  "ts_effects (add_effect e s) = ts_effects s @ [e]" "ts_live (add_effect e s) = ts_live s" "ts_mode (add_effect e s) = ts_mode s"
  by (simp_all add: add_effect_def)

lemma transcribe_live: "transcribe_utterance w u p s = (Inr x, s1) \<Longrightarrow> ts_live s1 = ts_live s"
  by (auto simp: transcribe_utterance_def turn_then_returns dest!: silent_live)

text \<open>What an answered request leaves behind; \<open>b\<close> is the stamp of its live message.\<close>

definition answered_effects :: "turn_config \<Rightarrow> turn_world \<Rightarrow> string \<Rightarrow> string option \<Rightarrow> turn_effect list" where
  "answered_effects c w t b =
     [Fx_remember t] @ (if tw_flow w = None then [] else [Fx_bind b]) @ (if tc_conversation_id c = None then [] else [Fx_record t])
     @ (if tc_task_choice_enabled c then [Fx_flow t] else []) @ [Fx_resolve b]"

lemma remember_request_effects:
  assumes "remember_request c w t s = (Inr b, s1)" "t \<noteq> []" "ts_live s \<noteq> None"
  shows "lasting_effects s1 = lasting_effects s @ [Fx_remember t] @ (if tw_flow w = None then [] else [Fx_bind b])
    @ (if tc_conversation_id c = None then [] else [Fx_record t])"
  using assms
  by (cases "tw_flow w"; cases "tc_conversation_id c")
    (auto simp: remember_request_def turn_then_returns remember_live_human_reply_def record_human_reply_in_background_def
      split: option.splits prod.splits)

lemma finish_effects:
  assumes "finish_agent_turn w cap mode text trigger t result s = (Inr res, s1)"
  shows "lasting_effects s1 = lasting_effects s" "vr_routed_transcript res = t"
  using assms
  by (cases result; auto simp: finish_agent_turn_def turn_then_returns turn_checkpoint_def transcribed_turn_result_def
      split: if_splits option.splits)+

lemma agent_turn_effects:
  assumes "process_agent_turn c w cap mode text trigger t s = (Inr res, s1)"
  shows "t \<noteq> [] \<Longrightarrow> lasting_effects s1 = lasting_effects s @ (if tc_task_choice_enabled c then [Fx_flow t] else [])"
    "vr_routed_transcript res = t"
  using assms
  by (auto simp: process_agent_turn_def turn_then_returns run_flow_def turn_raise_def transcribed_turn_result_def
      dest: finish_effects split: if_splits option.splits)

lemma request_effects:
  assumes p: "process_request c w cap mode text trigger t s = (Inr res, s1)" and t: "vr_routed_transcript res \<noteq> []"
    and live: "ts_live s \<noteq> None"
  shows "\<exists>b. lasting_effects s1 = lasting_effects s @ answered_effects c w t b" "vr_routed_transcript res = t"
proof -
  obtain b sa where a: "remember_request c w t s = (Inr b, sa)"
    and sb: "\<exists>sb sc. process_agent_turn c w cap mode text trigger t sb = (Inr res, sc)
        \<and> lasting_effects sb = lasting_effects sa \<and> lasting_effects s1 = lasting_effects sc @ [Fx_resolve b]"
    using p by (fastforce simp: process_request_def turn_then_returns resolve_live_human_reply_def split: if_splits)
  then obtain sb sc where b: "process_agent_turn c w cap mode text trigger t sb = (Inr res, sc)"
    "lasting_effects sb = lasting_effects sa" "lasting_effects s1 = lasting_effects sc @ [Fx_resolve b]" by blast
  show r: "vr_routed_transcript res = t" using agent_turn_effects(2)[OF b(1)] .
  have "t \<noteq> []" using t r by simp
  then have "lasting_effects s1 = lasting_effects s @ answered_effects c w t b"
    using remember_request_effects[OF a _ live] agent_turn_effects(1)[OF b(1)] b(2,3) by (simp add: answered_effects_def)
  then show "\<exists>b. lasting_effects s1 = lasting_effects s @ answered_effects c w t b" ..
qed

lemma no_request:
  "switch_mode cap s = (Inr res, s1) \<Longrightarrow> vr_routed_transcript res = []"
  "ignore_turn cap mode s = (Inr res, s1) \<Longrightarrow> vr_routed_transcript res = []"
  by (auto simp: switch_mode_def ignore_turn_def turn_then_returns mode_switch_turn_result_def ignored_turn_result_def)

lemma utterance_effects:
  assumes p: "process_utterance c w cap u mode s = (Inr res, s1)" and t: "vr_routed_transcript res \<noteq> []"
    and live: "ts_live s \<noteq> None"
  shows "\<exists>b. lasting_effects s1 = lasting_effects s @ answered_effects c w (vr_routed_transcript res) b"
proof -
  obtain sa "text" sb trigger sc where steps:
    "wait_for_speculative_transcription_start w s = (Inr (), sa)" "transcribe_utterance w u None sa = (Inr text, sb)"
    "turn_wait_until_committed w sb = (Inr (), sc)"
    and rest: "(if is_conversation_on_trigger_only trigger then switch_mode cap
        else process_request c w cap mode text trigger (case trigger of Some d \<Rightarrow> td_routed_transcript d | None \<Rightarrow> text)) sc = (Inr res, s1)"
    using p by (auto simp: process_utterance_def turn_then_returns Let_def)
  have "process_request c w cap mode text trigger (case trigger of Some d \<Rightarrow> td_routed_transcript d | None \<Rightarrow> text) sc = (Inr res, s1)"
    using rest t no_request(1) by (auto split: if_splits)
  moreover have "lasting_effects sc = lasting_effects s" "ts_live sc = ts_live s"
    using steps silent_lasting[OF silent_basic(2) steps(1)] silent_lasting[OF transcribe_silent steps(2)]
      silent_live(2)[OF steps(3)] silent_live(3)[OF steps(1)] transcribe_live[OF steps(2)] by auto
  ultimately show ?thesis using request_effects[of c w cap mode "text" trigger _ sc res s1] t live by fastforce
qed

lemma process_turn_effects:
  assumes p: "process_turn prompt c w cap mode s = (Inr res, s1)" and t: "vr_routed_transcript res \<noteq> []"
    and live: "ts_live s \<noteq> None"
  shows "\<exists>b. lasting_effects s1 = lasting_effects s @ answered_effects c w (vr_routed_transcript res) b"
proof -
  obtain u where "process_utterance c w cap u mode s = (Inr res, s1)"
    using p t no_request
    by (auto simp: process_turn_def turn_raise_def turn_then_returns mode_switch_turn_result_def
        process_conversation_on_confirmation_def split: option.splits if_splits)
  then show ?thesis using utterance_effects t live by blast
qed

section \<open>Properties\<close>

text \<open>
  C2. A speculative turn does nothing that lasts or that the user sees before it is confirmed:
  whenever the processing of a turn remembers or records the request, starts the language-model
  flow, switches the conversation mode or reports anything but the transcript, the turn was
  committed and not cancelled at a moment before.
\<close>

theorem speculative_turn_waits_for_commit:
  assumes "asyncio_wait_ok w ctl" "ts_effects s = []" "process_turn prompt c w cap mode s = (r, s1)"
    and "i < length (ts_effects s1)" "visible (ts_effects s1 ! i)"
  shows "\<exists>j \<le> i. vt_committed (ctl j) \<and> \<not> vt_cancelled (ctl j)"
proof -
  have "\<exists>es. ts_effects (snd (process_turn prompt c w cap mode s)) = ts_effects s @ es \<and> guarded ctl (length (ts_effects s)) es"
    using process_turn_guarded[OF assms(1)] unfolding leaves_def by (rule spec)
  then have "guarded ctl 0 (ts_effects s1)" using assms(2,3) by auto
  then show ?thesis using assms(4,5) by (auto simp: guarded_def confirmed_at_def)
qed

text \<open>A turn that is committed while it is transcribed.\<close>

definition ex_turn_control :: "nat \<Rightarrow> turn_control" where
  "ex_turn_control n = (if n < 3 then new_turn_control else control_commit new_turn_control)"

definition ex_turn_world :: turn_world where
  "ex_turn_world = \<lparr> tw_control = Some ex_turn_control, tw_done = (\<lambda>n. if n < 2 then (False, True) else (True, False)),
     tw_timed = (\<lambda>_. (False, False)), tw_transcribe = (\<lambda>_ _ _ _. Inr ''hello''), tw_clock = id,
     tw_flow = Some (\<lambda>_ _. Inr Flow_no_action) \<rparr>"

definition ex_turn_config :: turn_config where
  "ex_turn_config = \<lparr> tc_conversation_id = None, tc_task_choice_enabled = True, tc_patterns = [], tc_time_text = ex_time_text \<rparr>"

definition ex_turn_capture :: capture_result where
  "ex_turn_capture = \<lparr> cr_conversation_mode = WAKE_COMMAND, cr_keyphrase_detection = None,
     cr_utterance = Some \<lparr> ut_samples = [], ut_sample_rate = 16000, ut_duration_seconds = 0, ut_forced_end = False \<rparr>,
     cr_mode_switched = False, cr_keyphrase_wait_seconds = None, cr_listen_seconds = 1,
     cr_wait_for_speech_seconds = None, cr_speech_capture_wall_seconds = None \<rparr>"

definition ex_turn_start :: turn_state where
  "ex_turn_start = \<lparr> ts_effects = [], ts_live = Some live_context_init, ts_mode = None \<rparr>"

definition ex_turn_effects :: "turn_effect list" where
  "ex_turn_effects = [Fx_await, Fx_emit ''transcribing'', Fx_transcribe None, Fx_checkpoint, Fx_emit ''transcript'', Fx_await,
     Fx_remember ''hello'', Fx_bind None, Fx_emit ''human-reply'', Fx_emit ''turn-understanding'', Fx_flow ''hello'', Fx_resolve None]"

lemmas ex_turn_defs = ex_turn_control_def ex_turn_world_def ex_turn_config_def ex_turn_capture_def ex_turn_start_def
  new_turn_control_def control_commit_def

lemma ex_turn_ok: "asyncio_wait_ok ex_turn_world ex_turn_control"
  by (auto simp: asyncio_wait_ok_def ex_turn_defs)

lemma ex_turn:
  "process_turn [] ex_turn_config ex_turn_world ex_turn_capture WAKE_COMMAND ex_turn_start =
     (Inr (transcribed_turn_result ex_turn_capture WAKE_COMMAND ''hello'' None ''hello'' No_action),
      ex_turn_start\<lparr> ts_effects := ex_turn_effects \<rparr>)"
  by (simp add: process_turn_def is_continuous_unprompted_def is_conversation_on_confirmation_def process_utterance_def
      turn_then_def wait_for_speculative_transcription_start_def wait_for_commit_or_cancel_def control_wait_def checkpoint_def
      transcribe_utterance_def effect_def run_transcriber_def turn_checkpoint_def turn_return_def turn_lift_def match_trigger_def
      turn_wait_until_committed_def wait_until_committed_def is_conversation_on_trigger_only_def process_request_def
      remember_request_def remember_live_human_reply_def live_add_message_def record_human_reply_in_background_def
      process_agent_turn_def finish_agent_turn_def run_flow_def resolve_live_human_reply_def resolve_human_reply_def
      add_effect_def turn_now_def ex_turn_effects_def ex_turn_defs)

theorem speculative_turn_waits_for_commit_witness:
  "ex_turn_effects ! 6 = Fx_remember ''hello'' \<and> (\<exists>j \<le> 6. vt_committed (ex_turn_control j) \<and> \<not> vt_cancelled (ex_turn_control j))"
proof -
  have "6 < length ex_turn_effects" "ex_turn_effects ! 6 = Fx_remember ''hello''" by (simp_all add: ex_turn_effects_def)
  then show ?thesis
    using speculative_turn_waits_for_commit[OF ex_turn_ok _ ex_turn, of 6] by (simp add: ex_turn_start_def)
qed



end
