(* ===== verification/BargeIn.thy ===== *)
theory BargeIn
  imports Vad AudioLevels
begin

text \<open>
  Barge-in detection (\<open>voice/barge_in.py\<close>): a person who speaks over the synthesised reply. The
  voice detector and its factory, and the magnitudes of numpy's \<open>rfft\<close>, are arguments. The state
  machine refines a specification that remembers every voice frame since the last reset.
\<close>

section \<open>Measurements\<close>

definition mean_of :: "frame \<Rightarrow> real" where
  "mean_of xs = sum_list xs / of_nat (length xs)"

definition centered :: "frame \<Rightarrow> frame" where
  "centered xs = map (\<lambda>x. x - mean_of xs) xs"

text \<open>\<open>_active_ms\<close>; the division by the sample rate raises when the rate is zero.\<close>

definition active_ms :: "frame \<Rightarrow> int \<Rightarrow> py_error + real" where
  "active_ms samples rate =
     (let n = nat (max 1 (py_int (of_int rate * (32 / 1000)))) in
      if usable n samples = 0 then Inr 0
      else if rate = 0 then Inl ZeroDivisionError
      else Inr (of_nat (length (filter (\<lambda>f. 6 / 1000 \<le> rms f) (chunks_of n (take (usable n samples) samples))))
                * of_nat n * 1000 / of_int rate))"

definition zero_crossing_rate :: "frame \<Rightarrow> real" where
  "zero_crossing_rate samples =
     (if length samples < 2 then 0
      else let signs = map (\<lambda>x. x < 0) (centered samples)
           in of_nat (length (filter (\<lambda>(a, b). a \<noteq> b) (zip (tl signs) (butlast signs)))) / of_nat (length samples - 1))"

definition spectral_flatness :: "(frame \<Rightarrow> real list) \<Rightarrow> frame \<Rightarrow> real" where
  "spectral_flatness rfft_abs samples =
     (if length samples < 8 then 1
      else let spectrum = drop 1 (map (\<lambda>a. a ^ 2) (rfft_abs (centered samples))) in
        if spectrum = [] then 1
        else let floored = map (max (1 / 10 ^ 12)) spectrum
             in exp (mean_of (map ln floored)) / mean_of floored)"

definition looks_like_human_speech :: "(frame \<Rightarrow> real list) \<Rightarrow> frame \<Rightarrow> int \<Rightarrow> py_error + bool" where
  "looks_like_human_speech rfft_abs audio rate =
     (if int (length audio) < max 1 (py_int (of_int rate * (18 / 100))) then Inr False
      else let peak = peak_of audio; level = rms audio in
        if peak < 18 / 1000 \<or> level < 6 / 1000 then Inr False
        else case active_ms audio rate of
          Inl e \<Rightarrow> Inl e
        | Inr active \<Rightarrow>
            if active < 180 then Inr False
            else if 18 < peak / max level (1 / 10 ^ 9) then Inr False
            else let zcr = zero_crossing_rate audio in
              if zcr < 6 / 1000 \<or> 42 / 100 < zcr then Inr False
              else Inr (spectral_flatness rfft_abs audio < 82 / 100))"

text \<open>\<open>np.interp(target_x, source_x, samples)\<close> for the evenly spaced points of \<open>_resample\<close>.\<close>

definition interpolate :: "frame \<Rightarrow> real \<Rightarrow> real" where
  "interpolate samples pos =
     (let i = nat \<lfloor>pos\<rfloor> in
      if length samples \<le> i + 1 then samples ! (length samples - 1)
      else samples ! i + (pos - of_nat i) * (samples ! (i + 1) - samples ! i))"

definition resample_audio :: "frame \<Rightarrow> int \<Rightarrow> int \<Rightarrow> frame" where
  "resample_audio samples from_rate to_rate =
     (if from_rate = to_rate then samples
      else if from_rate \<le> 0 \<or> to_rate \<le> 0 \<or> samples = [] then []
      else let duration = of_nat (length samples) / of_int from_rate;
               count = nat (max 1 (py_int (duration * of_int to_rate)))
           in map (\<lambda>j. interpolate samples (of_nat j * duration / of_nat count * of_int from_rate)) [0..<count])"

definition dot :: "frame \<Rightarrow> frame \<Rightarrow> real" where
  "dot xs ys = sum_list (map (\<lambda>(x, y). x * y) (zip xs ys))"

text \<open>The windows over which \<open>np.correlate\<close> and \<open>np.convolve\<close> run in the mode \<open>valid\<close>.\<close>

definition windows :: "nat \<Rightarrow> frame \<Rightarrow> frame list" where
  "windows n xs = map (\<lambda>k. take n (drop k xs)) [0..<length xs - n + 1]"

definition argmax :: "real list \<Rightarrow> nat" where
  "argmax xs = (case find (\<lambda>i. xs ! i = Max (set xs)) [0..<length xs] of None \<Rightarrow> 0 | Some i \<Rightarrow> i)"

definition correlation :: "frame \<Rightarrow> frame \<Rightarrow> real" where
  "correlation mic w =
     (let energy = sum_list (map (\<lambda>x. x * x) w)
      in if 1 / 10 ^ 9 < energy then \<bar>dot w mic\<bar> / sqrt (energy * dot mic mic) else 0)"

definition residual_ratio :: "frame \<Rightarrow> frame \<Rightarrow> real" where
  "residual_ratio mic w =
     (let gain = dot mic w / max (dot w w) (1 / 10 ^ 9);
          residual = map (\<lambda>(m, r). m - gain * r) (zip mic w)
      in rms residual / max (rms mic) (1 / 10 ^ 9))"

definition looks_like_reference_audio :: "frame \<Rightarrow> int \<Rightarrow> (frame \<times> int) option \<Rightarrow> bool" where
  "looks_like_reference_audio mic rate reference =
     (case reference of
        None \<Rightarrow> False
      | Some (ref0, ref_rate) \<Rightarrow>
          if length mic < 32 \<or> length ref0 < 32 then False
          else if rms mic < 4 / 1000 \<or> rms ref0 < 4 / 1000 then False
          else let ref1 = resample_audio ref0 ref_rate rate in
            if length ref1 < length mic then False
            else let ref2 = centered (last_n (nat (max (int (length mic)) (py_int (of_int rate * (55 / 100))))) ref1);
                     m = centered mic in
              if dot m m \<le> 1 / 10 ^ 9 then False
              else let ws = windows (length m) ref2 in
                if \<not> list_ex (\<lambda>w. 1 / 10 ^ 9 < sum_list (map (\<lambda>x. x * x) w)) ws then False
                else let cs = map (correlation m) ws; best = argmax cs in
                  if cs ! best < 78 / 100 then False
                  else residual_ratio m (ws ! best) < 55 / 100)"

section \<open>The detector\<close>

record 'd barge_in =
  bi_config :: vad_config
  bi_detector :: "'d option"
  bi_disabled :: bool
  bi_required_samples :: int
  bi_voice_samples :: int
  bi_voice_frames :: "frame list"
  bi_max_voice_samples :: int
  bi_triggered :: bool

definition barge_in_init :: "vad_config \<Rightarrow> int \<Rightarrow> 'd barge_in" where
  "barge_in_init config required_voice_ms =
     (let c = config\<lparr> vc_detector := DetSilero \<rparr>
      in \<lparr> bi_config = c, bi_detector = None, bi_disabled = False,
           bi_required_samples = max 1 (py_int_div (vc_sample_rate c * required_voice_ms) 1000),
           bi_voice_samples = 0, bi_voice_frames = [], bi_max_voice_samples = max 1 (vc_sample_rate c),
           bi_triggered = False \<rparr>)"

definition barge_reset :: "'d barge_in \<Rightarrow> 'd barge_in" where
  "barge_reset s = s\<lparr> bi_voice_samples := 0, bi_voice_frames := [], bi_triggered := False \<rparr>"

fun drop_oldest :: "int \<Rightarrow> int \<Rightarrow> frame list \<Rightarrow> int \<times> frame list" where
  "drop_oldest limit n [] = (n, [])"
| "drop_oldest limit n (f # fs) = (if limit < n then drop_oldest limit (n - int (length f)) fs else (n, f # fs))"

definition append_voice_frame :: "frame \<Rightarrow> 'd barge_in \<Rightarrow> 'd barge_in" where
  "append_voice_frame f s =
     (case drop_oldest (bi_max_voice_samples s) (bi_voice_samples s + int (length f)) (bi_voice_frames s @ [f]) of
        (n, fs) \<Rightarrow> s\<lparr> bi_voice_samples := n, bi_voice_frames := fs \<rparr>)"

text \<open>\<open>_get_detector\<close>: a factory that raises disables the detector for good.\<close>

definition get_detector :: "(vad_config \<Rightarrow> py_error + 'd) \<Rightarrow> 'd barge_in \<Rightarrow> 'd option \<times> 'd barge_in" where
  "get_detector factory s =
     (case bi_detector s of
        Some d \<Rightarrow> (Some d, s)
      | None \<Rightarrow> (case factory (bi_config s) of
            Inl _ \<Rightarrow> (None, s\<lparr> bi_disabled := True \<rparr>)
          | Inr d \<Rightarrow> (Some d, s\<lparr> bi_detector := Some d \<rparr>)))"

definition is_voice :: "vad_decision \<Rightarrow> bool" where
  "is_voice x = (started x \<or> is_speech x)"

text \<open>\<open>np.concatenate\<close> raises for an empty list of arrays.\<close>

definition np_concatenate :: "frame list \<Rightarrow> py_error + frame" where
  "np_concatenate fs = (if fs = [] then Inl (ValueError ''need at least one array to concatenate'') else Inr (concat fs))"

definition human_speech_in :: "(frame \<Rightarrow> real list) \<Rightarrow> frame list \<Rightarrow> int \<Rightarrow> py_error + bool" where
  "human_speech_in rfft_abs fs rate =
     (case np_concatenate fs of Inl e \<Rightarrow> Inl e | Inr audio \<Rightarrow> looks_like_human_speech rfft_abs audio rate)"

record barge_input =
  bx_frame :: frame
  bx_tts_active :: bool
  bx_reference :: "(frame \<times> int) option"

definition barge_accept ::
  "(frame \<Rightarrow> real list) \<Rightarrow> (vad_config \<Rightarrow> py_error + 'd) \<Rightarrow> ('d \<Rightarrow> frame \<Rightarrow> vad_decision \<times> 'd)
     \<Rightarrow> barge_input \<Rightarrow> 'd barge_in \<Rightarrow> (py_error + bool) \<times> 'd barge_in" where
  "barge_accept rfft_abs factory detect x s =
     (if \<not> bx_tts_active x then (Inr False, barge_reset s)
      else if bi_disabled s then (Inr False, s)
      else case get_detector factory s of
        (None, s1) \<Rightarrow> (Inr False, s1)
      | (Some d, s1) \<Rightarrow>
          (case detect d (bx_frame x) of
             (decision, d1) \<Rightarrow>
               let s2 = s1\<lparr> bi_detector := Some d1 \<rparr>; rate = vc_sample_rate (bi_config s) in
               if is_voice decision then
                 if looks_like_reference_audio (bx_frame x) rate (bx_reference x) then (Inr False, barge_reset s2)
                 else
                   let s3 = append_voice_frame (bx_frame x) s2 in
                   if \<not> bi_triggered s3 \<and> bi_required_samples s3 \<le> bi_voice_samples s3 then
                     (case human_speech_in rfft_abs (bi_voice_frames s3) rate of
                        Inl e \<Rightarrow> (Inl e, s3)
                      | Inr b \<Rightarrow> if b then (Inr True, s3\<lparr> bi_triggered := True \<rparr>) else (Inr False, s3))
                   else (Inr False, s3)
               else if ended decision \<or> \<not> is_speech decision then (Inr False, barge_reset s2)
               else (Inr False, s2)))"

fun barge_run ::
  "(frame \<Rightarrow> real list) \<Rightarrow> (vad_config \<Rightarrow> py_error + 'd) \<Rightarrow> ('d \<Rightarrow> frame \<Rightarrow> vad_decision \<times> 'd)
     \<Rightarrow> barge_input list \<Rightarrow> 'd barge_in \<Rightarrow> (py_error + bool) list" where
  "barge_run rfft_abs factory detect [] s = []"
| "barge_run rfft_abs factory detect (x # xs) s =
     (case barge_accept rfft_abs factory detect x s of
        (r, s1) \<Rightarrow> r # barge_run rfft_abs factory detect xs s1)"

section \<open>The specification\<close>

text \<open>
  The newest whole frames that together fit into \<open>limit\<close> samples, and the first moment since the
  last reset at which they hold enough speech of a person.
\<close>

fun newest :: "int \<Rightarrow> frame list \<Rightarrow> frame list" where
  "newest limit [] = []"
| "newest limit (f # fs) = (if int (total_len (f # fs)) \<le> limit then f # fs else newest limit fs)"

definition enough_speech :: "(frame \<Rightarrow> real list) \<Rightarrow> vad_config \<Rightarrow> int \<Rightarrow> frame list \<Rightarrow> bool" where
  "enough_speech rfft_abs c required_voice_ms heard =
     (let fs = newest (max 1 (vc_sample_rate c)) heard
      in max 1 (py_int_div (vc_sample_rate c * required_voice_ms) 1000) \<le> int (total_len fs)
         \<and> looks_like_human_speech rfft_abs (concat fs) (vc_sample_rate c) = Inr True)"

definition first_time :: "('a list \<Rightarrow> bool) \<Rightarrow> 'a list \<Rightarrow> bool" where
  "first_time P heard = (P heard \<and> list_all (\<lambda>k. \<not> P (take k heard)) [0..<length heard])"

datatype barge_kind = Kept | Cleared | Voiced

text \<open>What a frame is: a voice that is not an echo of the reply, the end of what was heard, or neither.\<close>

definition classify ::
  "vad_config \<Rightarrow> (vad_config \<Rightarrow> py_error + 'd) \<Rightarrow> ('d \<Rightarrow> frame \<Rightarrow> vad_decision \<times> 'd) \<Rightarrow> barge_input
     \<Rightarrow> 'd option \<times> bool \<Rightarrow> barge_kind \<times> 'd option \<times> bool" where
  "classify c factory detect x st =
     (case st of (det, disabled) \<Rightarrow>
      if \<not> bx_tts_active x then (Cleared, det, disabled)
      else if disabled then (Kept, det, disabled)
      else case (case det of Some d \<Rightarrow> Inr d | None \<Rightarrow> factory (c\<lparr> vc_detector := DetSilero \<rparr>)) of
        Inl _ \<Rightarrow> (Kept, None, True)
      | Inr d \<Rightarrow>
          (case detect d (bx_frame x) of
             (decision, d1) \<Rightarrow>
               (if is_voice decision \<and> \<not> looks_like_reference_audio (bx_frame x) (vc_sample_rate c) (bx_reference x)
                then Voiced else Cleared, Some d1, False)))"

fun barge_spec ::
  "(frame list \<Rightarrow> bool) \<Rightarrow> ('s \<Rightarrow> barge_input \<Rightarrow> barge_kind \<times> 's) \<Rightarrow> barge_input list \<Rightarrow> frame list \<Rightarrow> 's \<Rightarrow> bool list" where
  "barge_spec P kind_of [] heard st = []"
| "barge_spec P kind_of (x # xs) heard st =
     (case kind_of st x of
        (Kept, st1) \<Rightarrow> False # barge_spec P kind_of xs heard st1
      | (Cleared, st1) \<Rightarrow> False # barge_spec P kind_of xs [] st1
      | (Voiced, st1) \<Rightarrow> first_time P (heard @ [bx_frame x]) # barge_spec P kind_of xs (heard @ [bx_frame x]) st1)"

section \<open>Refinement\<close>

lemma drop_oldest_newest:
  "drop_oldest limit (int (total_len fs)) fs = (int (total_len (newest limit fs)), newest limit fs)"
  by (induction fs) auto

lemma newest_snoc: "newest limit (newest limit fs @ [f]) = newest limit (fs @ [f])"
  by (induction fs) auto

lemma active_ms_returns: "rate \<noteq> 0 \<Longrightarrow> \<exists>a. active_ms samples rate = Inr a"
  by (simp add: active_ms_def Let_def)

lemma human_speech_returns:
  assumes "rate \<noteq> 0" shows "\<exists>b. looks_like_human_speech rfft_abs audio rate = Inr b"
proof -
  obtain a where "active_ms audio rate = Inr a" using active_ms_returns[OF assms] by blast
  then have "looks_like_human_speech rfft_abs audio rate \<noteq> Inl e" for e
    by (simp add: looks_like_human_speech_def Let_def)
  then show ?thesis by (cases "looks_like_human_speech rfft_abs audio rate") auto
qed

definition fired :: "('a list \<Rightarrow> bool) \<Rightarrow> 'a list \<Rightarrow> bool" where
  "fired P heard = (\<exists>k \<le> length heard. P (take k heard))"

lemma fired_snoc: "fired P (heard @ [f]) = (fired P heard \<or> P (heard @ [f]))"
  by (auto simp: fired_def le_Suc_eq)

lemma first_time_snoc: "first_time P (heard @ [f]) = (P (heard @ [f]) \<and> \<not> fired P heard)"
  by (auto simp: first_time_def fired_def list_all_iff less_Suc_eq_le)

definition barge_matches ::
  "(frame \<Rightarrow> real list) \<Rightarrow> vad_config \<Rightarrow> int \<Rightarrow> 'd barge_in \<Rightarrow> frame list \<Rightarrow> 'd option \<times> bool \<Rightarrow> bool" where
  "barge_matches rfft_abs c ms s heard st =
     (bi_config s = c\<lparr> vc_detector := DetSilero \<rparr> \<and> bi_required_samples s = max 1 (py_int_div (vc_sample_rate c * ms) 1000)
      \<and> bi_max_voice_samples s = max 1 (vc_sample_rate c) \<and> (bi_detector s, bi_disabled s) = st
      \<and> bi_voice_frames s = newest (max 1 (vc_sample_rate c)) heard
      \<and> bi_voice_samples s = int (total_len (newest (max 1 (vc_sample_rate c)) heard))
      \<and> bi_triggered s = fired (enough_speech rfft_abs c ms) heard)"

lemma nothing_heard: "\<not> fired (enough_speech rfft_abs c ms) []"
  by (simp add: fired_def enough_speech_def)

lemma matches_init: "barge_matches rfft_abs c ms (barge_in_init c ms) [] (None, False)"
  by (simp add: barge_matches_def barge_in_init_def nothing_heard)

lemma matches_reset:
  assumes "barge_matches rfft_abs c ms s heard st"
  shows "barge_matches rfft_abs c ms (barge_reset s) [] st"
  using assms by (auto simp: barge_matches_def barge_reset_def nothing_heard)

lemma matches_detector:
  assumes "barge_matches rfft_abs c ms s heard st"
  shows "barge_matches rfft_abs c ms (s\<lparr> bi_detector := d \<rparr>) heard (d, snd st)"
    "barge_matches rfft_abs c ms (s\<lparr> bi_disabled := b \<rparr>) heard (fst st, b)"
  using assms by (auto simp: barge_matches_def)

text \<open>A voice frame: the buffer grows, and the answer is that of the specification.\<close>

definition voice_answer ::
  "(frame \<Rightarrow> real list) \<Rightarrow> int \<Rightarrow> 'd barge_in \<Rightarrow> (py_error + bool) \<times> 'd barge_in" where
  "voice_answer rfft_abs rate s =
     (if \<not> bi_triggered s \<and> bi_required_samples s \<le> bi_voice_samples s then
        (case human_speech_in rfft_abs (bi_voice_frames s) rate of
           Inl e \<Rightarrow> (Inl e, s)
         | Inr b \<Rightarrow> if b then (Inr True, s\<lparr> bi_triggered := True \<rparr>) else (Inr False, s))
      else (Inr False, s))"

lemma voice_answer_matches:
  assumes m: "barge_matches rfft_abs c ms s heard st" and rate: "vc_sample_rate c \<noteq> 0"
  shows "\<exists>s1. voice_answer rfft_abs (vc_sample_rate c) (append_voice_frame f s)
      = (Inr (first_time (enough_speech rfft_abs c ms) (heard @ [f])), s1)
    \<and> barge_matches rfft_abs c ms s1 (heard @ [f]) st"
proof -
  let ?L = "max 1 (vc_sample_rate c)" and ?R = "max 1 (py_int_div (vc_sample_rate c * ms) 1000)"
  let ?fs = "newest ?L (heard @ [f])" and ?P = "enough_speech rfft_abs c ms"
  let ?s = "s\<lparr> bi_voice_samples := int (total_len ?fs), bi_voice_frames := ?fs \<rparr>"
  have "drop_oldest ?L (int (total_len (newest ?L heard @ [f]))) (newest ?L heard @ [f]) = (int (total_len ?fs), ?fs)"
    by (simp only: drop_oldest_newest newest_snoc)
  then have a: "append_voice_frame f s = ?s"
    using m by (simp add: append_voice_frame_def barge_matches_def)
  obtain b where b: "looks_like_human_speech rfft_abs (concat ?fs) (vc_sample_rate c) = Inr b"
    using human_speech_returns[OF rate] by blast
  have h: "human_speech_in rfft_abs ?fs (vc_sample_rate c) = Inr b" if "?R \<le> int (total_len ?fs)"
    using that b by (auto simp: human_speech_in_def np_concatenate_def)
  have P: "?P (heard @ [f]) = (?R \<le> int (total_len ?fs) \<and> b)" by (simp add: enough_speech_def Let_def b)
  consider "\<not> fired ?P heard" "?R \<le> int (total_len ?fs)" | "fired ?P heard" | "\<not> ?R \<le> int (total_len ?fs)" by blast
  then show ?thesis
  proof cases
    case 1
    then show ?thesis
      using m h[OF 1(2)] P unfolding a
      by (auto simp: voice_answer_def barge_matches_def first_time_snoc fired_snoc)
  next
    case 2
    then show ?thesis
      using m unfolding a by (auto simp: voice_answer_def barge_matches_def first_time_snoc fired_snoc)
  next
    case 3
    then show ?thesis
      using m P unfolding a by (auto simp: voice_answer_def barge_matches_def first_time_snoc fired_snoc)
  qed
qed

lemma accept_voice:
  assumes "bx_tts_active x" "\<not> bi_disabled s" "get_detector factory s = (Some d, s1)" "detect d (bx_frame x) = (decision, d1)"
    and "is_voice decision" "\<not> looks_like_reference_audio (bx_frame x) (vc_sample_rate (bi_config s)) (bx_reference x)"
  shows "barge_accept rfft_abs factory detect x s =
    voice_answer rfft_abs (vc_sample_rate (bi_config s)) (append_voice_frame (bx_frame x) (s1\<lparr> bi_detector := Some d1 \<rparr>))"
  using assms by (simp add: barge_accept_def voice_answer_def Let_def)

lemma accept_not_voice:
  assumes "bx_tts_active x" "\<not> bi_disabled s" "get_detector factory s = (Some d, s1)" "detect d (bx_frame x) = (decision, d1)"
    and "\<not> (is_voice decision \<and> \<not> looks_like_reference_audio (bx_frame x) (vc_sample_rate (bi_config s)) (bx_reference x))"
  shows "barge_accept rfft_abs factory detect x s = (Inr False, barge_reset (s1\<lparr> bi_detector := Some d1 \<rparr>))"
  using assms by (auto simp: barge_accept_def is_voice_def Let_def)

text \<open>One frame, compared with the specification.\<close>

definition spec_heard :: "barge_kind \<Rightarrow> barge_input \<Rightarrow> frame list \<Rightarrow> frame list" where
  "spec_heard k x heard = (case k of Kept \<Rightarrow> heard | Cleared \<Rightarrow> [] | Voiced \<Rightarrow> heard @ [bx_frame x])"

lemma accept_matches:
  assumes m: "barge_matches rfft_abs c ms s heard st" and rate: "vc_sample_rate c \<noteq> 0"
    and k: "classify c factory detect x st = (k, st1)"
  shows "\<exists>s1. barge_accept rfft_abs factory detect x s
      = (Inr (k = Voiced \<and> first_time (enough_speech rfft_abs c ms) (spec_heard k x heard)), s1)
    \<and> barge_matches rfft_abs c ms s1 (spec_heard k x heard) st1"
proof -
  have st: "st = (bi_detector s, bi_disabled s)" and cfg: "bi_config s = c\<lparr> vc_detector := DetSilero \<rparr>"
    using m by (auto simp: barge_matches_def)
  consider "\<not> bx_tts_active x" | "bx_tts_active x" "bi_disabled s"
    | (failed) s1 where "bx_tts_active x" "\<not> bi_disabled s" "get_detector factory s = (None, s1)"
    | (detected) d s1 where "bx_tts_active x" "\<not> bi_disabled s" "get_detector factory s = (Some d, s1)"
    by (cases "get_detector factory s") (metis option.exhaust)
  then show ?thesis
  proof cases
    case 1
    then show ?thesis using k matches_reset[OF m] by (auto simp: classify_def st barge_accept_def spec_heard_def)
  next
    case 2
    then show ?thesis using k m by (auto simp: classify_def st barge_accept_def spec_heard_def)
  next
    case failed
    then show ?thesis
      using k matches_detector(2)[OF m, of True]
      by (auto simp: classify_def st barge_accept_def spec_heard_def get_detector_def cfg split: option.splits sum.splits)
  next
    case detected
    obtain decision d1 where d: "detect d (bx_frame x) = (decision, d1)" by fastforce
    let ?s = "s1\<lparr> bi_detector := Some d1 \<rparr>"
    have "?s = s\<lparr> bi_detector := Some d1 \<rparr>"
      using detected(3) by (auto simp: get_detector_def split: option.splits sum.splits)
    then have m1: "barge_matches rfft_abs c ms ?s heard (Some d1, False)"
      using matches_detector(1)[OF m, of "Some d1"] detected(2) by (simp add: st)
    let ?v = "is_voice decision \<and> \<not> looks_like_reference_audio (bx_frame x) (vc_sample_rate c) (bx_reference x)"
    have k1: "k = (if ?v then Voiced else Cleared)" "st1 = (Some d1, False)"
      using k detected d by (auto simp: classify_def st get_detector_def cfg split: option.splits sum.splits)
    show ?thesis
    proof (cases ?v)
      case True
      then have "barge_accept rfft_abs factory detect x s = voice_answer rfft_abs (vc_sample_rate c) (append_voice_frame (bx_frame x) ?s)"
        using accept_voice[of x s factory d s1 detect decision d1] detected d by (simp add: cfg)
      then show ?thesis using voice_answer_matches[OF m1 rate, of "bx_frame x"] True k1 by (simp add: spec_heard_def)
    next
      case False
      then have "barge_accept rfft_abs factory detect x s = (Inr False, barge_reset ?s)"
        using accept_not_voice[of x s factory d s1 detect decision d1] detected d by (simp add: cfg)
      then show ?thesis using matches_reset[OF m1] k1(1)[unfolded if_not_P[OF False]] k1(2) by (simp add: spec_heard_def)
    qed
  qed
qed

lemma spec_step:
  assumes "kind_of st x = (k, st1)"
  shows "barge_spec P kind_of (x # xs) heard st =
    (k = Voiced \<and> first_time P (spec_heard k x heard)) # barge_spec P kind_of xs (spec_heard k x heard) st1"
  using assms by (cases k) (simp_all add: spec_heard_def)

lemma run_matches:
  assumes "barge_matches rfft_abs c ms s heard st" and rate: "vc_sample_rate c \<noteq> 0"
  shows "barge_run rfft_abs factory detect xs s =
    map Inr (barge_spec (enough_speech rfft_abs c ms) (\<lambda>st x. classify c factory detect x st) xs heard st)"
  using assms(1)
proof (induction xs arbitrary: s heard st)
  case (Cons x xs)
  obtain k st1 where k: "classify c factory detect x st = (k, st1)" by (cases "classify c factory detect x st") auto
  from accept_matches[OF Cons.prems rate k] obtain s1 where
    s1: "barge_accept rfft_abs factory detect x s
        = (Inr (k = Voiced \<and> first_time (enough_speech rfft_abs c ms) (spec_heard k x heard)), s1)"
      "barge_matches rfft_abs c ms s1 (spec_heard k x heard) st1" by blast
  show ?case
    unfolding spec_step[of "\<lambda>st x. classify c factory detect x st", OF k] by (simp add: s1(1) Cons.IH[OF s1(2)])
qed simp

section \<open>Properties\<close>

text \<open>
  C40. At every non-zero sample rate the detector never raises (it never concatenates an empty
  list of frames), and its answers to any stream of frames are those of the specification that
  remembers all the voice frames since the last reset: it reports a barge-in at exactly the
  first of them at which the newest frames that fit into one second hold the required amount of
  voice and sound like a person. So it triggers at most once until the next reset.
\<close>

theorem barge_in_triggers_at_first_speech:
  assumes "vc_sample_rate c \<noteq> 0"
  shows "barge_run rfft_abs factory detect xs (barge_in_init c required_voice_ms) =
    map Inr (barge_spec (enough_speech rfft_abs c required_voice_ms) (\<lambda>st x. classify c factory detect x st) xs [] (None, False))"
  by (rule run_matches[OF matches_init assms])

text \<open>
  At twenty-five samples per second, with a detector that always hears speech: four samples are too
  few, eight trigger, and the next frame does not trigger again.
\<close>

definition ex_barge_config :: vad_config where
  "ex_barge_config = default_vad_config\<lparr> vc_sample_rate := 25 \<rparr>"

definition ex_heard :: "real \<Rightarrow> barge_input" where
  "ex_heard a = \<lparr> bx_frame = [a, a, a, a], bx_tts_active = True, bx_reference = None \<rparr>"

definition ex_speech :: "unit \<Rightarrow> frame \<Rightarrow> vad_decision \<times> unit" where
  "ex_speech d f = (\<lparr> started = False, ended = False, is_speech = True, speech_probability = None \<rparr>, d)"

definition ex_spectrum :: "frame \<Rightarrow> real list" where
  "ex_spectrum f = [0, 1, 1 / 10]"

lemma ex_flatness: "length f = 8 \<Longrightarrow> spectral_flatness ex_spectrum f < 82 / 100"
proof -
  have "ln (100::real) = 2 * ln 10" using ln_realpow[of 10 2] by simp
  then have "exp (ln 100 / 2) = (10::real)" by simp
  then show "length f = 8 \<Longrightarrow> spectral_flatness ex_spectrum f < 82 / 100"
    by (simp add: spectral_flatness_def ex_spectrum_def mean_of_def ln_div power2_eq_square exp_minus)
qed

lemma rms_one [simp]: "rms [x] = \<bar>x\<bar>"
  by (simp add: rms_def)

lemma ex_human:
  "looks_like_human_speech ex_spectrum [1/10, 1/10, 1/10, 1/10, - 1/10, - 1/10, - 1/10, - 1/10] 25 = Inr True"
proof -
  define a :: frame where "a = [1/10, 1/10, 1/10, 1/10, - 1/10, - 1/10, - 1/10, - 1/10]"
  have r: "rms a = 1 / 10" by (rule rms_same_magnitude) (auto simp: a_def)
  have p: "peak_of a = 1 / 10" by (simp add: peak_of_def a_def)
  have n: "length a = 8" by (simp add: a_def)
  have c: "chunks_of (Suc 0) a = map (\<lambda>x. [x]) a" by (simp add: a_def chunks_of.simps)
  have m: "active_ms a 25 = Inr 320" using n c by (simp add: active_ms_def py_int_def usable_def) (simp add: a_def)
  have z: "zero_crossing_rate a = 1 / 7" by (simp add: a_def zero_crossing_rate_def centered_def mean_of_def)
  have "looks_like_human_speech ex_spectrum a 25 = Inr True"
    using ex_flatness[OF n] by (simp add: looks_like_human_speech_def Let_def r p n m z py_int_def)
  then show ?thesis by (simp only: a_def)
qed

theorem barge_in_triggers_at_first_speech_witness:
  "barge_run ex_spectrum (\<lambda>_. Inr ()) ex_speech [ex_heard (1/10), ex_heard (- 1/10), ex_heard (1/10)] (barge_in_init ex_barge_config 320)
     = [Inr False, Inr True, Inr False]"
proof -
  let ?P = "enough_speech ex_spectrum ex_barge_config 320" and ?k = "\<lambda>st x. classify ex_barge_config (\<lambda>_. Inr ()) ex_speech x st"
  let ?f = "[1/10, 1/10, 1/10, 1/10] :: frame" and ?g = "[- 1/10, - 1/10, - 1/10, - 1/10] :: frame"
  have P: "\<not> ?P []" "\<not> ?P [?f]" "?P [?f, ?g]"
    using ex_human by (simp_all add: enough_speech_def ex_barge_config_def py_int_div_def)
  have k: "?k st (ex_heard a) = (Voiced, Some (), False)" if "st = (None, False) \<or> st = (Some (), False)" for st a
    using that by (auto simp: classify_def ex_heard_def ex_speech_def is_voice_def looks_like_reference_audio_def)
  have s: "barge_spec ?P ?k [ex_heard (1/10), ex_heard (- 1/10), ex_heard (1/10)] [] (None, False) = [False, True, False]"
    using P by (simp add: k first_time_def) (simp add: ex_heard_def)
  have rate: "vc_sample_rate ex_barge_config \<noteq> 0" by (simp add: ex_barge_config_def)
  show ?thesis by (simp only: barge_in_triggers_at_first_speech[OF rate] s list.map)
qed

end
