(* ===== verification/Playback.thy ===== *)
theory Playback
  imports Prelude
begin

text \<open>
  Speech output: \<open>QueuedAudioOutput\<close> of \<open>speech/playback.py\<close>, refined to a flat queue of
  samples, and the reply queue \<open>QueuedTextSpeaker\<close> of \<open>speech/tts.py\<close>, a state machine of
  its callers and its worker thread. The audio device and the text-to-speech engine are
  arguments.
\<close>

section \<open>The audio output queue\<close>

record audio_output =
  ao_sample_rate :: int
  ao_stream :: bool
  ao_chunks :: "frame list"
  ao_queued_samples :: int
  ao_played_samples :: int
  ao_recent_samples :: frame
  ao_recent_sample_limit :: int

definition audio_output_init :: "int \<Rightarrow> audio_output" where
  "audio_output_init rate =
     \<lparr> ao_sample_rate = rate, ao_stream = False, ao_chunks = [], ao_queued_samples = 0,
       ao_played_samples = 0, ao_recent_samples = [], ao_recent_sample_limit = max 1 (rate * 2) \<rparr>"

definition audio_start :: "audio_output \<Rightarrow> audio_output" where
  "audio_start a = (if ao_stream a then a else a\<lparr> ao_stream := True \<rparr>)"

definition audio_recent_samples :: "real \<Rightarrow> audio_output \<Rightarrow> frame" where
  "audio_recent_samples seconds a =
     last_n (nat (max 1 (py_int (of_int (ao_sample_rate a) * seconds)))) (ao_recent_samples a)"

definition audio_clear :: "bool \<Rightarrow> audio_output \<Rightarrow> audio_output" where
  "audio_clear reset a =
     (let b = a\<lparr> ao_chunks := [], ao_queued_samples := 0 \<rparr>
      in if reset then b\<lparr> ao_played_samples := 0, ao_recent_samples := [] \<rparr> else b)"

definition audio_enqueue :: "frame \<Rightarrow> audio_output \<Rightarrow> nat \<times> audio_output" where
  "audio_enqueue audio a =
     (if audio = [] then (0, a)
      else (length audio,
            a\<lparr> ao_chunks := ao_chunks a @ [audio],
               ao_queued_samples := ao_queued_samples a + int (length audio) \<rparr>))"

definition append_recent :: "frame \<Rightarrow> audio_output \<Rightarrow> audio_output" where
  "append_recent samples a =
     (let recent = ao_recent_samples a @ samples
      in a\<lparr> ao_recent_samples :=
              (if ao_recent_sample_limit a < int (length recent)
               then last_n (nat (ao_recent_sample_limit a)) recent else recent) \<rparr>)"

text \<open>The loop of \<open>_callback\<close>: \<open>room\<close> is \<open>frames - offset\<close>; the result is what was copied.\<close>

fun callback_loop :: "nat \<Rightarrow> frame list \<Rightarrow> frame \<times> frame list" where
  "callback_loop room [] = ([], [])"
| "callback_loop room (c # cs) =
     (if room = 0 then ([], c # cs)
      else if length c \<le> room then
        (let (out, rest) = callback_loop (room - length c) cs in (c @ out, rest))
      else (take room c, drop room c # cs))"

definition audio_callback :: "nat \<Rightarrow> audio_output \<Rightarrow> frame \<times> audio_output" where
  "audio_callback frames a =
     (let (copied, rest) = callback_loop frames (ao_chunks a);
          output = copied @ replicate (frames - length copied) 0
      in (output,
          append_recent output
            (a\<lparr> ao_chunks := rest,
                ao_queued_samples := ao_queued_samples a - int (length copied),
                ao_played_samples := ao_played_samples a + int (length copied) \<rparr>)))"

text \<open>\<open>wait_until_drained\<close> returns when this holds.\<close>

definition audio_drained :: "audio_output \<Rightarrow> bool" where
  "audio_drained a \<longleftrightarrow> ao_queued_samples a \<le> 0"

section \<open>Refinement to a flat queue\<close>

datatype audio_op = Op_enqueue frame | Op_callback nat | Op_clear bool | Op_start

fun audio_step :: "audio_output \<Rightarrow> audio_op \<Rightarrow> audio_output \<times> sample list" where
  "audio_step a (Op_enqueue xs) = (snd (audio_enqueue xs a), [])"
| "audio_step a (Op_callback n) = (snd (audio_callback n a), fst (audio_callback n a))"
| "audio_step a (Op_clear b) = (audio_clear b a, [])"
| "audio_step a Op_start = (audio_start a, [])"

text \<open>The specification: one queue of samples, a count of played ones, the last ones heard.\<close>

record flat_queue =
  fq_queue :: frame
  fq_played :: nat
  fq_heard :: frame
  fq_limit :: nat

fun flat_step :: "flat_queue \<Rightarrow> audio_op \<Rightarrow> flat_queue \<times> sample list" where
  "flat_step q (Op_enqueue xs) = (q\<lparr> fq_queue := fq_queue q @ xs \<rparr>, [])"
| "flat_step q (Op_callback n) =
     (let out = take n (fq_queue q) @ replicate (n - length (fq_queue q)) 0
      in (q\<lparr> fq_queue := drop n (fq_queue q),
             fq_played := fq_played q + min n (length (fq_queue q)),
             fq_heard := last_n (fq_limit q) (fq_heard q @ out) \<rparr>, out))"
| "flat_step q (Op_clear b) =
     (q\<lparr> fq_queue := [], fq_played := (if b then 0 else fq_played q),
         fq_heard := (if b then [] else fq_heard q) \<rparr>, [])"
| "flat_step q Op_start = (q, [])"

definition audio_abs :: "audio_output \<Rightarrow> flat_queue" where
  "audio_abs a =
     \<lparr> fq_queue = concat (ao_chunks a), fq_played = nat (ao_played_samples a),
       fq_heard = ao_recent_samples a, fq_limit = nat (ao_recent_sample_limit a) \<rparr>"

definition audio_inv :: "audio_output \<Rightarrow> bool" where
  "audio_inv a \<longleftrightarrow>
     ao_queued_samples a = int (total_len (ao_chunks a)) \<and> 0 \<le> ao_played_samples a \<and>
     1 \<le> ao_recent_sample_limit a \<and>
     int (length (ao_recent_samples a)) \<le> ao_recent_sample_limit a \<and>
     list_all (\<lambda>c. c \<noteq> []) (ao_chunks a)"

lemma callback_loop_spec:
  "fst (callback_loop n cs) = take n (concat cs) \<and> concat (snd (callback_loop n cs)) = drop n (concat cs) \<and>
   (list_all (\<lambda>c. c \<noteq> []) cs \<longrightarrow> list_all (\<lambda>c. c \<noteq> []) (snd (callback_loop n cs)))"
  by (induction n cs rule: callback_loop.induct) (auto split: prod.splits)

lemma append_recent_spec:
  assumes "1 \<le> ao_recent_sample_limit a"
  shows "append_recent xs a =
    a\<lparr> ao_recent_samples := last_n (nat (ao_recent_sample_limit a)) (ao_recent_samples a @ xs) \<rparr>"
  using assms by (auto simp: append_recent_def Let_def last_n_def not_less nat_le_iff)

lemma audio_callback_spec:
  assumes "audio_inv a"
  shows "fst (audio_callback n a) =
      take n (concat (ao_chunks a)) @ replicate (n - total_len (ao_chunks a)) 0"
    and "audio_abs (snd (audio_callback n a)) = fst (flat_step (audio_abs a) (Op_callback n))"
    and "audio_inv (snd (audio_callback n a))"
proof -
  obtain out rest where l: "callback_loop n (ao_chunks a) = (out, rest)" by fastforce
  have out: "out = take n (concat (ao_chunks a))" "concat rest = drop n (concat (ao_chunks a))"
    "list_all (\<lambda>c. c \<noteq> []) rest"
    using callback_loop_spec [of n "ao_chunks a"] assms l by (auto simp: audio_inv_def)
  have len: "n - min (total_len (ao_chunks a)) n = n - total_len (ao_chunks a)" by linarith
  have tl: "total_len rest = total_len (ao_chunks a) - n"
    using arg_cong [OF out(2), of length] by simp
  show "fst (audio_callback n a) = take n (concat (ao_chunks a)) @ replicate (n - total_len (ao_chunks a)) 0"
    using l out len by (simp add: audio_callback_def Let_def)
  show "audio_abs (snd (audio_callback n a)) = fst (flat_step (audio_abs a) (Op_callback n))"
    using l out len assms
    by (simp add: audio_callback_def Let_def append_recent_spec audio_abs_def audio_inv_def
        nat_add_distrib min.commute)
  show "audio_inv (snd (audio_callback n a))"
    using l out tl assms
    by (simp add: audio_callback_def Let_def append_recent_spec audio_inv_def) linarith
qed

lemma audio_step_inv: "audio_inv a \<Longrightarrow> audio_inv (fst (audio_step a oper))"
  by (cases oper) (auto simp: audio_callback_spec(3), auto simp: audio_inv_def audio_enqueue_def audio_clear_def
      audio_start_def Let_def)

lemma audio_step_sim:
  "audio_inv a \<Longrightarrow> flat_step (audio_abs a) oper = (audio_abs (fst (audio_step a oper)), snd (audio_step a oper))"
proof (cases oper)
  case (Op_callback n)
  assume inv: "audio_inv a"
  then show ?thesis using Op_callback audio_callback_spec(1,2) [OF inv, of n]
    by (simp add: audio_abs_def Let_def)
qed (auto simp: audio_abs_def audio_enqueue_def audio_clear_def audio_start_def Let_def)

interpretation audio_queue: refinement audio_step flat_step audio_abs audio_inv
  by unfold_locales (auto simp: audio_step_inv audio_step_sim)

lemma audio_output_init_inv: "audio_inv (audio_output_init rate)"
  by (simp add: audio_inv_def audio_output_init_def)

text \<open>
  C18. For any interleaving of \<open>enqueue\<close>, device callbacks, \<open>clear\<close> and \<open>start\<close>, the chunked output
  queue behaves as one flat queue of samples: the samples sent to the device are those of the
  flat queue (zeros only when it is empty), the played count and the recent samples agree, the
  queued count is the number of samples waiting, and no queued chunk is empty.
\<close>

theorem playback_refines_flat_queue:
  "(case run_steps audio_step (audio_output_init rate) ops of
      (a, out) \<Rightarrow>
        run_steps flat_step (audio_abs (audio_output_init rate)) ops = (audio_abs a, out) \<and>
        ao_queued_samples a = int (length (fq_queue (audio_abs a))) \<and>
        list_all (\<lambda>c. c \<noteq> []) (ao_chunks a) \<and>
        (audio_drained a \<longleftrightarrow> ao_chunks a = []) \<and>
        length (ao_recent_samples a) \<le> fq_limit (audio_abs a))"
proof -
  obtain a out where r: "run_steps audio_step (audio_output_init rate) ops = (a, out)" by fastforce
  have inv: "audio_inv a"
    and eq: "run_steps flat_step (audio_abs (audio_output_init rate)) ops = (audio_abs a, out)"
    using audio_queue.run_refines [OF audio_output_init_inv, of rate ops] r by simp_all
  have "audio_drained a \<longleftrightarrow> ao_chunks a = []"
    using inv by (cases "ao_chunks a") (auto simp: audio_inv_def audio_drained_def simp flip: length_greater_0_conv)
  with r inv eq show ?thesis by (simp add: audio_inv_def audio_abs_def le_nat_iff)
qed

section \<open>The reply queue\<close>

text \<open>
  \<open>QueuedTextSpeaker\<close>: callers put jobs and may interrupt; one worker thread takes a job,
  marks itself active, speaks it, and marks itself idle. The worker's position is explicit,
  since a caller may run between any two of its steps. \<open>qs_unfinished\<close> is the counter of
  \<open>Queue.task_done\<close>, and the last two fields are the history of the jobs.
\<close>

datatype worker = Not_started | Waiting | Taken string | Speaking string | Spoken string

record reply_queue =
  qs_jobs :: "string list"
  qs_worker :: worker
  qs_active :: bool
  qs_unfinished :: nat
  qs_submitted :: "string list"
  qs_spoken :: "string list"
  qs_cleared :: "string list"

definition reply_queue_init :: reply_queue where
  "reply_queue_init = \<lparr> qs_jobs = [], qs_worker = Not_started, qs_active = False,
     qs_unfinished = 0, qs_submitted = [], qs_spoken = [], qs_cleared = [] \<rparr>"

definition ensure_worker :: "reply_queue \<Rightarrow> reply_queue" where
  "ensure_worker q = (if qs_worker q = Not_started then q\<lparr> qs_worker := Waiting \<rparr> else q)"

definition queue_speak :: "string \<Rightarrow> reply_queue \<Rightarrow> reply_queue" where
  "queue_speak text q0 =
     (let q = ensure_worker q0
      in q\<lparr> qs_jobs := qs_jobs q @ [text], qs_unfinished := qs_unfinished q + 1,
            qs_submitted := qs_submitted q @ [text] \<rparr>)"

definition clear_pending :: "reply_queue \<Rightarrow> bool \<times> reply_queue" where
  "clear_pending q =
     (qs_jobs q \<noteq> [],
      q\<lparr> qs_jobs := [], qs_unfinished := qs_unfinished q - length (qs_jobs q),
         qs_cleared := qs_cleared q @ qs_jobs q \<rparr>)"

text \<open>\<open>interrupted\<close> is the answer of the engine's own \<open>interrupt\<close>.\<close>

definition queue_interrupt :: "bool \<Rightarrow> reply_queue \<Rightarrow> bool \<times> reply_queue" where
  "queue_interrupt interrupted q =
     (let (cleared, q') = clear_pending q in (interrupted \<or> cleared, q'))"

definition queue_is_speaking :: "bool \<Rightarrow> reply_queue \<Rightarrow> bool" where
  "queue_is_speaking engine_speaking q = (qs_active q \<or> qs_jobs q \<noteq> [] \<or> engine_speaking)"

text \<open>One step of the worker thread; it blocks on an empty queue.\<close>

definition worker_step :: "reply_queue \<Rightarrow> reply_queue option" where
  "worker_step q =
     (case qs_worker q of
        Not_started \<Rightarrow> None
      | Waiting \<Rightarrow>
          (case qs_jobs q of
             [] \<Rightarrow> None
           | job # jobs \<Rightarrow> Some (q\<lparr> qs_jobs := jobs, qs_worker := Taken job \<rparr>))
      | Taken job \<Rightarrow> Some (q\<lparr> qs_active := True, qs_worker := Speaking job \<rparr>)
      | Speaking job \<Rightarrow> Some (q\<lparr> qs_worker := Spoken job, qs_spoken := qs_spoken q @ [job] \<rparr>)
      | Spoken job \<Rightarrow>
          Some (q\<lparr> qs_active := False, qs_unfinished := qs_unfinished q - 1, qs_worker := Waiting \<rparr>))"

inductive reply_step :: "reply_queue \<Rightarrow> reply_queue \<Rightarrow> bool" where
  speak: "reply_step q (queue_speak text q)"
| interrupt: "reply_step q (snd (queue_interrupt b q))"
| work: "worker_step q = Some q' \<Longrightarrow> reply_step q q'"

inductive reply_reachable :: "reply_queue \<Rightarrow> bool" where
  start: "reply_reachable reply_queue_init"
| step: "reply_reachable q \<Longrightarrow> reply_step q q' \<Longrightarrow> reply_reachable q'"

definition in_hand :: "worker \<Rightarrow> string list" where
  "in_hand w = (case w of Taken j \<Rightarrow> [j] | Speaking j \<Rightarrow> [j] | _ \<Rightarrow> [])"

definition owed :: "worker \<Rightarrow> nat" where
  "owed w = (case w of Taken _ \<Rightarrow> 1 | Speaking _ \<Rightarrow> 1 | Spoken _ \<Rightarrow> 1 | _ \<Rightarrow> 0)"

definition reply_inv :: "reply_queue \<Rightarrow> bool" where
  "reply_inv q \<longleftrightarrow>
     subseq (qs_spoken q @ in_hand (qs_worker q) @ qs_jobs q) (qs_submitted q) \<and>
     length (qs_submitted q) = length (qs_spoken q) + length (in_hand (qs_worker q)) +
       length (qs_jobs q) + length (qs_cleared q) \<and>
     qs_unfinished q = length (qs_jobs q) + owed (qs_worker q) \<and>
     (qs_active q \<longleftrightarrow> (\<exists>j. qs_worker q = Speaking j \<or> qs_worker q = Spoken j)) \<and>
     (qs_worker q = Not_started \<longrightarrow> qs_jobs q = [])"

lemma queue_speak_inv: "reply_inv q \<Longrightarrow> reply_inv (queue_speak t q)"
  using list_emb_append_mono [of "(=)" "qs_spoken q @ in_hand (qs_worker q) @ qs_jobs q" "qs_submitted q" "[t]" "[t]"]
  by (cases "qs_worker q") (auto simp: reply_inv_def queue_speak_def ensure_worker_def Let_def in_hand_def owed_def)

lemma clear_pending_inv: "reply_inv q \<Longrightarrow> reply_inv (snd (clear_pending q))"
proof -
  assume inv: "reply_inv q"
  have "prefix (qs_spoken q @ in_hand (qs_worker q)) (qs_spoken q @ in_hand (qs_worker q) @ qs_jobs q)"
    by simp
  then have "subseq (qs_spoken q @ in_hand (qs_worker q)) (qs_submitted q)"
    using inv unfolding reply_inv_def by (meson prefix_imp_subseq subseq_order.trans)
  with inv show ?thesis by (auto simp: reply_inv_def clear_pending_def)
qed

lemma worker_step_inv: "reply_inv q \<Longrightarrow> worker_step q = Some q' \<Longrightarrow> reply_inv q'"
  by (cases "qs_worker q")
    (auto simp: reply_inv_def worker_step_def in_hand_def owed_def split: list.splits)

lemma reply_reachable_inv: "reply_reachable q \<Longrightarrow> reply_inv q"
proof (induction rule: reply_reachable.induct)
  case start
  show ?case by (simp add: reply_inv_def reply_queue_init_def in_hand_def owed_def)
next
  case (step q q')
  from step.hyps(2) show ?case
  proof (cases rule: reply_step.cases)
    case (speak t)
    then show ?thesis using step.IH by (simp add: queue_speak_inv)
  next
    case (interrupt b)
    then show ?thesis using step.IH clear_pending_inv [of q]
      by (simp add: queue_interrupt_def Let_def split: prod.splits)
  next
    case work
    then show ?thesis using step.IH by (simp add: worker_step_inv)
  qed
qed

text \<open>
  C22. Whatever the interleaving of callers, interruptions and the worker thread, the replies are
  spoken in the order they were submitted and none is spoken twice: the spoken replies, the one in
  the worker's hands and the pending ones form a subsequence of the submitted ones, each
  submitted reply is spoken, in hand, pending or cleared, and \<open>task_done\<close> is never called more
  often than jobs were put.
\<close>

theorem reply_queue_order:
  assumes "reply_reachable q"
  shows "subseq (qs_spoken q @ in_hand (qs_worker q) @ qs_jobs q) (qs_submitted q) \<and>
    length (qs_submitted q) = length (qs_spoken q) + length (in_hand (qs_worker q)) +
      length (qs_jobs q) + length (qs_cleared q) \<and>
    qs_unfinished q = length (qs_jobs q) + owed (qs_worker q)"
  using reply_reachable_inv [OF assms] by (simp add: reply_inv_def)

definition ex_reply :: reply_queue where
  "ex_reply = the (worker_step (queue_speak ''hello'' reply_queue_init))"

lemma ex_reply_reachable: "reply_reachable ex_reply"
proof -
  have "reply_reachable (queue_speak ''hello'' reply_queue_init)"
    using reply_reachable.step [OF reply_reachable.start reply_step.speak] .
  moreover have "worker_step (queue_speak ''hello'' reply_queue_init) = Some ex_reply"
    by (simp add: ex_reply_def worker_step_def queue_speak_def ensure_worker_def reply_queue_init_def Let_def)
  ultimately show ?thesis by (blast intro: reply_reachable.step reply_step.work)
qed

lemma ex_reply_fields:
  "qs_worker ex_reply = Taken ''hello''" "qs_jobs ex_reply = []" "qs_submitted ex_reply = [''hello'']"
  "qs_spoken ex_reply = []" "qs_active ex_reply = False" "qs_cleared ex_reply = []"
  "qs_unfinished ex_reply = 1"
  by (simp_all add: ex_reply_def worker_step_def queue_speak_def ensure_worker_def reply_queue_init_def Let_def)

theorem reply_queue_order_witness:
  "reply_reachable ex_reply \<and> subseq [''hello''] (qs_submitted ex_reply) \<and> qs_unfinished ex_reply = 1"
  using reply_queue_order [OF ex_reply_reachable] ex_reply_reachable
  by (simp add: ex_reply_fields in_hand_def)

text \<open>
  Between taking a reply off the queue and marking itself active, the worker holds a reply
  that no caller can see: such a state is reachable, \<open>is_speaking\<close> answers False there, and an
  interruption reports that nothing was stopped, although the reply is spoken afterwards.
\<close>

lemma reply_queue_interrupt_gap:
  "\<exists>q. reply_reachable q \<and> in_hand (qs_worker q) = [''hello''] \<and> \<not> queue_is_speaking False q \<and>
       queue_interrupt False q = (False, q) \<and>
       (\<exists>q1 q2. worker_step q = Some q1 \<and> worker_step q1 = Some q2 \<and> qs_spoken q2 = [''hello''])"
proof (rule exI [of _ ex_reply], intro conjI)
  let ?q1 = "ex_reply\<lparr> qs_active := True, qs_worker := Speaking ''hello'' \<rparr>"
  show "reply_reachable ex_reply" by (rule ex_reply_reachable)
  show "in_hand (qs_worker ex_reply) = [''hello'']" by (simp add: ex_reply_fields in_hand_def)
  show "\<not> queue_is_speaking False ex_reply" by (simp add: queue_is_speaking_def ex_reply_fields)
  show "queue_interrupt False ex_reply = (False, ex_reply)"
    by (simp add: queue_interrupt_def clear_pending_def ex_reply_def worker_step_def queue_speak_def
        ensure_worker_def reply_queue_init_def Let_def)
  have "worker_step ex_reply = Some ?q1" by (simp add: worker_step_def ex_reply_fields)
  moreover have "worker_step ?q1 = Some (?q1\<lparr> qs_worker := Spoken ''hello'', qs_spoken := [''hello''] \<rparr>)"
    by (simp add: worker_step_def ex_reply_fields)
  ultimately show "\<exists>q1 q2. worker_step ex_reply = Some q1 \<and> worker_step q1 = Some q2 \<and> qs_spoken q2 = [''hello'']"
    by fastforce
qed

end
