(* ===== verification/Chunking.thy ===== *)
theory Chunking
  imports Text "HOL-Library.Monad_Syntax"
begin

text \<open>
  \<open>speech/chunking.py\<close>: a reply is cut into pieces the speech engine can synthesise one after
  the other. The regular expressions are written out as scanners; the \<open>while\<close> loop of
  \<open>_split_long_fragment\<close> is a partial function, proved to return.
\<close>

section \<open>Scanners\<close>

text \<open>\<open>s.rfind(sep)\<close>.\<close>

definition py_rfind :: "string \<Rightarrow> string \<Rightarrow> int" where
  "py_rfind s sep =
     (case find (\<lambda>i. take (length sep) (drop i s) = sep) (rev [0 ..< length s + 1]) of
        None \<Rightarrow> -1
      | Some i \<Rightarrow> int i)"

text \<open>The ends of the matches of \<open>re.finditer(r"[.!?;:,]\s+", s)\<close>.\<close>

function punct_ends :: "nat \<Rightarrow> string \<Rightarrow> nat list" where
  "punct_ends pos [] = []"
| "punct_ends pos (c # cs) =
     (if c \<in> set ''.!?;:,'' \<and> takeWhile is_space cs \<noteq> [] then
        (let stop = pos + 1 + length (takeWhile is_space cs)
         in stop # punct_ends stop (dropWhile is_space cs))
      else punct_ends (pos + 1) cs)"
  by pat_completeness auto
termination
  by (relation "measure (\<lambda>(_, s). length s)") (auto simp: le_imp_less_Suc length_dropWhile_le)

text \<open>\<open>re.split(r"(?<=[.!?;:])\s+", s)\<close>; \<open>sentence\<close> is the current piece reversed.\<close>

function sentence_split :: "string \<Rightarrow> string \<Rightarrow> string list" where
  "sentence_split sentence [] = [rev sentence]"
| "sentence_split sentence (c # cs) =
     (if is_space c \<and> sentence \<noteq> [] \<and> hd sentence \<in> set ''.!?;:''
      then rev sentence # sentence_split [] (dropWhile is_space cs)
      else sentence_split (c # sentence) cs)"
  by pat_completeness auto
termination
  by (relation "measure (\<lambda>(_, s). length s)") (auto simp: le_imp_less_Suc length_dropWhile_le)

section \<open>Split points\<close>

fun first_separator :: "string \<Rightarrow> int \<Rightarrow> string list \<Rightarrow> int option" where
  "first_separator window lower [] = None"
| "first_separator window lower (sep # seps) =
     (if lower \<le> py_rfind window sep then Some (py_rfind window sep)
      else first_separator window lower seps)"

definition first_split_index :: "string \<Rightarrow> nat \<Rightarrow> nat" where
  "first_split_index text max_chars =
     (let window = take (max_chars + 1) text;
          lower = max 12 (max_chars div 3)
      in case find (\<lambda>e. lower \<le> e \<and> e \<le> max_chars) (punct_ends 0 window) of
           Some e \<Rightarrow> e
         | None \<Rightarrow>
             (case first_separator window (int lower)
                ['' and '', '' but '', '' so '', '' then '', '' because '', '' while '', '' which '',
                 '' that '', '' ''] of
                Some i \<Rightarrow> nat i
              | None \<Rightarrow> max_chars))"

definition first_fragment :: "string \<Rightarrow> nat \<Rightarrow> string \<times> string" where
  "first_fragment text max_chars =
     (if length text \<le> max_chars then (text, [])
      else let split_at = first_split_index text max_chars
           in (py_strip (take split_at text), py_strip (drop split_at text)))"

fun split_separator :: "string \<Rightarrow> int \<Rightarrow> string list \<Rightarrow> int option" where
  "split_separator window lower [] = None"
| "split_separator window lower (sep # seps) =
     (if lower \<le> py_rfind window sep
      then Some (if sep = '', '' then py_rfind window sep + 1 else py_rfind window sep)
      else split_separator window lower seps)"

definition split_index :: "string \<Rightarrow> nat \<Rightarrow> nat" where
  "split_index text max_chars =
     (let window = take (max_chars + 1) text; lower = max 32 (max_chars div 3)
      in case split_separator window (int lower) ['', '', '' - '', '' ''] of
           Some i \<Rightarrow> nat i
         | None \<Rightarrow> max_chars)"

partial_function (option) split_loop :: "nat \<Rightarrow> string \<Rightarrow> string list option" where
  "split_loop max_chars remaining =
     (if max_chars < length remaining then
        do {
          let stop = split_index remaining max_chars;
          rest \<leftarrow> split_loop max_chars (py_strip (drop stop remaining));
          Some (py_strip (take stop remaining) # rest)
        }
      else Some (if remaining = [] then [] else [remaining]))"

definition split_long_fragment :: "string \<Rightarrow> nat \<Rightarrow> string list option" where
  "split_long_fragment fragment max_chars =
     (let remaining = py_strip fragment
      in if length remaining \<le> max_chars then Some (if remaining = [] then [] else [remaining])
         else split_loop max_chars remaining)"

section \<open>Chunks\<close>

text \<open>The inner loop body: \<open>current\<close> collects pieces while they fit.\<close>

fun pack_pieces :: "nat \<Rightarrow> string list \<times> string \<Rightarrow> string list \<Rightarrow> string list \<times> string" where
  "pack_pieces max_chars (chunks, current) [] = (chunks, current)"
| "pack_pieces max_chars (chunks, current) (piece # pieces) =
     pack_pieces max_chars
       (if current = [] then (chunks, piece)
        else if length current + 1 + length piece \<le> max_chars then (chunks, current @ '' '' @ piece)
        else (chunks @ [current], piece))
       pieces"

fun pack_sentences :: "nat \<Rightarrow> string list \<times> string \<Rightarrow> string list \<Rightarrow> (string list \<times> string) option" where
  "pack_sentences max_chars st [] = Some st"
| "pack_sentences max_chars st (sentence # sentences) =
     do {
       pieces \<leftarrow> split_long_fragment sentence max_chars;
       pack_sentences max_chars (pack_pieces max_chars st pieces) sentences
     }"

definition speech_chunks :: "string \<Rightarrow> int \<Rightarrow> int \<Rightarrow> (py_error + string list) option" where
  "speech_chunks text max_chars first_chunk_chars =
     (if max_chars < 1 then Some (Inl (ValueError ''max_chars must be at least 1''))
      else if first_chunk_chars < 1 then
        Some (Inl (ValueError ''first_chunk_chars must be at least 1''))
      else
        let clean = normalize_ws text in
        if clean = [] then Some (Inr [])
        else
          let (first, remaining) = first_fragment clean (nat first_chunk_chars) in
          do {
            (chunks, current) \<leftarrow> pack_sentences (nat max_chars)
              (if first \<noteq> [] then [first] else [], []) (sentence_split [] remaining);
            Some (Inr (if current \<noteq> [] then chunks @ [current] else chunks))
          })"

section \<open>What the pieces contain\<close>

abbreviation letters :: "string \<Rightarrow> string" where
  "letters s \<equiv> filter (\<lambda>c. \<not> is_space c) s"

lemma letters_dropWhile [simp]: "letters (dropWhile is_space s) = letters s"
  by (induction s) auto

lemma letters_rev_dropWhile [simp]: "letters (rev (dropWhile is_space (rev s))) = letters s"
  by (metis letters_dropWhile rev_filter rev_rev_ident)

lemma letters_strip [simp]: "letters (py_strip s) = letters s"
  by (simp add: py_strip_def strip_by_def)

lemma letters_take_drop: "letters (take n s) @ letters (drop n s) = letters s"
  by (metis append_take_drop_id filter_append)

lemma letters_split: "concat (py_split s) = letters s"
proof (induction s rule: py_split.induct)
  case (2 c cs)
  show ?case
  proof (cases "is_space c")
    case True
    then show ?thesis using 2 by (simp add: py_split_space)
  next
    case False
    have "letters cs = takeWhile (\<lambda>c. \<not> is_space c) cs @ letters (dropWhile (\<lambda>c. \<not> is_space c) cs)"
      by (induction cs) auto
    then show ?thesis using 2 False by (simp add: py_split_nonspace)
  qed
qed simp

lemma letters_join: "letters (py_join '' '' ws) = concat (map letters ws)"
  by (induction "'' ''" ws rule: py_join.induct) simp_all

lemma letters_word: "is_word w \<Longrightarrow> letters w = w"
  by (simp add: is_word_def list_all_iff)

lemma letters_normalize [simp]: "letters (normalize_ws s) = letters s"
proof -
  have "concat (map letters (py_split s)) = concat (py_split s)"
    using py_split_words [of s] by (auto simp: list_all_iff letters_word intro!: arg_cong [of _ _ concat] map_idI)
  then show ?thesis by (simp add: normalize_ws_def letters_join letters_split)
qed

lemma letters_sentence_split:
  "concat (map letters (sentence_split sentence s)) = letters (rev sentence) @ letters s"
  by (induction sentence s rule: sentence_split.induct) (simp_all add: Let_def)

section \<open>Split points lie inside the text\<close>

lemma find_SomeD: "find P xs = Some x \<Longrightarrow> P x"
  by (auto simp: find_Some_iff)

lemma py_rfind_bound:
  assumes "0 \<le> py_rfind s sep" "sep \<noteq> []"
  shows "py_rfind s sep + int (length sep) \<le> int (length s)"
proof -
  obtain i where i: "py_rfind s sep = int i" "take (length sep) (drop i s) = sep"
  proof (cases "find (\<lambda>i. take (length sep) (drop i s) = sep) (rev [0 ..< length s + 1])")
    case None
    then have "py_rfind s sep = -1" unfolding py_rfind_def by (simp only: option.case)
    then show ?thesis using assms(1) by simp
  next
    case (Some x)
    then have "py_rfind s sep = int x" unfolding py_rfind_def by (simp only: option.case)
    then show ?thesis using that find_SomeD [OF Some] by blast
  qed
  from i(2) have "length sep \<le> length s - i" by (metis length_drop length_take min.cobounded1)
  moreover have "0 < length sep" using assms(2) by simp
  ultimately show ?thesis using i(1) by linarith
qed

lemma first_separator_bound:
  "first_separator w l seps = Some i \<Longrightarrow> 1 \<le> l \<Longrightarrow> [] \<notin> set seps \<Longrightarrow> l \<le> i \<and> i + 1 \<le> int (length w)"
proof (induction w l seps rule: first_separator.induct)
  case (2 window lower sep seps)
  show ?case
  proof (cases "lower \<le> py_rfind window sep")
    case True
    moreover have "1 \<le> length sep" using "2.prems" by (cases sep) auto
    ultimately show ?thesis using 2 py_rfind_bound [of window sep] by auto
  next
    case False
    with 2 show ?thesis by simp
  qed
qed simp

lemma split_separator_bound:
  "split_separator w l seps = Some i \<Longrightarrow> 1 \<le> l \<Longrightarrow> [] \<notin> set seps \<Longrightarrow> l \<le> i \<and> i + 1 \<le> int (length w)"
proof (induction w l seps rule: split_separator.induct)
  case (2 window lower sep seps)
  show ?case
  proof (cases "lower \<le> py_rfind window sep")
    case True
    moreover have "1 \<le> length sep" using "2.prems" by (cases sep) auto
    ultimately show ?thesis using 2 py_rfind_bound [of window sep] by auto
  next
    case False
    with 2 show ?thesis by simp
  qed
qed simp

lemma first_split_index_bounds:
  assumes "1 \<le> m"
  shows "1 \<le> first_split_index s m \<and> first_split_index s m \<le> m"
proof -
  let ?w = "take (m + 1) s" and ?l = "max 12 (m div 3)"
  let ?seps = "['' and '', '' but '', '' so '', '' then '', '' because '', '' while '', '' which '', '' that '', '' '']"
  have e: "1 \<le> e \<and> e \<le> m" if "find (\<lambda>e. ?l \<le> e \<and> e \<le> m) (punct_ends 0 ?w) = Some e" for e
    using that by (auto simp: find_Some_iff)
  have i: "1 \<le> nat i \<and> nat i \<le> m" if "first_separator ?w (int ?l) ?seps = Some i" for i
  proof -
    have "int ?l \<le> i \<and> i + 1 \<le> int (length ?w)" by (rule first_separator_bound [OF that]) simp_all
    moreover have "length ?w \<le> m + 1" "12 \<le> ?l" by simp_all
    ultimately show ?thesis by linarith
  qed
  show ?thesis
    unfolding first_split_index_def Let_def
    using e i assms by (auto split: option.split simp del: first_separator.simps)
qed

lemma split_index_bounds:
  assumes "1 \<le> m"
  shows "1 \<le> split_index s m \<and> split_index s m \<le> m"
proof -
  let ?w = "take (m + 1) s" and ?l = "max 32 (m div 3)"
  have i: "1 \<le> nat i \<and> nat i \<le> m" if "split_separator ?w (int ?l) ['', '', '' - '', '' ''] = Some i" for i
  proof -
    have "int ?l \<le> i \<and> i + 1 \<le> int (length ?w)" by (rule split_separator_bound [OF that]) simp_all
    moreover have "length ?w \<le> m + 1" "32 \<le> ?l" by simp_all
    ultimately show ?thesis by linarith
  qed
  show ?thesis
    unfolding split_index_def Let_def
    using i assms by (auto split: option.split simp del: split_separator.simps)
qed

section \<open>The loop returns\<close>

definition trimmed :: "string \<Rightarrow> bool" where
  "trimmed s \<longleftrightarrow> s = [] \<or> (\<not> is_space (hd s) \<and> \<not> is_space (last s))"

lemma hd_dropWhile': "dropWhile p s \<noteq> [] \<Longrightarrow> \<not> p (hd (dropWhile p s))"
  by (induction s) auto

lemma hd_rev_dropWhile:
  "s \<noteq> [] \<Longrightarrow> \<not> p (hd s) \<Longrightarrow> rev (dropWhile p (rev s)) \<noteq> [] \<and> hd (rev (dropWhile p (rev s))) = hd s"
proof -
  assume s: "s \<noteq> []" "\<not> p (hd s)"
  then have "last (rev s) = hd s" "\<exists>x \<in> set (rev s). \<not> p x" by (auto simp: last_rev)
  then have "dropWhile p (rev s) \<noteq> []" by (auto simp: dropWhile_eq_Nil_conv)
  then show ?thesis using last_dropWhile [of p "rev s"] s by (simp add: hd_rev last_rev)
qed

lemma trimmed_strip [simp]: "trimmed (py_strip s)"
proof (cases "dropWhile is_space s = []")
  case True
  show ?thesis unfolding py_strip_def strip_by_def True by (simp add: trimmed_def)
next
  case False
  note h = hd_dropWhile' [OF False] and r = hd_rev_dropWhile [of "dropWhile is_space s" is_space, OF False hd_dropWhile' [OF False]]
  then have "dropWhile is_space (rev (dropWhile is_space s)) \<noteq> []" by auto
  from hd_dropWhile' [OF this] show ?thesis
    using h r by (simp add: py_strip_def strip_by_def trimmed_def last_rev)
qed

lemma strip_take_nonempty:
  "trimmed s \<Longrightarrow> s \<noteq> [] \<Longrightarrow> 1 \<le> n \<Longrightarrow> py_strip (take n s) \<noteq> []"
  by (cases s; cases n) (auto simp: trimmed_def)

lemma length_strip_take: "n \<le> m \<Longrightarrow> length (py_strip (take n s)) \<le> m"
  using length_py_strip [of "take n s"] by simp

text \<open>Good pieces: not empty and within the limit.\<close>

definition pieces_ok :: "nat \<Rightarrow> string list \<Rightarrow> bool" where
  "pieces_ok m ps \<longleftrightarrow> list_all (\<lambda>p. p \<noteq> [] \<and> length p \<le> m) ps"

lemma split_loop_ok:
  "1 \<le> m \<Longrightarrow> trimmed s \<Longrightarrow>
   \<exists>ps. split_loop m s = Some ps \<and> pieces_ok m ps \<and> concat (map letters ps) = letters s"
proof (induction s rule: length_induct)
  case (1 s)
  show ?case
  proof (cases "m < length s")
    case False
    then show ?thesis by (subst split_loop.simps) (auto simp: pieces_ok_def)
  next
    case True
    let ?n = "split_index s m" and ?s = "py_strip (drop (split_index s m) s)"
    note b = split_index_bounds [OF 1(2), of s]
    have "length ?s < length s" using length_py_strip [of "drop ?n s"] b True by auto
    then obtain ps where ps: "split_loop m ?s = Some ps" "pieces_ok m ps"
      "concat (map letters ps) = letters ?s"
      using 1 by fastforce
    have "s \<noteq> []" using True by auto
    then have "py_strip (take ?n s) \<noteq> []" using strip_take_nonempty [of s ?n] 1(3) b by blast
    moreover have "length (py_strip (take ?n s)) \<le> m" using length_strip_take b by blast
    moreover have "split_loop m s = Some (py_strip (take ?n s) # ps)"
      using True ps(1) by (subst split_loop.simps) (simp add: Let_def)
    ultimately show ?thesis using ps letters_take_drop [of ?n s] by (simp add: pieces_ok_def)
  qed
qed

lemma split_long_fragment_ok:
  assumes "1 \<le> m"
  shows "\<exists>ps. split_long_fragment f m = Some ps \<and> pieces_ok m ps \<and> concat (map letters ps) = letters f"
proof (cases "length (py_strip f) \<le> m")
  case True
  then have "split_long_fragment f m = Some (if py_strip f = [] then [] else [py_strip f])"
    by (simp only: split_long_fragment_def Let_def if_True)
  with True letters_strip [of f] show ?thesis
    by (cases "py_strip f") (auto simp: pieces_ok_def simp del: letters_strip py_strip_eq_Nil)
next
  case False
  then show ?thesis using split_loop_ok [OF assms trimmed_strip, of f]
    by (simp add: split_long_fragment_def Let_def)
qed

section \<open>Packing\<close>

definition pack_ok :: "nat \<Rightarrow> string list \<times> string \<Rightarrow> bool" where
  "pack_ok m st \<longleftrightarrow> pieces_ok m (fst st) \<and> length (snd st) \<le> m"

definition pack_letters :: "string list \<times> string \<Rightarrow> string" where
  "pack_letters st = concat (map letters (fst st)) @ letters (snd st)"

text \<open>The first chunk has its own limit, so the packing lemmas keep it apart.\<close>

lemma pack_pieces_ok:
  "pieces_ok m ps \<Longrightarrow> pieces_ok m chunks \<Longrightarrow> length current \<le> m \<Longrightarrow>
   \<exists>more current'. pack_pieces m (pre @ chunks, current) ps = (pre @ more, current') \<and>
     pack_ok m (more, current') \<and>
     pack_letters (more, current') = pack_letters (chunks, current) @ concat (map letters ps)"
proof (induction ps arbitrary: chunks current)
  case Nil
  then show ?case by (auto simp: pack_ok_def)
next
  case (Cons p ps)
  then have p: "p \<noteq> []" "length p \<le> m" "pieces_ok m ps" by (auto simp: pieces_ok_def)
  consider (start) "current = []" | (fits) "current \<noteq> []" "length current + 1 + length p \<le> m"
    | (full) "current \<noteq> []" "m < length current + 1 + length p" by linarith
  then show ?case
  proof cases
    case start
    then show ?thesis using Cons.IH [OF p(3) Cons.prems(2) p(2)] by (simp add: pack_letters_def)
  next
    case fits
    then show ?thesis using Cons.IH [OF p(3) Cons.prems(2), of "current @ '' '' @ p"]
      by (simp add: pack_letters_def)
  next
    case full
    have "pieces_ok m (chunks @ [current])" using Cons.prems full by (simp add: pieces_ok_def)
    from Cons.IH [OF p(3) this p(2)] full show ?thesis by (simp add: pack_letters_def)
  qed
qed

lemma pack_sentences_ok:
  "1 \<le> m \<Longrightarrow> pieces_ok m chunks \<Longrightarrow> length current \<le> m \<Longrightarrow>
   \<exists>more current'. pack_sentences m (pre @ chunks, current) ss = Some (pre @ more, current') \<and>
     pack_ok m (more, current') \<and>
     pack_letters (more, current') = pack_letters (chunks, current) @ concat (map letters ss)"
proof (induction ss arbitrary: chunks current)
  case Nil
  then show ?case by (auto simp: pack_ok_def)
next
  case (Cons f ss)
  obtain ps where ps: "split_long_fragment f m = Some ps" "pieces_ok m ps" "concat (map letters ps) = letters f"
    using split_long_fragment_ok [OF Cons.prems(1)] by blast
  obtain more cur where q: "pack_pieces m (pre @ chunks, current) ps = (pre @ more, cur)"
    "pack_ok m (more, cur)" "pack_letters (more, cur) = pack_letters (chunks, current) @ letters f"
    using pack_pieces_ok [OF ps(2) Cons.prems(2,3), of pre] ps(3) by auto
  from Cons.IH [OF Cons.prems(1), of more cur] q ps(1) show ?case
    by (simp add: pack_ok_def)
qed

lemma normalize_ws_hd: "normalize_ws s \<noteq> [] \<Longrightarrow> \<not> is_space (hd (normalize_ws s))"
proof -
  assume ne: "normalize_ws s \<noteq> []"
  then obtain w ws where w: "py_split s = w # ws" by (cases "py_split s") (auto simp: normalize_ws_def)
  then have "is_word w" using py_split_words [of s] by simp
  then have "w \<noteq> []" "\<not> is_space (hd w)" by (cases w; simp add: is_word_def)+
  then show ?thesis using w by (cases ws) (simp_all add: normalize_ws_def)
qed

lemma first_fragment_ok:
  assumes "1 \<le> m" "s \<noteq> []" "\<not> is_space (hd s)" "first_fragment s m = (a, b)"
  shows "a \<noteq> [] \<and> length a \<le> m \<and> letters a @ letters b = letters s"
proof (cases "length s \<le> m")
  case True
  then show ?thesis using assms by (simp add: first_fragment_def)
next
  case False
  let ?n = "first_split_index s m"
  have a: "a = py_strip (take ?n s)" "b = py_strip (drop ?n s)"
    using assms(4) False by (simp_all add: first_fragment_def Let_def)
  have "py_strip (take ?n s) \<noteq> []"
    using first_split_index_bounds [OF assms(1), of s] assms(2,3) by (cases s; cases ?n) auto
  moreover have "length (py_strip (take ?n s)) \<le> m"
    using length_strip_take first_split_index_bounds [OF assms(1), of s] by blast
  ultimately show ?thesis using letters_take_drop [of ?n s] by (simp add: a)
qed

section \<open>Property\<close>

text \<open>
  C15. \<open>speech_chunks\<close> always returns. With both limits at least 1 it returns chunks that are never
  empty, the first within \<open>first_chunk_chars\<close> and the others within \<open>max_chars\<close>, and that
  together hold every non-blank character of the text, once and in order; otherwise it raises
  the ValueError for the first limit that is too small.
\<close>

theorem speech_chunks_sound:
  "(case speech_chunks reply max_chars first_chunk_chars of
      None \<Rightarrow> False
    | Some (Inl e) \<Rightarrow>
        (if max_chars < 1 then e = ValueError ''max_chars must be at least 1''
         else first_chunk_chars < 1 \<and> e = ValueError ''first_chunk_chars must be at least 1'')
    | Some (Inr chunks) \<Rightarrow>
        1 \<le> max_chars \<and> 1 \<le> first_chunk_chars \<and>
        concat (map letters chunks) = letters reply \<and>
        (chunks = [] \<or> (hd chunks \<noteq> [] \<and> int (length (hd chunks)) \<le> first_chunk_chars)) \<and>
        list_all (\<lambda>c. c \<noteq> [] \<and> int (length c) \<le> max_chars) (tl chunks))"
proof (cases "max_chars < 1 \<or> first_chunk_chars < 1 \<or> normalize_ws reply = []")
  case True
  moreover have "letters reply = []" if "normalize_ws reply = []"
    using letters_normalize [of reply] that by simp
  ultimately show ?thesis by (auto simp: speech_chunks_def Let_def)
next
  case False
  define m where "m = nat max_chars"
  have m: "1 \<le> m" "int m = max_chars" "1 \<le> nat first_chunk_chars"
    using False by (auto simp: m_def)
  obtain a b where ab: "first_fragment (normalize_ws reply) (nat first_chunk_chars) = (a, b)" by fastforce
  have a: "a \<noteq> []" "length a \<le> nat first_chunk_chars" "letters a @ letters b = letters reply"
    using first_fragment_ok [OF m(3) _ normalize_ws_hd ab] False by auto
  obtain more cur where p: "pack_sentences m ([a], []) (sentence_split [] b) = Some (a # more, cur)"
    "pack_ok m (more, cur)" "pack_letters (more, cur) = letters b"
    using pack_sentences_ok [OF m(1), of "[]" "[]" "[a]" "sentence_split [] b"]
    by (auto simp: pieces_ok_def pack_letters_def letters_sentence_split)
  have r: "speech_chunks reply max_chars first_chunk_chars = Some (Inr (a # (if cur \<noteq> [] then more @ [cur] else more)))"
    using False ab a p(1) by (simp add: speech_chunks_def Let_def m_def)
  show ?thesis
    unfolding r using False a p(2,3) m(2)
    by (auto simp: pack_ok_def pieces_ok_def pack_letters_def list_all_iff)
qed

end
