(* ===== verification/Planning.thy ===== *)
theory Planning
  imports FsMemory
begin

text \<open>
  Workspace planning, \<open>workspace/planning.py\<close> and \<open>workspace/memory_service.py\<close>: the memories a
  workspace is projected from are resolved depth first, each after the memories it is based
  on. What the resolver relies on of the memory store is the locale \<open>memory_catalog\<close>,
  interpreted on the store of theory \<open>FsMemory\<close>. Paths are resolved by arguments; reading a
  memory stamps its read time, which the resolver never looks at.
\<close>

section \<open>Sources and plans\<close>

datatype memory_source =
    Directory_source string string
  | Checkpoint_source string string string

fun source_memory_id :: "memory_source \<Rightarrow> string" where
  "source_memory_id (Directory_source i path) = i"
| "source_memory_id (Checkpoint_source i store manifest) = i"

datatype materialization = DirectDisk | VirtualDisk
datatype retention = Discard | Retain

record plan_rule =
  pr_path_glob :: string
  pr_materialization :: materialization
  pr_retention :: retention

record workspace_plan =
  wp_memory_ids :: "string list"
  wp_prefetch_paths :: "string list"
  wp_rules :: "plan_rule list"

record resolved_plan =
  rp_memory_sources :: "memory_source list"
  rp_prefetch_paths :: "string list"
  rp_scratch_paths :: "string list"

definition workspace_scratch_paths :: "workspace_plan \<Rightarrow> string list" where
  "workspace_scratch_paths plan =
     map pr_path_glob
       (filter (\<lambda>r. pr_materialization r = DirectDisk \<and> pr_retention r = Discard) (wp_rules plan))"

section \<open>Resolution\<close>

record resolution =
  rs_sources :: "memory_source list"
  rs_resolving :: "string set"
  rs_resolved :: "string set"

record path_env =
  pe_resolve :: "string \<Rightarrow> string"
  pe_is_dir :: "string \<Rightarrow> bool"

definition base_ids :: "fs_node \<Rightarrow> string list" where
  "base_ids node = fm_base_memory_ids (memory_common_of (fn_content node))"

definition source_of :: "path_env \<Rightarrow> string \<Rightarrow> fs_node \<Rightarrow> py_error + memory_source" where
  "source_of env memory_id node =
     (case fn_content node of
        Directory_memory c path \<Rightarrow>
          let source = pe_resolve env path in
          if \<not> pe_is_dir env source
          then Inl (WorkspaceError (''filesystem memory source is unavailable: '' @ source @ '' ('' @ memory_id @ '')''))
          else Inr (Directory_source (fn_id node) source)
      | Checkpoint_memory c store manifest \<Rightarrow>
          let backing_store = pe_resolve env store in
          if \<not> pe_is_dir env backing_store
          then Inl (WorkspaceError (''filesystem memory backing store is unavailable: '' @ backing_store @
                      '' ('' @ memory_id @ '')''))
          else Inr (Checkpoint_source (fn_id node) backing_store manifest))"

definition cycle_error :: "string \<Rightarrow> py_error" where
  "cycle_error memory_id = WorkspaceError (''filesystem memory dependency cycle: '' @ memory_id)"

text \<open>
  The nested \<open>resolve\<close> applied to a list of ids one after the other: the loop over the
  requested ids and the loop over a memory's bases are both this list.
\<close>

partial_function (option) resolve_all ::
  "(string \<Rightarrow> py_error + fs_node option) \<Rightarrow> path_env \<Rightarrow> string list \<Rightarrow> resolution \<Rightarrow>
   (py_error + resolution) option" where
  "resolve_all get env ids st =
     (case ids of
        [] \<Rightarrow> Some (Inr st)
      | memory_id # rest \<Rightarrow>
          if memory_id \<in> rs_resolved st then resolve_all get env rest st
          else if memory_id \<in> rs_resolving st then Some (Inl (cycle_error memory_id))
          else
            case get memory_id of
              Inl e \<Rightarrow> Some (Inl e)
            | Inr None \<Rightarrow> Some (Inl (WorkspaceError (''filesystem memory does not exist: '' @ memory_id)))
            | Inr (Some node) \<Rightarrow>
                Option.bind
                  (resolve_all get env (base_ids node)
                     (st\<lparr> rs_resolving := insert memory_id (rs_resolving st) \<rparr>))
                  (\<lambda>r. case r of
                         Inl e \<Rightarrow> Some (Inl e)
                       | Inr st1 \<Rightarrow>
                           (case source_of env memory_id node of
                              Inl e \<Rightarrow> Some (Inl e)
                            | Inr source \<Rightarrow>
                                resolve_all get env rest
                                  (st1\<lparr> rs_sources := rs_sources st1 @ [source],
                                        rs_resolving := rs_resolving st1 - {memory_id},
                                        rs_resolved := insert memory_id (rs_resolved st1) \<rparr>))))"

definition resolve_memory_sources ::
  "(string \<Rightarrow> py_error + fs_node option) \<Rightarrow> path_env \<Rightarrow> string list \<Rightarrow>
   (py_error + memory_source list) option" where
  "resolve_memory_sources get env memory_ids =
     map_option (map_sum id rs_sources)
       (resolve_all get env (dict_fromkeys memory_ids)
          \<lparr> rs_sources = [], rs_resolving = {}, rs_resolved = {} \<rparr>)"

definition resolve_workspace_plan ::
  "(string \<Rightarrow> py_error + fs_node option) \<Rightarrow> path_env \<Rightarrow> workspace_plan \<Rightarrow>
   (py_error + resolved_plan) option" where
  "resolve_workspace_plan get env plan =
     map_option (map_sum id (\<lambda>sources.
         \<lparr> rp_memory_sources = sources, rp_prefetch_paths = wp_prefetch_paths plan,
           rp_scratch_paths = workspace_scratch_paths plan \<rparr>))
       (resolve_memory_sources get env (wp_memory_ids plan))"

text \<open>\<open>WorkspaceMemoryService.resolve_plan\<close>, for the plan the plan function returned.\<close>

definition resolve_plan ::
  "(string \<Rightarrow> py_error + fs_node option) \<Rightarrow> path_env \<Rightarrow> workspace_plan \<Rightarrow>
   (py_error + resolved_plan) option" where
  "resolve_plan get env plan =
     (if wp_memory_ids plan = [] then
        Some (Inr \<lparr> rp_memory_sources = [], rp_prefetch_paths = wp_prefetch_paths plan,
                    rp_scratch_paths = workspace_scratch_paths plan \<rparr>)
      else resolve_workspace_plan get env plan)"

section \<open>What an order promises\<close>

definition memory_bases :: "(string \<Rightarrow> py_error + fs_node option) \<Rightarrow> string \<Rightarrow> string list" where
  "memory_bases get i = (case get i of Inr (Some node) \<Rightarrow> base_ids node | _ \<Rightarrow> [])"

definition memory_based_on :: "(string \<Rightarrow> py_error + fs_node option) \<Rightarrow> (string \<times> string) set" where
  "memory_based_on get = {(i, j). j \<in> set (memory_bases get i)}"

text \<open>Read from the last source to the first: its bases come before it, and it occurs once.\<close>

fun based_order :: "(string \<Rightarrow> string list) \<Rightarrow> string list \<Rightarrow> bool" where
  "based_order bases [] = True"
| "based_order bases (i # earlier) =
     (set (bases i) \<subseteq> set earlier \<and> i \<notin> set earlier \<and> based_order bases earlier)"

lemma based_order_distinct: "based_order bases xs \<Longrightarrow> distinct xs"
  by (induction xs) auto

lemma based_order_closed: "based_order bases xs \<Longrightarrow> i \<in> set xs \<Longrightarrow> set (bases i) \<subseteq> set xs"
  by (induction xs) auto

section \<open>The interface of the memory store\<close>

text \<open>The store holds finitely many memories, and a lookup returns the memory with that id.\<close>

locale memory_catalog =
  fixes get :: "string \<Rightarrow> py_error + fs_node option"
  assumes finite_nodes: "finite {i. \<exists>node. get i = Inr (Some node)}"
    and get_id: "get i = Inr (Some node) \<Longrightarrow> fn_id node = i"
    and get_no_cycle: "get i \<noteq> Inl (cycle_error j)"
begin

definition stored :: "string set" where
  "stored = {i. \<exists>node. get i = Inr (Some node)}"

abbreviation bases :: "string \<Rightarrow> string list" where
  "bases \<equiv> memory_bases get"

abbreviation based_on :: "(string \<times> string) set" where
  "based_on \<equiv> memory_based_on get"

definition order :: "resolution \<Rightarrow> string list" where
  "order st = map source_memory_id (rs_sources st)"

text \<open>The memories being resolved form a chain, innermost first.\<close>

fun chain :: "string list \<Rightarrow> bool" where
  "chain [] = True"
| "chain [x] = True"
| "chain (x # y # xs) = ((y, x) \<in> based_on \<and> chain (y # xs))"

lemma chain_reach: "chain (x # xs) \<Longrightarrow> m \<in> set (x # xs) \<Longrightarrow> (m, x) \<in> based_on\<^sup>*"
proof (induction xs arbitrary: x)
  case (Cons y ys)
  then show ?case
    by (cases "m = x") (auto intro: rtrancl_into_rtrancl)
qed simp

definition res_inv :: "resolution \<Rightarrow> bool" where
  "res_inv st \<longleftrightarrow> rs_resolved st = set (order st) \<and> rs_resolving st \<inter> rs_resolved st = {} \<and>
     rs_resolving st \<subseteq> stored \<and> set (order st) \<subseteq> stored \<and> based_order bases (rev (order st))"

text \<open>The ids to resolve are bases of the innermost memory of the chain.\<close>

definition res_pre :: "string list \<Rightarrow> resolution \<Rightarrow> bool" where
  "res_pre ids st \<longleftrightarrow> res_inv st \<and>
     (\<exists>path. set path = rs_resolving st \<and> chain path \<and> (path \<noteq> [] \<longrightarrow> set ids \<subseteq> set (bases (hd path))))"

definition res_post :: "string list \<Rightarrow> resolution \<Rightarrow> py_error + resolution \<Rightarrow> bool" where
  "res_post ids st r \<longleftrightarrow> (case r of
     Inr st' \<Rightarrow> res_inv st' \<and> rs_resolving st' = rs_resolving st \<and> set ids \<subseteq> rs_resolved st' \<and>
       rs_resolved st \<subseteq> rs_resolved st' \<and>
       rs_resolved st' \<subseteq> rs_resolved st \<union> based_on\<^sup>* `` set ids
   | Inl e \<Rightarrow> \<forall>m. e = cycle_error m \<longrightarrow> (m, m) \<in> based_on\<^sup>+)"

lemma source_of_id: "source_of env i node = Inr s \<Longrightarrow> source_memory_id s = fn_id node"
  by (auto simp: source_of_def Let_def split: fs_memory.splits if_splits)

lemma source_of_error: "source_of env i node = Inl e \<Longrightarrow> e \<noteq> cycle_error m"
  by (auto simp: source_of_def cycle_error_def Let_def split: fs_memory.splits if_splits)

lemma missing_not_cycle: "WorkspaceError (''filesystem memory does not exist: '' @ i) \<noteq> cycle_error m"
  by (simp add: cycle_error_def)

lemma finite_stored: "finite stored"
  using finite_nodes by (simp add: stored_def)

lemma bases_eq: "get i = Inr (Some node) \<Longrightarrow> bases i = base_ids node"
  by (simp add: memory_bases_def)

lemma cycle_found:
  assumes "res_pre (i # rest) st" "i \<in> rs_resolving st"
  shows "(i, i) \<in> based_on\<^sup>+"
proof -
  obtain path where p: "set path = rs_resolving st" "chain path"
    "path \<noteq> [] \<longrightarrow> set (i # rest) \<subseteq> set (bases (hd path))"
    using assms(1) unfolding res_pre_def by blast
  then obtain x xs where x: "path = x # xs" using assms(2) by (cases path) auto
  then have "(i, x) \<in> based_on\<^sup>*" using chain_reach [of x xs i] p assms(2) by auto
  moreover have "(x, i) \<in> based_on" using p(3) x by (simp add: memory_based_on_def)
  ultimately show ?thesis by (rule rtrancl_into_trancl1)
qed

text \<open>Entering a memory, and leaving it with its source.\<close>

definition enter :: "string \<Rightarrow> resolution \<Rightarrow> resolution" where
  "enter i st = st\<lparr> rs_resolving := insert i (rs_resolving st) \<rparr>"

definition leave :: "string \<Rightarrow> memory_source \<Rightarrow> resolution \<Rightarrow> resolution" where
  "leave i s st = st\<lparr> rs_sources := rs_sources st @ [s], rs_resolving := rs_resolving st - {i},
     rs_resolved := insert i (rs_resolved st) \<rparr>"

lemma enter_pre:
  assumes "res_pre (i # rest) st" "get i = Inr (Some node)" "i \<notin> rs_resolved st"
  shows "res_pre (base_ids node) (enter i st)"
proof -
  obtain path where p: "set path = rs_resolving st" "chain path"
    "path \<noteq> [] \<longrightarrow> set (i # rest) \<subseteq> set (bases (hd path))" and inv: "res_inv st"
    using assms(1) unfolding res_pre_def by blast
  have "chain (i # path)" using p(2,3) by (cases path) (auto simp: memory_based_on_def)
  moreover have "res_inv (enter i st)"
    using inv assms(2,3) by (auto simp: res_inv_def order_def stored_def enter_def)
  ultimately show ?thesis
    unfolding res_pre_def using p(1) bases_eq [OF assms(2)]
    by (intro conjI exI [of _ "i # path"]) (auto simp: enter_def)
qed

lemma leave_inv:
  assumes inv: "res_inv st1" and node: "get i = Inr (Some node)" and s: "source_of env i node = Inr s"
    and "set (base_ids node) \<subseteq> rs_resolved st1" and "i \<in> rs_resolving st1"
  shows "res_inv (leave i s st1)"
proof -
  have "order (leave i s st1) = order st1 @ [i]"
    using source_of_id [OF s] get_id [OF node] by (simp add: order_def leave_def)
  then show ?thesis
    using assms bases_eq [OF node] by (auto simp: res_inv_def stored_def leave_def order_def)
qed

lemma resolve_step:
  assumes IH: "\<And>ids' st'. ((card (stored - rs_resolving st'), length ids'),
        (card (stored - rs_resolving st), length (i # rest))) \<in> less_than <*lex*> less_than \<Longrightarrow>
      res_pre ids' st' \<Longrightarrow> \<exists>r. resolve_all get env ids' st' = Some r \<and> res_post ids' st' r"
    and pre: "res_pre (i # rest) st" and node: "get i = Inr (Some node)"
    and new: "i \<notin> rs_resolved st" "i \<notin> rs_resolving st"
  shows "\<exists>r. resolve_all get env (i # rest) st = Some r \<and> res_post (i # rest) st r"
proof -
  have "i \<in> stored" using node by (auto simp: stored_def)
  then have "card (stored - rs_resolving (enter i st)) < card (stored - rs_resolving st)"
    using new(2) finite_stored by (intro psubset_card_mono) (auto simp: enter_def)
  then obtain r where r: "resolve_all get env (base_ids node) (enter i st) = Some r"
    "res_post (base_ids node) (enter i st) r"
    using IH [OF _ enter_pre [OF pre node new(1)]] by auto
  note unfold = resolve_all.simps [of get env "i # rest" st]
  show ?thesis
  proof (cases r)
    case (Inl e)
    then have "resolve_all get env (i # rest) st = Some (Inl e)"
      using r(1) new node by (subst unfold) (simp add: enter_def)
    then show ?thesis using r(2) Inl by (auto simp: res_post_def)
  next
    case (Inr st1)
    have st1: "res_inv st1" "rs_resolving st1 = insert i (rs_resolving st)"
      "set (base_ids node) \<subseteq> rs_resolved st1" "rs_resolved st \<subseteq> rs_resolved st1"
      "rs_resolved st1 \<subseteq> rs_resolved st \<union> based_on\<^sup>* `` set (base_ids node)"
      using r(2) Inr by (auto simp: res_post_def enter_def)
    show ?thesis
    proof (cases "source_of env i node")
      case (Inl e)
      then have "resolve_all get env (i # rest) st = Some (Inl e)"
        using r(1) Inr new node by (subst unfold) (simp add: enter_def)
      then show ?thesis using source_of_error [OF Inl] by (auto simp: res_post_def)
    next
      case s: (Inr s)
      let ?st2 = "leave i s st1"
      have "res_inv ?st2" using leave_inv [OF st1(1) node s st1(3)] st1(2) by simp
      moreover have res2: "rs_resolving ?st2 = rs_resolving st" using st1(2) new(2) by (auto simp: leave_def)
      ultimately have pre2: "res_pre rest ?st2" using pre unfolding res_pre_def by fastforce
      obtain r2 where r2: "resolve_all get env rest ?st2 = Some r2" "res_post rest ?st2 r2"
        using IH [OF _ pre2] res2 by auto
      have eq: "resolve_all get env (i # rest) st = Some r2"
        using r(1) Inr s r2(1) new node by (subst unfold) (simp add: enter_def leave_def)
      define A B C where "A = based_on\<^sup>* `` set (base_ids node)" and "B = based_on\<^sup>* `` {i}"
        and "C = based_on\<^sup>* `` set rest"
      have "A \<subseteq> B"
      proof
        fix j assume "j \<in> A"
        then obtain k where k: "k \<in> set (base_ids node)" "(k, j) \<in> based_on\<^sup>*" unfolding A_def by blast
        have "(i, k) \<in> based_on" using k(1) bases_eq [OF node] by (simp add: memory_based_on_def)
        with k(2) have "(i, j) \<in> based_on\<^sup>*" by (rule converse_rtrancl_into_rtrancl [rotated])
        then show "j \<in> B" by (simp add: B_def)
      qed
      moreover have "i \<in> B" by (simp add: B_def)
      moreover have D: "based_on\<^sup>* `` set (i # rest) = B \<union> C" unfolding B_def C_def by auto
      moreover have E: "rs_resolved ?st2 = insert i (rs_resolved st1)" by (simp add: leave_def)
      moreover have "rs_resolved st1 \<subseteq> rs_resolved st \<union> A" using st1(5) by (simp add: A_def)
      ultimately have F: "rs_resolved ?st2 \<union> based_on\<^sup>* `` set rest \<subseteq> rs_resolved st \<union> based_on\<^sup>* `` set (i # rest)"
        unfolding D E C_def [symmetric] by blast
      have "res_post (i # rest) st r2"
      proof (cases r2)
        case (Inl e)
        then show ?thesis using r2(2) by (simp add: res_post_def)
      next
        case (Inr x)
        have x: "res_inv x" "rs_resolving x = rs_resolving ?st2" "set rest \<subseteq> rs_resolved x"
          "rs_resolved ?st2 \<subseteq> rs_resolved x" "rs_resolved x \<subseteq> rs_resolved ?st2 \<union> based_on\<^sup>* `` set rest"
          using r2(2) Inr by (simp_all add: res_post_def)
        have "rs_resolved x \<subseteq> rs_resolved st \<union> based_on\<^sup>* `` set (i # rest)"
          using x(5) F by (rule order_trans)
        moreover have "set (i # rest) \<subseteq> rs_resolved x" "rs_resolved st \<subseteq> rs_resolved x"
          using x(3,4) st1(4) unfolding E by auto
        ultimately show ?thesis using x(1,2) res2 Inr by (simp add: res_post_def)
      qed
      with eq show ?thesis by blast
    qed
  qed
qed

lemma resolve_all_post:
  "res_pre ids st \<Longrightarrow> \<exists>r. resolve_all get env ids st = Some r \<and> res_post ids st r"
proof (induction "(card (stored - rs_resolving st), length ids)" arbitrary: ids st
    rule: wf_induct_rule [OF wf_lex_prod [OF wf_less_than wf_less_than]])
  case (1 ids st)
  show ?case
  proof (cases ids)
    case Nil
    then show ?thesis using 1(2) by (simp add: resolve_all.simps res_post_def res_pre_def)
  next
    case (Cons i rest)
    consider (old) "i \<in> rs_resolved st" | (cycle) "i \<notin> rs_resolved st" "i \<in> rs_resolving st"
      | (error) "i \<notin> rs_resolved st" "i \<notin> rs_resolving st" "\<nexists>node. get i = Inr (Some node)"
      | (new) node where "i \<notin> rs_resolved st" "i \<notin> rs_resolving st" "get i = Inr (Some node)" by blast
    then show ?thesis
    proof cases
      case old
      have "res_pre rest st" using 1(2) Cons unfolding res_pre_def by auto
      then obtain r where r: "resolve_all get env rest st = Some r" "res_post rest st r"
        using 1(1) [of st rest] Cons by auto
      then have "res_post ids st r" using old Cons by (auto simp: res_post_def split: sum.splits)
      moreover have "resolve_all get env ids st = Some r"
        using r(1) old unfolding Cons by (subst resolve_all.simps) simp
      ultimately show ?thesis by blast
    next
      case cycle
      then have "resolve_all get env ids st = Some (Inl (cycle_error i))"
        unfolding Cons by (subst resolve_all.simps) simp
      then show ?thesis using cycle cycle_found [of i rest st] 1(2) Cons
        by (auto simp: res_post_def cycle_error_def)
    next
      case error
      then have "\<exists>e. resolve_all get env ids st = Some (Inl e) \<and> (\<forall>m. e \<noteq> cycle_error m)"
        unfolding Cons using get_no_cycle
        by (subst resolve_all.simps) (auto simp: missing_not_cycle [simplified] split: sum.splits option.splits)
      then show ?thesis by (auto simp: res_post_def)
    next
      case new
      have "\<exists>r. resolve_all get env (i # rest) st = Some r \<and> res_post (i # rest) st r"
        by (rule resolve_step [OF _ _ new(3,1,2)]) (use 1 Cons in \<open>auto\<close>)
      then show ?thesis using Cons by simp
    qed
  qed
qed

lemma resolve_memory_sources_post:
  "\<exists>r. resolve_memory_sources get env ids = Some r \<and>
    (case r of
       Inr sources \<Rightarrow>
         based_order bases (rev (map source_memory_id sources)) \<and>
         set (map source_memory_id sources) = based_on\<^sup>* `` set ids
     | Inl e \<Rightarrow> \<forall>m. e = cycle_error m \<longrightarrow> (m, m) \<in> based_on\<^sup>+)"
proof -
  let ?st = "\<lparr> rs_sources = [], rs_resolving = {}, rs_resolved = {} \<rparr>"
  have pre: "res_pre (dict_fromkeys ids) ?st"
    unfolding res_pre_def by (simp add: res_inv_def order_def)
  obtain r where r: "resolve_all get env (dict_fromkeys ids) ?st = Some r"
    "res_post (dict_fromkeys ids) ?st r"
    using resolve_all_post [OF pre] by blast
  show ?thesis
  proof (cases r)
    case (Inl e)
    then show ?thesis using r by (simp add: resolve_memory_sources_def res_post_def)
  next
    case (Inr st')
    then have st': "res_inv st'" "set ids \<subseteq> set (order st')" "set (order st') \<subseteq> based_on\<^sup>* `` set ids"
      using r(2) by (auto simp: res_post_def res_inv_def)
    have "j \<in> set (order st')" if "(i, j) \<in> based_on\<^sup>*" "i \<in> set (order st')" for i j
      using that
    proof (induction rule: rtrancl_induct)
      case (step y z)
      then show ?case
        using based_order_closed [of bases "rev (order st')" y] st'(1) by (auto simp: res_inv_def memory_based_on_def)
    qed
    then have "set (order st') = based_on\<^sup>* `` set ids" using st'(2,3) by blast
    then show ?thesis using r(1) Inr st'(1)
      by (simp add: resolve_memory_sources_def res_inv_def order_def)
  qed
qed

end

section \<open>The store is a catalog\<close>

lemma fs_get_not_cycle: "fst (fs_get now mr i db) \<noteq> Inl (cycle_error j)"
  by (auto simp: fs_get_def memory_node_record_id_def filesystem_memory_from_record_def parse_memory_def
      directory_memory_def checkpoint_memory_def cycle_error_def Let_def
      split: option.splits sum.splits if_splits)

lemma fs_get_node:
  "fst (fs_get now mr i db) = Inr (Some node) \<Longrightarrow> fn_id node = i \<and> i \<in> fmdom' (fd_nodes db)"
  by (auto simp: fs_get_def fmdom'I memory_node_record_id_def filesystem_memory_from_record_def Let_def
      split: option.splits sum.splits if_splits)

interpretation fs_catalog: memory_catalog "\<lambda>i. fst (fs_get now mr i db)" for now mr db
proof
  have "{i. \<exists>node. fst (fs_get now mr i db) = Inr (Some node)} \<subseteq> fmdom' (fd_nodes db)"
    using fs_get_node by blast
  then show "finite {i. \<exists>node. fst (fs_get now mr i db) = Inr (Some node)}"
    by (rule finite_subset) simp
qed (auto dest: fs_get_node simp: fs_get_not_cycle)

section \<open>Property\<close>

text \<open>
  C8. Resolving the memories of a workspace against the filesystem store always returns. On
  success the sources are exactly the requested memories and all they are based on, directly
  or indirectly, each once, and each after every memory it is based on; the error for a
  dependency cycle names a memory that is based on itself.
\<close>

theorem resolve_memory_sources_order:
  "(case resolve_memory_sources (\<lambda>i. fst (fs_get now True i db)) env memory_ids of
      None \<Rightarrow> False
    | Some (Inr sources) \<Rightarrow>
        (let get = (\<lambda>i. fst (fs_get now True i db)); ids = map source_memory_id sources in
         distinct ids \<and> based_order (memory_bases get) (rev ids) \<and>
         set ids = (memory_based_on get)\<^sup>* `` set memory_ids)
    | Some (Inl e) \<Rightarrow>
        (\<nexists>m. e = cycle_error m \<and> (m, m) \<notin> (memory_based_on (\<lambda>i. fst (fs_get now True i db)))\<^sup>+))"
proof -
  obtain r where "resolve_memory_sources (\<lambda>i. fst (fs_get now True i db)) env memory_ids = Some r"
    "case r of
       Inr sources \<Rightarrow>
         based_order (memory_bases (\<lambda>i. fst (fs_get now True i db))) (rev (map source_memory_id sources)) \<and>
         set (map source_memory_id sources) = (memory_based_on (\<lambda>i. fst (fs_get now True i db)))\<^sup>* `` set memory_ids
     | Inl e \<Rightarrow> \<forall>m. e = cycle_error m \<longrightarrow> (m, m) \<in> (memory_based_on (\<lambda>i. fst (fs_get now True i db)))\<^sup>+"
    using fs_catalog.resolve_memory_sources_post [of now True db env memory_ids] by blast
  then show ?thesis
    using based_order_distinct [of _ "rev (map source_memory_id _)"]
    by (auto simp: Let_def simp del: set_map split: sum.splits)
qed

end
