(* ===== verification/WsService.thy ===== *)
theory WsService
  imports WsProtocol Planning
begin

text \<open>
  The host side of the workspace daemon: the retry policy of \<open>workspace/service.py\<close> and the
  typed operations of \<open>client_operations.py\<close>. What the connection does on an attempt, the
  JSON printer, the random part of an idempotency key and the daemon's recent output are
  arguments.
\<close>

section \<open>Requests and retries\<close>

text \<open>What one attempt meets, in the order the attempt meets it.\<close>

datatype attempt =
    Connect_failed string
  | Connect_os_error
  | Write_failed string
  | Read_failed string
  | Io_os_error
  | Bad_frame string
  | Invalid_envelope
  | Answer workspace_response

record daemon_client =
  dc_connected :: bool
  dc_request_number :: nat
  dc_sent :: "byte list list"

definition sends :: "attempt \<Rightarrow> bool" where
  "sends a = (case a of Connect_failed _ \<Rightarrow> False | Connect_os_error \<Rightarrow> False | _ \<Rightarrow> True)"

text \<open>A transport failure is retried; any other outcome ends the request.\<close>

definition attempt_result ::
  "workspace_operation \<Rightarrow> string \<Rightarrow> attempt \<Rightarrow> py_error + (py_error + json)" where
  "attempt_result oper request_id a =
     (case a of
        Connect_failed m \<Rightarrow> Inl (WorkspaceTransportError m)
      | Connect_os_error \<Rightarrow> Inl (WorkspaceTransportError ''workspace daemon transport failed'')
      | Write_failed m \<Rightarrow> Inl (WorkspaceTransportError m)
      | Read_failed m \<Rightarrow> Inl (WorkspaceTransportError m)
      | Io_os_error \<Rightarrow> Inl (WorkspaceTransportError ''workspace daemon transport failed'')
      | Bad_frame m \<Rightarrow> Inr (Inl (WorkspaceError m))
      | Invalid_envelope \<Rightarrow>
          Inr (Inl (WorkspaceError (''workspace '' @ operation_value oper @
                      '' returned an invalid response envelope'')))
      | Answer r \<Rightarrow>
          Inr (if \<not> validate_outcome r then
                 Inl (WorkspaceError (''workspace '' @ operation_value oper @
                        '' returned an invalid response envelope''))
               else if wr_request_id r \<noteq> request_id then
                 Inl (WorkspaceError ''workspace response request id did not match'')
               else if \<not> wr_ok r then
                 (case wr_error r of
                    None \<Rightarrow> Inl AssertionError
                  | Some e \<Rightarrow> Inl (WorkspaceRemoteError (pe_code e) (pe_message e)))
               else Inr (wr_result r)))"

text \<open>The loop over the attempts; \<open>outcomes k\<close> is what the attempt after \<open>k\<close> others meets.\<close>

fun request_loop ::
  "workspace_operation \<Rightarrow> string \<Rightarrow> byte list \<Rightarrow> nat \<Rightarrow> py_error \<Rightarrow> (nat \<Rightarrow> attempt) \<Rightarrow> daemon_client \<Rightarrow>
   (py_error + (py_error + json)) \<times> daemon_client" where
  "request_loop oper request_id frame 0 last_error outcomes d = (Inl last_error, d)"
| "request_loop oper request_id frame (Suc n) last_error outcomes d =
     (let d1 = d\<lparr> dc_connected := False,
                 dc_sent := dc_sent d @ (if sends (outcomes 0) then [frame] else []) \<rparr>
      in case attempt_result oper request_id (outcomes 0) of
           Inr r \<Rightarrow> (Inr r, d1)
         | Inl e \<Rightarrow> request_loop oper request_id frame n e (\<lambda>k. outcomes (Suc k)) d1)"

definition request_attempts :: "workspace_operation \<Rightarrow> nat" where
  "request_attempts oper = (if om_scope (metadata_of oper) = Process_local then 1 else 2)"

definition idempotency_key_for :: "string \<Rightarrow> workspace_operation \<Rightarrow> string option" where
  "idempotency_key_for uuid oper =
     (if om_mutates (metadata_of oper) then Some (operation_value oper @ ''-'' @ uuid) else None)"

definition workspace_request ::
  "(json \<Rightarrow> byte list) \<Rightarrow> string \<Rightarrow> string \<Rightarrow> workspace_operation \<Rightarrow> (string \<times> json) list \<Rightarrow>
   (nat \<Rightarrow> attempt) \<Rightarrow> daemon_client \<Rightarrow> (py_error + json) \<times> daemon_client" where
  "workspace_request dumps uuid diagnostics oper arguments outcomes d0 =
     (let d = d0\<lparr> dc_request_number := dc_request_number d0 + 1 \<rparr>;
          request_id = ''host-'' @ py_str_nat (dc_request_number d);
          payload = request_payload oper request_id (idempotency_key_for uuid oper) arguments
      in case encode_frame dumps (JObj payload) of
           Inl e \<Rightarrow> (Inl e, d)
         | Inr frame \<Rightarrow>
             (case request_loop oper request_id frame (request_attempts oper) AssertionError outcomes d of
                (Inr r, d1) \<Rightarrow> (r, d1)
              | (Inl last_error, d1) \<Rightarrow>
                  (Inl (if om_scope (metadata_of oper) = Process_local then
                          WorkspaceOutcomeUnknownError
                            (''workspace '' @ operation_value oper @
                             '' transport failed; its outcome is unknown and the process-local mutation was not retried because the daemon may have restarted'' @
                             (if diagnostics \<noteq> [] then ''; recent daemon output:'' @ CHR 0x0A # diagnostics else []))
                        else if diagnostics \<noteq> [] then
                          (case last_error of
                             WorkspaceTransportError m \<Rightarrow>
                               WorkspaceTransportError (m @ ''; recent daemon output:'' @ CHR 0x0A # diagnostics)
                           | e \<Rightarrow> e)
                        else last_error),
                   d1)))"

section \<open>Typed operations\<close>

datatype typed_call =
    Hello
  | Health
  | Create_workspace string "string option" "memory_source list" "string list"
  | Apply_policy string "string list"
  | Mount_workspace string
  | Prefetch string "string list"
  | Get_change_journal string
  | Get_workspace_status string
  | List_workspaces bool
  | Read_file_summary string string "int option"
  | Commit_checkpoint string "string list" bool
  | List_pending_checkpoint_publications
  | Complete_checkpoint_publication string string
  | Unmount_workspace string
  | Close_workspace string
  | Destroy_ephemeral_workspace string
  | Shutdown

definition jstrs :: "string list \<Rightarrow> json" where
  "jstrs xs = JList (map JStr xs)"

definition jopt :: "('a \<Rightarrow> json) \<Rightarrow> 'a option \<Rightarrow> json" where
  "jopt f x = (case x of None \<Rightarrow> JNull | Some y \<Rightarrow> f y)"

fun source_json :: "memory_source \<Rightarrow> json" where
  "source_json (Directory_source i path) =
     JObj [(''memory_id'', JStr i), (''source_kind'', JStr ''directory''), (''source_path'', JStr path)]"
| "source_json (Checkpoint_source i store manifest) =
     JObj [(''memory_id'', JStr i), (''source_kind'', JStr ''checkpoint''),
           (''backing_store'', JStr store), (''manifest_id'', JStr manifest)]"

fun typed_request :: "typed_call \<Rightarrow> workspace_operation \<times> (string \<times> json) list" where
  "typed_request Hello = (HELLO, [])"
| "typed_request Health = (HEALTH, [])"
| "typed_request (Create_workspace name session_id sources scratch) =
     (CREATE_WORKSPACE,
      [(''name'', JStr name), (''session_id'', jopt JStr session_id),
       (''memory_sources'', JList (map source_json sources)), (''scratch_paths'', jstrs scratch)])"
| "typed_request (Apply_policy session_id scratch) =
     (APPLY_POLICY, [(''session_id'', JStr session_id), (''scratch_paths'', jstrs scratch)])"
| "typed_request (Mount_workspace session_id) = (MOUNT_WORKSPACE, [(''session_id'', JStr session_id)])"
| "typed_request (Prefetch session_id paths) =
     (PREFETCH, [(''session_id'', JStr session_id), (''paths'', jstrs paths)])"
| "typed_request (Get_change_journal session_id) = (GET_CHANGE_JOURNAL, [(''session_id'', JStr session_id)])"
| "typed_request (Get_workspace_status session_id) = (GET_WORKSPACE_STATUS, [(''session_id'', JStr session_id)])"
| "typed_request (List_workspaces active_only) = (LIST_WORKSPACES, [(''active_only'', JBool active_only)])"
| "typed_request (Read_file_summary session_id path max_bytes) =
     (READ_FILE_SUMMARY,
      [(''session_id'', JStr session_id), (''path'', JStr path), (''max_bytes'', jopt JInt max_bytes)])"
| "typed_request (Commit_checkpoint session_id paths retain_all) =
     (COMMIT_CHECKPOINT,
      [(''session_id'', JStr session_id), (''paths'', jstrs paths), (''all'', JBool retain_all)])"
| "typed_request List_pending_checkpoint_publications = (LIST_PENDING_CHECKPOINT_PUBLICATIONS, [])"
| "typed_request (Complete_checkpoint_publication manifest_id memory_id) =
     (COMPLETE_CHECKPOINT_PUBLICATION, [(''manifest_id'', JStr manifest_id), (''memory_id'', JStr memory_id)])"
| "typed_request (Unmount_workspace session_id) = (UNMOUNT_WORKSPACE, [(''session_id'', JStr session_id)])"
| "typed_request (Close_workspace session_id) = (CLOSE_WORKSPACE, [(''session_id'', JStr session_id)])"
| "typed_request (Destroy_ephemeral_workspace session_id) =
     (DESTROY_EPHEMERAL_WORKSPACE, [(''session_id'', JStr session_id)])"
| "typed_request Shutdown = (SHUTDOWN, [])"

section \<open>Lemmas on requests\<close>

lemma attempt_result_transport:
  "attempt_result oper i a = Inl e \<Longrightarrow> \<exists>m. e = WorkspaceTransportError m"
  by (cases a) (auto simp: attempt_result_def)

lemma attempt_result_value:
  "attempt_result oper i a = Inr (Inr v) \<Longrightarrow>
   \<exists>r. a = Answer r \<and> wr_ok r \<and> wr_request_id r = i \<and> wr_result r = v"
  by (cases a) (auto simp: attempt_result_def split: if_splits option.splits)

lemma attempt_result_not_unknown:
  "attempt_result oper i a = Inr (Inl e) \<Longrightarrow> e \<noteq> WorkspaceOutcomeUnknownError m"
  by (cases a) (auto simp: attempt_result_def split: if_splits option.splits)

lemma request_loop_spec:
  "request_loop oper i frame n le outcomes d = (r, d') \<Longrightarrow>
   (\<exists>k \<le> n. dc_sent d' = dc_sent d @ replicate k frame) \<and>
   dc_request_number d' = dc_request_number d \<and>
   (case r of
      Inl e \<Rightarrow> (\<forall>j < n. \<exists>m. attempt_result oper i (outcomes j) = Inl m) \<and>
               (n = 0 \<longrightarrow> e = le) \<and> (0 < n \<longrightarrow> (\<exists>m. e = WorkspaceTransportError m))
    | Inr v \<Rightarrow> \<exists>j < n. attempt_result oper i (outcomes j) = Inr v \<and>
               (\<forall>k < j. \<exists>m. attempt_result oper i (outcomes k) = Inl m))"
proof (induction n arbitrary: le outcomes d)
  case 0
  then show ?case by auto
next
  case (Suc n)
  define d1 where "d1 = d\<lparr> dc_connected := False,
      dc_sent := dc_sent d @ (if sends (outcomes 0) then [frame] else []) \<rparr>"
  show ?case
  proof (cases "attempt_result oper i (outcomes 0)")
    case (Inr v)
    then have "r = Inr v" "d' = d1" using Suc.prems by (auto simp: d1_def Let_def)
    moreover have "\<exists>k \<le> Suc n. dc_sent d1 = dc_sent d @ replicate k frame"
      by (rule exI [of _ "if sends (outcomes 0) then 1 else 0"]) (simp add: d1_def)
    ultimately show ?thesis using Inr by (auto simp: d1_def intro!: exI [of _ 0])
  next
    case (Inl e)
    then have loop: "request_loop oper i frame n e (\<lambda>k. outcomes (Suc k)) d1 = (r, d')"
      using Suc.prems by (simp add: d1_def Let_def)
    note IH = Suc.IH [OF loop]
    then obtain k where k: "k \<le> n" "dc_sent d' = dc_sent d1 @ replicate k frame" by blast
    have "\<exists>k \<le> Suc n. dc_sent d' = dc_sent d @ replicate k frame"
      by (rule exI [of _ "if sends (outcomes 0) then Suc k else k"]) (use k in \<open>simp add: d1_def\<close>)
    moreover have "dc_request_number d' = dc_request_number d" using IH by (simp add: d1_def)
    moreover have "case r of
        Inl e \<Rightarrow> (\<forall>j < Suc n. \<exists>m. attempt_result oper i (outcomes j) = Inl m) \<and>
                 (\<exists>m. e = WorkspaceTransportError m)
      | Inr v \<Rightarrow> \<exists>j < Suc n. attempt_result oper i (outcomes j) = Inr v \<and>
                 (\<forall>k < j. \<exists>m. attempt_result oper i (outcomes k) = Inl m)"
    proof (cases r)
      case r: (Inl x)
      have "\<exists>m. attempt_result oper i (outcomes j) = Inl m" if "j < Suc n" for j
        using that IH Inl r by (cases j) auto
      moreover have "\<exists>m. x = WorkspaceTransportError m"
        using IH r attempt_result_transport [OF Inl] by (cases n) auto
      ultimately show ?thesis using r by simp
    next
      case r: (Inr v)
      then obtain j where j: "j < n" "attempt_result oper i (outcomes (Suc j)) = Inr v"
        "\<forall>k < j. \<exists>m. attempt_result oper i (outcomes (Suc k)) = Inl m" using IH by auto
      have "\<exists>m. attempt_result oper i (outcomes k) = Inl m" if "k < Suc j" for k
        using that j(3) Inl by (cases k) auto
      then show ?thesis using r j(1,2) by auto
    qed
    ultimately show ?thesis by (auto split: sum.splits)
  qed
qed

lemma map_of_foldl_other:
  "k \<notin> fst ` set args \<Longrightarrow> map_of (foldl (\<lambda>d (k, v). AList.update k v d) d0 args) k = map_of d0 k"
  by (induction args arbitrary: d0) (auto simp: update_conv')

lemma typed_request_keys:
  "fst ` set (snd (typed_request call)) \<inter> {''request_id'', ''operation'', ''idempotency_key''} = {}"
  by (cases call) auto

section \<open>Properties of requests\<close>

lemma loop_sends:
  assumes "request_loop oper i frame (request_attempts oper) le outcomes d = (r, d')"
  shows "\<exists>k. dc_sent d' = dc_sent d @ replicate k frame \<and>
    k \<le> (if om_scope (metadata_of oper) = Process_local then 1 else 2)"
  using request_loop_spec [OF assms] by (auto simp: request_attempts_def split: if_splits)

lemma loop_answer:
  assumes "request_loop oper i frame (request_attempts oper) le outcomes d = (Inr v, d')"
  shows "case v of
      Inr x \<Rightarrow> \<exists>j r. outcomes j = Answer r \<and> wr_ok r \<and> wr_result r = x \<and> wr_request_id r = i \<and>
        (j = 0 \<or> (j = 1 \<and> (\<exists>e. attempt_result oper (wr_request_id r) (outcomes 0) = Inl e)))
    | Inl e \<Rightarrow> \<forall>m. e \<noteq> WorkspaceOutcomeUnknownError m"
proof -
  obtain j where j: "j < request_attempts oper" "attempt_result oper i (outcomes j) = Inr v"
    "\<forall>k < j. \<exists>m. attempt_result oper i (outcomes k) = Inl m" using request_loop_spec [OF assms] by auto
  have j01: "j = 0 \<or> j = 1" using j(1) by (auto simp: request_attempts_def split: if_splits)
  show ?thesis
  proof (cases v)
    case (Inr x)
    obtain a where a: "outcomes j = Answer a" "wr_ok a" "wr_request_id a = i" "wr_result a = x"
      using attempt_result_value j(2) Inr by blast
    have "j = 0 \<or> j = 1 \<and> (\<exists>e. attempt_result oper (wr_request_id a) (outcomes 0) = Inl e)" using j01 j(3) a(3) by auto
    then show ?thesis using a unfolding Inr sum.case by (intro exI [of _ j] exI [of _ a] conjI) assumption+
  next
    case (Inl e)
    then show ?thesis using attempt_result_not_unknown j(2) by auto
  qed
qed

lemma loop_failure:
  assumes "request_loop oper i frame (request_attempts oper) le outcomes d = (Inl e, d')"
  shows "\<exists>m. attempt_result oper i (outcomes 0) = Inl m" "\<exists>m. e = WorkspaceTransportError m"
  using request_loop_spec [OF assms] by (auto simp: request_attempts_def split: if_splits)

text \<open>
  C3. One request sends one frame, byte for byte the same on every attempt (so with one request
  id and one idempotency key), the encoding of the request's envelope, at most twice, and at most once when the operation is a
  process-local mutation. A value is returned only from an answer to this request that
  reports success, after nothing but transport failures; and an unknown outcome is reported
  only when a process-local mutation's only attempt met a transport failure.
\<close>

theorem workspace_request_policy:
  "(case workspace_request dumps uuid diagnostics oper arguments outcomes d of
      (result, d') \<Rightarrow>
        dc_request_number d' = dc_request_number d + 1 \<and>
        (\<exists>frame k. dc_sent d' = dc_sent d @ replicate k frame \<and>
           (k = 0 \<or> encode_frame dumps (JObj (request_payload oper (''host-'' @ py_str_nat (dc_request_number d + 1))
                       (idempotency_key_for uuid oper) arguments)) = Inr frame) \<and>
           k \<le> (if om_scope (metadata_of oper) = Process_local then 1 else 2)) \<and>
        (case result of
           Inr v \<Rightarrow> (\<exists>j r. outcomes j = Answer r \<and> wr_ok r \<and> wr_result r = v \<and>
                       wr_request_id r = ''host-'' @ py_str_nat (dc_request_number d + 1) \<and>
                       (j = 0 \<or> (j = 1 \<and> (\<exists>e. attempt_result oper (wr_request_id r) (outcomes 0) = Inl e))))
         | Inl (WorkspaceOutcomeUnknownError m) \<Rightarrow>
             om_scope (metadata_of oper) = Process_local \<and>
             (\<exists>e. attempt_result oper (''host-'' @ py_str_nat (dc_request_number d + 1)) (outcomes 0) = Inl e)
         | Inl _ \<Rightarrow> True))"
proof -
  let ?d = "d\<lparr> dc_request_number := dc_request_number d + 1 \<rparr>"
  let ?i = "''host-'' @ py_str_nat (dc_request_number d + 1)"
  let ?payload = "request_payload oper ?i (idempotency_key_for uuid oper) arguments"
  show ?thesis
  proof (cases "encode_frame dumps (JObj ?payload)")
    case (Inl e)
    then have "workspace_request dumps uuid diagnostics oper arguments outcomes d = (Inl e, ?d)"
      by (simp add: workspace_request_def Let_def)
    moreover have "\<exists>m. e = WorkspaceError m" using Inl by (auto simp: encode_frame_def Let_def split: if_splits)
    ultimately show ?thesis by (auto intro!: exI [of _ "0 :: nat"])
  next
    case (Inr frame)
    obtain r d1 where l: "request_loop oper ?i frame (request_attempts oper) AssertionError outcomes ?d = (r, d1)" by fastforce
    have num: "dc_request_number d1 = dc_request_number d + 1" using request_loop_spec [OF l] by simp
    have "dc_sent ?d = dc_sent d" by simp
    then have sent: "\<exists>frame k. dc_sent d1 = dc_sent d @ replicate k frame \<and>
        (k = 0 \<or> encode_frame dumps (JObj ?payload) = Inr frame) \<and>
        k \<le> (if om_scope (metadata_of oper) = Process_local then 1 else 2)"
      using loop_sends [OF l] Inr by metis
    show ?thesis
    proof (cases r)
      case r: (Inr v)
      then have w: "workspace_request dumps uuid diagnostics oper arguments outcomes d = (v, d1)"
        using Inr l by (simp add: workspace_request_def Let_def)
      show ?thesis using loop_answer [OF l [unfolded r]] sent num
        unfolding w prod.case by (auto split: sum.splits py_error.splits)
    next
      case r: (Inl e)
      obtain m where e: "e = WorkspaceTransportError m" using loop_failure(2) [OF l [unfolded r]] by blast
      have "\<exists>e'. workspace_request dumps uuid diagnostics oper arguments outcomes d = (Inl e', d1) \<and>
          (om_scope (metadata_of oper) = Process_local \<or> (\<exists>m. e' = WorkspaceTransportError m))"
        using Inr l r e by (simp add: workspace_request_def Let_def)
      then show ?thesis using sent num loop_failure(1) [OF l [unfolded r]] by (auto split: py_error.splits)
    qed
  qed
qed

text \<open>
  The envelope of a typed operation cannot be overwritten by its arguments: the payload
  carries the request id, the operation's name and, exactly for mutations, the idempotency key.
\<close>

lemma typed_request_envelope:
  "(case typed_request call of (oper, arguments) \<Rightarrow>
      (let payload = request_payload oper i (idempotency_key_for uuid oper) arguments in
       map_of payload ''request_id'' = Some (JStr i) \<and>
       map_of payload ''operation'' = Some (JStr (operation_value oper)) \<and>
       map_of payload ''idempotency_key'' =
         (if om_mutates (metadata_of oper) then Some (JStr (operation_value oper @ ''-'' @ uuid)) else None)))"
proof -
  obtain oper args where c: "typed_request call = (oper, args)" by fastforce
  have "''request_id'' \<notin> fst ` set args" "''operation'' \<notin> fst ` set args" "''idempotency_key'' \<notin> fst ` set args"
    using typed_request_keys [of call] c by auto
  then show ?thesis
    using c by (simp add: request_payload_def idempotency_key_for_def Let_def update_conv' map_of_foldl_other
        split: option.split)
qed

end
