(* ===== verification/Coordinator.thy ===== *)
theory Coordinator
  imports WsService
begin

text \<open>
  \<open>workspace/publication_service.py\<close> (the daemon's outbox of checkpoints is reconciled into the
  graph memory), \<open>workspace/coordinator.py\<close> and \<open>workspace/execution.py\<close> (sessions are created,
  continued, prefetched, and commands are run in a mounted session). The daemon's answers and
  the faults of the database are arguments; the graph memory is the store of \<open>FsMemory\<close>.
\<close>

section \<open>Publishing checkpoints\<close>

record checkpoint_publication =
  cp_session_id :: string
  cp_session_name :: string
  cp_backing_store :: string
  cp_manifest_id :: string
  cp_base_memory_ids :: "string list"
  cp_retained_count :: "int option"

record pending_publication =
  pp_manifest_id :: string
  pp_session_id :: string
  pp_session_name :: string
  pp_base_memory_ids :: "string list"
  pp_retained_count :: int

definition publication_description :: "int option \<Rightarrow> string" where
  "publication_description retained_count =
     ''Immutable session checkpoint containing '' @
     (case retained_count of None \<Rightarrow> ''selected files'' | Some n \<Rightarrow> py_str_int n @ '' retained files'')"

text \<open>
  What a publication depends on: the digest and the canonical path, the clock, the daemon's
  store, whether the database could be opened, whether it failed after the publication was
  committed (reading the memory back or closing), and the daemon's answer to the completion.
\<close>

record publish_env =
  pu_digest :: "string \<Rightarrow> string"
  pu_canonical :: "string \<Rightarrow> string"
  pu_now :: int
  pu_store :: string
  pu_database_error :: "string \<Rightarrow> py_error option"
  pu_close_error :: "string \<Rightarrow> py_error option"
  pu_complete :: "string \<Rightarrow> string \<Rightarrow> py_error + unit"

definition checkpoint_of :: "checkpoint_publication \<Rightarrow> py_error + fs_memory" where
  "checkpoint_of p =
     checkpoint_memory
       \<lparr> fm_title = cp_session_name p @ '' checkpoint'',
         fm_description = publication_description (cp_retained_count p),
         fm_base_memory_ids = cp_base_memory_ids p \<rparr>
       (cp_backing_store p) (cp_manifest_id p)"

definition publish_graph ::
  "publish_env \<Rightarrow> checkpoint_publication \<Rightarrow> fs_database \<Rightarrow> (py_error + fs_node) \<times> fs_database" where
  "publish_graph env p db =
     (case checkpoint_of p of
        Inl e \<Rightarrow> (Inl e, db)
      | Inr m \<Rightarrow>
          (case pu_database_error env (cp_manifest_id p) of
             Some e \<Rightarrow> (Inl e, db)
           | None \<Rightarrow>
               let (r, db1) = publish_memory (pu_digest env) (pu_canonical env) (pu_now env) m
                                [''workspace'', ''checkpoint'', ''session-filesystem''] db in
               (case pu_close_error env (cp_manifest_id p) of
                  Some e \<Rightarrow> Inl e
                | None \<Rightarrow> r, db1)))"

text \<open>
  The state of the two sides: the graph, and what the daemon was told is published. A completion
  counts as told once the call is made, also when its answer is an error: the daemon may have
  applied it.
\<close>

record publisher =
  ps_graph :: fs_database
  ps_completed :: "(string \<times> string) list"

definition outbox_checkpoint :: "publish_env \<Rightarrow> pending_publication \<Rightarrow> checkpoint_publication" where
  "outbox_checkpoint env p =
     \<lparr> cp_session_id = pp_session_id p, cp_session_name = pp_session_name p,
       cp_backing_store = pu_store env, cp_manifest_id = pp_manifest_id p,
       cp_base_memory_ids = pp_base_memory_ids p, cp_retained_count = Some (pp_retained_count p) \<rparr>"

definition publish_outbox ::
  "publish_env \<Rightarrow> pending_publication \<Rightarrow> publisher \<Rightarrow> (py_error + fs_node) \<times> publisher" where
  "publish_outbox env p s =
     (case publish_graph env (outbox_checkpoint env p) (ps_graph s) of
        (Inl e, db) \<Rightarrow> (Inl e, s\<lparr> ps_graph := db \<rparr>)
      | (Inr node, db) \<Rightarrow>
          (case pu_complete env (pp_manifest_id p) (fn_id node) of Inl e \<Rightarrow> Inl e | Inr _ \<Rightarrow> Inr node,
           s\<lparr> ps_graph := db, ps_completed := ps_completed s @ [(pp_manifest_id p, fn_id node)] \<rparr>))"

definition publish_manifest ::
  "publish_env \<Rightarrow> (py_error + pending_publication list) \<Rightarrow> string \<Rightarrow> publisher \<Rightarrow>
   (py_error + fs_node) \<times> publisher" where
  "publish_manifest env outbox manifest_id s =
     (case outbox of
        Inl e \<Rightarrow> (Inl e, s)
      | Inr publications \<Rightarrow>
          (case find (\<lambda>p. pp_manifest_id p = manifest_id) publications of
             None \<Rightarrow> (Inl (WorkspaceError (''checkpoint publication outbox is missing manifest '' @ manifest_id)), s)
           | Some p \<Rightarrow> publish_outbox env p s))"

fun reconcile_loop ::
  "publish_env \<Rightarrow> bool \<Rightarrow> pending_publication list \<Rightarrow> nat \<Rightarrow> publisher \<Rightarrow> (py_error + nat) \<times> publisher" where
  "reconcile_loop env strict [] published s = (Inr published, s)"
| "reconcile_loop env strict (p # ps) published s =
     (case publish_outbox env p s of
        (Inr node, s1) \<Rightarrow> reconcile_loop env strict ps (published + 1) s1
      | (Inl e, s1) \<Rightarrow>
          if \<not> is_exception e then (Inl e, s1)
          else if strict
          then (Inl (WorkspaceError (''publish pending checkpoint '' @ pp_manifest_id p @ '': '' @ error_text e)), s1)
          else reconcile_loop env strict ps published s1)"

definition reconcile ::
  "publish_env \<Rightarrow> bool \<Rightarrow> (py_error + pending_publication list) \<Rightarrow> publisher \<Rightarrow>
   (py_error + nat) \<times> publisher" where
  "reconcile env strict outbox s =
     (case outbox of
        Inl e \<Rightarrow>
          (if \<not> is_exception e then Inl e
           else if strict then Inl (WorkspaceError (''read checkpoint publication outbox: '' @ error_text e))
           else Inr 0, s)
      | Inr publications \<Rightarrow> reconcile_loop env strict publications 0 s)"

section \<open>Sessions\<close>

datatype session_state = Active | Closed

record workspace_summary =
  ws_session_id :: string
  ws_name :: string
  ws_state :: session_state
  ws_head_manifest :: "string option"
  ws_memory_ids :: "string list"

datatype change_kind = Create_change | Write_change | Delete_change

record workspace_change =
  wc_path :: string
  wc_kind :: change_kind
  wc_size :: "int option"

record workspace_status =
  st_session_id :: string
  st_name :: string
  st_state :: session_state
  st_worktree :: string
  st_head_manifest :: "string option"
  st_memory_ids :: "string list"
  st_changes :: "workspace_change list"

record checkpoint_result =
  cr_session_id :: string
  cr_manifest_id :: string
  cr_retained_paths :: "string list"
  cr_remaining_changes :: "workspace_change list"

record published_checkpoint_result = checkpoint_result +
  cr_memory_id :: string

datatype daemon_call =
    Call_create "memory_source list" "string list"
  | Call_mount string
  | Call_prefetch string "string list"
  | Call_unmount string
  | Call_run string "string list"
  | Call_close string
  | Call_destroy string
  | Call_commit string "string list" bool

record coordinator_env =
  ce_summaries :: "py_error + workspace_summary list"
  ce_resolve_plan :: "string list \<Rightarrow> py_error + resolved_plan"
  ce_publish_external :: "checkpoint_publication \<Rightarrow> py_error + string"
  ce_store :: string
  ce_create :: "memory_source list \<Rightarrow> string list \<Rightarrow> py_error + string"
  ce_mount :: "string \<Rightarrow> py_error + unit"
  ce_prefetch :: "string \<Rightarrow> py_error + unit"
  ce_unmount :: "string \<Rightarrow> py_error + unit"
  ce_run :: "string \<Rightarrow> string list \<Rightarrow> py_error + int"
  ce_close :: "string \<Rightarrow> py_error + unit"
  ce_destroy :: "string \<Rightarrow> py_error + unit"
  ce_status :: "string \<Rightarrow> py_error + workspace_status"
  ce_checkpoint_selection :: "string list \<Rightarrow> py_error + string list"
  ce_commit :: "string \<Rightarrow> string list \<Rightarrow> bool \<Rightarrow> py_error + checkpoint_result"

definition latest_summary :: "coordinator_env \<Rightarrow> bool \<Rightarrow> py_error + workspace_summary" where
  "latest_summary env require_active =
     (case ce_summaries env of
        Inl e \<Rightarrow> Inl e
      | Inr [] \<Rightarrow> Inl (WorkspaceError ''no workspace session exists'')
      | Inr (latest # rest) \<Rightarrow>
          if require_active \<and> ws_state latest \<noteq> Active
          then Inl (WorkspaceError (''latest workspace session is closed: '' @ ws_session_id latest @
                      ''; create a new session''))
          else Inr latest)"

definition summary_for :: "coordinator_env \<Rightarrow> string \<Rightarrow> py_error + workspace_summary" where
  "summary_for env session_id =
     (case ce_summaries env of
        Inl e \<Rightarrow> Inl e
      | Inr summaries \<Rightarrow>
          (case find (\<lambda>s. ws_session_id s = session_id) summaries of
             None \<Rightarrow> Inl (WorkspaceError (''workspace session does not exist: '' @ session_id))
           | Some s \<Rightarrow> Inr s))"

definition select_session :: "coordinator_env \<Rightarrow> string option \<Rightarrow> bool \<Rightarrow> py_error + string" where
  "select_session env requested require_active =
     (case requested of
        Some session_id \<Rightarrow> Inr session_id
      | None \<Rightarrow> map_sum id ws_session_id (latest_summary env require_active))"

definition continue_target :: "coordinator_env \<Rightarrow> string option \<Rightarrow> py_error + string list" where
  "continue_target env requested =
     (case requested of
        None \<Rightarrow> Inr []
      | Some r \<Rightarrow>
          (case (if r = ''latest'' then latest_summary env False else summary_for env r) of
             Inl e \<Rightarrow> Inl e
           | Inr summary \<Rightarrow>
               (case ws_head_manifest summary of
                  None \<Rightarrow> Inl (WorkspaceError (''session has no checkpoint to continue: '' @ ws_session_id summary))
                | Some manifest \<Rightarrow>
                    (case ce_publish_external env
                       \<lparr> cp_session_id = ws_session_id summary, cp_session_name = ws_name summary,
                         cp_backing_store = ce_store env, cp_manifest_id = manifest,
                         cp_base_memory_ids = ws_memory_ids summary, cp_retained_count = None \<rparr> of
                       Inl e \<Rightarrow> Inl e
                     | Inr memory_id \<Rightarrow> Inr [memory_id]))))"

text \<open>\<open>_prefetch_session\<close>: the \<open>finally\<close> clause unmounts whatever the prefetch did.\<close>

definition prefetch_session ::
  "coordinator_env \<Rightarrow> string \<Rightarrow> string list \<Rightarrow> (py_error + unit) \<times> daemon_call list" where
  "prefetch_session env session_id paths =
     (case ce_mount env session_id of
        Inl e \<Rightarrow> (Inl e, [Call_mount session_id])
      | Inr _ \<Rightarrow>
          (case ce_unmount env session_id of
             Inl e \<Rightarrow> Inl e
           | Inr _ \<Rightarrow> ce_prefetch env session_id,
           [Call_mount session_id, Call_prefetch session_id paths, Call_unmount session_id]))"

definition prefetch_failure :: "string \<Rightarrow> py_error \<Rightarrow> py_error" where
  "prefetch_failure session_id e =
     (if is_exception e
      then WorkspaceError (''workspace session '' @ session_id @
        '' was durably created, but its prefetch lifecycle failed; it remains active and recoverable: '' @
        error_text e)
      else e)"

definition create_session ::
  "coordinator_env \<Rightarrow> string list \<Rightarrow> string option \<Rightarrow> (py_error + string) \<times> daemon_call list" where
  "create_session env memory_ids continue_session =
     (if memory_ids \<noteq> [] \<and> continue_session \<noteq> None
      then (Inl (WorkspaceError ''--memory cannot be combined with --continue''), [])
      else
        case continue_target env continue_session of
          Inl e \<Rightarrow> (Inl e, [])
        | Inr inherited \<Rightarrow>
            (case ce_resolve_plan env (if memory_ids \<noteq> [] then memory_ids else inherited) of
               Inl e \<Rightarrow> (Inl e, [])
             | Inr plan \<Rightarrow>
                 let call = Call_create (rp_memory_sources plan) (rp_scratch_paths plan) in
                 (case ce_create env (rp_memory_sources plan) (rp_scratch_paths plan) of
                    Inl e \<Rightarrow> (Inl e, [call])
                  | Inr session_id \<Rightarrow>
                      if rp_prefetch_paths plan = [] then (Inr session_id, [call])
                      else
                        let (r, calls) = prefetch_session env session_id (rp_prefetch_paths plan) in
                        (case r of
                           Inl e \<Rightarrow> Inl (prefetch_failure session_id e)
                         | Inr _ \<Rightarrow> Inr session_id,
                         call # calls))))"

definition close_session ::
  "coordinator_env \<Rightarrow> string option \<Rightarrow> (py_error + unit) \<times> daemon_call list" where
  "close_session env requested =
     (case select_session env requested True of
        Inl e \<Rightarrow> (Inl e, [])
      | Inr session_id \<Rightarrow> (ce_close env session_id, [Call_close session_id]))"

definition destroy_session ::
  "coordinator_env \<Rightarrow> string option \<Rightarrow> (py_error + unit) \<times> daemon_call list" where
  "destroy_session env requested =
     (case select_session env requested False of
        Inl e \<Rightarrow> (Inl e, [])
      | Inr session_id \<Rightarrow> (ce_destroy env session_id, [Call_destroy session_id]))"

definition exec_requires_command :: string where
  "exec_requires_command = ''workspace session exec requires a command after '' @ CHR 0x27 # ''--'' @ [CHR 0x27]"

text \<open>\<open>run_in_workspace\<close>: the command's status, or the error of the unmount.\<close>

definition run_in_workspace ::
  "coordinator_env \<Rightarrow> string \<Rightarrow> string list \<Rightarrow> (py_error + int) \<times> daemon_call list" where
  "run_in_workspace env session_id command =
     (if command = [] then (Inl (WorkspaceError exec_requires_command), [])
      else
        case ce_mount env session_id of
          Inl e \<Rightarrow> (Inl e, [Call_mount session_id])
        | Inr _ \<Rightarrow>
            (case ce_unmount env session_id of
               Inl e \<Rightarrow> Inl e
             | Inr _ \<Rightarrow> ce_run env session_id command,
             [Call_mount session_id, Call_run session_id command, Call_unmount session_id]))"

definition run_command ::
  "coordinator_env \<Rightarrow> string option \<Rightarrow> string list \<Rightarrow> (py_error + int) \<times> daemon_call list" where
  "run_command env requested command =
     (case select_session env requested True of
        Inl e \<Rightarrow> (Inl e, [])
      | Inr session_id \<Rightarrow> run_in_workspace env session_id command)"

definition status ::
  "coordinator_env \<Rightarrow> string option \<Rightarrow> py_error + workspace_status" where
  "status env requested =
     (case select_session env requested False of
        Inl e \<Rightarrow> Inl e
      | Inr session_id \<Rightarrow> ce_status env session_id)"

definition publication_pending :: "string \<Rightarrow> py_error \<Rightarrow> py_error" where
  "publication_pending manifest_id e =
     (if is_exception e
      then WorkspaceError (''checkpoint '' @ manifest_id @
        '' committed; memory publication remains pending in the daemon outbox: '' @ error_text e)
      else e)"

text \<open>\<open>checkpoint\<close>: commit in the daemon, then publish the manifest from the outbox it lists.\<close>

definition workspace_checkpoint ::
  "coordinator_env \<Rightarrow> publish_env \<Rightarrow> (string \<Rightarrow> py_error + pending_publication list) \<Rightarrow>
   string option \<Rightarrow> string list \<Rightarrow> bool \<Rightarrow> publisher \<Rightarrow>
   (py_error + published_checkpoint_result) \<times> daemon_call list \<times> publisher" where
  "workspace_checkpoint env penv outbox requested paths retain_all s =
     (case select_session env requested True of
        Inl e \<Rightarrow> (Inl e, [], s)
      | Inr session_id \<Rightarrow>
          (case ce_checkpoint_selection env paths of
             Inl e \<Rightarrow> (Inl e, [], s)
           | Inr selection \<Rightarrow>
               let calls = [Call_commit session_id selection retain_all] in
               (case ce_commit env session_id selection retain_all of
                  Inl e \<Rightarrow> (Inl e, calls, s)
                | Inr c \<Rightarrow>
                    (case publish_manifest penv (outbox (cr_manifest_id c)) (cr_manifest_id c) s of
                       (Inl e, s1) \<Rightarrow> (Inl (publication_pending (cr_manifest_id c) e), calls, s1)
                     | (Inr memory, s1) \<Rightarrow>
                         (Inr (checkpoint_result.extend c
                                (published_checkpoint_result.fields (fn_id memory))), calls, s1)))))"

section \<open>A publication never loses a published memory\<close>

text \<open>The memory stored under an id, by what it is rather than how it is described.\<close>

definition stored_identity :: "(string \<Rightarrow> string) \<Rightarrow> fs_database \<Rightarrow> string \<Rightarrow> fs_identity option" where
  "stored_identity canonical db i =
     (case fmlookup (fd_nodes db) i of
        None \<Rightarrow> None
      | Some r \<Rightarrow> (case parse_memory (fr_content r) of Inl e \<Rightarrow> None | Inr m \<Rightarrow> Some (persistent_identity canonical m)))"

text \<open>A record's identity column, where it is set, is the identity of its content.\<close>

definition graph_ok :: "(string \<Rightarrow> string) \<Rightarrow> fs_database \<Rightarrow> bool" where
  "graph_ok canonical db \<longleftrightarrow>
     (\<forall>i r ident. fmlookup (fd_nodes db) i = Some r \<longrightarrow> fr_identity r = Some ident \<longrightarrow>
        stored_identity canonical db i = Some ident)"

lemma legacy_same_identity:
  assumes "legacy_identity_matches m (Some r)" "parse_memory (fr_content r) = Inr m'"
  shows "persistent_identity canonical m' = persistent_identity canonical m"
  using assms
  by (cases m) (auto simp: legacy_identity_matches_def Let_def parse_memory_def directory_memory_def
      checkpoint_memory_def split: if_splits option.splits)

lemma transaction_identity:
  assumes "graph_ok canonical db" "fs_memory_ok m"
    and db'_def: "db' = publication_transaction now i m tags (persistent_identity canonical m) db"
  shows "graph_ok canonical db'"
    and "stored_identity canonical db j = Some ident \<Longrightarrow> stored_identity canonical db' j = Some ident"
proof -
  let ?ident = "persistent_identity canonical m"
  have "graph_ok canonical db' \<and>
    (stored_identity canonical db j = Some ident \<longrightarrow> stored_identity canonical db' j = Some ident)"
  proof (cases "identity_conflicts ?ident m (fmlookup (fd_nodes db) i)")
    case True
    then show ?thesis using assms(1) by (simp add: db'_def transaction_conflict)
  next
    case False
    obtain r where r: "db' = db\<lparr> fd_nodes := fmupd i r (fd_nodes db), fd_contains := insert i (fd_contains db) \<rparr>"
      "fr_content r = asdict m" "fr_identity r = Some ?ident"
      using transaction_stores [OF False] unfolding db'_def by blast
    have new: "stored_identity canonical db' i = Some ?ident"
      using r assms(2) by (simp add: stored_identity_def)
    have other: "stored_identity canonical db' k = stored_identity canonical db k" if "k \<noteq> i" for k
      using r that by (simp add: stored_identity_def)
    have same: "stored_identity canonical db i = Some x \<Longrightarrow> x = ?ident" for x
    proof -
      assume x: "stored_identity canonical db i = Some x"
      then obtain old m' where old: "fmlookup (fd_nodes db) i = Some old" "parse_memory (fr_content old) = Inr m'"
        "x = persistent_identity canonical m'"
        by (auto simp: stored_identity_def split: option.splits sum.splits)
      show "x = ?ident"
      proof (cases "fr_identity old")
        case None
        then have "legacy_identity_matches m (Some old)"
          using False old(1) by (simp add: identity_conflicts_def)
        from legacy_same_identity [OF this old(2)] show ?thesis using old(3) by simp
      next
        case (Some y)
        then show ?thesis
          using False old(1) x assms(1) by (auto simp: identity_conflicts_def graph_ok_def)
      qed
    qed
    have "graph_ok canonical db'"
      unfolding graph_ok_def
    proof (intro allI impI)
      fix k q z assume "fmlookup (fd_nodes db') k = Some q" "fr_identity q = Some z"
      then show "stored_identity canonical db' k = Some z"
        using r new other [of k] assms(1) by (cases "k = i") (auto simp: graph_ok_def)
    qed
    moreover have "stored_identity canonical db j = Some ident \<longrightarrow> stored_identity canonical db' j = Some ident"
      using new other [of j] same by (cases "j = i") auto
    ultimately show ?thesis by blast
  qed
  then show "graph_ok canonical db'"
    "stored_identity canonical db j = Some ident \<Longrightarrow> stored_identity canonical db' j = Some ident" by blast+
qed

lemma publish_memory_identity:
  assumes "graph_ok canonical db" "fs_memory_ok m" "\<And>s. list_all is_id_char (digest s)"
    and p: "publish_memory digest canonical now m tags db = (r, db')"
  shows "graph_ok canonical db' \<and>
    (stored_identity canonical db j = Some ident \<longrightarrow> stored_identity canonical db' j = Some ident) \<and>
    (\<forall>node. r = Inr node \<longrightarrow> stored_identity canonical db' (fn_id node) = Some (persistent_identity canonical m))"
proof -
  note valid = memory_id_valid [where canonical = canonical and m = m, OF assms(3)]
  let ?i = "memory_id_of digest canonical m"
  have db': "db' = publication_transaction now ?i m (normalized_tags tags) (persistent_identity canonical m) db"
    using p valid by (auto simp: publish_memory_eq fs_publish_def Let_def)
  have "stored_identity canonical db' (fn_id node) = Some (persistent_identity canonical m)" if "r = Inr node" for node
    using p valid that
    by (auto simp: publish_memory_eq fs_publish_def Let_def stored_identity_def
        filesystem_memory_from_record_def split: option.splits sum.splits if_splits)
  then show ?thesis using transaction_identity [OF assms(1,2) db'] by blast
qed

text \<open>Everything the daemon was told is published is in the graph under the id it was given.\<close>

definition publisher_ok :: "publish_env \<Rightarrow> publisher \<Rightarrow> bool" where
  "publisher_ok env s \<longleftrightarrow> graph_ok (pu_canonical env) (ps_graph s) \<and>
     list_all (\<lambda>(manifest, memory_id). \<exists>bases.
         stored_identity (pu_canonical env) (ps_graph s) memory_id =
           Some (Checkpoint_identity (pu_canonical env (pu_store env)) manifest bases))
       (ps_completed s)"

lemma publish_outbox_ok:
  assumes ok: "publisher_ok env s" and dig: "\<And>x. list_all is_id_char (pu_digest env x)"
    and p: "publish_outbox env p s = (r, s')"
  shows "publisher_ok env s'"
proof -
  let ?c = "outbox_checkpoint env p" and ?can = "pu_canonical env"
  obtain g db where g: "publish_graph env ?c (ps_graph s) = (g, db)" by fastforce
  show ?thesis
  proof (cases "db = ps_graph s \<and> (\<exists>e. g = Inl e)")
    case True
    then show ?thesis using p g ok by (auto simp: publish_outbox_def)
  next
    case False
    then obtain m g' where m: "checkpoint_of ?c = Inr m"
      and pm: "publish_memory (pu_digest env) ?can (pu_now env) m
        [''workspace'', ''checkpoint'', ''session-filesystem''] (ps_graph s) = (g', db)"
      and g': "\<And>node. g = Inr node \<Longrightarrow> g' = Inr node"
      using g by (auto simp: publish_graph_def split: sum.splits option.splits prod.splits)
    have mok: "fs_memory_ok m" and ident: "persistent_identity ?can m =
        Checkpoint_identity (?can (pu_store env)) (pp_manifest_id p) (pp_base_memory_ids p)"
      using m by (auto simp: checkpoint_of_def checkpoint_memory_def outbox_checkpoint_def split: if_splits)
    note keep = publish_memory_identity [OF _ mok dig pm]
    have ok1: "publisher_ok env (s\<lparr> ps_graph := db \<rparr>)"
      using keep ok by (fastforce simp: publisher_ok_def list_all_iff)
    moreover have "stored_identity ?can db (fn_id node) =
        Some (Checkpoint_identity (?can (pu_store env)) (pp_manifest_id p) (pp_base_memory_ids p))"
      if "g = Inr node" for node
      using keep g' [OF that] ok ident by (auto simp: publisher_ok_def)
    ultimately show ?thesis
      using p g by (auto simp: publish_outbox_def publisher_ok_def split: sum.splits)
  qed
qed

lemma reconcile_loop_ok:
  "publisher_ok env s \<Longrightarrow> (\<And>x. list_all is_id_char (pu_digest env x)) \<Longrightarrow>
   publisher_ok env (snd (reconcile_loop env strict ps n s))"
proof (induction ps arbitrary: n s)
  case (Cons p ps)
  obtain r s1 where r: "publish_outbox env p s = (r, s1)" by fastforce
  with publish_outbox_ok [OF Cons.prems(1,2) r] Cons.IH Cons.prems(2) show ?case
    by (cases r) (auto split: if_splits)
qed simp

definition told_or_not :: "publish_env \<Rightarrow> string \<Rightarrow> publisher \<Rightarrow> publisher \<Rightarrow> py_error + fs_node \<Rightarrow> bool" where
  "told_or_not env manifest_id s s' r =
     (case r of
        Inr node \<Rightarrow> pu_complete env manifest_id (fn_id node) = Inr () \<and>
                    ps_completed s' = ps_completed s @ [(manifest_id, fn_id node)]
      | Inl e \<Rightarrow> ps_completed s' = ps_completed s \<or>
                 (\<exists>i. pu_complete env manifest_id i = Inl e \<and> ps_completed s' = ps_completed s @ [(manifest_id, i)]))"

lemma publish_outbox_completes: "publish_outbox env p s = (r, s') \<Longrightarrow> told_or_not env (pp_manifest_id p) s s' r"
  by (auto simp: publish_outbox_def told_or_not_def split: sum.splits prod.splits)

lemma publish_manifest_ok:
  assumes "publisher_ok env s" and "\<And>x. list_all is_id_char (pu_digest env x)"
    and p: "publish_manifest env outbox manifest_id s = (r, s')"
  shows "publisher_ok env s' \<and> told_or_not env manifest_id s s' r"
proof (cases "s' = s \<and> isl r")
  case True
  then show ?thesis using assms(1) by (cases r) (auto simp: told_or_not_def)
next
  case False
  then obtain ps q where q: "find (\<lambda>p. pp_manifest_id p = manifest_id) ps = Some q"
    "publish_outbox env q s = (r, s')"
    using p by (auto simp: publish_manifest_def split: sum.splits option.splits)
  then have "pp_manifest_id q = manifest_id" by (auto simp: find_Some_iff)
  then show ?thesis
    using publish_outbox_ok [OF assms(1,2) q(2)] publish_outbox_completes [OF q(2)] by simp
qed

section \<open>Properties\<close>

text \<open>
  C9. Reconciling the daemon's outbox, strict or not and with any faults of the database or of
  the daemon: every checkpoint the daemon is told is published is stored in the graph, under
  the memory id reported, with its store and manifest; and no later publication of the run,
  even one with the same id, replaces it by a different memory.
\<close>

theorem reconcile_completes_only_published:
  assumes "\<And>x. list_all is_id_char (pu_digest env x)"
    and "publisher_ok env s" and "reconcile env strict outbox s = (r, s')"
  shows "\<forall>(manifest, memory_id) \<in> set (ps_completed s'). \<exists>bases.
     stored_identity (pu_canonical env) (ps_graph s') memory_id =
       Some (Checkpoint_identity (pu_canonical env (pu_store env)) manifest bases)"
proof -
  have "publisher_ok env s'"
    using assms reconcile_loop_ok [OF assms(2,1)] by (auto simp: reconcile_def split: sum.splits) (metis snd_conv)
  then show ?thesis by (auto simp: publisher_ok_def list_all_iff)
qed

definition ex_publish_env :: publish_env where
  "ex_publish_env = \<lparr> pu_digest = \<lambda>_. ''d'', pu_canonical = \<lambda>p. p, pu_now = 1, pu_store = ''/s'',
     pu_database_error = \<lambda>_. None, pu_close_error = \<lambda>_. None, pu_complete = \<lambda>_ _. Inr () \<rparr>"

definition ex_publisher :: publisher where
  "ex_publisher = \<lparr> ps_graph = ex_fs_database, ps_completed = [] \<rparr>"

definition ex_outbox :: "pending_publication list" where
  "ex_outbox = [\<lparr> pp_manifest_id = ''m1'', pp_session_id = ''s1'', pp_session_name = ''n'',
     pp_base_memory_ids = [], pp_retained_count = 3 \<rparr>]"

theorem reconcile_completes_only_published_witness:
  "list_all (\<lambda>(manifest, memory_id). \<exists>bases.
       stored_identity (\<lambda>p. p) (ps_graph (snd (reconcile ex_publish_env True (Inr ex_outbox) ex_publisher))) memory_id =
       Some (Checkpoint_identity ''/s'' manifest bases))
     (ps_completed (snd (reconcile ex_publish_env True (Inr ex_outbox) ex_publisher))) \<and>
   map fst (ps_completed (snd (reconcile ex_publish_env True (Inr ex_outbox) ex_publisher))) = [''m1'']"
proof -
  have "list_all is_id_char ''d''" by (simp add: is_id_char_def is_alpha_def code_def)
  moreover have "publisher_ok ex_publish_env ex_publisher"
    by (simp add: publisher_ok_def graph_ok_def ex_publisher_def ex_fs_database_def)
  moreover have "map fst (ps_completed (snd (reconcile ex_publish_env True (Inr ex_outbox) ex_publisher))) = [''m1'']"
    by code_simp
  ultimately show ?thesis
    using reconcile_completes_only_published [of ex_publish_env ex_publisher True "Inr ex_outbox"
        "fst (reconcile ex_publish_env True (Inr ex_outbox) ex_publisher)"
        "snd (reconcile ex_publish_env True (Inr ex_outbox) ex_publisher)"]
    by (simp add: ex_publish_env_def list_all_iff)
qed


definition ex_coordinator_env :: coordinator_env where
  "ex_coordinator_env =
     \<lparr> ce_summaries = Inr [], ce_resolve_plan = \<lambda>_. Inl (KeyError ''m''), ce_publish_external = \<lambda>_. Inr ''m'',
       ce_store = ''/s'', ce_create = \<lambda>_ _. Inr ''s1'', ce_mount = \<lambda>_. Inr (), ce_prefetch = \<lambda>_. Inr (),
       ce_unmount = \<lambda>_. Inr (), ce_run = \<lambda>_ _. Inr 0, ce_close = \<lambda>_. Inr (), ce_destroy = \<lambda>_. Inr (),
       ce_status = \<lambda>i. Inl (KeyError i), ce_checkpoint_selection = Inr,
       ce_commit = \<lambda>i ps a. Inr \<lparr> cr_session_id = i, cr_manifest_id = ''m1'', cr_retained_paths = ps,
                                    cr_remaining_changes = [] \<rparr> \<rparr>"


lemma prefetch_session_calls:
  assumes "prefetch_session env i paths = (r, calls)"
  shows "(\<exists>e. calls = [Call_mount i] \<and> ce_mount env i = Inl e \<and> r = Inl e) \<or>
    (calls = [Call_mount i, Call_prefetch i paths, Call_unmount i] \<and> ce_mount env i = Inr ())"
proof (cases "ce_mount env i")
  case (Inl e)
  then have "calls = [Call_mount i]" "r = Inl e" using assms by (simp_all add: prefetch_session_def)
  then show ?thesis using Inl by blast
next
  case (Inr u)
  then show ?thesis using assms by (simp add: prefetch_session_def)
qed

lemma create_session_calls:
  assumes "create_session env memory_ids continue_session = (r, calls)" and "calls \<noteq> []"
  obtains sources scratch rest where "calls = Call_create sources scratch # rest"
    and "case ce_create env sources scratch of
        Inl e \<Rightarrow> rest = [] \<and> r = Inl e
      | Inr i \<Rightarrow> rest = [] \<and> r = Inr i \<or>
          (\<exists>paths s. prefetch_session env i paths = (s, rest) \<and>
             r = (case s of Inl e \<Rightarrow> Inl (prefetch_failure i e) | Inr u \<Rightarrow> Inr i))"
proof -
  have guard: "\<not> (memory_ids \<noteq> [] \<and> continue_session \<noteq> None)"
  proof
    assume "memory_ids \<noteq> [] \<and> continue_session \<noteq> None"
    from assms(1) [unfolded create_session_def if_P [OF this]] assms(2) show False by simp
  qed
  obtain inherited where inh: "continue_target env continue_session = Inr inherited"
    using assms guard by (cases "continue_target env continue_session") (auto simp only: create_session_def if_False sum.case prod.inject)
  obtain plan where plan: "ce_resolve_plan env (if memory_ids \<noteq> [] then memory_ids else inherited) = Inr plan"
    using assms guard inh
    by (cases "ce_resolve_plan env (if memory_ids \<noteq> [] then memory_ids else inherited)")
      (auto simp only: create_session_def if_False sum.case prod.inject)
  let ?so = "rp_memory_sources plan" and ?sc = "rp_scratch_paths plan"
  note eq = assms(1) [unfolded create_session_def if_not_P [OF guard] inh sum.case plan Let_def]
  show thesis
  proof (cases "ce_create env ?so ?sc")
    case (Inl e)
    then have "calls = Call_create ?so ?sc # []" "r = Inl e" using eq by simp_all
    then show thesis using Inl by (intro that [of ?so ?sc "[]"]) simp_all
  next
    case (Inr i)
    obtain s cs where p: "prefetch_session env i (rp_prefetch_paths plan) = (s, cs)" by fastforce
    show thesis
    proof (cases "rp_prefetch_paths plan = []")
      case True
      then have "calls = Call_create ?so ?sc # []" "r = Inr i" using eq Inr by simp_all
      then show thesis using Inr by (intro that [of ?so ?sc "[]"]) simp_all
    next
      case False
      then have "calls = Call_create ?so ?sc # cs"
        "r = (case s of Inl e \<Rightarrow> Inl (prefetch_failure i e) | Inr u \<Rightarrow> Inr i)"
        using eq Inr p by simp_all
      then show thesis using Inr p that [of ?so ?sc cs] by auto
    qed
  qed
qed

text \<open>
  C21. A session that \<open>create_session\<close> or \<open>run_command\<close> mounted is unmounted again, whatever the
  prefetch or the command did; a workspace is created at most once and before anything else;
  and once it was created, any failure of the prefetch is reported with its session id.
\<close>

theorem session_mounts_are_released:
  "(case create_session env memory_ids continue_session of
      (r, calls) \<Rightarrow>
        calls = [] \<or>
        (\<exists>sources scratch rest. calls = Call_create sources scratch # rest \<and>
           (case ce_create env sources scratch of
              Inl e \<Rightarrow> rest = [] \<and> r = Inl e
            | Inr i \<Rightarrow> (r = Inr i \<or> (\<exists>e. r = Inl (prefetch_failure i e))) \<and>
                (rest = [] \<and> r = Inr i \<or>
                 (\<exists>e. rest = [Call_mount i] \<and> ce_mount env i = Inl e \<and> isl r) \<or>
                 (\<exists>paths. rest = [Call_mount i, Call_prefetch i paths, Call_unmount i] \<and>
                    ce_mount env i = Inr ()))))) \<and>
   (case run_command env requested command of
      (r, calls) \<Rightarrow>
        calls = [] \<or>
        (\<exists>i e. calls = [Call_mount i] \<and> ce_mount env i = Inl e \<and> r = Inl e) \<or>
        (\<exists>i. calls = [Call_mount i, Call_run i command, Call_unmount i] \<and> ce_mount env i = Inr ()))"
    (is "(case _ of (r, calls) \<Rightarrow> ?P r calls) \<and> ?R")
proof
  obtain r calls where c: "create_session env memory_ids continue_session = (r, calls)" by fastforce
  have "?P r calls"
  proof (cases "calls = []")
    case False
    from create_session_calls [OF c False] obtain so sc rest where calls: "calls = Call_create so sc # rest"
      and cases: "case ce_create env so sc of
        Inl e \<Rightarrow> rest = [] \<and> r = Inl e
      | Inr i \<Rightarrow> rest = [] \<and> r = Inr i \<or>
          (\<exists>paths s. prefetch_session env i paths = (s, rest) \<and>
             r = (case s of Inl e \<Rightarrow> Inl (prefetch_failure i e) | Inr u \<Rightarrow> Inr i))"
      by blast
    show ?thesis
    proof (cases "ce_create env so sc")
      case (Inl e)
      then show ?thesis using calls cases by auto
    next
      case (Inr i)
      show ?thesis
      proof (cases "rest = [] \<and> r = Inr i")
        case True
        then show ?thesis using calls Inr by auto
      next
        case False
        then obtain paths s where s: "prefetch_session env i paths = (s, rest)"
          "r = (case s of Inl e \<Rightarrow> Inl (prefetch_failure i e) | Inr u \<Rightarrow> Inr i)"
          using cases Inr by auto
        show ?thesis
          using prefetch_session_calls [OF s(1)] calls Inr s(2) by (cases s) auto
      qed
    qed
  qed simp
  then show "case create_session env memory_ids continue_session of (r, calls) \<Rightarrow> ?P r calls"
    unfolding c by simp
  show ?R
    by (auto simp: run_command_def run_in_workspace_def split: sum.splits)
qed

end
