(* ===== verification/WsLifecycle.thy ===== *)
theory WsLifecycle
  imports WsService
begin

text \<open>
  The connection lifecycle of \<open>workspace/service.py\<close>: connecting to the daemon, launching it when it
  is not there, retrying until the endpoint opens, and ending a launch that failed. What the
  operating system answers is an argument, asked in the order of the calls: the answer to a call
  may depend on how many calls were made before it, so a process may exit at any moment. Every
  call is kept in a trace.
\<close>

section \<open>Calls and their answers\<close>

datatype os_answer = Done | Timed_out | Os_failed

datatype daemon_event =
    Ev_mkdir bool
  | Ev_connect bool
  | Ev_launch bool
  | Ev_poll "int option"
  | Ev_terminate os_answer
  | Ev_kill os_answer
  | Ev_wait os_answer
  | Ev_close bool

text \<open>An \<open>OSError\<close> or another exception.\<close>

datatype daemon_failure = Os_error | Failure py_error

text \<open>
  \<open>dw_close\<close> is whether closing a connection returns, rather than raises; \<open>dw_retries\<close> is how often
  the clock is found before the deadline of a start; \<open>dw_output\<close> is \<open>startup_diagnostics\<close>.
\<close>

record daemon_world =
  dw_mkdir :: "nat \<Rightarrow> daemon_failure + unit"
  dw_connect :: "nat \<Rightarrow> daemon_failure + unit"
  dw_launch :: "nat \<Rightarrow> daemon_failure + unit"
  dw_poll :: "nat \<Rightarrow> int option"
  dw_terminate :: "nat \<Rightarrow> os_answer"
  dw_kill :: "nat \<Rightarrow> os_answer"
  dw_wait :: "nat \<Rightarrow> os_answer"
  dw_close :: "nat \<Rightarrow> bool"
  dw_retries :: "nat \<Rightarrow> nat"
  dw_output :: "nat \<Rightarrow> string"

record lifecycle =
  lf_connected :: bool
  lf_launched :: bool
  lf_trace :: "daemon_event list"

definition lifecycle_init :: lifecycle where
  "lifecycle_init = \<lparr> lf_connected = False, lf_launched = False, lf_trace = [] \<rparr>"

definition now_at :: "lifecycle \<Rightarrow> nat" where
  "now_at s = length (lf_trace s)"

definition note_event :: "daemon_event \<Rightarrow> lifecycle \<Rightarrow> lifecycle" where
  "note_event e s = s\<lparr> lf_trace := lf_trace s @ [e] \<rparr>"

definition process_poll :: "daemon_world \<Rightarrow> lifecycle \<Rightarrow> int option \<times> lifecycle" where
  "process_poll w s = (let r = dw_poll w (now_at s) in (r, note_event (Ev_poll r) s))"

section \<open>The client\<close>

text \<open>A close that raises leaves the connection in place: it is forgotten only after the close.\<close>

definition close_connection :: "daemon_world \<Rightarrow> lifecycle \<Rightarrow> bool \<times> lifecycle" where
  "close_connection w s =
     (if \<not> lf_connected s then (True, s)
      else let shut = dw_close w (now_at s)
           in (shut, (note_event (Ev_close shut) s)\<lparr> lf_connected := \<not> shut \<rparr>))"

definition connect :: "daemon_world \<Rightarrow> lifecycle \<Rightarrow> (daemon_failure + unit) \<times> lifecycle" where
  "connect w s =
     (case dw_connect w (now_at s) of
        Inl e \<Rightarrow> (Inl e, note_event (Ev_connect False) s)
      | Inr _ \<Rightarrow> (Inr (), (note_event (Ev_connect True) s)\<lparr> lf_connected := True \<rparr>))"

definition launch_service :: "daemon_world \<Rightarrow> lifecycle \<Rightarrow> (daemon_failure + unit) \<times> lifecycle" where
  "launch_service w s =
     (let (running, s1) = (if lf_launched s then (case process_poll w s of (r, s1) \<Rightarrow> (r = None, s1)) else (False, s)) in
      if running then (Inl (Failure (WorkspaceTransportError ''workspace backing service is already starting'')), s1)
      else case dw_launch w (now_at s1) of
             Inl e \<Rightarrow> (Inl e, note_event (Ev_launch False) s1)
           | Inr _ \<Rightarrow> (Inr (), (note_event (Ev_launch True) s1)\<lparr> lf_launched := True \<rparr>))"

definition startup_error :: "daemon_world \<Rightarrow> lifecycle \<Rightarrow> daemon_failure \<times> lifecycle" where
  "startup_error w s =
     (let (status, s1) = (if lf_launched s then process_poll w s else (None, s));
          detail = ''workspace backing service did not open its local endpoint'' @
            (case status of None \<Rightarrow> [] | Some n \<Rightarrow> '' (daemon exited with status '' @ py_str_int n @ '')'');
          diagnostics = dw_output w (now_at s1)
      in (Failure (WorkspaceTransportError (detail @
            (if diagnostics = [] then [] else ''; recent daemon output:'' @ CHR 0x0A # diagnostics))), s1))"

fun connect_with_retry :: "daemon_world \<Rightarrow> nat \<Rightarrow> lifecycle \<Rightarrow> (daemon_failure + unit) \<times> lifecycle" where
  "connect_with_retry w 0 s = (case startup_error w s of (e, s1) \<Rightarrow> (Inl e, s1))"
| "connect_with_retry w (Suc n) s =
     (case connect w s of
        (Inr _, s1) \<Rightarrow> (Inr (), s1)
      | (Inl Os_error, s1) \<Rightarrow> connect_with_retry w n s1
      | (Inl e, s1) \<Rightarrow> (Inl e, s1))"

text \<open>\<open>terminate\<close> and \<open>kill\<close> stand for the call with its \<open>wait(timeout=5)\<close>.\<close>

definition send_signals :: "daemon_world \<Rightarrow> lifecycle \<Rightarrow> lifecycle" where
  "send_signals w s =
     (let a = dw_terminate w (now_at s); s1 = note_event (Ev_terminate a) s
      in if a = Timed_out then note_event (Ev_kill (dw_kill w (now_at s1))) s1 else s1)"

definition terminate_failed_launch :: "daemon_world \<Rightarrow> lifecycle \<Rightarrow> lifecycle" where
  "terminate_failed_launch w s =
     (if \<not> lf_launched s then s
      else case process_poll w s of
             (Some _, s1) \<Rightarrow> s1\<lparr> lf_launched := False \<rparr>
           | (None, s1) \<Rightarrow> (case process_poll w (send_signals w s1) of
                (Some _, s2) \<Rightarrow> s2\<lparr> lf_launched := False \<rparr>
              | (None, s2) \<Rightarrow> s2))"

definition relaunch_if_gone :: "daemon_world \<Rightarrow> lifecycle \<Rightarrow> (daemon_failure + unit) \<times> lifecycle" where
  "relaunch_if_gone w s =
     (let (gone, s1) = (if lf_launched s then (case process_poll w s of (r, s1) \<Rightarrow> (r \<noteq> None, s1)) else (True, s)) in
      if gone then launch_service w (s1\<lparr> lf_launched := False \<rparr>) else (Inr (), s1))"

definition await_endpoint :: "daemon_world \<Rightarrow> lifecycle \<Rightarrow> (daemon_failure + unit) \<times> lifecycle" where
  "await_endpoint w s =
     (case connect_with_retry w (dw_retries w (now_at s)) s of
        (Inr _, s1) \<Rightarrow> (Inr (), s1)
      | (Inl e, s1) \<Rightarrow> (Inl e, terminate_failed_launch w s1))"

definition ensure_connection :: "daemon_world \<Rightarrow> lifecycle \<Rightarrow> (daemon_failure + unit) \<times> lifecycle" where
  "ensure_connection w s =
     (case dw_mkdir w (now_at s) of
        Inl e \<Rightarrow> (Inl e, note_event (Ev_mkdir False) s)
      | Inr _ \<Rightarrow>
          (case connect w (note_event (Ev_mkdir True) s) of
             (Inr _, s1) \<Rightarrow> (Inr (), s1)
           | (Inl (Failure e), s1) \<Rightarrow> (Inl (Failure e), s1)
           | (Inl Os_error, s1) \<Rightarrow>
               (case relaunch_if_gone w s1 of
                  (Inl e, s2) \<Rightarrow> (Inl e, s2)
                | (Inr _, s2) \<Rightarrow> await_endpoint w s2)))"

text \<open>
  The connection side of \<open>_request\<close>: every attempt connects if it has to, exchanges one frame (the
  answer is an argument, \<open>Inl True\<close> for a failure of the transport) and closes the connection; a
  close that raises ends the request with that error.
\<close>

fun request_attempts_loop ::
  "daemon_world \<Rightarrow> nat \<Rightarrow> (nat \<Rightarrow> bool + unit) \<Rightarrow> lifecycle \<Rightarrow> (bool + unit) \<times> lifecycle" where
  "request_attempts_loop w 0 exchange s = (Inl True, s)"
| "request_attempts_loop w (Suc n) exchange s =
     (let (r, s1) = (if lf_connected s then (Inr (), s) else ensure_connection w s);
          outcome = (case r of
              Inr _ \<Rightarrow> exchange (now_at s1)
            | Inl Os_error \<Rightarrow> Inl True
            | Inl (Failure (WorkspaceTransportError _)) \<Rightarrow> Inl True
            | Inl _ \<Rightarrow> Inl False);
          (shut, s2) = close_connection w s1
      in if \<not> shut then (Inl False, s2)
         else if outcome = Inl True then request_attempts_loop w n exchange s2 else (outcome, s2))"

definition daemon_start ::
  "daemon_world \<Rightarrow> (nat \<Rightarrow> bool + unit) \<Rightarrow> lifecycle \<Rightarrow> bool \<times> lifecycle" where
  "daemon_start w exchange s =
     (if lf_connected s then (True, s)
      else
        let (r, s1) = ensure_connection w s;
            (h, s2) = (case r of
                Inl _ \<Rightarrow> (Inl False, s1)
              | Inr _ \<Rightarrow> request_attempts_loop w (request_attempts HELLO) exchange s1)
        in (case h of
              Inr _ \<Rightarrow> (True, s2)
            | Inl _ \<Rightarrow>
                (case close_connection w s2 of
                   (shut, s3) \<Rightarrow> (False, if shut then terminate_failed_launch w s3 else s3))))"

definition daemon_close :: "daemon_world \<Rightarrow> lifecycle \<Rightarrow> bool \<times> lifecycle" where
  "daemon_close w s = close_connection w s"

definition after_shutdown :: "daemon_world \<Rightarrow> lifecycle \<Rightarrow> (py_error + unit) \<times> lifecycle" where
  "after_shutdown w s =
     (if \<not> lf_launched s then (Inr (), s)
      else let a = dw_wait w (now_at s); s1 = note_event (Ev_wait a) s in
        (if a = Timed_out then (Inl (WorkspaceError ''workspace daemon accepted shutdown but did not exit''), s1)
         else (Inr (), s1)))"

text \<open>
  What a caller does with the client: start it, send a request (an operation, and what its
  exchanges give), shut the daemon down, or close.
\<close>

datatype client_call =
    Call_start "nat \<Rightarrow> bool + unit"
  | Call_request workspace_operation "nat \<Rightarrow> bool + unit"
  | Call_shutdown "nat \<Rightarrow> bool + unit"
  | Call_close

fun client_call_step :: "daemon_world \<Rightarrow> client_call \<Rightarrow> lifecycle \<Rightarrow> lifecycle" where
  "client_call_step w (Call_start ex) s = snd (daemon_start w ex s)"
| "client_call_step w (Call_request oper ex) s = snd (request_attempts_loop w (request_attempts oper) ex s)"
| "client_call_step w (Call_shutdown ex) s =
     (case request_attempts_loop w (request_attempts SHUTDOWN) ex s of
        (Inr _, s1) \<Rightarrow> snd (after_shutdown w s1)
      | (Inl _, s1) \<Rightarrow> s1)"
| "client_call_step w Call_close s = snd (daemon_close w s)"

section \<open>What an observer of the calls sees\<close>

datatype process_view = No_process | Running | Seen_exited

text \<open>
  The observer follows the process and the connection. It refuses a launch while a process may be
  running, a signal to a process not seen running, a poll or wait with no process, a second
  connection and a close without one.
\<close>

fun observe :: "daemon_event \<Rightarrow> process_view \<times> bool \<Rightarrow> (process_view \<times> bool) option" where
  "observe (Ev_mkdir _) x = Some x"
| "observe (Ev_connect ok) (v, c) = (if c then None else Some (v, ok))"
| "observe (Ev_launch ok) (v, c) = (if v = Running then None else Some (if ok then Running else v, c))"
| "observe (Ev_poll r) (v, c) =
     (if v = No_process then None else Some (if r = None then Running else Seen_exited, c))"
| "observe (Ev_terminate _) (v, c) = (if v = Running then Some (v, c) else None)"
| "observe (Ev_kill _) (v, c) = (if v = Running then Some (v, c) else None)"
| "observe (Ev_wait _) (v, c) = (if v = No_process then None else Some (v, c))"
| "observe (Ev_close ok) (v, c) = (if c then Some (v, \<not> ok) else None)"

fun observe_all :: "daemon_event list \<Rightarrow> process_view \<times> bool \<Rightarrow> (process_view \<times> bool) option" where
  "observe_all [] x = Some x"
| "observe_all (e # es) x = (case observe e x of None \<Rightarrow> None | Some y \<Rightarrow> observe_all es y)"

definition observed :: "lifecycle \<Rightarrow> (process_view \<times> bool) option" where
  "observed s = observe_all (lf_trace s) (No_process, False)"

text \<open>The client knows of every process that may be running, and of every open connection.\<close>

definition lifecycle_inv :: "lifecycle \<Rightarrow> bool" where
  "lifecycle_inv s = (case observed s of
      None \<Rightarrow> False
    | Some (v, c) \<Rightarrow> c = lf_connected s \<and> (v = Running \<longrightarrow> lf_launched s) \<and> (lf_launched s \<longrightarrow> v \<noteq> No_process))"

lemma observe_all_snoc [simp]:
  "observe_all (es @ [e]) x = (case observe_all es x of None \<Rightarrow> None | Some y \<Rightarrow> observe e y)"
  by (induction es arbitrary: x) (auto split: option.splits)

lemma observed_note [simp]:
  "observed (note_event e s) = (case observed s of None \<Rightarrow> None | Some y \<Rightarrow> observe e y)"
  "observed (s\<lparr> lf_connected := c \<rparr>) = observed s"
  "observed (s\<lparr> lf_launched := l \<rparr>) = observed s"
  by (simp_all add: observed_def note_event_def)

lemma note_event_fields [simp]:
  "lf_connected (note_event e s) = lf_connected s" "lf_launched (note_event e s) = lf_launched s"
  "lf_trace (note_event e s) = lf_trace s @ [e]"
  by (simp_all add: note_event_def)

lemma lifecycle_invE:
  assumes "lifecycle_inv s"
  obtains v where "observed s = Some (v, lf_connected s)" "v = Running \<Longrightarrow> lf_launched s"
    "lf_launched s \<Longrightarrow> v \<noteq> No_process"
  using assms by (auto simp: lifecycle_inv_def split: option.splits)

lemma poll_inv:
  assumes "lifecycle_inv s" "lf_launched s" "process_poll w s = (r, s1)"
  shows "observed s1 = Some (if r = None then Running else Seen_exited, lf_connected s)"
    "lf_connected s1 = lf_connected s" "lf_launched s1" "lifecycle_inv s1"
    "lf_trace s1 = lf_trace s @ [Ev_poll r]"
  using assms by (auto simp: process_poll_def Let_def lifecycle_inv_def split: option.splits if_splits)

text \<open>A connection outlives a call only when closing it raised.\<close>

definition held_open :: "lifecycle \<Rightarrow> bool" where
  "held_open s \<longleftrightarrow> lf_trace s \<noteq> [] \<and> List.last (lf_trace s) = Ev_close False"

lemma close_connection_inv:
  assumes "lifecycle_inv s" "close_connection w s = (shut, s1)"
  shows "lifecycle_inv s1" "lf_connected s1 = (\<not> shut)" "\<not> shut \<Longrightarrow> held_open s1"
  using assms by (auto simp: close_connection_def lifecycle_inv_def held_open_def Let_def split: option.splits if_splits)

lemma connect_inv:
  assumes "lifecycle_inv s" "\<not> lf_connected s" "connect w s = (r, s1)"
  shows "lifecycle_inv s1" "lf_connected s1 = (r = Inr ())"
  using assms by (auto simp: connect_def lifecycle_inv_def split: option.splits sum.splits)

lemma launch_inv:
  assumes "lifecycle_inv s" "\<not> lf_connected s" "launch_service w s = (r, s1)"
  shows "lifecycle_inv s1 \<and> \<not> lf_connected s1"
proof (cases "lf_launched s")
  case False
  then show ?thesis
    using assms by (auto simp: launch_service_def lifecycle_inv_def split: option.splits sum.splits)
next
  case True
  obtain p s0 where p: "process_poll w s = (p, s0)" by fastforce
  show ?thesis
    using assms True poll_inv[OF assms(1) True p]
    by (auto simp: launch_service_def p lifecycle_inv_def split: option.splits sum.splits if_splits)
qed

lemma retry_inv:
  assumes "lifecycle_inv s" "\<not> lf_connected s" "connect_with_retry w n s = (r, s1)"
  shows "lifecycle_inv s1 \<and> lf_connected s1 = (r = Inr ())"
  using assms
proof (induction n arbitrary: s)
  case 0
  obtain p s0 where p: "process_poll w s = (p, s0)" by fastforce
  show ?case
    using 0 poll_inv[OF 0(1) _ p]
    by (auto simp: startup_error_def p Let_def split: if_splits)
next
  case (Suc n)
  obtain q s0 where q: "connect w s = (q, s0)" by fastforce
  show ?case
    using Suc.IH[of s0] Suc.prems(3) connect_inv[OF Suc.prems(1,2) q]
    by (auto simp: q split: sum.splits daemon_failure.splits)
qed

text \<open>A launch is ended or, when the process survives the signals, it is kept and seen running.\<close>

definition signals_sent :: "os_answer \<Rightarrow> os_answer \<Rightarrow> daemon_event list" where
  "signals_sent a b = Ev_terminate a # (if a = Timed_out then [Ev_kill b] else [])"

definition launch_ended :: "lifecycle \<Rightarrow> bool" where
  "launch_ended s \<longleftrightarrow>
     \<not> lf_launched s \<or> (\<exists>es a b. lf_trace s = es @ [Ev_poll None] @ signals_sent a b @ [Ev_poll None])"

lemma send_signals_trace: "\<exists>a b. lf_trace (send_signals w s) = lf_trace s @ signals_sent a b"
  by (auto simp: send_signals_def signals_sent_def Let_def)

lemma send_signals_inv:
  assumes "lifecycle_inv s" "observed s = Some (Running, c)"
  shows "lifecycle_inv (send_signals w s)" "lf_connected (send_signals w s) = lf_connected s"
    "lf_launched (send_signals w s) = lf_launched s"
  using assms by (auto simp: send_signals_def Let_def lifecycle_inv_def)

lemma forget_exited:
  assumes "lifecycle_inv s" "observed s = Some (Seen_exited, c)"
  shows "lifecycle_inv (s\<lparr> lf_launched := False \<rparr>)"
  using assms by (auto simp: lifecycle_inv_def)

lemma terminate_inv:
  assumes inv: "lifecycle_inv s"
  shows "lifecycle_inv (terminate_failed_launch w s)
    \<and> lf_connected (terminate_failed_launch w s) = lf_connected s \<and> launch_ended (terminate_failed_launch w s)"
proof (cases "lf_launched s")
  case False
  then show ?thesis using inv by (simp add: terminate_failed_launch_def launch_ended_def)
next
  case True
  obtain p s1 where p: "process_poll w s = (p, s1)" by fastforce
  note p1 = poll_inv[OF inv True p]
  show ?thesis
  proof (cases p)
    case (Some n)
    then show ?thesis
      using True p p1 by (simp add: terminate_failed_launch_def launch_ended_def forget_exited)
  next
    case None
    obtain q s4 where q: "process_poll w (send_signals w s1) = (q, s4)" by fastforce
    have run: "observed s1 = Some (Running, lf_connected s)" using p1 None by simp
    note sig = send_signals_inv[OF p1(4) run, of w]
    note q1 = poll_inv[OF sig(1) _ q]
    obtain a b where "lf_trace (send_signals w s1) = lf_trace s1 @ signals_sent a b"
      using send_signals_trace by blast
    then have "lf_trace s4 = lf_trace s @ [Ev_poll None] @ signals_sent a b @ [Ev_poll q]"
      using p1(3,5) sig(3) q1(5) None by simp
    then show ?thesis
      using True p None q sig p1 q1
      by (cases q) (auto simp: terminate_failed_launch_def launch_ended_def forget_exited)
  qed
qed

lemma relaunch_inv:
  assumes "lifecycle_inv s" "\<not> lf_connected s" "relaunch_if_gone w s = (r, s1)"
  shows "lifecycle_inv s1 \<and> \<not> lf_connected s1"
proof (cases "lf_launched s")
  case False
  then have "lifecycle_inv (s\<lparr> lf_launched := False \<rparr>)"
    using assms(1) by (auto simp: lifecycle_inv_def split: option.splits)
  then show ?thesis
    using assms False launch_inv[of "s\<lparr> lf_launched := False \<rparr>" w r s1] by (auto simp: relaunch_if_gone_def)
next
  case True
  obtain p s0 where p: "process_poll w s = (p, s0)" by fastforce
  note p1 = poll_inv[OF assms(1) True p]
  show ?thesis
  proof (cases p)
    case None
    then show ?thesis using assms p1 p True by (auto simp: relaunch_if_gone_def)
  next
    case (Some n)
    then have "lifecycle_inv (s0\<lparr> lf_launched := False \<rparr>)" using p1 by (simp add: forget_exited)
    then show ?thesis
      using assms p1 p True Some launch_inv[of "s0\<lparr> lf_launched := False \<rparr>" w r s1]
      by (auto simp: relaunch_if_gone_def)
  qed
qed

lemma await_inv:
  assumes "lifecycle_inv s" "\<not> lf_connected s" "await_endpoint w s = (r, s1)"
  shows "lifecycle_inv s1 \<and> lf_connected s1 = (r = Inr ())"
proof -
  obtain q s0 where q: "connect_with_retry w (dw_retries w (now_at s)) s = (q, s0)" by fastforce
  show ?thesis
    using assms(3) retry_inv[OF assms(1,2) q] terminate_inv[of s0 w]
    by (auto simp: await_endpoint_def q split: sum.splits)
qed

lemma mkdir_inv:
  assumes "lifecycle_inv s" shows "lifecycle_inv (note_event (Ev_mkdir b) s)"
  using assms by (auto simp: lifecycle_inv_def split: option.splits)

lemma ensure_inv:
  assumes inv: "lifecycle_inv s" and off: "\<not> lf_connected s" and e: "ensure_connection w s = (r, s1)"
  shows "lifecycle_inv s1 \<and> lf_connected s1 = (r = Inr ())"
proof (cases "dw_mkdir w (now_at s)")
  case (Inl f)
  then show ?thesis using e off mkdir_inv[OF inv] by (auto simp: ensure_connection_def)
next
  case (Inr u)
  obtain q s2 where q: "connect w (note_event (Ev_mkdir True) s) = (q, s2)" by fastforce
  have c: "lifecycle_inv s2" "lf_connected s2 = (q = Inr ())"
    using connect_inv[OF mkdir_inv[OF inv] _ q] off by simp_all
  obtain g s3 where g: "relaunch_if_gone w s2 = (g, s3)" by fastforce
  show ?thesis
    using e c relaunch_inv[OF c(1) _ g] await_inv[of s3 w r s1]
    by (auto simp: ensure_connection_def Inr q g split: sum.splits daemon_failure.splits)
qed

lemma request_loop_inv:
  assumes "lifecycle_inv s" "request_attempts_loop w n exchange s = (r, s1)"
  shows "lifecycle_inv s1 \<and> (0 < n \<or> \<not> lf_connected s \<longrightarrow> (lf_connected s1 \<longrightarrow> held_open s1 \<and> r = Inl False))"
  using assms
proof (induction n arbitrary: s)
  case (Suc n)
  obtain q s2 where q: "(if lf_connected s then (Inr (), s) else ensure_connection w s) = (q, s2)" by fastforce
  have s2: "lifecycle_inv s2" using q Suc.prems(1) ensure_inv[of s w q s2] by (auto split: if_splits)
  obtain shut s3 where c: "close_connection w s2 = (shut, s3)" by fastforce
  note c1 = close_connection_inv[OF s2 c]
  show ?case
    using Suc.IH[OF c1(1)] Suc.prems(2) c1 by (auto simp: q c Let_def split: if_splits)
qed auto

lemma attempts_positive: "0 < request_attempts oper"
  by (simp add: request_attempts_def)

lemma failed_start_inv:
  assumes "lifecycle_inv s" "close_connection w s = (shut, s1)"
    and "s2 = (if shut then terminate_failed_launch w s1 else s1)"
  shows "lifecycle_inv s2 \<and> (lf_connected s2 \<longrightarrow> held_open s2) \<and> (lf_connected s2 \<or> launch_ended s2)"
  using close_connection_inv[OF assms(1,2)] assms(3) terminate_inv[of s1 w] by auto

lemma start_inv:
  assumes inv: "lifecycle_inv s" and s: "daemon_start w exchange s = (ok, s1)"
  shows "lifecycle_inv s1" "(lf_connected s \<longrightarrow> held_open s) \<Longrightarrow> lf_connected s1 \<longrightarrow> held_open s1"
    "\<not> ok \<Longrightarrow> lf_connected s1 \<or> launch_ended s1"
proof -
  let ?n = "request_attempts HELLO"
  obtain q s2 where q: "ensure_connection w s = (q, s2)" by fastforce
  obtain h s3 where h: "request_attempts_loop w ?n exchange s2 = (h, s3)" by fastforce
  obtain c2 t2 where c2: "close_connection w s2 = (c2, t2)" by fastforce
  obtain c3 t3 where c3: "close_connection w s3 = (c3, t3)" by fastforce
  note facts = s inv ensure_inv[OF inv _ q] request_loop_inv[OF _ h] h attempts_positive
    failed_start_inv[OF _ c2 refl] failed_start_inv[OF _ c3 refl]
  show "lifecycle_inv s1"
    using facts by (auto simp: daemon_start_def q c2 c3 Let_def split: if_splits sum.splits)
  show "(lf_connected s \<longrightarrow> held_open s) \<Longrightarrow> lf_connected s1 \<longrightarrow> held_open s1"
    using facts by (auto simp: daemon_start_def q c2 c3 Let_def split: if_splits sum.splits)
  show "\<not> ok \<Longrightarrow> lf_connected s1 \<or> launch_ended s1"
    using facts by (auto simp: daemon_start_def q c2 c3 Let_def split: if_splits sum.splits)
qed

lemma shutdown_inv:
  assumes "lifecycle_inv s" "after_shutdown w s = (r, s1)"
  shows "lifecycle_inv s1" "lf_connected s1 = lf_connected s"
  using assms by (auto simp: after_shutdown_def Let_def lifecycle_inv_def split: option.splits if_splits)

definition between_calls :: "lifecycle \<Rightarrow> bool" where
  "between_calls s \<longleftrightarrow> lifecycle_inv s \<and> (lf_connected s \<longrightarrow> held_open s)"

lemma call_inv:
  assumes "between_calls s"
  shows "between_calls (client_call_step w call s)"
proof (cases call)
  case (Call_start ex)
  obtain ok s1 where "daemon_start w ex s = (ok, s1)" by fastforce
  then show ?thesis using Call_start assms start_inv[of s w ex ok s1] by (simp add: between_calls_def)
next
  case (Call_request oper ex)
  obtain r s1 where "request_attempts_loop w (request_attempts oper) ex s = (r, s1)" by fastforce
  then show ?thesis
    using Call_request assms request_loop_inv[of s w _ ex r s1] attempts_positive[of oper] by (auto simp: between_calls_def)
next
  case (Call_shutdown ex)
  obtain r s1 where l: "request_attempts_loop w (request_attempts SHUTDOWN) ex s = (r, s1)" by fastforce
  obtain u s2 where a: "after_shutdown w s1 = (u, s2)" by fastforce
  have "lifecycle_inv s1" "lf_connected s1 \<longrightarrow> held_open s1 \<and> r = Inl False"
    using l assms request_loop_inv[of s w _ ex r s1] attempts_positive[of SHUTDOWN] by (auto simp: between_calls_def)
  then show ?thesis
    using Call_shutdown l a shutdown_inv[of s1 w u s2] by (auto simp: between_calls_def split: sum.splits)
next
  case Call_close
  obtain c s1 where "close_connection w s = (c, s1)" by fastforce
  then show ?thesis
    using Call_close assms close_connection_inv[of s w c s1] by (simp add: daemon_close_def between_calls_def)
qed

lemma calls_inv: "between_calls (fold (client_call_step w) calls lifecycle_init)"
proof (induction calls rule: rev_induct)
  case Nil
  show ?case by (simp add: lifecycle_init_def lifecycle_inv_def observed_def between_calls_def)
next
  case (snoc call calls)
  then show ?case using call_inv by simp
qed

section \<open>Properties\<close>


text \<open>
  A daemon that never opens its endpoint and ignores the first signal: the start after a close
  launches it, tries twice, terminates it, kills it and sees that it exited.
\<close>

definition stubborn_daemon :: daemon_world where
  "stubborn_daemon = \<lparr> dw_mkdir = (\<lambda>_. Inr ()), dw_connect = (\<lambda>_. Inl Os_error), dw_launch = (\<lambda>_. Inr ()),
     dw_poll = (\<lambda>n. if n < 9 then None else Some 1), dw_terminate = (\<lambda>_. Timed_out), dw_kill = (\<lambda>_. Done),
     dw_wait = (\<lambda>_. Done), dw_close = (\<lambda>_. True), dw_retries = (\<lambda>_. 2), dw_output = (\<lambda>_. []) \<rparr>"

lemma stubborn_start:
  "daemon_start stubborn_daemon (\<lambda>_. Inr ()) lifecycle_init = (False, \<lparr> lf_connected = False, lf_launched = False,
     lf_trace = [Ev_mkdir True, Ev_connect False, Ev_launch True, Ev_connect False, Ev_connect False, Ev_poll None,
       Ev_poll None, Ev_terminate Timed_out, Ev_kill Done, Ev_poll (Some 1)] \<rparr>)"
  by code_simp

text \<open>And one that survives both signals: the start fails and the process is kept.\<close>

definition surviving_daemon :: daemon_world where
  "surviving_daemon = stubborn_daemon\<lparr> dw_poll := (\<lambda>_. None), dw_kill := (\<lambda>_. Os_failed) \<rparr>"

lemma surviving_start:
  "daemon_start surviving_daemon (\<lambda>_. Inr ()) lifecycle_init = (False, \<lparr> lf_connected = False, lf_launched = True,
     lf_trace = [Ev_mkdir True, Ev_connect False, Ev_launch True, Ev_connect False, Ev_connect False, Ev_poll None,
       Ev_poll None, Ev_terminate Timed_out, Ev_kill Os_failed, Ev_poll None,
       Ev_poll None, Ev_terminate Timed_out, Ev_kill Os_failed, Ev_poll None] \<rparr>)"
  by code_simp


end
