(* ===== verification/GraphDb.thy ===== *)
theory GraphDb
  imports Search FsMemory "HOL-Library.Product_Lexorder"
begin

text \<open>
  The graph database as the memory stores use it: \<open>reframe_memory/database.py\<close>, \<open>records.py\<close> and
  \<open>query_results.py\<close>, over a table of memory nodes, the root records and the relation tables.
  Each query the stores send is a function here, written from the text of the query. New record
  ids come from a supply, the clock and the cast \<open><string>\<close> are arguments; one operation of a
  store reads the clock once.
\<close>

section \<open>Records and relations\<close>

record node_record =
  nr_id :: string
  nr_tags :: "string list"
  nr_content :: json
  nr_created_at :: nat
  nr_updated_at :: nat
  nr_read_at :: "nat option"

text \<open>A row of a relation table; \<open>re_position\<close> is 0 in the tables without that field.\<close>

record relation =
  re_table :: string
  re_in :: string
  re_out :: string
  re_position :: int

record graph_db =
  gd_nodes :: "(string, node_record) fmap"
  gd_roots :: "(string \<times> (string \<times> string)) list"
  gd_relations :: "relation list"
  gd_created :: nat

definition empty_graph :: graph_db where
  "empty_graph = \<lparr> gd_nodes = fmempty, gd_roots = [], gd_relations = [], gd_created = 0 \<rparr>"

record db_env =
  de_new_id :: "nat \<Rightarrow> string"
  de_cast :: "json option \<Rightarrow> string"

record timestamps =
  mt_created_at :: nat
  mt_updated_at :: nat
  mt_read_at :: "nat option"

record 'a memory_node =
  mn_id :: string
  mn_tags :: "string list"
  mn_timestamps :: timestamps
  mn_content :: 'a

definition memory_node_from_record ::
  "(json \<Rightarrow> py_error + 'a) \<Rightarrow> node_record \<Rightarrow> py_error + 'a memory_node" where
  "memory_node_from_record parse r =
     (case nr_content r of
        JObj kvs \<Rightarrow>
          (case parse (JObj kvs) of
             Inl e \<Rightarrow> Inl e
           | Inr c \<Rightarrow>
               Inr \<lparr> mn_id = nr_id r, mn_tags = nr_tags r,
                     mn_timestamps = \<lparr> mt_created_at = nr_created_at r, mt_updated_at = nr_updated_at r,
                                       mt_read_at = nr_read_at r \<rparr>,
                     mn_content = c \<rparr>)
      | _ \<Rightarrow> Inl (ValueError (''memory node '' @ nr_id r @ '' has no object content'')))"

text \<open>A list comprehension over \<open>memory_node_from_record\<close>: the first failure is raised.\<close>

fun nodes_from_records ::
  "(json \<Rightarrow> py_error + 'a) \<Rightarrow> node_record list \<Rightarrow> py_error + 'a memory_node list" where
  "nodes_from_records parse [] = Inr []"
| "nodes_from_records parse (r # rs) =
     (case memory_node_from_record parse r of
        Inl e \<Rightarrow> Inl e
      | Inr n \<Rightarrow> (case nodes_from_records parse rs of Inl e \<Rightarrow> Inl e | Inr ns \<Rightarrow> Inr (n # ns)))"

text \<open>\<open>str(content[key])\<close>.\<close>

definition content_str :: "json \<Rightarrow> string \<Rightarrow> py_error + string" where
  "content_str content key =
     (case obj_get content key of None \<Rightarrow> Inl (KeyError key) | Some v \<Rightarrow> Inr (py_str_json v))"

section \<open>Queries\<close>

text \<open>\<open>UPSERT root SET name = ..., description = ...\<close>.\<close>

definition upsert_root :: "string \<Rightarrow> string \<Rightarrow> string \<Rightarrow> graph_db \<Rightarrow> graph_db" where
  "upsert_root root_id name description db =
     db\<lparr> gd_roots := AList.update root_id (name, description) (gd_roots db) \<rparr>"

text \<open>\<open>CREATE memory_node SET tags = ..., content = ..., ...\<close> with the cleaned tags.\<close>

definition create_node ::
  "db_env \<Rightarrow> nat \<Rightarrow> string list \<Rightarrow> json \<Rightarrow> graph_db \<Rightarrow> node_record \<times> graph_db" where
  "create_node env now tags content db =
     (let i = de_new_id env (gd_created db);
          r = \<lparr> nr_id = i, nr_tags = normalized_tags tags, nr_content = content, nr_created_at = now,
                nr_updated_at = now, nr_read_at = None \<rparr>
      in (r, db\<lparr> gd_nodes := fmupd i r (gd_nodes db), gd_created := Suc (gd_created db) \<rparr>))"

text \<open>\<open>RELATE a->table->b SET position = ...\<close>.\<close>

definition relate :: "string \<Rightarrow> string \<Rightarrow> string \<Rightarrow> int \<Rightarrow> graph_db \<Rightarrow> graph_db" where
  "relate table a b position db =
     db\<lparr> gd_relations := gd_relations db @
           [\<lparr> re_table = table, re_in = a, re_out = b, re_position = position \<rparr>] \<rparr>"

text \<open>\<open>DELETE table WHERE out = ...\<close>.\<close>

definition delete_to :: "string \<Rightarrow> string \<Rightarrow> graph_db \<Rightarrow> graph_db" where
  "delete_to table b db =
     db\<lparr> gd_relations := filter (\<lambda>e. \<not> (re_table e = table \<and> re_out e = b)) (gd_relations db) \<rparr>"

text \<open>\<open>UPDATE id SET ...\<close>, which changes nothing when there is no such record.\<close>

definition update_node :: "string \<Rightarrow> (node_record \<Rightarrow> node_record) \<Rightarrow> graph_db \<Rightarrow> graph_db" where
  "update_node i f db =
     (case fmlookup (gd_nodes db) i of
        None \<Rightarrow> db
      | Some r \<Rightarrow> db\<lparr> gd_nodes := fmupd i (f r) (gd_nodes db) \<rparr>)"

definition edges :: "string \<Rightarrow> string \<Rightarrow> graph_db \<Rightarrow> relation list" where
  "edges table a db = filter (\<lambda>e. re_table e = table \<and> re_in e = a) (gd_relations db)"

definition existing :: "graph_db \<Rightarrow> string list \<Rightarrow> node_record list" where
  "existing db is = concat (map (\<lambda>i. case fmlookup (gd_nodes db) i of None \<Rightarrow> [] | Some r \<Rightarrow> [r]) is)"

text \<open>\<open>SELECT * FROM a->table->memory_node\<close>.\<close>

definition related :: "string \<Rightarrow> string \<Rightarrow> graph_db \<Rightarrow> node_record list" where
  "related table a db = existing db (map re_out (edges table a db))"

text \<open>\<open>ORDER BY updated_at DESC, created_at DESC\<close>.\<close>

definition order_recent :: "node_record list \<Rightarrow> node_record list" where
  "order_recent rs = sort_key (\<lambda>r. (- int (nr_updated_at r), - int (nr_created_at r))) rs"

text \<open>\<open>SELECT out, position FROM table WHERE in = a ORDER BY position ASC\<close>.\<close>

definition ordered_out :: "string \<Rightarrow> string \<Rightarrow> graph_db \<Rightarrow> string list" where
  "ordered_out table a db = map re_out (sort_key re_position (edges table a db))"

text \<open>The \<open>_next_position\<close> of the ordered tables: one after the largest, or 0.\<close>

definition next_position :: "string \<Rightarrow> string \<Rightarrow> graph_db \<Rightarrow> int" where
  "next_position table a db =
     (case rev (sort_key re_position (edges table a db)) of [] \<Rightarrow> 0 | e # _ \<Rightarrow> re_position e + 1)"

section \<open>Reading\<close>

definition mark_read_record :: "nat \<Rightarrow> node_record \<Rightarrow> node_record" where
  "mark_read_record now r = r\<lparr> nr_read_at := Some now \<rparr>"

fun mark_records_read ::
  "nat \<Rightarrow> node_record list \<Rightarrow> graph_db \<Rightarrow> (py_error + node_record list) \<times> graph_db" where
  "mark_records_read now [] db = (Inr [], db)"
| "mark_records_read now (r # rs) db =
     (case memory_node_record_id (nr_id r) of
        Inl e \<Rightarrow> (Inl e, db)
      | Inr i \<Rightarrow>
          let db1 = update_node i (mark_read_record now) db;
              r1 = (case fmlookup (gd_nodes db1) i of None \<Rightarrow> r | Some x \<Rightarrow> x)
          in (case mark_records_read now rs db1 of
                (Inl e, db2) \<Rightarrow> (Inl e, db2)
              | (Inr rs1, db2) \<Rightarrow> (Inr (r1 # rs1), db2)))"

fun checked_ids :: "string list \<Rightarrow> py_error + string list" where
  "checked_ids [] = Inr []"
| "checked_ids (i # is) =
     (case memory_node_record_id i of
        Inl e \<Rightarrow> Inl e
      | Inr j \<Rightarrow> (case checked_ids is of Inl e \<Rightarrow> Inl e | Inr js \<Rightarrow> Inr (j # js)))"

definition mark_record_ids_read :: "nat \<Rightarrow> string list \<Rightarrow> graph_db \<Rightarrow> (py_error + unit) \<times> graph_db" where
  "mark_record_ids_read now ids db =
     (case checked_ids ids of
        Inl e \<Rightarrow> (Inl e, db)
      | Inr js \<Rightarrow> (Inr (), fold (\<lambda>i. update_node i (mark_read_record now)) (dict_fromkeys js) db))"

text \<open>The end of every read: mark the records read if asked to, then parse them.\<close>

definition read_records ::
  "(json \<Rightarrow> py_error + 'a) \<Rightarrow> nat \<Rightarrow> bool \<Rightarrow> node_record list \<Rightarrow> graph_db \<Rightarrow>
   (py_error + 'a memory_node list) \<times> graph_db" where
  "read_records parse now mark rs db =
     (if mark then
        (case mark_records_read now rs db of
           (Inl e, db1) \<Rightarrow> (Inl e, db1)
         | (Inr rs1, db1) \<Rightarrow> (nodes_from_records parse rs1, db1))
      else (nodes_from_records parse rs, db))"

text \<open>The \<open>search\<close> of a store: the contained nodes that satisfy the search, newest first.\<close>

definition search_nodes ::
  "db_env \<Rightarrow> (json \<Rightarrow> py_error + 'a) \<Rightarrow> nat \<Rightarrow> string \<Rightarrow> node_search option \<Rightarrow> bool \<Rightarrow> graph_db \<Rightarrow>
   (py_error + 'a memory_node list) \<times> graph_db" where
  "search_nodes env parse now rid search mark db =
     (case build_memory_node_where search of
        Inl e \<Rightarrow> (Inl e, db)
      | Inr p \<Rightarrow>
          read_records parse now mark
            (order_recent (filter (\<lambda>r. where_holds (de_cast env) p (nr_tags r) (nr_content r))
               (related ''contains'' rid db))) db)"

text \<open>The \<open>get\<close> of a store, and the test that a node is under a root.\<close>

definition under_root :: "string \<Rightarrow> string \<Rightarrow> graph_db \<Rightarrow> node_record list" where
  "under_root rid i db = take 1 (filter (\<lambda>r. nr_id r = i) (related ''contains'' rid db))"

definition get_node ::
  "(json \<Rightarrow> py_error + 'a) \<Rightarrow> nat \<Rightarrow> string \<Rightarrow> string \<Rightarrow> bool \<Rightarrow> graph_db \<Rightarrow>
   (py_error + 'a memory_node option) \<times> graph_db" where
  "get_node parse now rid node_id mark db =
     (case memory_node_record_id node_id of
        Inl e \<Rightarrow> (Inl e, db)
      | Inr i \<Rightarrow>
          (case under_root rid i db of
             [] \<Rightarrow> (Inr None, db)
           | rs \<Rightarrow>
               (case read_records parse now mark rs db of
                  (Inl e, db1) \<Rightarrow> (Inl e, db1)
                | (Inr [], db1) \<Rightarrow> (Inr None, db1)
                | (Inr (n # _), db1) \<Rightarrow> (Inr (Some n), db1))))"

definition ensure_under :: "string \<Rightarrow> string \<Rightarrow> string \<Rightarrow> graph_db \<Rightarrow> py_error + string" where
  "ensure_under rid missing node_id db =
     (case memory_node_record_id node_id of
        Inl e \<Rightarrow> Inl e
      | Inr i \<Rightarrow> if under_root rid i db = [] then Inl (ValueError (missing @ node_id)) else Inr i)"

text \<open>The nodes at the end of the edges of a node, newest first.\<close>

definition read_related ::
  "(json \<Rightarrow> py_error + 'a) \<Rightarrow> nat \<Rightarrow> string \<Rightarrow> string \<Rightarrow> bool \<Rightarrow> graph_db \<Rightarrow>
   (py_error + 'a memory_node list) \<times> graph_db" where
  "read_related parse now table node_id mark db =
     (case memory_node_record_id node_id of
        Inl e \<Rightarrow> (Inl e, db)
      | Inr i \<Rightarrow> read_records parse now mark (order_recent (related table i db)) db)"

section \<open>Well-formed graphs\<close>

text \<open>The ids a database makes are new and well formed.\<close>

definition ids_ok :: "db_env \<Rightarrow> bool" where
  "ids_ok env \<longleftrightarrow> inj (de_new_id env) \<and> (\<forall>n. is_memory_node_id (de_new_id env n))"

definition graph_wf :: "db_env \<Rightarrow> graph_db \<Rightarrow> bool" where
  "graph_wf env db \<longleftrightarrow>
     (\<forall>i r. fmlookup (gd_nodes db) i = Some r \<longrightarrow> nr_id r = i \<and> is_memory_node_id i) \<and>
     (\<forall>n \<ge> gd_created db. fmlookup (gd_nodes db) (de_new_id env n) = None) \<and>
     (\<forall>e \<in> set (gd_relations db). fmlookup (gd_nodes db) (re_out e) \<noteq> None \<and>
        (is_memory_node_id (re_in e) \<longrightarrow> fmlookup (gd_nodes db) (re_in e) \<noteq> None))"

lemma graph_wf_empty [simp]: "graph_wf env empty_graph"
  by (simp add: graph_wf_def empty_graph_def)

lemma record_id_valid [simp]: "is_memory_node_id i \<Longrightarrow> memory_node_record_id i = Inr i"
  by (simp add: memory_node_record_id_def)

lemma record_id_Inr: "memory_node_record_id i = Inr j \<longleftrightarrow> is_memory_node_id i \<and> j = i"
  by (auto simp: memory_node_record_id_def)

lemma upsert_root_simps [simp]:
  "gd_nodes (upsert_root r n d db) = gd_nodes db" "gd_relations (upsert_root r n d db) = gd_relations db"
  "gd_created (upsert_root r n d db) = gd_created db"
  by (simp_all add: upsert_root_def)

lemma relate_simps [simp]:
  "gd_nodes (relate t a b p db) = gd_nodes db" "gd_created (relate t a b p db) = gd_created db"
  "gd_relations (relate t a b p db) = gd_relations db @ [\<lparr> re_table = t, re_in = a, re_out = b, re_position = p \<rparr>]"
  by (simp_all add: relate_def)

lemma delete_to_simps [simp]:
  "gd_nodes (delete_to t b db) = gd_nodes db" "gd_created (delete_to t b db) = gd_created db"
  "gd_relations (delete_to t b db) = filter (\<lambda>e. \<not> (re_table e = t \<and> re_out e = b)) (gd_relations db)"
  by (simp_all add: delete_to_def)

lemma update_node_simps [simp]:
  "gd_relations (update_node i f db) = gd_relations db" "gd_created (update_node i f db) = gd_created db"
  "fmlookup (gd_nodes (update_node i f db)) j =
     (if j = i then map_option f (fmlookup (gd_nodes db) i) else fmlookup (gd_nodes db) j)"
  by (auto simp: update_node_def split: option.splits)

lemma wf_id: "graph_wf env db \<Longrightarrow> fmlookup (gd_nodes db) i = Some r \<Longrightarrow> nr_id r = i \<and> is_memory_node_id i"
  by (simp add: graph_wf_def)

lemma graph_wf_upsert [simp]: "graph_wf env (upsert_root r n d db) = graph_wf env db"
  by (simp add: graph_wf_def)

lemma graph_wf_relate:
  "graph_wf env db \<Longrightarrow> fmlookup (gd_nodes db) b \<noteq> None \<Longrightarrow>
   \<not> is_memory_node_id a \<or> fmlookup (gd_nodes db) a \<noteq> None \<Longrightarrow> graph_wf env (relate t a b p db)"
  by (auto simp: graph_wf_def)

lemma graph_wf_delete: "graph_wf env db \<Longrightarrow> graph_wf env (delete_to t b db)"
  by (auto simp: graph_wf_def)

lemma graph_wf_update:
  assumes "graph_wf env db" "\<And>r. nr_id (f r) = nr_id r"
  shows "graph_wf env (update_node i f db)"
proof -
  have "nr_id r = j \<and> is_memory_node_id j" if "fmlookup (gd_nodes (update_node i f db)) j = Some r" for j r
    using that assms wf_id [OF assms(1)] by (auto split: if_splits)
  moreover have "fmlookup (gd_nodes (update_node i f db)) (de_new_id env n) = None" if "gd_created db \<le> n" for n
    using that assms(1) by (auto simp: graph_wf_def)
  moreover have "fmlookup (gd_nodes (update_node i f db)) j = None \<longleftrightarrow> fmlookup (gd_nodes db) j = None" for j by auto
  moreover have "\<forall>e \<in> set (gd_relations db). fmlookup (gd_nodes db) (re_out e) \<noteq> None \<and>
      (is_memory_node_id (re_in e) \<longrightarrow> fmlookup (gd_nodes db) (re_in e) \<noteq> None)"
    using assms(1) unfolding graph_wf_def by blast
  ultimately show ?thesis unfolding graph_wf_def update_node_simps(1,2) by blast
qed

lemma create_node_simps:
  assumes "create_node env now tags content db = (r, db')"
  shows "nr_id r = de_new_id env (gd_created db)" "nr_content r = content" "nr_tags r = normalized_tags tags"
    "nr_created_at r = now" "nr_updated_at r = now" "nr_read_at r = None"
    "gd_relations db' = gd_relations db" "gd_created db' = Suc (gd_created db)"
    "gd_nodes db' = fmupd (nr_id r) r (gd_nodes db)"
  using assms by (auto simp: create_node_def Let_def)

lemma create_node_fresh:
  "graph_wf env db \<Longrightarrow> create_node env now tags content db = (r, db') \<Longrightarrow> fmlookup (gd_nodes db) (nr_id r) = None"
  by (simp add: graph_wf_def create_node_simps(1))

lemma create_node_lookup:
  assumes "graph_wf env db" "create_node env now tags content db = (r, db')"
  shows "fmlookup (gd_nodes db') (nr_id r) = Some r"
    and "fmlookup (gd_nodes db) j = Some x \<Longrightarrow> fmlookup (gd_nodes db') j = Some x"
  using create_node_fresh [OF assms] create_node_simps(9) [OF assms(2)] by auto

lemma graph_wf_create:
  assumes "ids_ok env" "graph_wf env db" and c: "create_node env now tags content db = (r, db')"
  shows "graph_wf env db'"
proof -
  note s = create_node_simps [OF c]
  have "nr_id x = j \<and> is_memory_node_id j" if "fmlookup (gd_nodes db') j = Some x" for j x
  proof (cases "j = nr_id r")
    case True
    have "is_memory_node_id (nr_id r)" unfolding s(1) using assms(1) by (simp add: ids_ok_def)
    then show ?thesis using that s(9) True by simp
  next
    case False
    then show ?thesis using that s(9) wf_id [OF assms(2)] by simp
  qed
  moreover have "fmlookup (gd_nodes db') (de_new_id env n) = None" if "Suc (gd_created db) \<le> n" for n
    using that s(1,9) assms(1,2) by (auto simp: ids_ok_def inj_eq graph_wf_def)
  moreover have "fmlookup (gd_nodes db) j \<noteq> None \<Longrightarrow> fmlookup (gd_nodes db') j \<noteq> None" for j
    using s(9) by auto
  ultimately show ?thesis using assms(2) unfolding graph_wf_def s(7,8) by blast
qed

section \<open>Reads change only the time of reading\<close>

text \<open>Everything of a record but its read time.\<close>

definition same_but_read :: "node_record \<Rightarrow> node_record \<Rightarrow> bool" where
  "same_but_read r s \<longleftrightarrow> r\<lparr> nr_read_at := None \<rparr> = s\<lparr> nr_read_at := None \<rparr>"

definition same_graph :: "graph_db \<Rightarrow> graph_db \<Rightarrow> bool" where
  "same_graph db db' \<longleftrightarrow> gd_relations db' = gd_relations db \<and> gd_created db' = gd_created db \<and>
     gd_roots db' = gd_roots db \<and>
     (\<forall>i. rel_option same_but_read (fmlookup (gd_nodes db) i) (fmlookup (gd_nodes db') i))"

lemma same_but_read_refl [simp]: "same_but_read r r"
  by (simp add: same_but_read_def)

lemma same_but_read_trans: "same_but_read r s \<Longrightarrow> same_but_read s t \<Longrightarrow> same_but_read r t"
  by (simp add: same_but_read_def)

lemma same_but_read_mark [simp]: "same_but_read r (mark_read_record now r)"
  by (simp add: same_but_read_def mark_read_record_def)

lemma same_but_read_fields:
  assumes "same_but_read r s"
  shows "nr_id s = nr_id r" "nr_content s = nr_content r" "nr_tags s = nr_tags r"
    "nr_created_at s = nr_created_at r" "nr_updated_at s = nr_updated_at r"
  using assms by (cases r; cases s; simp add: same_but_read_def)+

lemma same_graph_refl [simp]: "same_graph db db"
  by (simp add: same_graph_def option.rel_refl)

lemma same_graph_trans: "same_graph a b \<Longrightarrow> same_graph b c \<Longrightarrow> same_graph a c"
  unfolding same_graph_def
  by (smt (verit) option.rel_sel same_but_read_trans)

lemma same_graph_mark: "same_graph db (update_node i (mark_read_record now) db)"
proof -
  have "gd_roots (update_node i (mark_read_record now) db) = gd_roots db"
    by (simp add: update_node_def split: option.splits)
  moreover have "rel_option same_but_read x (map_option (mark_read_record now) x)" for x by (cases x) auto
  ultimately show ?thesis by (auto simp: same_graph_def option.rel_refl)
qed

lemma same_graph_lookup:
  assumes "same_graph db db'" "fmlookup (gd_nodes db) i = Some r"
  obtains s where "fmlookup (gd_nodes db') i = Some s" "same_but_read r s"
  using assms by (auto simp: same_graph_def) (metis option_rel_Some1)

lemma mark_records_same: "same_graph db (snd (mark_records_read now rs db))"
proof (induction rs arbitrary: db)
  case (Cons r rs)
  show ?case
  proof (cases "memory_node_record_id (nr_id r)")
    case (Inr i)
    let ?db1 = "update_node i (mark_read_record now) db"
    have "same_graph db (snd (mark_records_read now rs ?db1))"
      using same_graph_trans [OF same_graph_mark Cons.IH] .
    then show ?thesis using Inr by (auto simp: Let_def split: prod.splits sum.splits)
  qed simp
qed simp

lemma read_records_same: "same_graph db (snd (read_records parse now mark rs db))"
  using mark_records_same [of db now rs] by (auto simp: read_records_def split: prod.splits sum.splits)

lemma fold_mark_same: "same_graph db (fold (\<lambda>i. update_node i (mark_read_record now)) is db)"
  by (induction "is" arbitrary: db) (auto intro: same_graph_trans same_graph_mark)

lemma mark_record_ids_same: "same_graph db (snd (mark_record_ids_read now ids db))"
  by (auto simp: mark_record_ids_read_def fold_mark_same split: sum.splits)

lemma same_graph_wf: "same_graph db db' \<Longrightarrow> graph_wf env db \<Longrightarrow> graph_wf env db'"
proof -
  assume s: "same_graph db db'" and wf: "graph_wf env db"
  have look: "fmlookup (gd_nodes db') i = None \<longleftrightarrow> fmlookup (gd_nodes db) i = None" for i
    using s by (auto simp: same_graph_def) (metis option.rel_sel option.collapse)+
  have "nr_id r = i \<and> is_memory_node_id i" if r: "fmlookup (gd_nodes db') i = Some r" for i r
  proof -
    obtain x where x: "fmlookup (gd_nodes db) i = Some x" using look [of i] r by auto
    from same_graph_lookup [OF s x] r show ?thesis using wf_id [OF wf x] same_but_read_fields(1) by auto
  qed
  then show ?thesis using s wf look unfolding graph_wf_def same_graph_def by simp
qed

end
