(* ===== verification/MemoryStores.thy ===== *)
theory MemoryStores
  imports GraphDb
begin

text \<open>
  The typed stores of the graph memory: \<open>reframe_memory/sessions.py\<close>, \<open>conversations.py\<close>,
  \<open>session_memories.py\<close>, \<open>context_memories.py\<close>, \<open>providers.py\<close> and \<open>tasks.py\<close>. Every store keeps its
  nodes under a root; contents are stored as objects and parsed when they are read.
\<close>

section \<open>Contents\<close>

record session_content = sn_name :: string

record conversation_content = cn_name :: string

record message_content =
  mg_role :: string
  mg_content :: string

record titled_content =
  td_title :: string
  td_description :: string

record provider_content =
  pv_name :: string
  pv_description :: string
  pv_baml_surface :: string
  pv_model_id :: "string option"
  pv_reasoning_effort :: "string option"

record task_content =
  tc_name :: string
  tc_description :: string
  tc_input :: string
  tc_output :: string
  tc_prompt :: string
  tc_provider_id :: string

definition jopt_str :: "string option \<Rightarrow> json" where
  "jopt_str v = (case v of None \<Rightarrow> JNull | Some s \<Rightarrow> JStr s)"

definition session_dict :: "session_content \<Rightarrow> json" where
  "session_dict c = JObj [(''name'', JStr (sn_name c))]"

definition conversation_dict :: "conversation_content \<Rightarrow> json" where
  "conversation_dict c = JObj [(''name'', JStr (cn_name c))]"

definition message_dict :: "message_content \<Rightarrow> json" where
  "message_dict c = JObj [(''role'', JStr (mg_role c)), (''content'', JStr (mg_content c))]"

definition titled_dict :: "titled_content \<Rightarrow> json" where
  "titled_dict c = JObj [(''title'', JStr (td_title c)), (''description'', JStr (td_description c))]"

definition provider_dict :: "provider_content \<Rightarrow> json" where
  "provider_dict c = JObj [(''name'', JStr (pv_name c)), (''description'', JStr (pv_description c)),
     (''baml_surface'', JStr (pv_baml_surface c)), (''model_id'', jopt_str (pv_model_id c)),
     (''reasoning_effort'', jopt_str (pv_reasoning_effort c))]"

definition task_dict :: "task_content \<Rightarrow> json" where
  "task_dict c = JObj [(''name'', JStr (tc_name c)), (''description'', JStr (tc_description c)),
     (''input'', JStr (tc_input c)), (''output'', JStr (tc_output c)), (''prompt'', JStr (tc_prompt c)),
     (''provider_id'', JStr (tc_provider_id c))]"

definition parse_session :: "json \<Rightarrow> py_error + session_content" where
  "parse_session content = map_sum id (\<lambda>n. \<lparr> sn_name = n \<rparr>) (content_str content ''name'')"

definition parse_conversation :: "json \<Rightarrow> py_error + conversation_content" where
  "parse_conversation content = map_sum id (\<lambda>n. \<lparr> cn_name = n \<rparr>) (content_str content ''name'')"

definition message_roles :: "string list" where
  "message_roles = [''human'', ''agent'', ''agent_thought'', ''agent_reply_interrupted'', ''validation_reply'']"

definition parse_conversation_message :: "json \<Rightarrow> py_error + message_content" where
  "parse_conversation_message content =
     (case content_str content ''role'' of
        Inl e \<Rightarrow> Inl e
      | Inr role \<Rightarrow>
          if role \<notin> set message_roles
          then Inl (ValueError (''conversation message role must be human, agent, agent_thought, agent_reply_interrupted, or validation_reply, got '' @ py_repr role))
          else map_sum id (\<lambda>t. \<lparr> mg_role = role, mg_content = t \<rparr>) (content_str content ''content''))"

definition parse_titled :: "json \<Rightarrow> py_error + titled_content" where
  "parse_titled content =
     (case content_str content ''title'' of
        Inl e \<Rightarrow> Inl e
      | Inr t \<Rightarrow> map_sum id (\<lambda>d. \<lparr> td_title = t, td_description = d \<rparr>) (content_str content ''description''))"

definition optional_string :: "json option \<Rightarrow> string option" where
  "optional_string v =
     (case v of
        None \<Rightarrow> None
      | Some JNull \<Rightarrow> None
      | Some w \<Rightarrow> if py_str_json w = [] then None else Some (py_str_json w))"

definition parse_provider :: "json \<Rightarrow> py_error + provider_content" where
  "parse_provider content =
     (case content_str content ''name'' of
        Inl e \<Rightarrow> Inl e
      | Inr n \<Rightarrow>
          (case content_str content ''description'' of
             Inl e \<Rightarrow> Inl e
           | Inr d \<Rightarrow>
               map_sum id (\<lambda>s. \<lparr> pv_name = n, pv_description = d, pv_baml_surface = s,
                                 pv_model_id = optional_string (obj_get content ''model_id''),
                                 pv_reasoning_effort = optional_string (obj_get content ''reasoning_effort'') \<rparr>)
                 (content_str content ''baml_surface'')))"

fun content_strs :: "json \<Rightarrow> string list \<Rightarrow> py_error + string list" where
  "content_strs content [] = Inr []"
| "content_strs content (k # ks) =
     (case content_str content k of
        Inl e \<Rightarrow> Inl e
      | Inr v \<Rightarrow> map_sum id ((#) v) (content_strs content ks))"

definition parse_task :: "json \<Rightarrow> py_error + task_content" where
  "parse_task content =
     (case content_strs content [''name'', ''description'', ''input'', ''output'', ''prompt'', ''provider_id''] of
        Inr [n, d, i, u, p, v] \<Rightarrow>
          map_sum id (\<lambda>w. \<lparr> tc_name = n, tc_description = d, tc_input = i, tc_output = u, tc_prompt = p,
                            tc_provider_id = w \<rparr>) (memory_node_record_id v)
      | Inl e \<Rightarrow> Inl e
      | Inr _ \<Rightarrow> Inl AssertionError)"

section \<open>Roots\<close>

definition SESSIONS_ROOT_ID :: string where "SESSIONS_ROOT_ID = ''memory_root:sessions''"
definition CONVERSATIONS_ROOT_ID :: string where "CONVERSATIONS_ROOT_ID = ''memory_root:conversations''"
definition SESSION_MEMORIES_ROOT_ID :: string where "SESSION_MEMORIES_ROOT_ID = ''memory_root:session_memories''"
definition PROVIDERS_ROOT_ID :: string where "PROVIDERS_ROOT_ID = ''memory_root:providers''"
definition TASKS_ROOT_ID :: string where "TASKS_ROOT_ID = ''memory_root:tasks''"

text \<open>The six collections of context memories.\<close>

datatype context_collection =
    Task_choice | Conversation_evaluation | Search_depth | Relevance | Task_prompt | User_preference

fun collection_root :: "context_collection \<Rightarrow> string" where
  "collection_root Task_choice = ''memory_root:task_choice_memories''"
| "collection_root Conversation_evaluation = ''memory_root:conversation_evaluation_memories''"
| "collection_root Search_depth = ''memory_root:search_depth_memories''"
| "collection_root Relevance = ''memory_root:relevance_memories''"
| "collection_root Task_prompt = ''memory_root:task_prompt_memories''"
| "collection_root User_preference = ''memory_root:user_preferences''"

fun collection_name :: "context_collection \<Rightarrow> string \<times> string" where
  "collection_name Task_choice =
     (''Task Choice Memories'', ''Nodes connected from this root guide the task-choice prompt step.'')"
| "collection_name Conversation_evaluation =
     (''Conversation Evaluation Memories'', ''Nodes connected from this root guide conversation evaluation.'')"
| "collection_name Search_depth =
     (''Search Depth Memories'', ''Nodes connected from this root guide memory search depth selection.'')"
| "collection_name Relevance =
     (''Relevance Memories'', ''Nodes connected from this root guide memory relevance selection.'')"
| "collection_name Task_prompt =
     (''Task Prompt Memories'', ''Nodes connected from this root guide task-prompt composition.'')"
| "collection_name User_preference =
     (''User Preferences'', ''Nodes connected from this root are durable global user preferences.'')"

definition ensure_sessions_root :: "graph_db \<Rightarrow> graph_db" where
  "ensure_sessions_root = upsert_root SESSIONS_ROOT_ID ''Sessions'' ''Nodes connected from this root are user sessions.''"

definition ensure_conversations_root :: "graph_db \<Rightarrow> graph_db" where
  "ensure_conversations_root = upsert_root CONVERSATIONS_ROOT_ID ''Conversations''
     ''Nodes connected from this root are conversations grouped under sessions.''"

definition ensure_session_memories_root :: "graph_db \<Rightarrow> graph_db" where
  "ensure_session_memories_root = upsert_root SESSION_MEMORIES_ROOT_ID ''Session Memories''
     ''Nodes connected from this root are memories scoped to a session.''"

definition ensure_providers_root :: "graph_db \<Rightarrow> graph_db" where
  "ensure_providers_root = upsert_root PROVIDERS_ROOT_ID ''Providers''
     ''Nodes connected from this root are model or agent providers. Each node content object is a Provider with name, description, and baml_surface.''"

definition ensure_tasks_root :: "graph_db \<Rightarrow> graph_db" where
  "ensure_tasks_root = upsert_root TASKS_ROOT_ID ''Tasks''
     ''Nodes connected from this root are Task control-flow primitives. Each node content object is a Task with name, description, input, output, prompt, and provider_id.''"

definition ensure_context_root :: "context_collection \<Rightarrow> graph_db \<Rightarrow> graph_db" where
  "ensure_context_root c = upsert_root (collection_root c) (fst (collection_name c)) (snd (collection_name c))"

text \<open>\<open>MemoryDatabase.ensure_roots\<close>, without the root of the filesystem memories.\<close>

definition ensure_roots :: "graph_db \<Rightarrow> graph_db" where
  "ensure_roots db =
     ensure_context_root User_preference (ensure_context_root Task_prompt (ensure_context_root Relevance
       (ensure_context_root Search_depth (ensure_context_root Conversation_evaluation
         (ensure_context_root Task_choice (ensure_session_memories_root (ensure_conversations_root
           (ensure_sessions_root (ensure_tasks_root (ensure_providers_root db))))))))))"

section \<open>Sessions\<close>

text \<open>What every \<open>create\<close> does: make the node, connect it to its root, and parse it back.\<close>

definition create_under ::
  "db_env \<Rightarrow> (json \<Rightarrow> py_error + 'a) \<Rightarrow> nat \<Rightarrow> string \<Rightarrow> json \<Rightarrow> string list \<Rightarrow> graph_db \<Rightarrow>
   (py_error + 'a memory_node) \<times> graph_db" where
  "create_under env parse now rid content tags db =
     (let (r, db1) = create_node env now tags content db;
          db2 = relate ''contains'' rid (nr_id r) 0 db1
      in (memory_node_from_record parse r, db2))"

text \<open>The same with an edge from a parent node.\<close>

definition create_child ::
  "db_env \<Rightarrow> (json \<Rightarrow> py_error + 'a) \<Rightarrow> nat \<Rightarrow> string \<Rightarrow> string \<Rightarrow> string \<Rightarrow> json \<Rightarrow> string list \<Rightarrow> graph_db \<Rightarrow>
   (py_error + 'a memory_node) \<times> graph_db" where
  "create_child env parse now rid table parent content tags db =
     (let (r, db1) = create_node env now tags content db;
          db2 = relate ''contains'' rid (nr_id r) 0 db1;
          db3 = relate table parent (nr_id r) 0 db2
      in (memory_node_from_record parse r, db3))"

definition session_create ::
  "db_env \<Rightarrow> nat \<Rightarrow> session_content \<Rightarrow> string list \<Rightarrow> graph_db \<Rightarrow>
   (py_error + session_content memory_node) \<times> graph_db" where
  "session_create env now c tags db = create_under env parse_session now SESSIONS_ROOT_ID (session_dict c) tags db"

definition session_get ::
  "nat \<Rightarrow> string \<Rightarrow> bool \<Rightarrow> graph_db \<Rightarrow> (py_error + session_content memory_node option) \<times> graph_db" where
  "session_get now session_id mark db = get_node parse_session now SESSIONS_ROOT_ID session_id mark db"

record name_search =
  ns_tags :: tag_search
  ns_strings :: string_search
  ns_names :: "string list"

definition name_node_search :: "name_search \<Rightarrow> node_search" where
  "name_node_search s =
     \<lparr> nq_tags = ns_tags s, nq_strings = ns_strings s, nq_string_fields = [''name''],
       nq_content_contains = [(''name'', ns_names s)], nq_content_equals = [] \<rparr>"

definition session_search ::
  "db_env \<Rightarrow> nat \<Rightarrow> name_search option \<Rightarrow> bool \<Rightarrow> graph_db \<Rightarrow>
   (py_error + session_content memory_node list) \<times> graph_db" where
  "session_search env now search mark db =
     search_nodes env parse_session now SESSIONS_ROOT_ID (map_option name_node_search search) mark db"

definition conversations_for ::
  "nat \<Rightarrow> string \<Rightarrow> bool \<Rightarrow> graph_db \<Rightarrow> (py_error + conversation_content memory_node list) \<times> graph_db" where
  "conversations_for now session_id mark db = read_related parse_conversation now ''has_conversation'' session_id mark db"

definition memories_for ::
  "nat \<Rightarrow> string \<Rightarrow> bool \<Rightarrow> graph_db \<Rightarrow> (py_error + titled_content memory_node list) \<times> graph_db" where
  "memories_for now session_id mark db = read_related parse_titled now ''has_session_memory'' session_id mark db"

definition ensure_session :: "string \<Rightarrow> graph_db \<Rightarrow> py_error + string" where
  "ensure_session session_id db =
     ensure_under SESSIONS_ROOT_ID ''session does not exist under Sessions root: '' session_id db"

section \<open>Conversations\<close>

definition conversation_create ::
  "db_env \<Rightarrow> nat \<Rightarrow> string \<Rightarrow> conversation_content \<Rightarrow> string list \<Rightarrow> graph_db \<Rightarrow>
   (py_error + conversation_content memory_node) \<times> graph_db" where
  "conversation_create env now session_id c tags db =
     (case ensure_session session_id db of
        Inl e \<Rightarrow> (Inl e, db)
      | Inr sid \<Rightarrow>
          create_child env parse_conversation now CONVERSATIONS_ROOT_ID ''has_conversation'' sid
            (conversation_dict c) tags db)"

definition ensure_conversation :: "string \<Rightarrow> graph_db \<Rightarrow> py_error + string" where
  "ensure_conversation conversation_id db =
     ensure_under CONVERSATIONS_ROOT_ID ''conversation does not exist under Conversations root: '' conversation_id db"

definition touch :: "nat \<Rightarrow> string \<Rightarrow> graph_db \<Rightarrow> graph_db" where
  "touch now i db = update_node i (\<lambda>r. r\<lparr> nr_updated_at := now \<rparr>) db"

definition add_message ::
  "db_env \<Rightarrow> nat \<Rightarrow> string \<Rightarrow> message_content \<Rightarrow> string list \<Rightarrow> int option \<Rightarrow> graph_db \<Rightarrow>
   (py_error + message_content memory_node) \<times> graph_db" where
  "add_message env now conversation_id m tags position db =
     (case ensure_conversation conversation_id db of
        Inl e \<Rightarrow> (Inl e, db)
      | Inr cid \<Rightarrow>
          let pos = (case position of Some p \<Rightarrow> p | None \<Rightarrow> next_position ''has_message'' cid db);
              (r, db1) = create_node env now tags (message_dict m) db;
              db2 = relate ''has_message'' cid (nr_id r) pos db1;
              db3 = touch now cid db2
          in (memory_node_from_record parse_conversation_message r, db3))"

fun read_in_order ::
  "(json \<Rightarrow> py_error + 'a) \<Rightarrow> nat \<Rightarrow> bool \<Rightarrow> string list \<Rightarrow> graph_db \<Rightarrow>
   (py_error + 'a memory_node list) \<times> graph_db" where
  "read_in_order parse now mark [] db = (Inr [], db)"
| "read_in_order parse now mark (i # is) db =
     (case memory_node_record_id i of
        Inl e \<Rightarrow> (Inl e, db)
      | Inr j \<Rightarrow>
          (case read_records parse now mark (existing db [j]) db of
             (Inl e, db1) \<Rightarrow> (Inl e, db1)
           | (Inr ns, db1) \<Rightarrow>
               (case read_in_order parse now mark is db1 of
                  (Inl e, db2) \<Rightarrow> (Inl e, db2)
                | (Inr ms, db2) \<Rightarrow> (Inr (ns @ ms), db2))))"

definition conversation_messages ::
  "nat \<Rightarrow> string \<Rightarrow> bool \<Rightarrow> graph_db \<Rightarrow> (py_error + message_content memory_node list) \<times> graph_db" where
  "conversation_messages now conversation_id mark db =
     (case memory_node_record_id conversation_id of
        Inl e \<Rightarrow> (Inl e, db)
      | Inr cid \<Rightarrow> read_in_order parse_conversation_message now mark (ordered_out ''has_message'' cid db) db)"

definition conversation_search ::
  "db_env \<Rightarrow> nat \<Rightarrow> name_search option \<Rightarrow> bool \<Rightarrow> graph_db \<Rightarrow>
   (py_error + conversation_content memory_node list) \<times> graph_db" where
  "conversation_search env now search mark db =
     search_nodes env parse_conversation now CONVERSATIONS_ROOT_ID (map_option name_node_search search) mark db"

section \<open>Session memories and context memories\<close>

record titled_search =
  tq_tags :: tag_search
  tq_strings :: string_search
  tq_titles :: "string list"
  tq_descriptions :: "string list"

definition titled_node_search :: "titled_search \<Rightarrow> node_search" where
  "titled_node_search s =
     \<lparr> nq_tags = tq_tags s, nq_strings = tq_strings s, nq_string_fields = [''title'', ''description''],
       nq_content_contains = [(''title'', tq_titles s), (''description'', tq_descriptions s)],
       nq_content_equals = [] \<rparr>"

definition session_memory_create ::
  "db_env \<Rightarrow> nat \<Rightarrow> string \<Rightarrow> titled_content \<Rightarrow> string list \<Rightarrow> graph_db \<Rightarrow>
   (py_error + titled_content memory_node) \<times> graph_db" where
  "session_memory_create env now session_id c tags db =
     (case ensure_session session_id db of
        Inl e \<Rightarrow> (Inl e, db)
      | Inr sid \<Rightarrow>
          create_child env parse_titled now SESSION_MEMORIES_ROOT_ID ''has_session_memory'' sid (titled_dict c) tags db)"

definition session_memory_search ::
  "db_env \<Rightarrow> nat \<Rightarrow> titled_search option \<Rightarrow> bool \<Rightarrow> graph_db \<Rightarrow>
   (py_error + titled_content memory_node list) \<times> graph_db" where
  "session_memory_search env now search mark db =
     search_nodes env parse_titled now SESSION_MEMORIES_ROOT_ID (map_option titled_node_search search) mark db"

definition session_memories_for_session ::
  "nat \<Rightarrow> string \<Rightarrow> bool \<Rightarrow> graph_db \<Rightarrow> (py_error + titled_content memory_node list) \<times> graph_db" where
  "session_memories_for_session now session_id mark db =
     read_related parse_titled now ''has_session_memory'' session_id mark db"

definition context_create ::
  "db_env \<Rightarrow> nat \<Rightarrow> context_collection \<Rightarrow> titled_content \<Rightarrow> string list \<Rightarrow> graph_db \<Rightarrow>
   (py_error + titled_content memory_node) \<times> graph_db" where
  "context_create env now coll c tags db =
     create_under env parse_titled now (collection_root coll) (titled_dict c) tags db"

definition context_search ::
  "db_env \<Rightarrow> nat \<Rightarrow> context_collection \<Rightarrow> titled_search option \<Rightarrow> bool \<Rightarrow> graph_db \<Rightarrow>
   (py_error + titled_content memory_node list) \<times> graph_db" where
  "context_search env now coll search mark db =
     search_nodes env parse_titled now (collection_root coll) (map_option titled_node_search search) mark db"

section \<open>Providers and tasks\<close>

record provider_query =
  ps_tags :: tag_search
  ps_strings :: string_search
  ps_names :: "string list"
  ps_descriptions :: "string list"
  ps_baml_surfaces :: "string list"
  ps_model_ids :: "string list"
  ps_reasoning_efforts :: "string list"

definition provider_node_search :: "provider_query \<Rightarrow> node_search" where
  "provider_node_search s =
     \<lparr> nq_tags = ps_tags s, nq_strings = ps_strings s,
       nq_string_fields = [''name'', ''description'', ''baml_surface'', ''model_id'', ''reasoning_effort''],
       nq_content_contains = [(''name'', ps_names s), (''description'', ps_descriptions s),
                              (''baml_surface'', ps_baml_surfaces s)],
       nq_content_equals = [(''model_id'', ps_model_ids s), (''reasoning_effort'', ps_reasoning_efforts s)] \<rparr>"

definition provider_create ::
  "db_env \<Rightarrow> nat \<Rightarrow> provider_content \<Rightarrow> string list \<Rightarrow> graph_db \<Rightarrow>
   (py_error + provider_content memory_node) \<times> graph_db" where
  "provider_create env now c tags db =
     create_under env parse_provider now PROVIDERS_ROOT_ID (provider_dict c) tags db"

definition rewrite_record :: "nat \<Rightarrow> string list \<Rightarrow> json \<Rightarrow> node_record \<Rightarrow> node_record" where
  "rewrite_record now tags content r =
     r\<lparr> nr_tags := normalized_tags tags, nr_content := content, nr_updated_at := now \<rparr>"

definition provider_update ::
  "nat \<Rightarrow> string \<Rightarrow> provider_content \<Rightarrow> string list \<Rightarrow> graph_db \<Rightarrow>
   (py_error + provider_content memory_node) \<times> graph_db" where
  "provider_update now provider_id c tags db =
     (case memory_node_record_id provider_id of
        Inl e \<Rightarrow> (Inl e, db)
      | Inr i \<Rightarrow>
          let db1 = update_node i (rewrite_record now tags (provider_dict c)) db in
          (case fmlookup (gd_nodes db1) i of
             None \<Rightarrow> (Inl (ValueError (''provider does not exist: '' @ provider_id)), db1)
           | Some r \<Rightarrow> (memory_node_from_record parse_provider r, db1)))"

definition provider_get ::
  "nat \<Rightarrow> string \<Rightarrow> bool \<Rightarrow> graph_db \<Rightarrow> (py_error + provider_content memory_node option) \<times> graph_db" where
  "provider_get now provider_id mark db = get_node parse_provider now PROVIDERS_ROOT_ID provider_id mark db"

definition provider_search ::
  "db_env \<Rightarrow> nat \<Rightarrow> provider_query option \<Rightarrow> bool \<Rightarrow> graph_db \<Rightarrow>
   (py_error + provider_content memory_node list) \<times> graph_db" where
  "provider_search env now search mark db =
     search_nodes env parse_provider now PROVIDERS_ROOT_ID (map_option provider_node_search search) mark db"

definition tasks_for ::
  "nat \<Rightarrow> string \<Rightarrow> bool \<Rightarrow> graph_db \<Rightarrow> (py_error + task_content memory_node list) \<times> graph_db" where
  "tasks_for now provider_id mark db = read_related parse_task now ''provides_task'' provider_id mark db"

definition ensure_provider :: "string \<Rightarrow> graph_db \<Rightarrow> py_error + string" where
  "ensure_provider provider_id db =
     ensure_under PROVIDERS_ROOT_ID ''task provider does not exist under Providers root: '' provider_id db"

record task_query =
  tx_tags :: tag_search
  tx_strings :: string_search
  tx_names :: "string list"
  tx_descriptions :: "string list"
  tx_inputs :: "string list"
  tx_outputs :: "string list"
  tx_prompts :: "string list"
  tx_provider_ids :: "string list"

definition task_node_search :: "task_query \<Rightarrow> py_error + node_search" where
  "task_node_search s =
     (case checked_ids (tx_provider_ids s) of
        Inl e \<Rightarrow> Inl e
      | Inr providers \<Rightarrow>
          Inr \<lparr> nq_tags = tx_tags s, nq_strings = tx_strings s,
                nq_string_fields = [''name'', ''description'', ''input'', ''output'', ''prompt'', ''provider_id''],
                nq_content_contains = [(''name'', tx_names s), (''description'', tx_descriptions s),
                  (''input'', tx_inputs s), (''output'', tx_outputs s), (''prompt'', tx_prompts s)],
                nq_content_equals = [(''provider_id'', dict_fromkeys providers)] \<rparr>)"

definition task_create ::
  "db_env \<Rightarrow> nat \<Rightarrow> task_content \<Rightarrow> string list \<Rightarrow> graph_db \<Rightarrow>
   (py_error + task_content memory_node) \<times> graph_db" where
  "task_create env now c tags db =
     (case ensure_provider (tc_provider_id c) db of
        Inl e \<Rightarrow> (Inl e, db)
      | Inr pid \<Rightarrow> create_child env parse_task now TASKS_ROOT_ID ''provides_task'' pid (task_dict c) tags db)"

definition task_update ::
  "nat \<Rightarrow> string \<Rightarrow> task_content \<Rightarrow> string list \<Rightarrow> graph_db \<Rightarrow>
   (py_error + task_content memory_node) \<times> graph_db" where
  "task_update now task_id c tags db =
     (case ensure_provider (tc_provider_id c) db of
        Inl e \<Rightarrow> (Inl e, db)
      | Inr pid \<Rightarrow>
          (case memory_node_record_id task_id of
             Inl e \<Rightarrow> (Inl e, db)
           | Inr i \<Rightarrow>
               let db1 = update_node i (rewrite_record now tags (task_dict c)) db in
               (case fmlookup (gd_nodes db1) i of
                  None \<Rightarrow> (Inl (ValueError (''task does not exist: '' @ task_id)), db1)
                | Some r \<Rightarrow>
                    (memory_node_from_record parse_task r,
                     relate ''provides_task'' pid i 0 (delete_to ''provides_task'' i db1)))))"

definition task_get ::
  "nat \<Rightarrow> string \<Rightarrow> bool \<Rightarrow> graph_db \<Rightarrow> (py_error + task_content memory_node option) \<times> graph_db" where
  "task_get now task_id mark db = get_node parse_task now TASKS_ROOT_ID task_id mark db"

definition task_search ::
  "db_env \<Rightarrow> nat \<Rightarrow> task_query option \<Rightarrow> bool \<Rightarrow> graph_db \<Rightarrow>
   (py_error + task_content memory_node list) \<times> graph_db" where
  "task_search env now search mark db =
     (case (case search of None \<Rightarrow> Inr None | Some s \<Rightarrow> map_sum id Some (task_node_search s)) of
        Inl e \<Rightarrow> (Inl e, db)
      | Inr q \<Rightarrow> search_nodes env parse_task now TASKS_ROOT_ID q mark db)"

end
