(* ===== verification/TaskHistory.thy ===== *)
theory TaskHistory
  imports MemoryStores "HOL-Library.List_Lexorder" "HOL-Library.Char_ord"
begin

text \<open>
  \<open>reframe_memory/task_history.py\<close>: histories of tasks, whose nodes carry a session, a
  conversation and the actions taken, in order. The inputs and outputs of actions are JSON values
  (what \<open>_json_value\<close> makes of its argument).
\<close>

section \<open>Contents\<close>

record history_node =
  hn_session :: string
  hn_conversation :: string

record action_content =
  an_name :: string
  an_input :: json
  an_output :: json

record history_record =
  hr_node :: "history_node memory_node"
  hr_actions :: "action_content memory_node list"

definition parse_task_history :: "json \<Rightarrow> py_error + unit" where
  "parse_task_history content = Inr ()"

definition parse_session_action :: "json \<Rightarrow> py_error + unit" where
  "parse_session_action content = Inr ()"

definition content_record_id :: "json \<Rightarrow> string \<Rightarrow> py_error + string" where
  "content_record_id content key =
     (case content_str content key of Inl e \<Rightarrow> Inl e | Inr v \<Rightarrow> memory_node_record_id v)"

definition parse_history_node :: "json \<Rightarrow> py_error + history_node" where
  "parse_history_node content =
     (case content_record_id content ''session'' of
        Inl e \<Rightarrow> Inl e
      | Inr s \<Rightarrow> map_sum id (\<lambda>c. \<lparr> hn_session = s, hn_conversation = c \<rparr>)
                   (content_record_id content ''conversation''))"

definition parse_action :: "json \<Rightarrow> py_error + action_content" where
  "parse_action content =
     map_sum id (\<lambda>n. \<lparr> an_name = n,
                       an_input = (case obj_get content ''input'' of None \<Rightarrow> JObj [] | Some v \<Rightarrow> v),
                       an_output = (case obj_get content ''output'' of None \<Rightarrow> JObj [] | Some v \<Rightarrow> v) \<rparr>)
       (content_str content ''name'')"

definition action_dict :: "string \<Rightarrow> json \<Rightarrow> json \<Rightarrow> json" where
  "action_dict name inp outp = JObj [(''name'', JStr name), (''input'', inp), (''output'', outp)]"

definition history_dict :: "string \<Rightarrow> string \<Rightarrow> json" where
  "history_dict s c = JObj [(''session'', JStr s), (''conversation'', JStr c)]"

definition history_tags :: "string \<Rightarrow> string list \<Rightarrow> string list" where
  "history_tags kind tags = dict_fromkeys (kind # ''task-history'' # tags)"

section \<open>Operations\<close>

definition history_create ::
  "db_env \<Rightarrow> nat \<Rightarrow> string list \<Rightarrow> graph_db \<Rightarrow> (py_error + unit memory_node) \<times> graph_db" where
  "history_create env now tags db =
     (let (r, db1) = create_node env now (history_tags ''task-history'' tags) (JObj []) db
      in (memory_node_from_record parse_task_history r, db1))"

definition create_action ::
  "db_env \<Rightarrow> nat \<Rightarrow> string \<Rightarrow> json \<Rightarrow> json \<Rightarrow> string list \<Rightarrow> graph_db \<Rightarrow>
   (py_error + action_content memory_node) \<times> graph_db" where
  "create_action env now name inp outp tags db =
     (let (r, db1) = create_node env now (history_tags ''action'' tags) (action_dict name inp outp) db
      in (memory_node_from_record parse_action r, db1))"

definition create_session_action ::
  "db_env \<Rightarrow> nat \<Rightarrow> string \<Rightarrow> string list \<Rightarrow> graph_db \<Rightarrow> (py_error + unit memory_node) \<times> graph_db" where
  "create_session_action env now action_id tags db =
     (case memory_node_record_id action_id of
        Inl e \<Rightarrow> (Inl e, db)
      | Inr a \<Rightarrow>
          let (r, db1) = create_node env now (history_tags ''session-action'' tags) (JObj []) db in
          (case memory_node_record_id (nr_id r) of
             Inl e \<Rightarrow> (Inl e, db1)
           | Inr s \<Rightarrow> (memory_node_from_record parse_session_action r, relate ''action'' s a 0 db1)))"

definition record_action ::
  "db_env \<Rightarrow> nat \<Rightarrow> string \<Rightarrow> json \<Rightarrow> json \<Rightarrow> string list \<Rightarrow> graph_db \<Rightarrow>
   (py_error + unit memory_node) \<times> graph_db" where
  "record_action env now name inp outp tags db =
     (case create_action env now name inp outp tags db of
        (Inl e, db1) \<Rightarrow> (Inl e, db1)
      | (Inr a, db1) \<Rightarrow> create_session_action env now (mn_id a) tags db1)"

text \<open>The loop of \<open>append_node\<close>: an invalid id stops it after the edges before it were made.\<close>

fun relate_actions :: "string \<Rightarrow> nat \<Rightarrow> string list \<Rightarrow> graph_db \<Rightarrow> (py_error + unit) \<times> graph_db" where
  "relate_actions node pos [] db = (Inr (), db)"
| "relate_actions node pos (a # as) db =
     (case memory_node_record_id a of
        Inl e \<Rightarrow> (Inl e, db)
      | Inr i \<Rightarrow> relate_actions node (Suc pos) as (relate ''actions'' node i (int pos) db))"

definition append_node ::
  "db_env \<Rightarrow> nat \<Rightarrow> string \<Rightarrow> string \<Rightarrow> string \<Rightarrow> string list \<Rightarrow> string list \<Rightarrow> graph_db \<Rightarrow>
   (py_error + history_node memory_node) \<times> graph_db" where
  "append_node env now task_history_id session_id conversation_id actions tags db =
     (case checked_ids [task_history_id, session_id, conversation_id] of
        Inr [th, s, c] \<Rightarrow>
          let (r, db1) = create_node env now (history_tags ''task-history-node'' tags) (history_dict s c) db in
          (case memory_node_record_id (nr_id r) of
             Inl e \<Rightarrow> (Inl e, db1)
           | Inr node \<Rightarrow>
               (case relate_actions node 0 actions db1 of
                  (Inl e, db2) \<Rightarrow> (Inl e, db2)
                | (Inr _, db2) \<Rightarrow>
                    let db3 = touch now th (relate ''history'' th node (next_position ''history'' th db2) db2)
                    in (memory_node_from_record parse_history_node r, db3)))
      | Inl e \<Rightarrow> (Inl e, db)
      | Inr _ \<Rightarrow> (Inl AssertionError, db))"

text \<open>\<open>SELECT * FROM id\<close> and the parse of the first record, as both lookups end.\<close>

definition select_node ::
  "(json \<Rightarrow> py_error + 'a) \<Rightarrow> string \<Rightarrow> graph_db \<Rightarrow> py_error + 'a memory_node option" where
  "select_node parse node_id db =
     (case memory_node_record_id node_id of
        Inl e \<Rightarrow> Inl e
      | Inr i \<Rightarrow>
          (case existing db [i] of
             [] \<Rightarrow> Inr None
           | r # _ \<Rightarrow> map_sum id Some (memory_node_from_record parse r)))"

definition action_for_session_action :: "string \<Rightarrow> graph_db \<Rightarrow> py_error + action_content memory_node option" where
  "action_for_session_action session_action_id db =
     (case memory_node_record_id session_action_id of
        Inl e \<Rightarrow> Inl e
      | Inr s \<Rightarrow>
          (case edges ''action'' s db of
             [] \<Rightarrow> Inr None
           | e # _ \<Rightarrow> select_node parse_action (re_out e) db))"

text \<open>A loop that keeps what is found and stops at the first failure.\<close>

fun collect_found :: "('i \<Rightarrow> 'e + 'a option) \<Rightarrow> 'i list \<Rightarrow> 'e + 'a list" where
  "collect_found f [] = Inr []"
| "collect_found f (i # is) =
     (case f i of
        Inl e \<Rightarrow> Inl e
      | Inr None \<Rightarrow> collect_found f is
      | Inr (Some x) \<Rightarrow> map_sum id ((#) x) (collect_found f is))"

definition actions_for_node :: "string \<Rightarrow> graph_db \<Rightarrow> py_error + action_content memory_node list" where
  "actions_for_node node_id db =
     (case memory_node_record_id node_id of
        Inl e \<Rightarrow> Inl e
      | Inr n \<Rightarrow> collect_found (\<lambda>i. action_for_session_action i db) (ordered_out ''actions'' n db))"

definition history_record_at :: "graph_db \<Rightarrow> string \<Rightarrow> py_error + history_record option" where
  "history_record_at db i =
     (case select_node parse_history_node i db of
        Inl e \<Rightarrow> Inl e
      | Inr None \<Rightarrow> Inr None
      | Inr (Some n) \<Rightarrow>
          map_sum id (\<lambda>as. Some \<lparr> hr_node = n, hr_actions = as \<rparr>) (actions_for_node (mn_id n) db))"

definition history_records :: "string \<Rightarrow> graph_db \<Rightarrow> py_error + history_record list" where
  "history_records task_history_id db =
     (case memory_node_record_id task_history_id of
        Inl e \<Rightarrow> Inl e
      | Inr th \<Rightarrow> collect_found (history_record_at db) (ordered_out ''history'' th db))"

section \<open>Rendering\<close>

text \<open>\<open>json.dumps(value, indent=2, sort_keys=True)\<close> with its escapes.\<close>

definition json_escape :: "char \<Rightarrow> string" where
  "json_escape c =
     (let n = of_char c :: nat in
      if c = CHR 0x22 then [CHR 0x5C, CHR 0x22]
      else if c = CHR 0x5C then [CHR 0x5C, CHR 0x5C]
      else if n = 10 then [CHR 0x5C, CHR ''n'']
      else if n = 13 then [CHR 0x5C, CHR ''r'']
      else if n = 9 then [CHR 0x5C, CHR ''t'']
      else if n = 12 then [CHR 0x5C, CHR ''f'']
      else if n = 8 then [CHR 0x5C, CHR ''b'']
      else if 32 \<le> n \<and> n \<le> 126 then [c]
      else [CHR 0x5C, CHR ''u'', CHR ''0'', CHR ''0'', hex_char (n div 16), hex_char (n mod 16)])"

definition json_string :: "string \<Rightarrow> string" where
  "json_string s = [CHR 0x22] @ concat (map json_escape s) @ [CHR 0x22]"

definition new_line :: "nat \<Rightarrow> string" where
  "new_line level = CHR 0x0A # replicate (2 * level) (CHR '' '')"

fun json_text_at :: "nat \<Rightarrow> json \<Rightarrow> string" where
  "json_text_at level JNull = ''null''"
| "json_text_at level (JBool b) = (if b then ''true'' else ''false'')"
| "json_text_at level (JInt i) = py_str_int i"
| "json_text_at level (JStr s) = json_string s"
| "json_text_at level (JList xs) =
     (if xs = [] then ''[]''
      else ''['' @ new_line (Suc level) @
           py_join ('','' @ new_line (Suc level)) (map (json_text_at (Suc level)) xs) @ new_line level @ '']'')"
| "json_text_at level (JObj kvs) =
     (if kvs = [] then ''{}''
      else ''{'' @ new_line (Suc level) @
           py_join ('','' @ new_line (Suc level))
             (map (\<lambda>(k, t). json_string k @ '': '' @ t)
                (sort_key fst (map (\<lambda>(k, v). (k, json_text_at (Suc level) v)) kvs))) @ new_line level @ ''}'')"

definition json_text :: "json \<Rightarrow> string" where
  "json_text v = json_text_at 0 v"

definition indent :: "string \<Rightarrow> nat \<Rightarrow> string" where
  "indent txt spaces = py_join [CHR 0x0A] (map ((@) (replicate spaces (CHR '' ''))) (splitlines_from [] txt))"

definition action_lines :: "action_content memory_node \<Rightarrow> string list" where
  "action_lines a =
     [''  - Action:'', ''      name: '' @ an_name (mn_content a),
      ''      input:'', indent (json_text (an_input (mn_content a))) 8,
      ''      output:'', indent (json_text (an_output (mn_content a))) 8]"

definition record_lines :: "history_record \<Rightarrow> string list" where
  "record_lines r =
     [''- Session: '' @ hn_session (mn_content (hr_node r)),
      ''  Conversation: '' @ hn_conversation (mn_content (hr_node r)), ''  Actions:''] @
     (if hr_actions r = [] then [''  - Action: none''] else concat (map action_lines (hr_actions r)))"

definition history_render :: "string \<Rightarrow> graph_db \<Rightarrow> py_error + string" where
  "history_render task_history_id db =
     map_sum id (\<lambda>rs. if rs = [] then ''No recorded actions.'' else py_join [CHR 0x0A] (concat (map record_lines rs)))
       (history_records task_history_id db)"

end
