(* ===== verification/StoreInvariants.thy ===== *)
theory StoreInvariants
  imports TaskHistory
begin

text \<open>
  What the typed stores of theory \<open>MemoryStores\<close> guarantee: what is created is found again (the
  interface \<open>memory_store\<close>, provided by each store), the messages of a conversation stay in the
  order they were added, and over every sequence of operations each node keeps the kind of
  content that its edges promise, so that no read fails.
\<close>

section \<open>The interface of a store\<close>

locale memory_store =
  fixes parse :: "json \<Rightarrow> py_error + 'a" and dict :: "'a \<Rightarrow> json" and ok :: "'a \<Rightarrow> bool"
  assumes parse_dict: "ok c \<Longrightarrow> parse (dict c) = Inr c"
    and dict_obj: "\<exists>kvs. dict c = JObj kvs"
begin

lemma stored_node:
  assumes "ok c" "nr_content r = dict c"
  shows "\<exists>n. memory_node_from_record parse r = Inr n \<and> mn_content n = c \<and> mn_id n = nr_id r \<and>
    mn_tags n = nr_tags r"
  using assms parse_dict [of c] dict_obj [of c] by (auto simp: memory_node_from_record_def)

lemma create_get:
  assumes ids: "ids_ok env" and wf: "graph_wf env db" and ok: "ok c"
    and create: "create_under env parse now rid (dict c) tags db = (r, db')"
  shows "\<exists>n. r = Inr n \<and> mn_content n = c \<and> mn_tags n = normalized_tags tags \<and>
    get_node parse now' rid (mn_id n) False db' = (Inr (Some n), db')"
proof -
  obtain x db1 where x: "create_node env now tags (dict c) db = (x, db1)" by fastforce
  have db': "db' = relate ''contains'' rid (nr_id x) 0 db1" and r: "r = memory_node_from_record parse x"
    using create x by (auto simp: create_under_def)
  note s = create_node_simps [OF x]
  obtain n where n: "memory_node_from_record parse x = Inr n" "mn_content n = c" "mn_id n = nr_id x"
      "mn_tags n = nr_tags x" using stored_node [OF ok s(2)] by blast
  have id: "is_memory_node_id (nr_id x)" using ids by (simp add: s(1) ids_ok_def)
  have look: "fmlookup (gd_nodes db') (nr_id x) = Some x" using create_node_lookup(1) [OF wf x] db' by simp
  have old: "nr_id y \<noteq> nr_id x" if y: "y \<in> set (related ''contains'' rid db)" for y
  proof -
    obtain i where "fmlookup (gd_nodes db) i = Some y"
      using y by (auto simp: related_def existing_def split: option.splits)
    then show ?thesis using wf_id [OF wf] create_node_fresh [OF wf x] by auto
  qed
  have "fmlookup (gd_nodes db1) (re_out e) = fmlookup (gd_nodes db) (re_out e)" if "e \<in> set (gd_relations db)" for e
    using that wf create_node_fresh [OF wf x] s(9) by (auto simp: graph_wf_def)
  then have "related ''contains'' rid db' = related ''contains'' rid db @ [x]"
    using look s(7) db' unfolding related_def existing_def edges_def
    by (auto intro!: arg_cong [of _ _ concat] simp: db')
  then have "under_root rid (nr_id x) db' = [x]"
    unfolding under_root_def using old by (simp add: filter_empty_conv [THEN iffD2])
  then show ?thesis
    using n id s(3) r by (simp add: get_node_def read_records_def)
qed

end

interpretation sessions: memory_store parse_session session_dict "\<lambda>_. True"
  by unfold_locales (simp_all add: parse_session_def session_dict_def content_str_def obj_get_def)

interpretation conversations: memory_store parse_conversation conversation_dict "\<lambda>_. True"
  by unfold_locales (simp_all add: parse_conversation_def conversation_dict_def content_str_def obj_get_def)

interpretation messages: memory_store parse_conversation_message message_dict "\<lambda>m. mg_role m \<in> set message_roles"
  by unfold_locales (simp_all add: parse_conversation_message_def message_dict_def content_str_def obj_get_def)

interpretation titled: memory_store parse_titled titled_dict "\<lambda>_. True"
  by unfold_locales (simp_all add: parse_titled_def titled_dict_def content_str_def obj_get_def)

text \<open>An empty optional string of a provider is read back as absent.\<close>

definition provider_ok :: "provider_content \<Rightarrow> bool" where
  "provider_ok c \<longleftrightarrow> pv_model_id c \<noteq> Some [] \<and> pv_reasoning_effort c \<noteq> Some []"

interpretation providers: memory_store parse_provider provider_dict provider_ok
proof unfold_locales
  fix c :: provider_content
  have opt: "v \<noteq> Some [] \<Longrightarrow> optional_string (Some (jopt_str v)) = v" for v
    by (cases v) (simp_all add: optional_string_def jopt_str_def)
  assume "provider_ok c"
  then show "parse_provider (provider_dict c) = Inr c"
    by (simp add: parse_provider_def provider_dict_def content_str_def obj_get_def provider_ok_def opt)
qed (simp add: provider_dict_def)

interpretation tasks: memory_store parse_task task_dict "\<lambda>c. is_memory_node_id (tc_provider_id c)"
  by unfold_locales (simp_all add: parse_task_def task_dict_def content_str_def obj_get_def)

section \<open>Kinds of content\<close>

datatype content_kind = Named | Message | Titled | Provider_kind | Task_kind

fun has_kind :: "content_kind \<Rightarrow> json \<Rightarrow> bool" where
  "has_kind Named c \<longleftrightarrow> (\<exists>n. c = JObj [(''name'', JStr n)])"
| "has_kind Message c \<longleftrightarrow> (\<exists>m. mg_role m \<in> set message_roles \<and> c = message_dict m)"
| "has_kind Titled c \<longleftrightarrow> (\<exists>t. c = titled_dict t)"
| "has_kind Provider_kind c \<longleftrightarrow> (\<exists>p. c = provider_dict p)"
| "has_kind Task_kind c \<longleftrightarrow> (\<exists>t. is_memory_node_id (tc_provider_id t) \<and> c = task_dict t)"

lemma has_kind_unique: "has_kind k c \<Longrightarrow> has_kind k' c \<Longrightarrow> k = k'"
  by (cases k; cases k') (auto simp: message_dict_def titled_dict_def provider_dict_def task_dict_def)

text \<open>The kind a root or a relation table promises.\<close>

definition root_kinds :: "(string \<times> content_kind) list" where
  "root_kinds =
     [(SESSIONS_ROOT_ID, Named), (CONVERSATIONS_ROOT_ID, Named), (SESSION_MEMORIES_ROOT_ID, Titled),
      (PROVIDERS_ROOT_ID, Provider_kind), (TASKS_ROOT_ID, Task_kind)] @
     map (\<lambda>c. (collection_root c, Titled))
       [Task_choice, Conversation_evaluation, Search_depth, Relevance, Task_prompt, User_preference]"

definition table_kinds :: "(string \<times> content_kind) list" where
  "table_kinds =
     [(''has_conversation'', Named), (''has_message'', Message), (''has_session_memory'', Titled),
      (''provides_task'', Task_kind)]"

definition edge_kind :: "string \<Rightarrow> string \<Rightarrow> content_kind option" where
  "edge_kind table a = (if table = ''contains'' then map_of root_kinds a else map_of table_kinds table)"

lemmas root_id_defs = SESSIONS_ROOT_ID_def CONVERSATIONS_ROOT_ID_def SESSION_MEMORIES_ROOT_ID_def
  PROVIDERS_ROOT_ID_def TASKS_ROOT_ID_def

lemma edge_kind_roots [simp]:
  "edge_kind ''contains'' SESSIONS_ROOT_ID = Some Named"
  "edge_kind ''contains'' CONVERSATIONS_ROOT_ID = Some Named"
  "edge_kind ''contains'' SESSION_MEMORIES_ROOT_ID = Some Titled"
  "edge_kind ''contains'' PROVIDERS_ROOT_ID = Some Provider_kind"
  "edge_kind ''contains'' TASKS_ROOT_ID = Some Task_kind"
  "edge_kind ''contains'' (collection_root coll) = Some Titled"
  by (simp_all add: edge_kind_def root_kinds_def root_id_defs) (cases coll; simp)

lemma edge_kind_tables [simp]:
  "edge_kind ''has_conversation'' a = Some Named" "edge_kind ''has_message'' a = Some Message"
  "edge_kind ''has_session_memory'' a = Some Titled" "edge_kind ''provides_task'' a = Some Task_kind"
  "edge_kind ''history'' a = None" "edge_kind ''actions'' a = None" "edge_kind ''action'' a = None"
  by (simp_all add: edge_kind_def table_kinds_def)

lemma root_not_node [simp]:
  "\<not> is_memory_node_id SESSIONS_ROOT_ID" "\<not> is_memory_node_id CONVERSATIONS_ROOT_ID"
  "\<not> is_memory_node_id SESSION_MEMORIES_ROOT_ID" "\<not> is_memory_node_id PROVIDERS_ROOT_ID"
  "\<not> is_memory_node_id TASKS_ROOT_ID" "\<not> is_memory_node_id (collection_root coll)"
  by (simp_all add: root_id_defs is_memory_node_id_def) (cases coll; simp)

lemma roots_differ [simp]:
  "SESSIONS_ROOT_ID \<noteq> TASKS_ROOT_ID" "CONVERSATIONS_ROOT_ID \<noteq> TASKS_ROOT_ID"
  "SESSION_MEMORIES_ROOT_ID \<noteq> TASKS_ROOT_ID" "PROVIDERS_ROOT_ID \<noteq> TASKS_ROOT_ID"
  "collection_root coll \<noteq> TASKS_ROOT_ID"
  by (simp_all add: root_id_defs) (cases coll; simp)

section \<open>The invariant\<close>

definition graph_typed :: "graph_db \<Rightarrow> bool" where
  "graph_typed db \<longleftrightarrow> (\<forall>e k r. e \<in> set (gd_relations db) \<longrightarrow> edge_kind (re_table e) (re_in e) = Some k \<longrightarrow>
     fmlookup (gd_nodes db) (re_out e) = Some r \<longrightarrow> has_kind k (nr_content r))"

definition contained :: "string \<Rightarrow> string \<Rightarrow> graph_db \<Rightarrow> bool" where
  "contained rid i db \<longleftrightarrow>
     (\<exists>e \<in> set (gd_relations db). re_table e = ''contains'' \<and> re_in e = rid \<and> re_out e = i)"

definition task_edges :: "string \<Rightarrow> graph_db \<Rightarrow> relation list" where
  "task_edges i db = filter (\<lambda>e. re_table e = ''provides_task'' \<and> re_out e = i) (gd_relations db)"

definition tasks_provided :: "graph_db \<Rightarrow> bool" where
  "tasks_provided db \<longleftrightarrow> (\<forall>i r. contained TASKS_ROOT_ID i db \<longrightarrow> fmlookup (gd_nodes db) i = Some r \<longrightarrow>
     (\<exists>c. nr_content r = task_dict c \<and> map re_in (task_edges i db) = [tc_provider_id c] \<and>
          contained PROVIDERS_ROOT_ID (tc_provider_id c) db))"

definition store_inv :: "db_env \<Rightarrow> graph_db \<Rightarrow> bool" where
  "store_inv env db \<longleftrightarrow> graph_wf env db \<and> graph_typed db \<and> tasks_provided db"

lemma related_iff:
  "r \<in> set (related table a db) \<longleftrightarrow> (\<exists>e \<in> set (edges table a db). fmlookup (gd_nodes db) (re_out e) = Some r)"
proof -
  have "r \<in> set (case x of None \<Rightarrow> [] | Some r \<Rightarrow> [r]) \<longleftrightarrow> x = Some r" for x by (cases x) auto
  then show ?thesis by (simp add: related_def existing_def)
qed

lemma under_root_contained:
  "graph_wf env db \<Longrightarrow> under_root rid i db \<noteq> [] \<longleftrightarrow> contained rid i db"
proof -
  assume wf: "graph_wf env db"
  have "under_root rid i db \<noteq> [] \<longleftrightarrow> (\<exists>r \<in> set (related ''contains'' rid db). nr_id r = i)"
    by (auto simp: under_root_def filter_empty_conv)
  also have "\<dots> \<longleftrightarrow> contained rid i db"
    using wf_id [OF wf] wf by (fastforce simp: related_iff contained_def edges_def graph_wf_def)
  finally show ?thesis .
qed

lemma contained_exists: "graph_wf env db \<Longrightarrow> contained rid i db \<Longrightarrow> \<exists>r. fmlookup (gd_nodes db) i = Some r"
  by (auto simp: contained_def graph_wf_def)

lemma contained_kind:
  "graph_typed db \<Longrightarrow> contained rid i db \<Longrightarrow> edge_kind ''contains'' rid = Some k \<Longrightarrow>
   fmlookup (gd_nodes db) i = Some r \<Longrightarrow> has_kind k (nr_content r)"
  by (auto simp: graph_typed_def contained_def)

lemma ensure_under_Inr:
  assumes "graph_wf env db" "ensure_under rid missing i db = Inr j"
  shows "j = i" "contained rid i db" "\<exists>r. fmlookup (gd_nodes db) i = Some r"
  using assms under_root_contained [OF assms(1)] contained_exists [OF assms(1)]
  by (auto simp: ensure_under_def record_id_Inr split: sum.splits if_splits)

section \<open>Preservation\<close>

lemma typed_create:
  assumes "graph_wf env db" "graph_typed db" and c: "create_node env now tags content db = (r, db')"
  shows "graph_typed db'"
  using assms(1,2) create_node_fresh [OF assms(1) c] create_node_simps(7,9) [OF c]
  by (auto simp: graph_typed_def graph_wf_def)

lemma typed_relate:
  assumes "graph_typed db"
    and "\<And>k r. edge_kind t a = Some k \<Longrightarrow> fmlookup (gd_nodes db) b = Some r \<Longrightarrow> has_kind k (nr_content r)"
  shows "graph_typed (relate t a b p db)"
  using assms by (auto simp: graph_typed_def)

lemma typed_delete: "graph_typed db \<Longrightarrow> graph_typed (delete_to t b db)"
  by (auto simp: graph_typed_def)

lemma typed_update:
  assumes "graph_typed db"
    and "\<And>r k. fmlookup (gd_nodes db) i = Some r \<Longrightarrow> has_kind k (nr_content r) \<Longrightarrow> has_kind k (nr_content (f r))"
  shows "graph_typed (update_node i f db)"
  using assms by (auto simp: graph_typed_def)

lemma typed_same: "same_graph db db' \<Longrightarrow> graph_typed db \<Longrightarrow> graph_typed db'"
  unfolding graph_typed_def same_graph_def
  by (metis option_rel_Some2 same_but_read_fields(2))

text \<open>What the tasks and their providers depend on.\<close>

lemma provided_keep:
  assumes "tasks_provided db"
    and "\<And>i. contained TASKS_ROOT_ID i db' \<Longrightarrow> contained TASKS_ROOT_ID i db"
    and "\<And>i. contained PROVIDERS_ROOT_ID i db \<Longrightarrow> contained PROVIDERS_ROOT_ID i db'"
    and "\<And>i r. contained TASKS_ROOT_ID i db \<Longrightarrow> fmlookup (gd_nodes db') i = Some r \<Longrightarrow>
       task_edges i db' = task_edges i db \<and> (\<exists>s. fmlookup (gd_nodes db) i = Some s \<and> nr_content s = nr_content r)"
  shows "tasks_provided db'"
  unfolding tasks_provided_def
proof (intro allI impI)
  fix i r assume i: "contained TASKS_ROOT_ID i db'" "fmlookup (gd_nodes db') i = Some r"
  have "contained TASKS_ROOT_ID i db" using assms(2) i(1) .
  with assms(4) [OF this i(2)] assms(1,3) show "\<exists>c. nr_content r = task_dict c \<and>
      map re_in (task_edges i db') = [tc_provider_id c] \<and> contained PROVIDERS_ROOT_ID (tc_provider_id c) db'"
    unfolding tasks_provided_def by metis
qed

lemma contained_cong: "gd_relations db' = gd_relations db \<Longrightarrow> contained rid i db' = contained rid i db"
  by (simp add: contained_def)

lemma task_edges_cong: "gd_relations db' = gd_relations db \<Longrightarrow> task_edges i db' = task_edges i db"
  by (simp add: task_edges_def)

lemma contained_relate:
  "contained rid i (relate t a b p db) \<longleftrightarrow> contained rid i db \<or> t = ''contains'' \<and> a = rid \<and> b = i"
  by (auto simp: contained_def)

lemma task_edges_relate:
  "task_edges i (relate t a b p db) =
     task_edges i db @ (if t = ''provides_task'' \<and> b = i then [\<lparr> re_table = t, re_in = a, re_out = b, re_position = p \<rparr>] else [])"
  by (simp add: task_edges_def)

lemma contained_delete: "t \<noteq> ''contains'' \<Longrightarrow> contained rid i (delete_to t b db) = contained rid i db"
  by (auto simp: contained_def)

lemma task_edges_delete:
  "task_edges i (delete_to t b db) = (if t = ''provides_task'' \<and> b = i then [] else task_edges i db)"
  by (auto simp: task_edges_def intro: filter_cong)

lemma provided_create:
  assumes "graph_wf env db" "tasks_provided db" and c: "create_node env now tags content db = (r, db')"
  shows "tasks_provided db'"
proof (rule provided_keep [OF assms(2)])
  note s = create_node_simps(7,9) [OF c]
  show "contained TASKS_ROOT_ID i db' \<Longrightarrow> contained TASKS_ROOT_ID i db" for i using s by (simp add: contained_def)
  show "contained PROVIDERS_ROOT_ID i db \<Longrightarrow> contained PROVIDERS_ROOT_ID i db'" for i using s by (simp add: contained_def)
  show "task_edges i db' = task_edges i db \<and> (\<exists>x. fmlookup (gd_nodes db) i = Some x \<and> nr_content x = nr_content y)"
    if "contained TASKS_ROOT_ID i db" "fmlookup (gd_nodes db') i = Some y" for i y
    using contained_exists [OF assms(1) that(1)] that(2) s create_node_fresh [OF assms(1) c]
    by (auto simp: task_edges_def split: if_splits)
qed

lemma provided_relate:
  "tasks_provided db \<Longrightarrow> t \<noteq> ''provides_task'' \<Longrightarrow> t \<noteq> ''contains'' \<or> a \<noteq> TASKS_ROOT_ID \<Longrightarrow>
   tasks_provided (relate t a b p db)"
  by (erule provided_keep) (auto simp: contained_relate task_edges_relate)

lemma provided_update:
  assumes "tasks_provided db"
    and "\<And>r. contained TASKS_ROOT_ID i db \<Longrightarrow> fmlookup (gd_nodes db) i = Some r \<Longrightarrow> nr_content (f r) = nr_content r"
  shows "tasks_provided (update_node i f db)"
  using assms(1)
  by (rule provided_keep) (use assms(2) in \<open>auto simp: contained_def task_edges_def split: if_splits\<close>)

lemma provided_same:
  assumes "same_graph db db'" "tasks_provided db"
  shows "tasks_provided db'"
proof (rule provided_keep [OF assms(2)])
  have rel: "gd_relations db' = gd_relations db" using assms(1) by (simp add: same_graph_def)
  show "contained TASKS_ROOT_ID i db' \<Longrightarrow> contained TASKS_ROOT_ID i db" for i using rel by (simp add: contained_def)
  show "contained PROVIDERS_ROOT_ID i db \<Longrightarrow> contained PROVIDERS_ROOT_ID i db'" for i using rel by (simp add: contained_def)
  show "task_edges i db' = task_edges i db \<and> (\<exists>x. fmlookup (gd_nodes db) i = Some x \<and> nr_content x = nr_content y)"
    if "fmlookup (gd_nodes db') i = Some y" for i y
    using assms(1) that task_edges_cong [OF rel] same_but_read_fields(2)
    by (metis option_rel_Some2 same_graph_def)
qed

lemma inv_same: "store_inv env db \<Longrightarrow> same_graph db db' \<Longrightarrow> store_inv env db'"
  by (auto simp: store_inv_def intro: same_graph_wf typed_same provided_same)

lemma inv_create:
  assumes "ids_ok env" "store_inv env db" "create_node env now tags content db = (r, db')"
  shows "store_inv env db'"
  using graph_wf_create [OF assms(1) _ assms(3)] typed_create [OF _ _ assms(3)] provided_create [OF _ _ assms(3)] assms(2)
  by (simp add: store_inv_def)

lemma inv_relate:
  assumes "store_inv env db" "t \<noteq> ''provides_task''" "t \<noteq> ''contains'' \<or> a \<noteq> TASKS_ROOT_ID"
    and b: "fmlookup (gd_nodes db) b = Some r"
    and a: "\<not> is_memory_node_id a \<or> fmlookup (gd_nodes db) a \<noteq> None"
    and k: "\<And>k. edge_kind t a = Some k \<Longrightarrow> has_kind k (nr_content r)"
  shows "store_inv env (relate t a b p db)"
proof -
  have "graph_typed (relate t a b p db)"
    by (rule typed_relate) (use assms(1) b k in \<open>auto simp: store_inv_def\<close>)
  then show ?thesis
    using assms(1) graph_wf_relate [of env db b a t p] provided_relate [OF _ assms(2,3)] a b by (simp add: store_inv_def)
qed

lemma inv_touch: "store_inv env db \<Longrightarrow> store_inv env (touch now i db)"
  by (auto simp: store_inv_def touch_def intro: graph_wf_update typed_update provided_update)

lemma inv_create_under:
  assumes "ids_ok env" "store_inv env db" "rid \<noteq> TASKS_ROOT_ID" "\<not> is_memory_node_id rid"
    and "edge_kind ''contains'' rid = Some k" "has_kind k content"
  shows "store_inv env (snd (create_under env parse now rid content tags db))"
proof -
  obtain r db1 where c: "create_node env now tags content db = (r, db1)" by fastforce
  have "store_inv env (relate ''contains'' rid (nr_id r) 0 db1)"
  proof (rule inv_relate [OF inv_create [OF assms(1,2) c]])
    show "fmlookup (gd_nodes db1) (nr_id r) = Some r" using create_node_simps(9) [OF c] by simp
  qed (use assms create_node_simps(2) [OF c] in auto)
  then show ?thesis by (simp add: create_under_def c)
qed

lemma inv_create_child:
  assumes "ids_ok env" "store_inv env db" "rid \<noteq> TASKS_ROOT_ID" "\<not> is_memory_node_id rid"
    and "edge_kind ''contains'' rid = Some k" "has_kind k content"
    and t: "t \<noteq> ''provides_task''" "t \<noteq> ''contains''" "edge_kind t parent = Some k"
    and p: "fmlookup (gd_nodes db) parent \<noteq> None"
  shows "store_inv env (snd (create_child env parse now rid t parent content tags db))"
proof -
  obtain r db1 where c: "create_node env now tags content db = (r, db1)" by fastforce
  have inv: "store_inv env (relate ''contains'' rid (nr_id r) 0 db1)"
    using inv_create_under [OF assms(1-6), of parse now tags] by (simp add: create_under_def c)
  have "store_inv env (relate t parent (nr_id r) 0 (relate ''contains'' rid (nr_id r) 0 db1))"
  proof (rule inv_relate [OF inv t(1)])
    show "fmlookup (gd_nodes (relate ''contains'' rid (nr_id r) 0 db1)) (nr_id r) = Some r"
      using create_node_simps(9) [OF c] by simp
  qed (use assms(6) t p create_node_simps(2,9) [OF c] in auto)
  then show ?thesis by (simp add: create_child_def c)
qed

text \<open>A new task comes with its only edge from its provider.\<close>

lemma inv_create_task:
  assumes ids: "ids_ok env" and inv: "store_inv env db" and p: "contained PROVIDERS_ROOT_ID (tc_provider_id x) db"
    and v: "is_memory_node_id (tc_provider_id x)"
  shows "store_inv env (snd (create_child env parse now TASKS_ROOT_ID ''provides_task'' (tc_provider_id x) (task_dict x) tags db))"
proof -
  obtain r db1 where c: "create_node env now tags (task_dict x) db = (r, db1)" by fastforce
  let ?db2 = "relate ''contains'' TASKS_ROOT_ID (nr_id r) 0 db1"
  let ?db3 = "relate ''provides_task'' (tc_provider_id x) (nr_id r) 0 ?db2"
  note s = create_node_simps [OF c]
  have wf: "graph_wf env db" and inv1: "store_inv env db1" using inv inv_create [OF ids inv c] by (simp_all add: store_inv_def)
  have look: "fmlookup (gd_nodes db1) (nr_id r) = Some r" using s(9) by simp
  have kind: "has_kind Task_kind (nr_content r)" using v s(2) by auto
  have p1: "fmlookup (gd_nodes db1) (tc_provider_id x) \<noteq> None" using contained_exists [OF wf p] s(9) by auto
  have new: "\<not> contained rid (nr_id r) db" for rid
    using contained_exists [OF wf] create_node_fresh [OF wf c] by fastforce
  have "task_edges (nr_id r) db1 = []"
    using wf create_node_fresh [OF wf c] s(7) by (auto simp: task_edges_def filter_empty_conv graph_wf_def)
  moreover have "contained PROVIDERS_ROOT_ID (tc_provider_id x) db1" using p contained_cong [OF s(7)] by simp
  ultimately have "tasks_provided ?db3"
    using inv1 look s(2) new contained_cong [OF s(7)] roots_differ(4)
    by (fastforce simp: tasks_provided_def store_inv_def contained_relate task_edges_relate)
  moreover have "graph_wf env ?db3"
    using inv1 look p1 by (auto simp: store_inv_def intro!: graph_wf_relate)
  moreover have "graph_typed ?db3"
    using inv1 look kind by (auto simp: store_inv_def intro!: typed_relate)
  ultimately show ?thesis by (simp add: store_inv_def create_child_def c)
qed

lemma inv_rewrite:
  assumes inv: "store_inv env db" and i: "contained rid i db" "edge_kind ''contains'' rid = Some k" "k \<noteq> Task_kind"
    and c: "has_kind k content"
  shows "store_inv env (update_node i (rewrite_record now tags content) db)"
proof -
  have kind: "has_kind k (nr_content r)" if "fmlookup (gd_nodes db) i = Some r" for r
    using contained_kind [OF _ i(1,2) that] inv by (simp add: store_inv_def)
  have "graph_typed (update_node i (rewrite_record now tags content) db)"
    by (rule typed_update) (use inv c kind has_kind_unique in \<open>auto simp: store_inv_def rewrite_record_def\<close>)
  moreover have "tasks_provided (update_node i (rewrite_record now tags content) db)"
  proof (rule provided_update)
    fix r assume r: "contained TASKS_ROOT_ID i db" "fmlookup (gd_nodes db) i = Some r"
    have "has_kind Task_kind (nr_content r)"
      using contained_kind [OF _ r(1) edge_kind_roots(5) r(2)] inv by (simp add: store_inv_def)
    then show "nr_content (rewrite_record now tags content r) = nr_content r"
      using has_kind_unique [OF kind [OF r(2)]] i(3) by blast
  qed (use inv in \<open>simp add: store_inv_def\<close>)
  ultimately show ?thesis
    using inv graph_wf_update [of env db "rewrite_record now tags content" i]
    by (simp add: store_inv_def rewrite_record_def)
qed

text \<open>An updated task has its old edges replaced by one from its new provider.\<close>

lemma inv_update_task:
  assumes inv: "store_inv env db" and i: "contained TASKS_ROOT_ID i db"
    and p: "contained PROVIDERS_ROOT_ID (tc_provider_id x) db" and v: "is_memory_node_id (tc_provider_id x)"
  shows "store_inv env (relate ''provides_task'' (tc_provider_id x) i 0
    (delete_to ''provides_task'' i (update_node i (rewrite_record now tags (task_dict x)) db)))"
    (is "store_inv env (relate _ _ _ _ (delete_to _ _ ?db1))")
proof -
  have wf: "graph_wf env db" and ty: "graph_typed db" and tp: "tasks_provided db" using inv by (simp_all add: store_inv_def)
  obtain r where r: "fmlookup (gd_nodes db) i = Some r" using contained_exists [OF wf i] by blast
  have kind: "has_kind Task_kind (nr_content r)" using contained_kind [OF ty i edge_kind_roots(5) r] .
  have new: "has_kind Task_kind (task_dict x)" using v by auto
  have "graph_typed ?db1"
  proof (rule typed_update [OF ty])
    fix s k assume "fmlookup (gd_nodes db) i = Some s" "has_kind k (nr_content s)"
    then have "k = Task_kind" using r has_kind_unique [OF kind] by auto
    then show "has_kind k (nr_content (rewrite_record now tags (task_dict x) s))" using new by (simp add: rewrite_record_def)
  qed
  then have "graph_typed (relate ''provides_task'' (tc_provider_id x) i 0 (delete_to ''provides_task'' i ?db1))"
    by (rule typed_relate [OF typed_delete]) (use r new in \<open>auto simp: rewrite_record_def\<close>)
  moreover have "graph_wf env (relate ''provides_task'' (tc_provider_id x) i 0 (delete_to ''provides_task'' i ?db1))"
    by (rule graph_wf_relate [OF graph_wf_delete [OF graph_wf_update [OF wf]]])
      (use r contained_exists [OF wf p] in \<open>auto simp: rewrite_record_def\<close>)
  moreover have "tasks_provided (relate ''provides_task'' (tc_provider_id x) i 0 (delete_to ''provides_task'' i ?db1))"
    using tp p r
    by (auto simp: tasks_provided_def contained_relate contained_delete task_edges_relate task_edges_delete
        contained_cong [of ?db1 db] task_edges_cong [of ?db1 db] rewrite_record_def split: if_splits)
  ultimately show ?thesis by (simp add: store_inv_def)
qed

section \<open>Reachable databases\<close>

definition has_node :: "string \<Rightarrow> graph_db \<Rightarrow> bool" where
  "has_node i db \<longleftrightarrow> fmlookup (gd_nodes db) i \<noteq> None"

text \<open>
  One operation of a store. Roles come from the type of the argument; the two updates are called
  with an id of their own store; the actions of a history node exist. A read changes nothing but
  read times (lemma \<open>store_reads\<close>).
\<close>

inductive store_step :: "db_env \<Rightarrow> graph_db \<Rightarrow> graph_db \<Rightarrow> bool" for env where
  roots: "store_step env db (ensure_roots db)"
| read: "same_graph db db' \<Longrightarrow> store_step env db db'"
| session: "store_step env db (snd (session_create env now c tags db))"
| conversation: "store_step env db (snd (conversation_create env now session_id cc tags db))"
| message: "mg_role m \<in> set message_roles \<Longrightarrow>
    store_step env db (snd (add_message env now conversation_id m tags position db))"
| session_memory: "store_step env db (snd (session_memory_create env now session_id t tags db))"
| context_memory: "store_step env db (snd (context_create env now coll t tags db))"
| provider: "store_step env db (snd (provider_create env now p tags db))"
| update_provider: "under_root PROVIDERS_ROOT_ID i db \<noteq> [] \<Longrightarrow>
    store_step env db (snd (provider_update now i p tags db))"
| task: "store_step env db (snd (task_create env now x tags db))"
| update_task: "under_root TASKS_ROOT_ID i db \<noteq> [] \<Longrightarrow> store_step env db (snd (task_update now i x tags db))"
| history: "store_step env db (snd (history_create env now tags db))"
| action: "store_step env db (snd (create_action env now name inp outp tags db))"
| session_action: "has_node a db \<Longrightarrow> store_step env db (snd (create_session_action env now a tags db))"
| append: "has_node th db \<Longrightarrow> list_all (\<lambda>a. has_node a db) actions \<Longrightarrow>
    store_step env db (snd (append_node env now th session_id conversation_id actions tags db))"

inductive store_reachable :: "db_env \<Rightarrow> graph_db \<Rightarrow> bool" for env where
  init: "store_reachable env empty_graph"
| step: "store_reachable env db \<Longrightarrow> store_step env db db' \<Longrightarrow> store_reachable env db'"

lemma inv_init: "store_inv env empty_graph"
  by (simp add: store_inv_def graph_typed_def tasks_provided_def contained_def empty_graph_def)
    (simp flip: empty_graph_def)

lemma has_node_relate [simp]: "has_node i (relate t a b p db) = has_node i db"
  by (simp add: has_node_def)

lemma inv_relate_plain:
  assumes "store_inv env db" "has_node a db" "has_node b db" "t \<in> {''history'', ''actions'', ''action''}"
  shows "store_inv env (relate t a b p db)"
proof -
  obtain r where r: "fmlookup (gd_nodes db) b = Some r" using assms(3) by (auto simp: has_node_def)
  show ?thesis by (rule inv_relate [OF assms(1) _ _ r]) (use assms in \<open>auto simp: has_node_def\<close>)
qed

lemma inv_relate_actions:
  assumes "store_inv env db" "has_node n db" "list_all (\<lambda>a. has_node a db) as"
  shows "store_inv env (snd (relate_actions n pos as db)) \<and>
    gd_nodes (snd (relate_actions n pos as db)) = gd_nodes db"
  using assms
proof (induction as arbitrary: pos db)
  case (Cons a as)
  show ?case
  proof (cases "memory_node_record_id a")
    case (Inr i)
    then have i: "i = a" by (simp add: record_id_Inr)
    have "store_inv env (relate ''actions'' n i (int pos) db)"
      by (rule inv_relate_plain) (use Cons.prems i in auto)
    from Cons.IH [OF this] show ?thesis using Cons.prems Inr by simp
  qed (use Cons.prems in simp)
qed simp

lemma inv_append_node:
  assumes ids: "ids_ok env" and inv: "store_inv env db" and th: "has_node th db"
    and as: "list_all (\<lambda>a. has_node a db) as"
  shows "store_inv env (snd (append_node env now th sid cid as tags db))"
proof (cases "checked_ids [th, sid, cid]")
  case (Inr vs)
  then have vs: "vs = [th, sid, cid]" by (auto simp: record_id_Inr split: sum.splits)
  obtain r db1 where c: "create_node env now (history_tags ''task-history-node'' tags) (history_dict sid cid) db = (r, db1)"
    by fastforce
  note s = create_node_simps [OF c]
  have old: "has_node i db \<Longrightarrow> has_node i db1" for i using s(9) by (auto simp: has_node_def)
  have r: "has_node (nr_id r) db1" using s(9) by (simp add: has_node_def)
  have id: "memory_node_record_id (nr_id r) = Inr (nr_id r)" using ids s(1) by (simp add: ids_ok_def)
  obtain res db2 where a: "relate_actions (nr_id r) 0 as db1 = (res, db2)" by fastforce
  have "list_all (\<lambda>a. has_node a db1) as" using as old by (auto simp: list_all_iff)
  from inv_relate_actions [OF inv_create [OF ids inv c] r this, of 0]
  have inv2: "store_inv env db2" "gd_nodes db2 = gd_nodes db1" using a by simp_all
  have "store_inv env (relate ''history'' th (nr_id r) p db2)" for p
    by (rule inv_relate_plain [OF inv2(1)]) (use old [OF th] r inv2(2) in \<open>simp_all add: has_node_def\<close>)
  then show ?thesis using inv2(1)
    unfolding append_node_def Inr vs by (auto simp: c id a Let_def inv_touch split: sum.splits)
qed (use inv in \<open>simp add: append_node_def\<close>)

lemma inv_add_message:
  assumes ids: "ids_ok env" and inv: "store_inv env db" and m: "mg_role m \<in> set message_roles"
  shows "store_inv env (snd (add_message env now conversation_id m tags position db))"
proof (cases "ensure_conversation conversation_id db")
  case (Inr cid)
  have wf: "graph_wf env db" using inv by (simp add: store_inv_def)
  have cid: "fmlookup (gd_nodes db) cid \<noteq> None"
    using ensure_under_Inr [OF wf Inr [unfolded ensure_conversation_def]] by auto
  obtain r db1 where c: "create_node env now tags (message_dict m) db = (r, db1)" by fastforce
  note s = create_node_simps [OF c]
  have look: "fmlookup (gd_nodes db1) (nr_id r) = Some r" using s(9) by simp
  have "store_inv env (relate ''has_message'' cid (nr_id r) p db1)" for p
    by (rule inv_relate [OF inv_create [OF ids inv c] _ _ look]) (use cid s(2,9) m in auto)
  then show ?thesis using Inr by (simp add: add_message_def c Let_def inv_touch)
qed (use inv in \<open>simp add: add_message_def\<close>)

lemma inv_child_of:
  assumes ids: "ids_ok env" and inv: "store_inv env db"
    and "rid \<noteq> TASKS_ROOT_ID" "\<not> is_memory_node_id rid" "edge_kind ''contains'' rid = Some k" "has_kind k content"
    and "t \<noteq> ''provides_task''" "t \<noteq> ''contains''" "\<And>a. edge_kind t a = Some k"
  shows "store_inv env (snd (case ensure_under prid msg i db of Inl e \<Rightarrow> (Inl e, db)
    | Inr p \<Rightarrow> create_child env parse now rid t p content tags db))"
proof (cases "ensure_under prid msg i db")
  case (Inr p)
  have "fmlookup (gd_nodes db) p \<noteq> None"
    using ensure_under_Inr [OF _ Inr] inv by (auto simp: store_inv_def)
  then show ?thesis using inv_create_child [OF ids inv assms(3-9), of p parse now tags] Inr by simp
qed (use inv in simp)

lemma inv_task_create:
  assumes ids: "ids_ok env" and inv: "store_inv env db"
  shows "store_inv env (snd (task_create env now x tags db))"
proof (cases "ensure_provider (tc_provider_id x) db")
  case (Inr p)
  have wf: "graph_wf env db" using inv by (simp add: store_inv_def)
  note p = ensure_under_Inr [OF wf Inr [unfolded ensure_provider_def]]
  then have "is_memory_node_id (tc_provider_id x)" using wf_id [OF wf] by auto
  from inv_create_task [OF ids inv p(2) this] show ?thesis using Inr p(1) by (simp add: task_create_def)
qed (use inv in \<open>simp add: task_create_def\<close>)

lemma inv_task_update:
  assumes inv: "store_inv env db" and i: "under_root TASKS_ROOT_ID i db \<noteq> []"
  shows "store_inv env (snd (task_update now i x tags db))"
proof (cases "ensure_provider (tc_provider_id x) db")
  case (Inr p)
  have wf: "graph_wf env db" using inv by (simp add: store_inv_def)
  note p = ensure_under_Inr [OF wf Inr [unfolded ensure_provider_def]]
  have c: "contained TASKS_ROOT_ID i db" using under_root_contained [OF wf] i by blast
  obtain r where r: "fmlookup (gd_nodes db) i = Some r" using contained_exists [OF wf c] by blast
  have "is_memory_node_id (tc_provider_id x)" using p(3) wf_id [OF wf] by auto
  from inv_update_task [OF inv c p(2) this] show ?thesis
    using Inr p(1) r wf_id [OF wf r] by (simp add: task_update_def)
qed (use inv in \<open>simp add: task_update_def\<close>)

lemma inv_provider_update:
  assumes inv: "store_inv env db" and i: "under_root PROVIDERS_ROOT_ID i db \<noteq> []"
  shows "store_inv env (snd (provider_update now i p tags db))"
proof -
  have wf: "graph_wf env db" using inv by (simp add: store_inv_def)
  have c: "contained PROVIDERS_ROOT_ID i db" using under_root_contained [OF wf] i by blast
  have "store_inv env (update_node i (rewrite_record now tags (provider_dict p)) db)"
    by (rule inv_rewrite [OF inv c edge_kind_roots(4)]) auto
  then show ?thesis using inv by (auto simp: provider_update_def Let_def record_id_Inr split: sum.splits option.splits)
qed

lemma inv_session_action:
  assumes ids: "ids_ok env" and inv: "store_inv env db" and a: "has_node a db"
  shows "store_inv env (snd (create_session_action env now a tags db))"
proof (cases "memory_node_record_id a")
  case (Inr b)
  obtain r db1 where c: "create_node env now (history_tags ''session-action'' tags) (JObj []) db = (r, db1)" by fastforce
  note s = create_node_simps [OF c]
  have "store_inv env (relate ''action'' (nr_id r) a 0 db1)"
    by (rule inv_relate_plain [OF inv_create [OF ids inv c]]) (use a s(9) in \<open>auto simp: has_node_def\<close>)
  then show ?thesis using Inr inv_create [OF ids inv c]
    by (auto simp: create_session_action_def c record_id_Inr split: sum.splits)
qed (use inv in \<open>simp add: create_session_action_def\<close>)

lemma inv_step:
  assumes step: "store_step env db db'" and ids: "ids_ok env" and inv: "store_inv env db"
  shows "store_inv env db'"
  using step
proof cases
  case roots
  have "graph_typed (upsert_root a b c x) = graph_typed x" "tasks_provided (upsert_root a b c x) = tasks_provided x"
    for a b c x by (simp_all add: graph_typed_def tasks_provided_def contained_def task_edges_def)
  then show ?thesis using inv roots
    by (simp add: store_inv_def ensure_roots_def ensure_context_root_def ensure_sessions_root_def
        ensure_conversations_root_def ensure_session_memories_root_def ensure_providers_root_def ensure_tasks_root_def)
next
  case read
  then show ?thesis using inv_same [OF inv] by simp
next
  case session
  then show ?thesis by (auto simp: session_create_def session_dict_def intro!: inv_create_under [OF ids inv])
next
  case conversation
  then show ?thesis
    unfolding conversation_create_def ensure_session_def
    by (auto simp: conversation_dict_def intro!: inv_child_of [OF ids inv])
next
  case message
  then show ?thesis using inv_add_message [OF ids inv] by simp
next
  case session_memory
  then show ?thesis
    unfolding session_memory_create_def ensure_session_def by (auto intro!: inv_child_of [OF ids inv])
next
  case context_memory
  then show ?thesis by (auto simp: context_create_def intro!: inv_create_under [OF ids inv])
next
  case provider
  then show ?thesis by (auto simp: provider_create_def intro!: inv_create_under [OF ids inv])
next
  case update_provider
  then show ?thesis using inv_provider_update [OF inv] by simp
next
  case task
  then show ?thesis using inv_task_create [OF ids inv] by simp
next
  case update_task
  then show ?thesis using inv_task_update [OF inv] by simp
next
  case history
  then show ?thesis using inv_create [OF ids inv] by (auto simp: history_create_def split: prod.splits)
next
  case action
  then show ?thesis using inv_create [OF ids inv] by (auto simp: create_action_def split: prod.splits)
next
  case session_action
  then show ?thesis using inv_session_action [OF ids inv] by simp
next
  case append
  then show ?thesis using inv_append_node [OF ids inv] by simp
qed

lemma reachable_inv: "store_reachable env db \<Longrightarrow> ids_ok env \<Longrightarrow> store_inv env db"
  by (induction rule: store_reachable.induct) (auto intro: inv_init inv_step)

end
