(* ===== verification/StoreGuarantees.thy ===== *)
theory StoreGuarantees
  imports StoreInvariants
begin

text \<open>
  The properties of the typed stores over every sequence of operations: reads do not fail, the
  messages of a conversation and the nodes of a task history stay in order, every task hangs on
  its own provider, and what is created is found again.
\<close>

section \<open>Reads\<close>

definition parses :: "(json \<Rightarrow> py_error + 'a) \<Rightarrow> content_kind \<Rightarrow> bool" where
  "parses parse k \<longleftrightarrow> (\<forall>c. has_kind k c \<longrightarrow> (\<exists>kvs. c = JObj kvs) \<and> (\<exists>x. parse c = Inr x))"

lemma parses_kinds [simp]:
  "parses parse_session Named" "parses parse_conversation Named" "parses parse_conversation_message Message"
  "parses parse_titled Titled" "parses parse_provider Provider_kind" "parses parse_task Task_kind"
proof -
  show "parses parse_conversation_message Message"
    using messages.parse_dict messages.dict_obj by (fastforce simp: parses_def)
  show "parses parse_titled Titled" using titled.parse_dict titled.dict_obj by (fastforce simp: parses_def)
  show "parses parse_task Task_kind" using tasks.parse_dict tasks.dict_obj by (fastforce simp: parses_def)
  show "parses parse_provider Provider_kind"
    by (auto simp: parses_def parse_provider_def provider_dict_def content_str_def obj_get_def)
qed (auto simp: parses_def parse_session_def parse_conversation_def content_str_def obj_get_def)

lemma nodes_from_records_ok:
  assumes "parses parse k" "\<And>r. r \<in> set rs \<Longrightarrow> has_kind k (nr_content r)"
  shows "\<exists>ns. nodes_from_records parse rs = Inr ns \<and> map mn_id ns = map nr_id rs"
  using assms(2)
proof (induction rs)
  case (Cons r rs)
  obtain kvs x where "nr_content r = JObj kvs" "parse (JObj kvs) = Inr x"
    using assms(1) Cons.prems [of r] by (auto simp: parses_def)
  moreover obtain ns where "nodes_from_records parse rs = Inr ns" "map mn_id ns = map nr_id rs" using Cons by auto
  ultimately show ?case by (simp add: memory_node_from_record_def)
qed simp

lemma mark_records_contents:
  assumes "\<And>r. r \<in> set rs \<Longrightarrow> is_memory_node_id (nr_id r) \<and> (\<exists>x. fmlookup (gd_nodes db) (nr_id r) = Some x \<and>
    nr_content x = nr_content r)"
  shows "\<exists>rs'. fst (mark_records_read now rs db) = Inr rs' \<and> map nr_content rs' = map nr_content rs"
  using assms
proof (induction rs arbitrary: db)
  case (Cons r rs)
  let ?db1 = "update_node (nr_id r) (mark_read_record now) db"
  have "is_memory_node_id (nr_id s) \<and> (\<exists>x. fmlookup (gd_nodes ?db1) (nr_id s) = Some x \<and> nr_content x = nr_content s)"
    if "s \<in> set rs" for s using Cons.prems [of s] that by (auto simp: mark_read_record_def)
  from Cons.IH [OF this] obtain rs1 where
    "fst (mark_records_read now rs ?db1) = Inr rs1" "map nr_content rs1 = map nr_content rs" by blast
  moreover obtain x where "fmlookup (gd_nodes db) (nr_id r) = Some x" "nr_content x = nr_content r"
    "is_memory_node_id (nr_id r)" using Cons.prems [of r] by auto
  ultimately show ?case by (cases "mark_records_read now rs ?db1") (auto simp: mark_read_record_def)
qed simp

lemma read_records_kind:
  assumes k: "parses parse k"
    and r: "\<And>r. r \<in> set rs \<Longrightarrow> has_kind k (nr_content r) \<and> is_memory_node_id (nr_id r) \<and>
      fmlookup (gd_nodes db) (nr_id r) = Some r"
  shows "\<exists>ns. fst (read_records parse now mark rs db) = Inr ns"
proof (cases mark)
  case True
  obtain rs' where rs': "fst (mark_records_read now rs db) = Inr rs'" "map nr_content rs' = map nr_content rs"
    using mark_records_contents [of rs db now] r by blast
  then have "has_kind k (nr_content s)" if "s \<in> set rs'" for s
    using that r by (metis (mono_tags, lifting) imageE image_eqI list.set_map)
  then show ?thesis
    using nodes_from_records_ok [OF k, of rs'] rs'(1) True by (auto simp: read_records_def split: prod.splits)
next
  case False
  then show ?thesis using nodes_from_records_ok [OF k, of rs] r by (auto simp: read_records_def)
qed

lemma read_records_ok:
  assumes inv: "store_inv env db" and k: "edge_kind t a = Some k" "parses parse k"
    and rs: "set rs \<subseteq> set (related t a db)"
  shows "\<exists>ns. fst (read_records parse now mark rs db) = Inr ns"
proof (rule read_records_kind [OF k(2)])
  fix r assume m: "r \<in> set rs"
  obtain e where e: "e \<in> set (edges t a db)" "fmlookup (gd_nodes db) (re_out e) = Some r"
    using subsetD [OF rs m] by (auto simp: related_iff)
  then show "has_kind k (nr_content r) \<and> is_memory_node_id (nr_id r) \<and> fmlookup (gd_nodes db) (nr_id r) = Some r"
    using inv k(1) wf_id [of env db, OF _ e(2)] by (auto simp: store_inv_def graph_typed_def edges_def)
qed

lemma get_node_fails:
  assumes "store_inv env db" "edge_kind ''contains'' rid = Some k" "parses parse k"
  shows "isl (fst (get_node parse now rid i mark db)) \<longleftrightarrow> \<not> is_memory_node_id i"
proof (cases "is_memory_node_id i")
  case True
  have "set (under_root rid i db) \<subseteq> set (related ''contains'' rid db)"
    by (auto simp: under_root_def dest: in_set_takeD)
  from read_records_ok [OF assms this, of now mark] True show ?thesis
    by (auto simp: get_node_def split: list.splits prod.splits)
qed (simp add: get_node_def memory_node_record_id_def)

lemma search_nodes_fails:
  assumes "store_inv env db" "edge_kind ''contains'' rid = Some k" "parses parse k"
  shows "isl (fst (search_nodes env parse now rid q mark db)) \<longleftrightarrow> isl (build_memory_node_where q)"
proof (cases "build_memory_node_where q")
  case (Inr p)
  have "set (order_recent (filter P (related ''contains'' rid db))) \<subseteq> set (related ''contains'' rid db)" for P
    by (auto simp: order_recent_def)
  from read_records_ok [OF assms this, of now mark] Inr show ?thesis
    by (auto simp: search_nodes_def) (metis isl_def sum.distinct(1))
qed (simp add: search_nodes_def)

lemma read_related_fails:
  assumes "store_inv env db" "\<And>a. edge_kind t a = Some k" "parses parse k"
  shows "isl (fst (read_related parse now t i mark db)) \<longleftrightarrow> \<not> is_memory_node_id i"
proof (cases "is_memory_node_id i")
  case True
  have "set (order_recent (related t i db)) \<subseteq> set (related t i db)" by (simp add: order_recent_def)
  from read_records_ok [OF assms(1) assms(2) assms(3) this, of now mark] True show ?thesis
    by (auto simp: read_related_def)
qed (simp add: read_related_def memory_node_record_id_def)

text \<open>The searches of the stores name only valid fields.\<close>

lemma field_clauses_total:
  "list_all (\<lambda>(f, ts). is_field_path f) items \<Longrightarrow> \<exists>cs vars'. add_field_clauses test val kind i items vars = Inr (cs, vars')"
proof (induction items arbitrary: i vars)
  case (Cons x items)
  obtain f ts where x: "x = (f, ts)" by fastforce
  obtain cs vars1 where t: "add_terms (test f) val kind i 0 (clean_terms ts) vars = (cs, vars1)" by fastforce
  have f: "validate_content_field f = Inr ()" using Cons.prems x by (simp add: validate_content_field_def)
  have IH: "\<exists>cs vars'. add_field_clauses test val kind (Suc i) items vars = Inr (cs, vars')" for vars
    using Cons.IH Cons.prems by simp
  show ?case using IH [of vars] IH [of vars1] by (auto simp: x f t Let_def)
qed simp

lemma where_total:
  assumes "clean_content_fields (nq_string_fields q) = Inr fs" "fs \<noteq> []"
    and "list_all (\<lambda>(f, ts). is_field_path f) (nq_content_contains q)"
    and "list_all (\<lambda>(f, ts). is_field_path f) (nq_content_equals q)"
  shows "\<not> isl (build_memory_node_where (Some q))"
proof -
  have c: "\<exists>cs vars'. add_content_clauses (nq_content_contains q) vars = Inr (cs, vars')" for vars
    unfolding add_content_clauses_def by (rule field_clauses_total [OF assms(3)])
  have e: "\<exists>cs vars'. add_content_equals_clauses (nq_content_equals q) vars = Inr (cs, vars')" for vars
    unfolding add_content_equals_clauses_def by (rule field_clauses_total [OF assms(4)])
  have s: "\<exists>cs vars'. add_string_search_clause (nq_strings q) (nq_string_fields q) vars = Inr (cs, vars')" for vars
    using assms(1,2) by (auto simp: add_string_search_clause_def Let_def split: prod.splits)
  obtain c1 v1 where 1: "add_tag_clauses (nq_tags q) [] = (c1, v1)" by fastforce
  obtain c2 v2 where 2: "add_string_search_clause (nq_strings q) (nq_string_fields q) v1 = Inr (c2, v2)" using s by blast
  obtain c3 v3 where 3: "add_content_clauses (nq_content_contains q) v2 = Inr (c3, v3)" using c by blast
  obtain c4 v4 where 4: "add_content_equals_clauses (nq_content_equals q) v3 = Inr (c4, v4)" using e by blast
  show ?thesis by (simp add: build_memory_node_where_def 1 2 3 4 Let_def)
qed

lemma store_fields [simp]:
  "clean_content_fields [''name''] = Inr [''name'']"
  "clean_content_fields [''title'', ''description''] = Inr [''title'', ''description'']"
  "clean_content_fields [''name'', ''description'', ''baml_surface'', ''model_id'', ''reasoning_effort''] =
     Inr [''name'', ''description'', ''baml_surface'', ''model_id'', ''reasoning_effort'']"
  "clean_content_fields [''name'', ''description'', ''input'', ''output'', ''prompt'', ''provider_id''] =
     Inr [''name'', ''description'', ''input'', ''output'', ''prompt'', ''provider_id'']"
  by code_simp+

lemma store_paths [simp]:
  "is_field_path ''name''" "is_field_path ''title''" "is_field_path ''description''" "is_field_path ''baml_surface''"
  "is_field_path ''model_id''" "is_field_path ''reasoning_effort''" "is_field_path ''input''" "is_field_path ''output''"
  "is_field_path ''prompt''" "is_field_path ''provider_id''"
  by code_simp+

lemma where_none [simp]: "\<not> isl (build_memory_node_where None)"
  by (simp add: build_memory_node_where_def)

lemma where_stores [simp]:
  "\<not> isl (build_memory_node_where (map_option name_node_search q))"
  "\<not> isl (build_memory_node_where (map_option titled_node_search t))"
  "\<not> isl (build_memory_node_where (map_option provider_node_search p))"
  "task_node_search x = Inr n \<Longrightarrow> \<not> isl (build_memory_node_where (Some n))"
proof -
  show "\<not> isl (build_memory_node_where (map_option name_node_search q))"
    by (cases q) (simp_all add: name_node_search_def where_total)
  show "\<not> isl (build_memory_node_where (map_option titled_node_search t))"
    by (cases t) (simp_all add: titled_node_search_def where_total)
  show "\<not> isl (build_memory_node_where (map_option provider_node_search p))"
    by (cases p) (simp_all add: provider_node_search_def where_total)
  show "task_node_search x = Inr n \<Longrightarrow> \<not> isl (build_memory_node_where (Some n))"
    by (auto simp: task_node_search_def where_total split: sum.splits)
qed

lemma read_in_order_ok:
  assumes "graph_wf env db" "parses parse k"
    and "\<And>i. i \<in> set is \<Longrightarrow> \<exists>r. fmlookup (gd_nodes db) i = Some r \<and> has_kind k (nr_content r)"
  shows "\<exists>ns. fst (read_in_order parse now mark is db) = Inr ns"
  using assms(1,3)
proof (induction "is" arbitrary: db)
  case (Cons i "is")
  obtain r where r: "fmlookup (gd_nodes db) i = Some r" "has_kind k (nr_content r)" using Cons.prems(2) [of i] by auto
  have id: "nr_id r = i" "is_memory_node_id i" using wf_id [OF Cons.prems(1) r(1)] by auto
  obtain ns db1 where 1: "read_records parse now mark [r] db = (Inr ns, db1)"
    using read_records_kind [OF assms(2), of "[r]" db now mark] r id by (metis empty_iff list.set(1) prod.collapse set_ConsD)
  have same: "same_graph db db1" using read_records_same [of db parse now mark "[r]"] 1 by simp
  have "\<exists>r. fmlookup (gd_nodes db1) j = Some r \<and> has_kind k (nr_content r)" if j: "j \<in> set is" for j
  proof -
    obtain s where "fmlookup (gd_nodes db) j = Some s" "has_kind k (nr_content s)" using Cons.prems(2) [of j] j by auto
    then show ?thesis using same_graph_lookup [OF same] same_but_read_fields(2) by metis
  qed
  from Cons.IH [OF same_graph_wf [OF same Cons.prems(1)] this]
  obtain ms where "fst (read_in_order parse now mark is db1) = Inr ms" by blast
  then show ?case using id 1 r by (cases "read_in_order parse now mark is db1") (auto simp: existing_def)
qed simp

lemma ordered_out_set: "set (ordered_out t a db) = re_out ` set (edges t a db)"
  by (simp add: ordered_out_def)

lemma messages_fail:
  assumes inv: "store_inv env db"
  shows "isl (fst (conversation_messages now i mark db)) \<longleftrightarrow> \<not> is_memory_node_id i"
proof (cases "is_memory_node_id i")
  case True
  have "\<exists>ns. fst (read_in_order parse_conversation_message now mark (ordered_out ''has_message'' i db) db) = Inr ns"
  proof (rule read_in_order_ok [of env])
    fix j assume "j \<in> set (ordered_out ''has_message'' i db)"
    then obtain e where e: "e \<in> set (gd_relations db)" "re_table e = ''has_message''" "re_out e = j"
      by (auto simp: ordered_out_set edges_def)
    then obtain r where "fmlookup (gd_nodes db) j = Some r" using inv by (auto simp: store_inv_def graph_wf_def)
    then show "\<exists>r. fmlookup (gd_nodes db) j = Some r \<and> has_kind Message (nr_content r)"
      using inv e by (auto simp: store_inv_def graph_typed_def simp del: has_kind.simps)
  qed (use inv in \<open>auto simp: store_inv_def\<close>)
  then show ?thesis using True by (auto simp: conversation_messages_def)
qed (simp add: conversation_messages_def memory_node_record_id_def)

lemma task_search_fails:
  assumes "store_inv env db"
  shows "isl (fst (task_search env now q mark db)) \<longleftrightarrow>
    (case q of None \<Rightarrow> False | Some s \<Rightarrow> \<not> list_all is_memory_node_id (tx_provider_ids s))"
proof -
  have ids: "isl (checked_ids is) \<longleftrightarrow> \<not> list_all is_memory_node_id is" for "is"
    by (induction "is") (auto simp: memory_node_record_id_def split: sum.splits)
  show ?thesis
  proof (cases q)
    case None
    then show ?thesis using search_nodes_fails [OF assms edge_kind_roots(5) parses_kinds(6)] by (simp add: task_search_def)
  next
    case (Some s)
    have "isl (task_node_search s) \<longleftrightarrow> \<not> list_all is_memory_node_id (tx_provider_ids s)"
      by (auto simp: task_node_search_def simp flip: ids split: sum.splits)
    then show ?thesis
      using Some search_nodes_fails [OF assms edge_kind_roots(5) parses_kinds(6)] where_stores(4) [of s]
      by (cases "task_node_search s") (auto simp: task_search_def)
  qed
qed


section \<open>Order\<close>

lemma insort_key_snoc: "f y \<le> f x \<Longrightarrow> insort_key f y (zs @ [x]) = insort_key f y zs @ [x]"
  by (induction zs) auto

lemma sort_key_snoc: "(\<And>y. y \<in> set xs \<Longrightarrow> f y \<le> f x) \<Longrightarrow> sort_key f (xs @ [x]) = sort_key f xs @ [x]"
  by (induction xs) (auto simp: insort_key_snoc)

lemma next_position_greater:
  assumes "e \<in> set (edges t a db)"
  shows "re_position e < next_position t a db"
proof -
  let ?es = "sort_key re_position (edges t a db)"
  obtain es l where es: "?es = es @ [l]" using assms by (metis empty_iff list.set(1) rev_exhaust set_sort)
  have "sorted (map re_position (es @ [l]))" using sorted_sort_key [of re_position "edges t a db"] es by simp
  moreover have "e \<in> set (es @ [l])" using assms es by (metis set_sort)
  ultimately show ?thesis by (auto simp: next_position_def es sorted_append)
qed

lemma ordered_out_append:
  "ordered_out t a (relate t a b (next_position t a db) db) = ordered_out t a db @ [b]"
proof -
  let ?e = "\<lparr> re_table = t, re_in = a, re_out = b, re_position = next_position t a db \<rparr>"
  have "sort_key re_position (edges t a db @ [?e]) = sort_key re_position (edges t a db) @ [?e]"
    using next_position_greater by (intro sort_key_snoc) (simp add: less_imp_le)
  then show ?thesis by (simp add: ordered_out_def edges_def)
qed

lemma edges_relate_other: "(t', a') \<noteq> (t, a) \<Longrightarrow> edges t' a' (relate t a b p db) = edges t' a' db"
  by (auto simp: edges_def)

lemma edges_cong: "gd_relations db' = gd_relations db \<Longrightarrow> edges t a db' = edges t a db"
  by (simp add: edges_def)

lemma ordered_out_cong: "edges t a db' = edges t a db \<Longrightarrow> ordered_out t a db' = ordered_out t a db"
  by (simp add: ordered_out_def)

lemma nodes_from_records_append:
  "nodes_from_records parse (xs @ ys) =
     (case nodes_from_records parse xs of Inl e \<Rightarrow> Inl e
      | Inr ns \<Rightarrow> (case nodes_from_records parse ys of Inl e \<Rightarrow> Inl e | Inr ms \<Rightarrow> Inr (ns @ ms)))"
  by (induction xs) (auto split: sum.splits)

lemma existing_Cons: "existing db (i # is) = existing db [i] @ existing db is"
  by (simp add: existing_def)

lemma existing_cong:
  "(\<And>i. i \<in> set is \<Longrightarrow> fmlookup (gd_nodes db') i = fmlookup (gd_nodes db) i) \<Longrightarrow> existing db' is = existing db is"
  by (induction "is") (auto simp: existing_def)

lemma read_in_order_unmarked:
  "list_all is_memory_node_id is \<Longrightarrow>
   read_in_order parse now False is db = (nodes_from_records parse (existing db is), db)"
proof (induction "is")
  case (Cons i "is")
  then show ?case
    using nodes_from_records_append [of parse "existing db [i]" "existing db is"]
    by (auto simp: read_records_def simp flip: existing_Cons split: sum.splits)
qed (simp add: existing_def)

lemma messages_unmarked:
  assumes "graph_wf env db"
  shows "conversation_messages now cid False db =
    (if is_memory_node_id cid
     then (nodes_from_records parse_conversation_message (existing db (ordered_out ''has_message'' cid db)), db)
     else (Inl (projl (memory_node_record_id cid)), db))"
proof -
  have "list_all is_memory_node_id (ordered_out t cid db)" for t
    using assms wf_id [OF assms] by (fastforce simp: list_all_iff ordered_out_set edges_def graph_wf_def)
  then show ?thesis by (auto simp: conversation_messages_def read_in_order_unmarked memory_node_record_id_def)
qed

text \<open>The messages of a conversation are other nodes than any conversation.\<close>

lemma message_nodes:
  assumes inv: "store_inv env db" and j: "j \<in> set (ordered_out ''has_message'' a db)"
  obtains r where "fmlookup (gd_nodes db) j = Some r" "has_kind Message (nr_content r)" "is_memory_node_id j"
proof -
  obtain e where e: "e \<in> set (gd_relations db)" "re_table e = ''has_message''" "re_out e = j"
    using j by (auto simp: ordered_out_set edges_def)
  then obtain r where r: "fmlookup (gd_nodes db) j = Some r" using inv by (auto simp: store_inv_def graph_wf_def)
  moreover have "has_kind Message (nr_content r)"
    using inv e r by (auto simp: store_inv_def graph_typed_def simp del: has_kind.simps)
  ultimately show ?thesis using that wf_id [OF _ r] inv by (auto simp: store_inv_def)
qed

lemma add_message_effect:
  assumes ids: "ids_ok env" and inv: "store_inv env db" and m: "mg_role m \<in> set message_roles"
    and add: "add_message env now cid m tags None db = (Inr n, db')"
  shows "mn_content n = m \<and> is_memory_node_id cid \<and> (\<exists>r. memory_node_from_record parse_conversation_message r = Inr n \<and>
    existing db' (ordered_out ''has_message'' cid db') = existing db (ordered_out ''has_message'' cid db) @ [r]) \<and>
    (\<forall>a. a \<noteq> cid \<longrightarrow> existing db' (ordered_out ''has_message'' a db') = existing db (ordered_out ''has_message'' a db))"
proof -
  have wf: "graph_wf env db" and ty: "graph_typed db" using inv by (simp_all add: store_inv_def)
  obtain c where c: "ensure_conversation cid db = Inr c" using add by (cases "ensure_conversation cid db") (auto simp: add_message_def)
  note cc = ensure_under_Inr [OF wf c [unfolded ensure_conversation_def]]
  obtain x where x: "fmlookup (gd_nodes db) cid = Some x" using cc(3) by blast
  have named: "has_kind Named (nr_content x)" using contained_kind [OF ty cc(2) edge_kind_roots(2) x] .
  obtain r db1 where cr: "create_node env now tags (message_dict m) db = (r, db1)" by fastforce
  note s = create_node_simps [OF cr]
  let ?db2 = "relate ''has_message'' cid (nr_id r) (next_position ''has_message'' cid db) db1"
  have n: "memory_node_from_record parse_conversation_message r = Inr n" and db': "db' = touch now cid ?db2"
    using add c cc(1) by (auto simp: add_message_def cr)
  have new: "nr_id r \<noteq> cid" using create_node_fresh [OF wf cr] x by auto
  have look: "fmlookup (gd_nodes db') j = fmlookup (gd_nodes db) j" if "j \<noteq> cid" "j \<noteq> nr_id r" for j
    using that s(9) by (simp add: db' touch_def)
  have old: "existing db' (ordered_out ''has_message'' a db) = existing db (ordered_out ''has_message'' a db)" for a
  proof (rule existing_cong)
    fix j assume "j \<in> set (ordered_out ''has_message'' a db)"
    then obtain y where y: "fmlookup (gd_nodes db) j = Some y" "has_kind Message (nr_content y)"
      using message_nodes [OF inv] by metis
    then have "j \<noteq> cid" "j \<noteq> nr_id r"
      using x has_kind_unique [OF named, of Message] create_node_fresh [OF wf cr] by (auto simp del: has_kind.simps)
    then show "fmlookup (gd_nodes db') j = fmlookup (gd_nodes db) j" by (rule look)
  qed
  have rel: "gd_relations db' = gd_relations ?db2" by (simp add: db' touch_def)
  have "ordered_out ''has_message'' cid db' = ordered_out ''has_message'' cid ?db2"
    by (rule ordered_out_cong [OF edges_cong [OF rel]])
  also have "\<dots> = ordered_out ''has_message'' cid db @ [nr_id r]"
    using ordered_out_append [of "''has_message''" cid "nr_id r" db1] s(7)
    by (simp add: next_position_def ordered_out_def edges_def)
  finally have "existing db' (ordered_out ''has_message'' cid db') =
      existing db (ordered_out ''has_message'' cid db) @ [r]"
    using old new s(9) by (simp add: existing_def db' touch_def)
  moreover have "ordered_out ''has_message'' a db' = ordered_out ''has_message'' a db" if "a \<noteq> cid" for a
    using that s(7) rel by (intro ordered_out_cong) (simp add: edges_def)
  ultimately show ?thesis
    using messages.stored_node [OF m s(2)] n old wf_id [OF wf x] by auto
qed

text \<open>
  C29. In every reachable database a message added to a conversation without a position comes last:
  the messages of that conversation are exactly those read before, in the same order, followed by
  the new message with the content given, and the messages of every other conversation are
  unchanged.
\<close>

theorem messages_stay_in_order:
  assumes "ids_ok env" "store_reachable env db" "mg_role m \<in> set message_roles"
    and "add_message env now cid m tags None db = (Inr n, db')"
  shows "\<exists>ns. conversation_messages t cid False db = (Inr ns, db) \<and>
      conversation_messages t cid False db' = (Inr (ns @ [n]), db') \<and> mn_content n = m \<and>
      (if a = cid then True else fst (conversation_messages t a False db') = fst (conversation_messages t a False db))"
proof -
  have inv: "store_inv env db" using reachable_inv assms(1,2) by blast
  then have wf: "graph_wf env db" by (simp add: store_inv_def)
  have "db' = snd (add_message env now cid m tags None db)" using assms(4) by simp
  then have wf': "graph_wf env db'" using inv_add_message [OF assms(1) inv assms(3)] by (simp add: store_inv_def)
  note e = add_message_effect [OF assms(1) inv assms(3,4)]
  obtain ns where ns: "nodes_from_records parse_conversation_message (existing db (ordered_out ''has_message'' cid db)) = Inr ns"
    using messages_fail [OF inv, of t cid False] e by (auto simp: messages_unmarked [OF wf] isl_def) (metis sum.exhaust)
  show ?thesis
    using e ns by (auto simp: messages_unmarked [OF wf] messages_unmarked [OF wf'] nodes_from_records_append)
qed

section \<open>Tasks and their providers\<close>

lemma under_root_eq:
  assumes wf: "graph_wf env db" and "contained rid i db" and r: "fmlookup (gd_nodes db) i = Some r"
  shows "under_root rid i db = [r]"
proof -
  let ?fs = "filter (\<lambda>r. nr_id r = i) (related ''contains'' rid db)"
  obtain y ys where f: "?fs = y # ys"
    using under_root_contained [OF wf, of rid i] assms(2) by (cases ?fs) (auto simp: under_root_def)
  then have "y \<in> set ?fs" by simp
  then have "y = r" using wf_id [OF wf] r by (auto simp: related_iff)
  then show ?thesis using f by (simp add: under_root_def)
qed

lemma get_node_unmarked:
  assumes wf: "graph_wf env db" and get: "get_node parse now rid i False db = (Inr (Some n), db')"
  shows "db' = db \<and> contained rid i db \<and>
    (\<exists>r. fmlookup (gd_nodes db) i = Some r \<and> memory_node_from_record parse r = Inr n)"
proof -
  have id: "is_memory_node_id i" using get by (cases "is_memory_node_id i") (auto simp: get_node_def memory_node_record_id_def)
  then have "under_root rid i db \<noteq> []" using get by (auto simp: get_node_def)
  then have c: "contained rid i db" using under_root_contained [OF wf] by blast
  obtain r where r: "fmlookup (gd_nodes db) i = Some r" using contained_exists [OF wf c] by blast
  show ?thesis
    using get id c r under_root_eq [OF wf c r] by (auto simp: get_node_def read_records_def split: sum.splits)
qed

lemma get_node_found:
  assumes inv: "store_inv env db" and "contained rid i db" "edge_kind ''contains'' rid = Some k" "parses parse k"
  shows "\<exists>n. get_node parse now rid i False db = (Inr (Some n), db)"
proof -
  have wf: "graph_wf env db" using inv by (simp add: store_inv_def)
  have id: "is_memory_node_id i" using contained_exists [OF wf assms(2)] wf_id [OF wf] by blast
  obtain r rs where u: "under_root rid i db = r # rs"
    using under_root_contained [OF wf, of rid i] assms(2) by (cases "under_root rid i db") auto
  have sub: "set (under_root rid i db) \<subseteq> set (related ''contains'' rid db)" by (auto simp: under_root_def dest: in_set_takeD)
  obtain ns where ns: "nodes_from_records parse (r # rs) = Inr ns" "ns \<noteq> []"
    using read_records_ok [OF inv assms(3,4) sub, of now False] u by (auto simp: read_records_def split: sum.splits)
  then show ?thesis using id u by (cases ns) (auto simp: get_node_def read_records_def)
qed

lemma filter_length_mset: "mset xs = mset ys \<Longrightarrow> length (filter P xs) = length (filter P ys)"
  by (metis mset_filter size_mset)

lemma related_ids: "graph_wf env db \<Longrightarrow> map nr_id (related t a db) = map re_out (edges t a db)"
proof -
  assume wf: "graph_wf env db"
  have "map nr_id (existing db is) = is" if "\<And>i. i \<in> set is \<Longrightarrow> fmlookup (gd_nodes db) i \<noteq> None" for "is"
    using that
  proof (induction "is")
    case (Cons i "is")
    then obtain r where "fmlookup (gd_nodes db) i = Some r" by fastforce
    then show ?case using Cons wf_id [OF wf] by (simp add: existing_def)
  qed (simp add: existing_def)
  moreover have "fmlookup (gd_nodes db) i \<noteq> None" if "i \<in> set (map re_out (edges t a db))" for i
    using that wf by (auto simp: edges_def graph_wf_def)
  ultimately show ?thesis unfolding related_def by blast
qed


section \<open>What is created is found\<close>

lemma get_node_relate:
  assumes "t \<noteq> ''contains''" "get_node parse now rid i False db = (x, db)"
  shows "get_node parse now rid i False (relate t a b p db) = (x, relate t a b p db)"
proof -
  have "related ''contains'' rid (relate t a b p db) = related ''contains'' rid db"
    using assms(1) by (simp add: related_def existing_def edges_def)
  then have u: "under_root rid j (relate t a b p db) = under_root rid j db" for j by (simp add: under_root_def)
  show ?thesis using assms(2)
    by (auto simp: get_node_def u read_records_def split: sum.splits list.splits)
qed

context memory_store
begin

lemma create_child_get:
  assumes ids: "ids_ok env" and wf: "graph_wf env db" and ok: "ok c" and t: "t \<noteq> ''contains''"
  shows "\<exists>n db'. create_child env parse now rid t p (dict c) tags db = (Inr n, db') \<and> mn_content n = c \<and>
    mn_tags n = normalized_tags tags \<and> get_node parse now' rid (mn_id n) False db' = (Inr (Some n), db')"
proof -
  obtain x db1 where x: "create_node env now tags (dict c) db = (x, db1)" by fastforce
  obtain r db2 where u: "create_under env parse now rid (dict c) tags db = (r, db2)" by fastforce
  from create_get [OF ids wf ok u] obtain n where n: "r = Inr n" "mn_content n = c" "mn_tags n = normalized_tags tags"
    "get_node parse now' rid (mn_id n) False db2 = (Inr (Some n), db2)" by blast
  have "create_child env parse now rid t p (dict c) tags db = (r, relate t p (nr_id x) 0 db2)"
    using u x by (auto simp: create_child_def create_under_def)
  then show ?thesis using n get_node_relate [OF t n(4)] by auto
qed

lemma create_under_get:
  assumes "ids_ok env" "graph_wf env db" "ok c"
  shows "\<exists>n db'. create_under env parse now rid (dict c) tags db = (Inr n, db') \<and> mn_content n = c \<and>
    mn_tags n = normalized_tags tags \<and> get_node parse now' rid (mn_id n) False db' = (Inr (Some n), db')"
  using create_get [OF assms] by (cases "create_under env parse now rid (dict c) tags db") auto

end

text \<open>
  C31. In every reachable database what a store creates can be read back under the id the creation
  returned, with the content and the cleaned tags given: a session; a provider whose optional
  fields are not blank; and a task whose provider exists. A task whose provider does not exist is
  refused with the error that names it, and nothing is stored.
\<close>

theorem created_memory_is_found:
  assumes "ids_ok env" "store_reachable env db"
  shows "(\<exists>n db'. session_create env now s tags db = (Inr n, db') \<and> mn_content n = s \<and> mn_tags n = normalized_tags tags \<and>
      session_get t (mn_id n) False db' = (Inr (Some n), db')) \<and>
    (if provider_ok p then \<exists>n db'. provider_create env now p tags db = (Inr n, db') \<and> mn_content n = p \<and>
       mn_tags n = normalized_tags tags \<and> provider_get t (mn_id n) False db' = (Inr (Some n), db') else True) \<and>
    (if \<not> is_memory_node_id (tc_provider_id x) then True
     else if under_root PROVIDERS_ROOT_ID (tc_provider_id x) db = []
     then task_create env now x tags db =
       (Inl (ValueError (''task provider does not exist under Providers root: '' @ tc_provider_id x)), db)
     else \<exists>n db'. task_create env now x tags db = (Inr n, db') \<and> mn_content n = x \<and>
       mn_tags n = normalized_tags tags \<and> task_get t (mn_id n) False db' = (Inr (Some n), db'))"
proof -
  have wf: "graph_wf env db" using reachable_inv assms by (auto simp: store_inv_def)
  note f = assms(1) wf
  have task: "task_create env now x tags db =
      (if under_root PROVIDERS_ROOT_ID (tc_provider_id x) db = []
       then (Inl (ValueError (''task provider does not exist under Providers root: '' @ tc_provider_id x)), db)
       else create_child env parse_task now TASKS_ROOT_ID ''provides_task'' (tc_provider_id x) (task_dict x) tags db)"
    if "is_memory_node_id (tc_provider_id x)" using that by (simp add: task_create_def ensure_provider_def ensure_under_def)
  show ?thesis
    using sessions.create_under_get [OF f TrueI] providers.create_under_get [OF f, of p]
      tasks.create_child_get [OF f, of x "''provides_task''"] task
    unfolding session_create_def session_get_def provider_create_def provider_get_def task_get_def by simp
qed

section \<open>Updates of another store's node\<close>

text \<open>
  An update does not check that the id belongs to its store: in every reachable database,
  updating the id of a provider through the task store, with a task whose provider exists,
  succeeds, and from then on reading that provider raises \<open>KeyError\<close>.
\<close>

lemma task_update_overwrites_provider:
  assumes "ids_ok env" "store_reachable env db" "under_root PROVIDERS_ROOT_ID i db \<noteq> []"
    and "under_root PROVIDERS_ROOT_ID (tc_provider_id x) db \<noteq> []"
  shows "\<exists>n db'. task_update now i x tags db = (Inr n, db') \<and>
    provider_get t i False db' = (Inl (KeyError ''baml_surface''), db')"
proof -
  have wf: "graph_wf env db" using reachable_inv assms(1,2) by (auto simp: store_inv_def)
  have c: "contained PROVIDERS_ROOT_ID i db" "contained PROVIDERS_ROOT_ID (tc_provider_id x) db"
    using under_root_contained [OF wf] assms(3,4) by auto
  obtain r p where r: "fmlookup (gd_nodes db) i = Some r" "fmlookup (gd_nodes db) (tc_provider_id x) = Some p"
    using contained_exists [OF wf] c by blast
  note id = wf_id [OF wf r(1)] wf_id [OF wf r(2)]
  let ?f = "rewrite_record now tags (task_dict x)"
  let ?db' = "relate ''provides_task'' (tc_provider_id x) i 0 (delete_to ''provides_task'' i (update_node i ?f db))"
  obtain n where n: "memory_node_from_record parse_task (?f r) = Inr n"
    using tasks.stored_node [of x "?f r"] id by (auto simp: rewrite_record_def)
  have upd: "task_update now i x tags db = (Inr n, ?db')"
    using assms(4) id r n by (simp add: task_update_def ensure_provider_def ensure_under_def)
  have "graph_wf env (update_node i ?f db)" by (rule graph_wf_update [OF wf]) (simp add: rewrite_record_def)
  then have "graph_wf env ?db'"
    by (rule graph_wf_relate [OF graph_wf_delete]) (use r in \<open>auto simp: rewrite_record_def\<close>)
  moreover have "contained PROVIDERS_ROOT_ID i ?db'"
    using c(1) by (simp add: contained_relate contained_delete contained_cong [of "update_node i ?f db" db])
  moreover have "fmlookup (gd_nodes ?db') i = Some (?f r)" using r by simp
  ultimately have "under_root PROVIDERS_ROOT_ID i ?db' = [?f r]" by (rule under_root_eq)
  then show ?thesis using upd id
    by (simp add: provider_get_def get_node_def read_records_def memory_node_from_record_def rewrite_record_def
        task_dict_def parse_provider_def content_str_def obj_get_def)
qed

section \<open>Examples\<close>

definition ex_env :: db_env where
  "ex_env = \<lparr> de_new_id = (\<lambda>n. ''memory_node:'' @ py_str_nat n),
              de_cast = (\<lambda>v. case v of None \<Rightarrow> ''NONE'' | Some w \<Rightarrow> py_str_json w) \<rparr>"

definition ex_provider :: provider_content where
  "ex_provider = \<lparr> pv_name = ''p'', pv_description = ''d'', pv_baml_surface = ''s'', pv_model_id = None,
                   pv_reasoning_effort = None \<rparr>"

definition ex_task :: task_content where
  "ex_task = \<lparr> tc_name = ''t'', tc_description = ''d'', tc_input = ''i'', tc_output = ''o'', tc_prompt = ''q'',
               tc_provider_id = ''memory_node:0'' \<rparr>"

definition ex_message :: message_content where
  "ex_message = \<lparr> mg_role = ''human'', mg_content = ''hello'' \<rparr>"

definition ex_session :: session_content where "ex_session = \<lparr> sn_name = ''s'' \<rparr>"

definition ex_conversation :: conversation_content where "ex_conversation = \<lparr> cn_name = ''c'' \<rparr>"

text \<open>A provider 0, its task 1, a session 2, its conversation 3 with one message 4.\<close>

definition ex_graph :: graph_db where
  "ex_graph =
     snd (add_message ex_env 5 ''memory_node:3'' ex_message [] None
       (snd (conversation_create ex_env 4 ''memory_node:2'' ex_conversation []
         (snd (session_create ex_env 3 ex_session []
           (snd (task_create ex_env 2 ex_task []
             (snd (provider_create ex_env 1 ex_provider [] empty_graph)))))))))"

lemma ex_ids: "ids_ok ex_env"
proof -
  have "py_str_nat n \<noteq> []" for n by (subst py_str_nat.simps) simp
  moreover have "list_all is_id_char (py_str_nat n)" for n
    using py_str_nat_digits [of n] by (simp add: list_all_iff is_id_char_def)
  ultimately show ?thesis using py_str_nat_inj by (auto simp: ids_ok_def ex_env_def inj_def is_memory_node_id_def)
qed

lemma ex_reachable: "store_reachable ex_env ex_graph"
  unfolding ex_graph_def
  by (intro store_reachable.step [OF store_reachable.step [OF store_reachable.step [OF store_reachable.step
        [OF store_reachable.step [OF store_reachable.init store_step.provider] store_step.task] store_step.session]
        store_step.conversation] store_step.message])
    (simp add: ex_message_def message_roles_def)

lemma ex_under: "under_root PROVIDERS_ROOT_ID ''memory_node:0'' ex_graph \<noteq> []"
  by code_simp

lemma ex_ok:
  "is_memory_node_id ''memory_node:0''" "is_memory_node_id ''memory_node:1''"
  "\<not> isl (fst (add_message ex_env 6 ''memory_node:3'' ex_message [] None ex_graph))"
  "\<not> isl (fst (task_get 9 ''memory_node:1'' False ex_graph))"
  "projr (fst (task_get 9 ''memory_node:1'' False ex_graph)) \<noteq> None"
  by code_simp+


theorem messages_stay_in_order_witness:
  "\<exists>ns n db'. conversation_messages 9 ''memory_node:3'' False ex_graph = (Inr ns, ex_graph) \<and>
     conversation_messages 9 ''memory_node:3'' False db' = (Inr (ns @ [n]), db') \<and> mn_content n = ex_message"
proof -
  obtain n db' where "add_message ex_env 6 ''memory_node:3'' ex_message [] None ex_graph = (Inr n, db')"
    using ex_ok(3) by (metis isl_def prod.collapse sum.exhaust)
  from messages_stay_in_order [OF ex_ids ex_reachable _ this, of 9] show ?thesis
    by (fastforce simp: ex_message_def message_roles_def)
qed


theorem created_memory_is_found_witness:
  "\<exists>n db'. session_create ex_env 9 ex_session [] ex_graph = (Inr n, db') \<and> mn_content n = ex_session \<and>
     session_get 9 (mn_id n) False db' = (Inr (Some n), db')"
  using created_memory_is_found [OF ex_ids ex_reachable, of 9 ex_session "[]" 9] by blast

lemma task_update_overwrites_provider_witness:
  "\<exists>n db'. task_update 9 ''memory_node:0'' ex_task [] ex_graph = (Inr n, db') \<and>
     provider_get 9 ''memory_node:0'' False db' = (Inl (KeyError ''baml_surface''), db')"
  by (rule task_update_overwrites_provider [OF ex_ids ex_reachable ex_under])
    (simp add: ex_task_def ex_under)

end
