(* ===== verification/HistoryOrder.thy ===== *)
theory HistoryOrder
  imports StoreGuarantees
begin

text \<open>
  Task histories over every sequence of operations: a node appended to a history comes last, with
  its session, its conversation and its actions in the order given, and nothing recorded before
  changes.
\<close>

section \<open>What a history shows\<close>

text \<open>Everything of a node, an action and a record of a history but times and tags.\<close>

definition node_view :: "'a memory_node \<Rightarrow> string \<times> 'a" where
  "node_view n = (mn_id n, mn_content n)"

definition record_view :: "history_record \<Rightarrow> (string \<times> history_node) \<times> (string \<times> action_content) list" where
  "record_view r = (node_view (hr_node r), map node_view (hr_actions r))"

definition stored :: "graph_db \<Rightarrow> string \<Rightarrow> (string \<times> json) option" where
  "stored db i = map_option (\<lambda>r. (nr_id r, nr_content r)) (fmlookup (gd_nodes db) i)"

definition view_of :: "('a \<Rightarrow> 'b) \<Rightarrow> 'e + 'a option \<Rightarrow> 'e + 'b option" where
  "view_of v x = map_sum id (map_option v) x"

lemma Some_map_option: "Some y = map_option f x \<longleftrightarrow> (\<exists>z. x = Some z \<and> f z = y)"
  by (cases x) auto

lemma collect_view:
  assumes "\<And>i. i \<in> set is \<Longrightarrow> view_of v (f i) = view_of v (g i)"
  shows "map_sum id (map v) (collect_found f is) = map_sum id (map v) (collect_found g is)"
  using assms
proof (induction "is")
  case (Cons i "is")
  have IH: "map_sum id (map v) (collect_found f is) = map_sum id (map v) (collect_found g is)"
    by (rule Cons.IH) (use Cons.prems in simp)
  have v: "view_of v (f i) = view_of v (g i)" using Cons.prems by simp
  show ?case
    using IH v by (cases "f i"; cases "g i"; cases "collect_found f is"; cases "collect_found g is")
      (auto simp: view_of_def Some_map_option split: option.splits)
qed simp

lemma collect_append:
  "collect_found f (xs @ ys) =
     (case collect_found f xs of Inl e \<Rightarrow> Inl e | Inr as \<Rightarrow> map_sum id ((@) as) (collect_found f ys))"
proof (induction xs)
  case Nil
  show ?case by (cases "collect_found f ys") auto
next
  case (Cons x xs)
  then show ?case by (cases "collect_found f ys") (auto split: sum.splits option.splits)
qed

lemma select_view:
  "stored db' i = stored db i \<Longrightarrow> view_of node_view (select_node parse i db') = view_of node_view (select_node parse i db)"
  by (cases "fmlookup (gd_nodes db') i"; cases "fmlookup (gd_nodes db) i")
    (auto simp: stored_def view_of_def select_node_def existing_def memory_node_from_record_def node_view_def
      memory_node_record_id_def split: sum.splits json.splits)

lemma action_view:
  assumes "edges ''action'' s db' = edges ''action'' s db"
    and "\<And>e. e \<in> set (edges ''action'' s db) \<Longrightarrow> stored db' (re_out e) = stored db (re_out e)"
  shows "view_of node_view (action_for_session_action s db') = view_of node_view (action_for_session_action s db)"
proof (cases "edges ''action'' s db")
  case (Cons e es)
  then have "view_of node_view (select_node parse_action (re_out e) db') = view_of node_view (select_node parse_action (re_out e) db)"
    using assms(2) by (intro select_view) simp
  then show ?thesis using assms(1) Cons by (simp add: action_for_session_action_def memory_node_record_id_def)
qed (use assms(1) in \<open>simp add: action_for_session_action_def memory_node_record_id_def\<close>)

lemma map_sum_eq_Inr: "map_sum id f x = Inr y \<longleftrightarrow> (\<exists>z. x = Inr z \<and> y = f z)"
  by (cases x) auto

lemma record_view_same:
  assumes node: "stored db' i = stored db i"
    and acts: "map_sum id (map node_view) (actions_for_node i db') = map_sum id (map node_view) (actions_for_node i db)"
    and id: "\<And>x. stored db i = Some x \<Longrightarrow> fst x = i"
  shows "view_of record_view (history_record_at db' i) = view_of record_view (history_record_at db i)"
proof -
  have v: "view_of node_view (select_node parse_history_node i db') = view_of node_view (select_node parse_history_node i db)"
    by (rule select_view [OF node])
  have n: "mn_id n = i" if sel: "select_node parse_history_node i d = Inr (Some n)" and st: "stored d i = stored db i" for n d
  proof -
    obtain r where "fmlookup (gd_nodes d) i = Some r" "nr_id r = mn_id n"
      using sel by (auto simp: select_node_def existing_def memory_node_from_record_def map_sum_eq_Inr record_id_Inr
          split: sum.splits option.splits json.splits)
    then show ?thesis using id [of "(nr_id r, nr_content r)"] st by (auto simp: stored_def Some_map_option)
  qed
  show ?thesis
  proof (cases "select_node parse_history_node i db")
    case (Inl e)
    then show ?thesis using v by (cases "select_node parse_history_node i db'")
      (auto simp: view_of_def history_record_at_def)
  next
    case (Inr x)
    then obtain y where y: "select_node parse_history_node i db' = Inr y" "map_option node_view y = map_option node_view x"
      using v by (cases "select_node parse_history_node i db'") (auto simp: view_of_def)
    show ?thesis
    proof (cases x)
      case None
      then show ?thesis using y Inr by (simp add: view_of_def history_record_at_def)
    next
      case (Some a)
      then obtain b where b: "y = Some b" "node_view b = node_view a" using y by auto
      have "mn_id a = i" "mn_id b = i" using n Inr Some y b node by auto
      then show ?thesis using acts b y Inr Some
        by (cases "actions_for_node i db"; cases "actions_for_node i db'")
          (auto simp: view_of_def history_record_at_def record_view_def)
    qed
  qed
qed

section \<open>Appending\<close>

lemma relate_actions_edges:
  assumes "list_all is_memory_node_id as"
  shows "relate_actions n pos as db = (Inr (), db\<lparr> gd_relations := gd_relations db @
    map (\<lambda>(i, p). \<lparr> re_table = ''actions'', re_in = n, re_out = i, re_position = int p \<rparr>) (zip as [pos..<pos + length as]) \<rparr>)"
  using assms
proof (induction as arbitrary: pos db)
  case (Cons a as)
  have "[pos..<pos + length (a # as)] = pos # [Suc pos..<Suc pos + length as]" by (simp add: upt_rec)
  then show ?case using Cons by (simp add: relate_def)
qed simp

lemma new_edges_order:
  assumes "graph_wf env db" "fmlookup (gd_nodes db) n = None" "is_memory_node_id n"
    and "gd_relations db' = gd_relations db @
      map (\<lambda>(i, p). \<lparr> re_table = ''actions'', re_in = n, re_out = i, re_position = int p \<rparr>) (zip as [0..<length as]) @ hs"
    and "list_all (\<lambda>e. re_table e \<noteq> ''actions'') hs"
  shows "ordered_out ''actions'' n db' = as"
proof -
  let ?es = "map (\<lambda>(i, p). \<lparr> re_table = ''actions'', re_in = n, re_out = i, re_position = int p \<rparr>) (zip as [0..<length as])"
  have "edges ''actions'' n db = []" using assms(1-3) by (auto simp: edges_def filter_empty_conv graph_wf_def)
  moreover have "filter (\<lambda>e. re_table e = ''actions'' \<and> re_in e = n) hs = []"
    using assms(5) by (auto simp: filter_empty_conv list_all_iff)
  moreover have "filter (\<lambda>e. re_table e = ''actions'' \<and> re_in e = n) ?es = ?es"
    by (auto simp: filter_id_conv)
  ultimately have "edges ''actions'' n db' = ?es" by (simp add: edges_def assms(4))
  moreover have "map re_position ?es = map int [0..<length as]"
    by (rule nth_equalityI) simp_all
  then have "sort_key re_position ?es = ?es" by (intro sort_key_id_if_sorted) (simp add: sorted_map)
  moreover have "map re_out ?es = as" by (rule nth_equalityI) simp_all
  ultimately show ?thesis by (simp add: ordered_out_def)
qed

text \<open>What an append does: the new node \<open>r\<close>, its edges to the actions and the edge from the history.\<close>

definition appended :: "string \<Rightarrow> string list \<Rightarrow> node_record \<Rightarrow> graph_db \<Rightarrow> graph_db \<Rightarrow> bool" where
  "appended th as r db db' \<longleftrightarrow>
     is_memory_node_id (nr_id r) \<and> fmlookup (gd_nodes db) (nr_id r) = None \<and> fmlookup (gd_nodes db') (nr_id r) = Some r \<and>
     (\<forall>i. i \<noteq> nr_id r \<longrightarrow> stored db' i = stored db i) \<and>
     gd_relations db' = gd_relations db @
       map (\<lambda>(i, p). \<lparr> re_table = ''actions'', re_in = nr_id r, re_out = i, re_position = int p \<rparr>) (zip as [0..<length as]) @
       [\<lparr> re_table = ''history'', re_in = th, re_out = nr_id r, re_position = next_position ''history'' th db \<rparr>]"

lemma append_node_effect:
  assumes ids: "ids_ok env" and wf: "graph_wf env db" and th: "has_node th db"
    and as: "list_all (\<lambda>a. has_node a db) as"
    and app: "append_node env now th sid cid as tags db = (Inr n, db')"
  shows "\<exists>r. appended th as r db db' \<and> memory_node_from_record parse_history_node r = Inr n \<and>
    mn_content n = \<lparr> hn_session = sid, hn_conversation = cid \<rparr>"
proof -
  have va: "list_all is_memory_node_id as" using as wf_id [OF wf] by (fastforce simp: list_all_iff has_node_def)
  have vth: "is_memory_node_id th" using th wf_id [OF wf] by (auto simp: has_node_def)
  have vs: "is_memory_node_id sid \<and> is_memory_node_id cid"
    using app vth by (auto simp: append_node_def memory_node_record_id_def split: if_splits)
  obtain r db1 where c: "create_node env now (history_tags ''task-history-node'' tags) (history_dict sid cid) db = (r, db1)"
    by fastforce
  note s = create_node_simps [OF c]
  have id: "is_memory_node_id (nr_id r)" using ids s(1) by (simp add: ids_ok_def)
  have fresh: "fmlookup (gd_nodes db) (nr_id r) = None" by (rule create_node_fresh [OF wf c])
  let ?es = "map (\<lambda>(i, p). \<lparr> re_table = ''actions'', re_in = nr_id r, re_out = i, re_position = int p \<rparr>) (zip as [0..<length as])"
  have "edges ''history'' th (db1\<lparr> gd_relations := gd_relations db @ ?es \<rparr>) = edges ''history'' th db"
    by (auto simp: edges_def filter_empty_conv)
  then have pos: "next_position ''history'' th (db1\<lparr> gd_relations := gd_relations db @ ?es \<rparr>) = next_position ''history'' th db"
    by (simp add: next_position_def)
  have n: "memory_node_from_record parse_history_node r = Inr n"
    and db': "db' = touch now th (relate ''history'' th (nr_id r) (next_position ''history'' th db)
      (db1\<lparr> gd_relations := gd_relations db @ ?es \<rparr>))"
    using app vth vs id s(7)
    by (simp_all add: append_node_def c relate_actions_edges [OF va] pos)
  have "th \<noteq> nr_id r" using th fresh by (auto simp: has_node_def)
  then have "fmlookup (gd_nodes db') (nr_id r) = Some r" by (simp add: db' touch_def s(9))
  moreover have "stored db' i = stored db i" if "i \<noteq> nr_id r" for i
    using that by (auto simp: stored_def db' touch_def s(9) option.map_comp comp_def)
  moreover have "mn_content n = \<lparr> hn_session = sid, hn_conversation = cid \<rparr>"
    using n s(2) vs by (auto simp: memory_node_from_record_def history_dict_def parse_history_node_def content_record_id_def
        content_str_def obj_get_def)
  moreover have "gd_relations db' = gd_relations db @ ?es @
      [\<lparr> re_table = ''history'', re_in = th, re_out = nr_id r, re_position = next_position ''history'' th db \<rparr>]"
    by (simp add: db' touch_def)
  ultimately show ?thesis using n fresh id by (auto simp: appended_def)
qed

lemma appended_edges:
  assumes "appended th as r db db'"
  shows "edges ''action'' i db' = edges ''action'' i db"
    and "i \<noteq> nr_id r \<Longrightarrow> ordered_out ''actions'' i db' = ordered_out ''actions'' i db"
    and "ordered_out ''history'' th db' = ordered_out ''history'' th db @ [nr_id r]"
proof -
  show "edges ''action'' i db' = edges ''action'' i db"
    using assms by (auto simp: appended_def edges_def filter_empty_conv)
  show "ordered_out ''actions'' i db' = ordered_out ''actions'' i db" if "i \<noteq> nr_id r"
    using that assms by (intro ordered_out_cong) (auto simp: appended_def edges_def filter_empty_conv)
  have "edges ''history'' th db' = edges ''history'' th (relate ''history'' th (nr_id r) (next_position ''history'' th db) db)"
    using assms by (auto simp: appended_def edges_def filter_empty_conv)
  then show "ordered_out ''history'' th db' = ordered_out ''history'' th db @ [nr_id r]"
    using ordered_out_append [of "''history''" th "nr_id r" db] by (simp add: ordered_out_def)
qed

lemma appended_old:
  assumes "graph_wf env db" "appended th as r db db'" "e \<in> set (edges t a db)"
  shows "re_out e \<noteq> nr_id r" "stored db' (re_out e) = stored db (re_out e)"
proof -
  show "re_out e \<noteq> nr_id r" using assms by (auto simp: appended_def edges_def graph_wf_def)
  then show "stored db' (re_out e) = stored db (re_out e)" using assms(2) by (simp add: appended_def)
qed

lemma appended_actions:
  assumes wf: "graph_wf env db" and app: "appended th as r db db'"
  shows "map_sum id (map node_view) (collect_found (\<lambda>a. action_for_session_action a db') is) =
      map_sum id (map node_view) (collect_found (\<lambda>a. action_for_session_action a db) is)"
  by (rule collect_view, rule action_view) (use appended_edges(1) [OF app] appended_old(2) [OF wf app] in blast)+

lemma appended_records:
  assumes wf: "graph_wf env db" and app: "appended th as r db db'" and i: "i \<noteq> nr_id r"
  shows "view_of record_view (history_record_at db' i) = view_of record_view (history_record_at db i)"
proof (rule record_view_same)
  show "stored db' i = stored db i" using app i by (simp add: appended_def)
  show "map_sum id (map node_view) (actions_for_node i db') = map_sum id (map node_view) (actions_for_node i db)"
    using appended_actions [OF wf app] appended_edges(2) [OF app i]
    by (simp add: actions_for_node_def memory_node_record_id_def)
  show "fst x = i" if "stored db i = Some x" for x using that wf_id [OF wf] by (auto simp: stored_def)
qed

lemma appended_new:
  assumes wf: "graph_wf env db" and app: "appended th as r db db'" and n: "memory_node_from_record parse_history_node r = Inr n"
    and xs: "collect_found (\<lambda>a. action_for_session_action a db) as = Inr xs"
  shows "\<exists>ys. history_record_at db' (nr_id r) = Inr (Some \<lparr> hr_node = n, hr_actions = ys \<rparr>) \<and>
    map node_view ys = map node_view xs"
proof -
  have id: "is_memory_node_id (nr_id r)" "fmlookup (gd_nodes db') (nr_id r) = Some r" using app by (simp_all add: appended_def)
  have "ordered_out ''actions'' (nr_id r) db' = as"
    by (rule new_edges_order [OF wf, of "nr_id r"]) (use app in \<open>auto simp: appended_def\<close>)
  then have "actions_for_node (nr_id r) db' = collect_found (\<lambda>a. action_for_session_action a db') as"
    using id by (simp add: actions_for_node_def)
  then obtain ys where ys: "actions_for_node (nr_id r) db' = Inr ys" "map node_view ys = map node_view xs"
    using appended_actions [OF wf app, of as] xs by (auto simp: map_sum_eq_Inr)
  have "mn_id n = nr_id r" using n by (auto simp: memory_node_from_record_def split: json.splits sum.splits)
  then show ?thesis using id n ys by (simp add: history_record_at_def select_node_def existing_def)
qed

lemma history_append:
  assumes "ids_ok env" and wf: "graph_wf env db" and "has_node th db" "list_all (\<lambda>a. has_node a db) as"
    and rs: "history_records th db = Inr rs"
    and xs: "collect_found (\<lambda>a. action_for_session_action a db) as = Inr xs"
    and app: "append_node env now th sid cid as tags db = (Inr n, db')"
  shows "\<exists>rs'. history_records th db' = Inr rs' \<and> map record_view rs' =
    map record_view rs @ [((mn_id n, \<lparr> hn_session = sid, hn_conversation = cid \<rparr>), map node_view xs)]"
proof -
  obtain r where app: "appended th as r db db'" and n: "memory_node_from_record parse_history_node r = Inr n"
    and cont: "mn_content n = \<lparr> hn_session = sid, hn_conversation = cid \<rparr>"
    using append_node_effect [OF assms(1) wf assms(3,4) app] by blast
  have vth: "is_memory_node_id th" using assms(3) wf_id [OF wf] by (auto simp: has_node_def)
  have "map_sum id (map record_view) (collect_found (history_record_at db') (ordered_out ''history'' th db)) =
      map_sum id (map record_view) (collect_found (history_record_at db) (ordered_out ''history'' th db))"
    by (rule collect_view, rule appended_records [OF wf app])
      (use appended_old(1) [OF wf app] in \<open>auto simp: ordered_out_set\<close>)
  then obtain rs1 where rs1: "collect_found (history_record_at db') (ordered_out ''history'' th db) = Inr rs1"
      "map record_view rs1 = map record_view rs"
    using rs vth by (auto simp: history_records_def map_sum_eq_Inr)
  obtain ys where ys: "history_record_at db' (nr_id r) = Inr (Some \<lparr> hr_node = n, hr_actions = ys \<rparr>)"
      "map node_view ys = map node_view xs"
    using appended_new [OF wf app n xs] by blast
  have "history_records th db' = Inr (rs1 @ [\<lparr> hr_node = n, hr_actions = ys \<rparr>])"
    using vth rs1(1) ys(1) by (simp add: history_records_def appended_edges(3) [OF app] collect_append)
  then show ?thesis using rs1(2) ys(2) cont by (simp add: record_view_def node_view_def)
qed

text \<open>
  In every reachable database, appending a node to a task history, with session actions that
  exist, adds exactly one record at the end of the history: it has the session and the
  conversation given, and its actions are the actions recorded for the session actions given, in
  their order. The records read before keep their nodes, contents and actions, in the same order.
\<close>

lemma history_appends_in_order:
  assumes "ids_ok env" "store_reachable env db" "has_node th db" "list_all (\<lambda>a. has_node a db) as"
    and rs: "history_records th db = Inr rs"
    and xs: "collect_found (\<lambda>a. action_for_session_action a db) as = Inr xs"
    and app: "append_node env now th sid cid as tags db = (Inr n, db')"
  shows "\<exists>rs'. history_records th db' = Inr rs' \<and> map record_view rs' =
    map record_view rs @ [((mn_id n, \<lparr> hn_session = sid, hn_conversation = cid \<rparr>), map node_view xs)]"
proof -
  have "graph_wf env db" using reachable_inv assms(1,2) by (auto simp: store_inv_def)
  then show ?thesis using history_append assms by blast
qed

text \<open>A history 0 with an action 1 and its session action 2.\<close>

definition ex_history :: graph_db where
  "ex_history =
     snd (create_session_action ex_env 2 ''memory_node:1'' []
       (snd (create_action ex_env 1 ''run'' (JObj []) JNull [] (snd (history_create ex_env 0 [] empty_graph)))))"

definition ex_append :: "(py_error + history_node memory_node) \<times> graph_db" where
  "ex_append = append_node ex_env 3 ''memory_node:0'' ''memory_node:8'' ''memory_node:9'' [''memory_node:2''] [] ex_history"

lemma ex_history_facts:
  "has_node ''memory_node:1'' (snd (create_action ex_env 1 ''run'' (JObj []) JNull [] (snd (history_create ex_env 0 [] empty_graph))))"
  "has_node ''memory_node:0'' ex_history" "list_all (\<lambda>a. has_node a ex_history) [''memory_node:2'']"
  "history_records ''memory_node:0'' ex_history = Inr []"
  "\<not> isl (collect_found (\<lambda>a. action_for_session_action a ex_history) [''memory_node:2''])"
  "\<not> isl (fst ex_append)"
  by code_simp+

lemma ex_history_reachable: "store_reachable ex_env ex_history"
  unfolding ex_history_def
  by (intro store_reachable.step [OF store_reachable.step [OF store_reachable.step [OF store_reachable.init
        store_step.history] store_step.action] store_step.session_action] ex_history_facts(1))

lemma history_appends_in_order_witness:
  "\<exists>rs'. history_records ''memory_node:0'' (snd ex_append) = Inr rs' \<and> length rs' = 1"
proof -
  obtain xs where xs: "collect_found (\<lambda>a. action_for_session_action a ex_history) [''memory_node:2''] = Inr xs"
    using ex_history_facts(5) by (metis isl_def sum.exhaust)
  obtain n db' where app: "ex_append = (Inr n, db')" using ex_history_facts(6) by (metis isl_def prod.collapse sum.exhaust)
  obtain rs' where "history_records ''memory_node:0'' db' = Inr rs'" "length (map record_view rs') = 1"
    using history_appends_in_order [OF ex_ids ex_history_reachable ex_history_facts(2-4) xs app [unfolded ex_append_def]]
    by fastforce
  then show ?thesis unfolding app snd_conv by (metis length_map)
qed

end
