(* ===== verification/Primitives.thy ===== *)
theory Primitives
  imports HistoryOrder
begin

text \<open>
  \<open>reframe_agent_host/task_execution/primitives.py\<close> and \<open>primitive_payloads.py\<close>: the actions a task
  returned are carried out one by one, each is recorded, and the recorded actions become one node
  of the task history. The background thread that speaks a reply is represented by the text it is
  started with, and the events it reports by \<open>on_speech_event\<close>; one dispatch reads the clock once.
\<close>

section \<open>Payloads\<close>

definition first_text :: "json \<Rightarrow> string list \<Rightarrow> string" where
  "first_text payload keys =
     (case filter (\<lambda>t. t \<noteq> [])
        (map (\<lambda>k. case obj_get payload k of None \<Rightarrow> [] | Some JNull \<Rightarrow> [] | Some v \<Rightarrow> py_strip (py_str_json v)) keys) of
        [] \<Rightarrow> []
      | t # _ \<Rightarrow> t)"

definition payload_text :: "json \<Rightarrow> string list \<Rightarrow> string" where
  "payload_text payload keys =
     (case payload of
        JStr s \<Rightarrow> py_strip s
      | JObj _ \<Rightarrow> first_text payload keys
      | _ \<Rightarrow> [])"

definition py_or :: "string \<Rightarrow> string \<Rightarrow> string" where
  "py_or a b = (if a = [] then b else a)"

definition memory_payload :: "json \<Rightarrow> string \<Rightarrow> string \<times> string" where
  "memory_payload payload default_title =
     (case payload of
        JObj _ \<Rightarrow>
          let title = py_or (first_text payload [''title'', ''name'', ''summary'']) default_title;
              description = py_or (first_text payload [''description'', ''text'', ''memory'', ''value'']) title
          in (title, description)
      | _ \<Rightarrow>
          let txt = (case payload of JNull \<Rightarrow> [] | _ \<Rightarrow> py_strip (py_str_json payload))
          in if txt = [] then (default_title, default_title) else (py_strip (take 80 txt), txt))"

text \<open>\<open>json.dumps(payload, sort_keys=True)\<close>.\<close>

fun json_line :: "json \<Rightarrow> string" where
  "json_line JNull = ''null''"
| "json_line (JBool b) = (if b then ''true'' else ''false'')"
| "json_line (JInt i) = py_str_int i"
| "json_line (JStr s) = json_string s"
| "json_line (JList xs) = ''['' @ py_join '', '' (map json_line xs) @ '']''"
| "json_line (JObj kvs) =
     ''{'' @ py_join '', '' (map (\<lambda>(k, t). json_string k @ '': '' @ t)
       (sort_key fst (map (\<lambda>(k, v). (k, json_line v)) kvs))) @ ''}''"

definition MAX_ACTION_DETAIL_CHARS :: nat where
  "MAX_ACTION_DETAIL_CHARS = 1200"

definition payload_preview :: "json \<Rightarrow> string" where
  "payload_preview payload =
     (let txt = json_line payload in
      if length txt \<le> MAX_ACTION_DETAIL_CHARS then txt
      else py_rstrip (take (MAX_ACTION_DETAIL_CHARS - 3) txt) @ ''...'')"

definition action_not_supported_detail :: "string \<Rightarrow> json \<Rightarrow> string option \<Rightarrow> string" where
  "action_not_supported_detail name payload reason =
     py_join '' '' ([''Action not supported: '' @ py_or name ''<empty>''] @
       (case reason of None \<Rightarrow> [] | Some r \<Rightarrow> if r = [] then [] else [''reason='' @ r]) @
       [''payload='' @ payload_preview payload])"

definition malformed_detail :: "string \<Rightarrow> json \<Rightarrow> string" where
  "malformed_detail name payload =
     ''Malformed action payload: '' @ name @ '' payload='' @ payload_preview payload"

section \<open>The dispatcher\<close>

definition SUPPORTED_PRIMITIVES :: "string list" where
  "SUPPORTED_PRIMITIVES =
     [''agent_thought'', ''agent_reply'', ''conversation_mode_off'', ''session_memory'', ''user_preference'']"

definition UNSUPPORTED_PRIMITIVES :: "string list" where
  "UNSUPPORTED_PRIMITIVES =
     [''website_memory'', ''window_move'', ''window_resize'', ''window_minimize'', ''window_close'',
      ''window_open'', ''website_open'', ''website_read'', ''website_call'']"

record task_call =
  tk_name :: string
  tk_payload :: json

record dispatch_record =
  dr_name :: string
  dr_status :: string
  dr_detail :: string
  dr_output :: json

record dispatch_result =
  dp_records :: "dispatch_record list"
  dp_task_history_id :: "string option"
  dp_task_history_node_id :: "string option"

text \<open>
  The fields of a dispatcher, with what its callbacks were called with: the events (if there is an
  \<open>on_event\<close>), the calls of \<open>on_conversation_mode_off\<close> and the texts handed to a speaking thread.
\<close>

record dispatcher =
  pd_session_id :: "string option"
  pd_conversation_id :: "string option"
  pd_task_history_id :: "string option"
  pd_has_on_event :: bool
  pd_has_mode_off :: bool
  pd_events :: "(string \<times> string) list"
  pd_mode_off_calls :: nat
  pd_spoken :: "string list"

definition emit :: "string \<Rightarrow> string \<Rightarrow> dispatcher \<Rightarrow> dispatcher" where
  "emit stage message d =
     (if pd_has_on_event d then d\<lparr> pd_events := pd_events d @ [(stage, message)] \<rparr> else d)"

definition speak_in_background :: "string \<Rightarrow> dispatcher \<Rightarrow> dispatcher" where
  "speak_in_background txt d = d\<lparr> pd_spoken := pd_spoken d @ [txt] \<rparr>"

definition jopt_id :: "string option \<Rightarrow> json" where
  "jopt_id i = (case i of None \<Rightarrow> JNull | Some s \<Rightarrow> JStr s)"

definition add_agent_message ::
  "db_env \<Rightarrow> nat \<Rightarrow> string \<Rightarrow> string \<Rightarrow> string \<Rightarrow> graph_db \<Rightarrow> (py_error + string) \<times> graph_db" where
  "add_agent_message env now cid role txt db =
     (case add_message env now cid \<lparr> mg_role = role, mg_content = txt \<rparr> [] None db of
        (Inl e, db1) \<Rightarrow> (Inl e, db1)
      | (Inr m, db1) \<Rightarrow> (Inr (mn_id m), db1))"

definition agent_reply ::
  "db_env \<Rightarrow> nat \<Rightarrow> string \<Rightarrow> dispatcher \<Rightarrow> graph_db \<Rightarrow> (py_error + string option) \<times> dispatcher \<times> graph_db" where
  "agent_reply env now txt d db =
     (let said = (\<lambda>d. speak_in_background txt (emit ''agent-reply'' txt d)) in
      case pd_conversation_id d of
        None \<Rightarrow> (Inr None, said d, db)
      | Some cid \<Rightarrow>
          (case add_agent_message env now cid ''agent'' txt db of
             (Inl e, db1) \<Rightarrow> (Inl e, d, db1)
           | (Inr i, db1) \<Rightarrow> (Inr (Some i), said d, db1)))"

definition agent_thought ::
  "db_env \<Rightarrow> nat \<Rightarrow> string \<Rightarrow> dispatcher \<Rightarrow> graph_db \<Rightarrow> (py_error + string option) \<times> dispatcher \<times> graph_db" where
  "agent_thought env now txt d db =
     (case pd_conversation_id d of
        None \<Rightarrow> (Inr None, d, db)
      | Some cid \<Rightarrow>
          (case add_agent_message env now cid ''agent_thought'' txt db of
             (Inl e, db1) \<Rightarrow> (Inl e, d, db1)
           | (Inr i, db1) \<Rightarrow> (Inr (Some i), emit ''agent-thought'' txt d, db1)))"

text \<open>A reply that tells why an action was not carried out.\<close>

definition refuse ::
  "db_env \<Rightarrow> nat \<Rightarrow> string \<Rightarrow> string \<Rightarrow> string \<Rightarrow> dispatcher \<Rightarrow> graph_db \<Rightarrow>
   (py_error + dispatch_record) \<times> dispatcher \<times> graph_db" where
  "refuse env now name status detail d db =
     (case agent_reply env now detail d db of
        (Inl e, s) \<Rightarrow> (Inl e, s)
      | (Inr i, s) \<Rightarrow>
          (Inr \<lparr> dr_name = name, dr_status = status, dr_detail = detail,
                 dr_output = JObj [(''status'', JStr status), (''detail'', JStr detail), (''message'', jopt_id i)] \<rparr>, s))"

definition said_record :: "string \<Rightarrow> string \<Rightarrow> string option \<Rightarrow> dispatch_record" where
  "said_record name txt i =
     \<lparr> dr_name = name, dr_status = ''ok'', dr_detail = txt,
       dr_output = JObj [(''status'', JStr ''ok''), (''message'', jopt_id i), (''text'', JStr txt)] \<rparr>"

definition memory_record :: "string \<Rightarrow> string \<Rightarrow> string \<Rightarrow> string \<Rightarrow> dispatch_record" where
  "memory_record name title description i =
     \<lparr> dr_name = name, dr_status = ''ok'', dr_detail = title,
       dr_output = JObj [(''status'', JStr ''ok''), (''memory'', JStr i), (''title'', JStr title),
                         (''description'', JStr description)] \<rparr>"

definition dispatch_call ::
  "db_env \<Rightarrow> nat \<Rightarrow> task_call \<Rightarrow> dispatcher \<Rightarrow> graph_db \<Rightarrow>
   (py_error + dispatch_record) \<times> dispatcher \<times> graph_db" where
  "dispatch_call env now call d db =
     (let name = py_strip (tk_name call); payload = tk_payload call in
      if name \<in> set UNSUPPORTED_PRIMITIVES \<or> name \<notin> set SUPPORTED_PRIMITIVES
      then refuse env now (py_or name ''<empty>'') ''unsupported'' (action_not_supported_detail name payload None) d db
      else if name = ''agent_reply'' then
        (let txt = payload_text payload [''text'', ''message'', ''reply''] in
         if txt = [] then refuse env now name ''malformed'' (malformed_detail name payload) d db
         else case agent_reply env now txt d db of
                (Inl e, s) \<Rightarrow> (Inl e, s)
              | (Inr i, s) \<Rightarrow> (Inr (said_record name txt i), s))
      else if name = ''agent_thought'' then
        (let txt = payload_text payload [''text'', ''thought'', ''message''] in
         if txt = [] then refuse env now name ''malformed'' (malformed_detail name payload) d db
         else case agent_thought env now txt d db of
                (Inl e, s) \<Rightarrow> (Inl e, s)
              | (Inr i, s) \<Rightarrow> (Inr (said_record name txt i), s))
      else if name = ''conversation_mode_off'' then
        (let d1 = (if pd_has_mode_off d then d\<lparr> pd_mode_off_calls := pd_mode_off_calls d + 1 \<rparr> else d);
             d2 = emit ''conversation-mode'' ''continuous conversation off'' d1
         in (Inr \<lparr> dr_name = name, dr_status = ''ok'', dr_detail = ''continuous conversation off'',
                   dr_output = JObj [(''status'', JStr ''ok''), (''conversation_mode'', JStr ''off'')] \<rparr>, d2, db))
      else if name = ''session_memory'' then
        (case pd_session_id d of
           None \<Rightarrow> refuse env now name ''unsupported''
                     (action_not_supported_detail name payload (Some ''missing session_id'')) d db
         | Some sid \<Rightarrow>
             let (title, description) = memory_payload payload ''Session memory'' in
             (case session_memory_create env now sid \<lparr> td_title = title, td_description = description \<rparr>
                     [''task-execution'', ''session-memory''] db of
                (Inl e, db1) \<Rightarrow> (Inl e, d, db1)
              | (Inr m, db1) \<Rightarrow> (Inr (memory_record name title description (mn_id m)), d, db1)))
      else if name = ''user_preference'' then
        (let (title, description) = memory_payload payload ''User preference'' in
         case context_create env now User_preference \<lparr> td_title = title, td_description = description \<rparr>
                [''task-execution'', ''user-preference''] db of
           (Inl e, db1) \<Rightarrow> (Inl e, d, db1)
         | (Inr m, db1) \<Rightarrow> (Inr (memory_record name title description (mn_id m)), d, db1))
      else refuse env now name ''unsupported'' (action_not_supported_detail name payload None) d db)"

definition ensure_task_history ::
  "db_env \<Rightarrow> nat \<Rightarrow> dispatcher \<Rightarrow> graph_db \<Rightarrow> (py_error + string option) \<times> dispatcher \<times> graph_db" where
  "ensure_task_history env now d db =
     (if pd_session_id d = None \<or> pd_conversation_id d = None then (Inr None, d, db)
      else case pd_task_history_id d of
             Some th \<Rightarrow> (Inr (Some th), d, db)
           | None \<Rightarrow>
               (case history_create env now [''task-execution''] db of
                  (Inl e, db1) \<Rightarrow> (Inl e, d, db1)
                | (Inr n, db1) \<Rightarrow> (Inr (Some (mn_id n)), d\<lparr> pd_task_history_id := Some (mn_id n) \<rparr>, db1)))"

text \<open>\<open>payload or {}\<close>.\<close>

fun py_falsy :: "json \<Rightarrow> bool" where
  "py_falsy JNull = True"
| "py_falsy (JBool b) = (\<not> b)"
| "py_falsy (JInt i) = (i = 0)"
| "py_falsy (JStr s) = (s = [])"
| "py_falsy (JList xs) = (xs = [])"
| "py_falsy (JObj kvs) = (kvs = [])"

definition dispatch_record_action ::
  "db_env \<Rightarrow> nat \<Rightarrow> task_call \<Rightarrow> dispatch_record \<Rightarrow> dispatcher \<Rightarrow> graph_db \<Rightarrow> (py_error + string option) \<times> graph_db" where
  "dispatch_record_action env now call r d db =
     (if pd_task_history_id d = None then (Inr None, db)
      else case record_action env now (dr_name r) (if py_falsy (tk_payload call) then JObj [] else tk_payload call)
                  (dr_output r) [''task-execution''] db of
             (Inl e, db1) \<Rightarrow> (Inl e, db1)
           | (Inr a, db1) \<Rightarrow> (Inr (Some (mn_id a)), db1))"

fun dispatch_loop ::
  "db_env \<Rightarrow> nat \<Rightarrow> task_call list \<Rightarrow> dispatcher \<Rightarrow> graph_db \<Rightarrow>
   (py_error + dispatch_record list \<times> string list) \<times> dispatcher \<times> graph_db" where
  "dispatch_loop env now [] d db = (Inr ([], []), d, db)"
| "dispatch_loop env now (call # calls) d db =
     (case dispatch_call env now call d db of
        (Inl e, s) \<Rightarrow> (Inl e, s)
      | (Inr r, d1, db1) \<Rightarrow>
          (case dispatch_record_action env now call r d1 db1 of
             (Inl e, db2) \<Rightarrow> (Inl e, d1, db2)
           | (Inr a, db2) \<Rightarrow>
               (case dispatch_loop env now calls d1 db2 of
                  (Inl e, s) \<Rightarrow> (Inl e, s)
                | (Inr (rs, as), s) \<Rightarrow> (Inr (r # rs, (case a of None \<Rightarrow> as | Some i \<Rightarrow> i # as)), s))))"

definition append_task_history_node ::
  "db_env \<Rightarrow> nat \<Rightarrow> string option \<Rightarrow> string list \<Rightarrow> dispatcher \<Rightarrow> graph_db \<Rightarrow> (py_error + string option) \<times> graph_db" where
  "append_task_history_node env now th as d db =
     (case (th, pd_session_id d, pd_conversation_id d) of
        (Some h, Some sid, Some cid) \<Rightarrow>
          (case append_node env now h sid cid as [''task-execution''] db of
             (Inl e, db1) \<Rightarrow> (Inl e, db1)
           | (Inr n, db1) \<Rightarrow> (Inr (Some (mn_id n)), db1))
      | _ \<Rightarrow> (Inr None, db))"

definition dispatch ::
  "db_env \<Rightarrow> nat \<Rightarrow> task_call list option \<Rightarrow> dispatcher \<Rightarrow> graph_db \<Rightarrow>
   (py_error + dispatch_result) \<times> dispatcher \<times> graph_db" where
  "dispatch env now result d db =
     (case result of
        None \<Rightarrow> (Inr \<lparr> dp_records = [], dp_task_history_id = None, dp_task_history_node_id = None \<rparr>, d, db)
      | Some calls \<Rightarrow>
          (case ensure_task_history env now d db of
             (Inl e, s) \<Rightarrow> (Inl e, s)
           | (Inr th, d1, db1) \<Rightarrow>
               (case dispatch_loop env now calls d1 db1 of
                  (Inl e, s) \<Rightarrow> (Inl e, s)
                | (Inr (rs, as), d2, db2) \<Rightarrow>
                    (case append_task_history_node env now th as d2 db2 of
                       (Inl e, db3) \<Rightarrow> (Inl e, d2, db3)
                     | (Inr n, db3) \<Rightarrow>
                         (Inr \<lparr> dp_records = rs, dp_task_history_id = th, dp_task_history_node_id = n \<rparr>, d2, db3)))))"

section \<open>Events of a speaking thread\<close>

definition record_agent_reply_interrupted ::
  "db_env \<Rightarrow> nat \<Rightarrow> string \<Rightarrow> dispatcher \<Rightarrow> graph_db \<Rightarrow> dispatcher \<times> graph_db" where
  "record_agent_reply_interrupted env now detail d db =
     (case pd_conversation_id d of
        None \<Rightarrow> (d, db)
      | Some cid \<Rightarrow>
          (case add_agent_message env now cid ''agent_reply_interrupted'' detail db of
             (Inl e, db1) \<Rightarrow> (emit ''warning'' (''failed to record interrupted agent reply: '' @ error_text e) d, db1)
           | (Inr _, db1) \<Rightarrow> (d, db1)))"

definition on_speech_event ::
  "db_env \<Rightarrow> nat \<Rightarrow> string \<Rightarrow> string \<Rightarrow> dispatcher \<Rightarrow> graph_db \<Rightarrow> dispatcher \<times> graph_db" where
  "on_speech_event env now stage message d db =
     (if stage = ''tts-interrupted'' then
        let detail = normalize_ws message;
            (d1, db1) = record_agent_reply_interrupted env now detail (emit ''agent-reply-interrupted'' detail d) db
        in (emit stage message d1, db1)
      else (emit stage message d, db))"

end
