(* ===== verification/DispatchGuarantees.thy ===== *)
theory DispatchGuarantees
  imports Primitives
begin

text \<open>
  What a dispatch of actions does to the memory: the conversation gets the replies and thoughts,
  in order, the task history gets one node with the recorded actions, and nothing else of what was
  stored before changes. The proof is a frame argument: every operation of the stores only extends
  the graph.
\<close>

section \<open>Operations extend the graph\<close>

definition history_tables :: "string list" where
  "history_tables = [''action'', ''actions'', ''history'']"

definition extends :: "graph_db \<Rightarrow> graph_db \<Rightarrow> bool" where
  "extends db db' \<longleftrightarrow>
     (\<forall>i x. stored db i = Some x \<longrightarrow> stored db' i = Some x) \<and>
     (\<forall>t a. t \<in> set history_tables \<longrightarrow> has_node a db \<longrightarrow> edges t a db' = edges t a db) \<and>
     (\<forall>rid i. contained rid i db \<longrightarrow> contained rid i db')"

lemma has_node_stored: "has_node i db \<longleftrightarrow> (\<exists>x. stored db i = Some x)"
  by (auto simp: has_node_def stored_def)

lemma extends_refl [simp]: "extends db db"
  by (simp add: extends_def)

lemma extends_trans: "extends a b \<Longrightarrow> extends b c \<Longrightarrow> extends a c"
  unfolding extends_def by (metis has_node_stored)

lemma extends_node: "extends db db' \<Longrightarrow> has_node i db \<Longrightarrow> has_node i db'"
  unfolding extends_def has_node_stored by blast

lemma extends_stored: "extends db db' \<Longrightarrow> has_node i db \<Longrightarrow> stored db' i = stored db i"
  unfolding extends_def has_node_stored by fastforce

lemma extends_create:
  assumes wf: "graph_wf env db" and c: "create_node env now tags content db = (r, db')"
  shows "extends db db'"
  using create_node_fresh [OF wf c] create_node_simps(7,9) [OF c]
  by (auto simp: extends_def stored_def edges_def contained_def)

lemma extends_relate:
  "extends db db1 \<Longrightarrow> t \<notin> set history_tables \<or> \<not> has_node a db \<Longrightarrow> extends db (relate t a b p db1)"
proof -
  assume e: "extends db db1" and t: "t \<notin> set history_tables \<or> \<not> has_node a db"
  have "edges t' a' (relate t a b p db1) = edges t' a' db1" if "t' \<in> set history_tables" "has_node a' db" for t' a'
    by (rule edges_relate_other) (use that t in auto)
  then show ?thesis using e by (simp add: extends_def stored_def contained_relate)
qed

lemma extends_touch: "extends db db1 \<Longrightarrow> extends db (touch now i db1)"
proof -
  assume e: "extends db db1"
  have "stored (touch now i db1) j = stored db1 j" for j
    by (auto simp: stored_def touch_def option.map_comp comp_def)
  moreover have "edges t a (touch now i db1) = edges t a db1" "contained rid j (touch now i db1) = contained rid j db1" for t a rid j
    by (simp_all add: edges_def contained_def touch_def)
  ultimately show ?thesis using e by (simp add: extends_def)
qed

lemma edges_out_node:
  "graph_wf env db \<Longrightarrow> e \<in> set (edges t a db) \<Longrightarrow> has_node (re_out e) db"
  by (auto simp: edges_def graph_wf_def has_node_def)

text \<open>What a history shows does not change when the graph is extended.\<close>

lemma extends_action:
  assumes wf: "graph_wf env db" and ext: "extends db db'" and a: "has_node a db"
  shows "view_of node_view (action_for_session_action a db') = view_of node_view (action_for_session_action a db)"
  by (rule action_view) (use ext a extends_stored [OF ext] edges_out_node [OF wf] in
    \<open>auto simp: extends_def history_tables_def\<close>)

lemma extends_actions:
  assumes wf: "graph_wf env db" and ext: "extends db db'" and "list_all (\<lambda>a. has_node a db) as"
  shows "map_sum id (map node_view) (collect_found (\<lambda>a. action_for_session_action a db') as) =
    map_sum id (map node_view) (collect_found (\<lambda>a. action_for_session_action a db) as)"
  by (rule collect_view) (use assms(3) extends_action [OF wf ext] in \<open>auto simp: list_all_iff\<close>)

lemma ordered_out_nodes: "graph_wf env db \<Longrightarrow> list_all (\<lambda>i. has_node i db) (ordered_out t a db)"
  using edges_out_node by (fastforce simp: list_all_iff ordered_out_set)

lemma extends_ordered:
  "extends db db' \<Longrightarrow> has_node a db \<Longrightarrow> t \<in> set history_tables \<Longrightarrow> ordered_out t a db' = ordered_out t a db"
  by (rule ordered_out_cong) (simp add: extends_def)

lemma extends_history:
  assumes wf: "graph_wf env db" and ext: "extends db db'" and th: "has_node th db"
  shows "map_sum id (map record_view) (history_records th db') = map_sum id (map record_view) (history_records th db)"
proof -
  have rec: "view_of record_view (history_record_at db' i) = view_of record_view (history_record_at db i)"
    if i: "has_node i db" for i
  proof (rule record_view_same)
    show "stored db' i = stored db i" using extends_stored [OF ext i] .
    have "ordered_out ''actions'' i db' = ordered_out ''actions'' i db"
      using extends_ordered [OF ext i] by (simp add: history_tables_def)
    then show "map_sum id (map node_view) (actions_for_node i db') = map_sum id (map node_view) (actions_for_node i db)"
      using extends_actions [OF wf ext ordered_out_nodes [OF wf]]
      by (simp add: actions_for_node_def memory_node_record_id_def)
    show "fst x = i" if "stored db i = Some x" for x using that wf_id [OF wf] by (auto simp: stored_def)
  qed
  have out: "ordered_out ''history'' th db' = ordered_out ''history'' th db"
    using extends_ordered [OF ext th] by (simp add: history_tables_def)
  have "map_sum id (map record_view) (collect_found (history_record_at db') (ordered_out ''history'' th db)) =
      map_sum id (map record_view) (collect_found (history_record_at db) (ordered_out ''history'' th db))"
    by (rule collect_view, rule rec) (use ordered_out_nodes [OF wf] in \<open>auto simp: list_all_iff\<close>)
  then show ?thesis by (simp add: history_records_def out memory_node_record_id_def)
qed

section \<open>The messages of a conversation\<close>

definition message_view :: "string \<Rightarrow> graph_db \<Rightarrow> message_content list" where
  "message_view cid db =
     map (\<lambda>r. projr (parse_conversation_message (nr_content r))) (existing db (ordered_out ''has_message'' cid db))"

lemma node_content: "memory_node_from_record parse r = Inr n \<Longrightarrow> parse (nr_content r) = Inr (mn_content n)"
  by (auto simp: memory_node_from_record_def split: json.splits sum.splits)

lemma nodes_contents:
  "nodes_from_records parse rs = Inr ns \<Longrightarrow> map mn_content ns = map (\<lambda>r. projr (parse (nr_content r))) rs"
  by (induction rs arbitrary: ns) (auto split: sum.splits dest!: node_content)

lemma messages_view:
  assumes inv: "store_inv env db" and id: "is_memory_node_id cid"
  shows "\<exists>ns. conversation_messages t cid False db = (Inr ns, db) \<and> map mn_content ns = message_view cid db"
proof -
  have wf: "graph_wf env db" using inv by (simp add: store_inv_def)
  obtain ns where "nodes_from_records parse_conversation_message (existing db (ordered_out ''has_message'' cid db)) = Inr ns"
    using messages_fail [OF inv, of t cid False] id by (auto simp: messages_unmarked [OF wf] isl_def) (metis sum.exhaust)
  then show ?thesis using id nodes_contents by (auto simp: messages_unmarked [OF wf] message_view_def)
qed

lemma view_create:
  assumes wf: "graph_wf env db" and c: "create_node env now tags content db = (r, db')"
  shows "message_view cid db' = message_view cid db"
proof -
  note s = create_node_simps(7,9) [OF c]
  have out: "ordered_out ''has_message'' cid db' = ordered_out ''has_message'' cid db"
    by (rule ordered_out_cong [OF edges_cong [OF s(1)]])
  have "existing db' (ordered_out ''has_message'' cid db) = existing db (ordered_out ''has_message'' cid db)"
    by (rule existing_cong)
      (use s(2) create_node_fresh [OF wf c] ordered_out_nodes [OF wf, of "''has_message''" cid] in
        \<open>auto simp: list_all_iff has_node_def\<close>)
  then show ?thesis by (simp add: message_view_def out)
qed

lemma view_relate: "t \<noteq> ''has_message'' \<Longrightarrow> message_view cid (relate t a b p db) = message_view cid db"
  by (simp add: message_view_def existing_def ordered_out_def edges_def)

lemma view_add_message:
  assumes "ids_ok env" "store_inv env db" "mg_role m \<in> set message_roles"
    and "add_message env now cid m tags None db = (Inr n, db')"
  shows "message_view cid db' = message_view cid db @ [m]"
  using add_message_effect [OF assms] by (auto simp: message_view_def dest!: node_content)

section \<open>The memories below a node\<close>

text \<open>The contents of the nodes an edge table lists below a node, in the order they were related.\<close>

definition child_view :: "string \<Rightarrow> string \<Rightarrow> graph_db \<Rightarrow> json list" where
  "child_view t a db = map nr_content (related t a db)"

definition session_memories_of :: "string \<Rightarrow> graph_db \<Rightarrow> json list" where
  "session_memories_of sid db = child_view ''has_session_memory'' sid db"

definition preferences_of :: "graph_db \<Rightarrow> json list" where
  "preferences_of db = child_view ''contains'' (collection_root User_preference) db"

lemma contents_stored:
  "(\<And>i. i \<in> set is \<Longrightarrow> stored db' i = stored db i) \<Longrightarrow> map nr_content (existing db' is) = map nr_content (existing db is)"
proof (induction "is")
  case (Cons i "is")
  then have "stored db' i = stored db i" by simp
  then have "map nr_content (existing db' [i]) = map nr_content (existing db [i])"
    by (cases "fmlookup (gd_nodes db) i"; cases "fmlookup (gd_nodes db') i") (auto simp: stored_def existing_def)
  then show ?case using Cons by (simp add: existing_Cons [of _ i "is"])
qed (simp add: existing_def)

lemma child_view_append:
  assumes wf: "graph_wf env db" and ext: "extends db db'" and es: "edges t a db' = edges t a db @ es"
  shows "child_view t a db' = child_view t a db @ map nr_content (existing db' (map re_out es))"
proof -
  have "map nr_content (existing db' (map re_out (edges t a db))) = map nr_content (existing db (map re_out (edges t a db)))"
    by (rule contents_stored) (use extends_stored [OF ext] edges_out_node [OF wf] in auto)
  then show ?thesis unfolding child_view_def related_def es by (simp add: existing_def)
qed

lemma child_view_same:
  assumes "graph_wf env db" "extends db db'" "edges t a db' = edges t a db"
  shows "child_view t a db' = child_view t a db"
  using child_view_append [OF assms(1,2), of t a "[]"] assms(3) by (simp add: existing_def)

section \<open>What an action asks for\<close>

text \<open>
  The meaning of an action, stated for itself: a reply or a thought, the end of the conversation
  mode, a memory of the session, a preference of the user, or a refusal told as a reply. A payload
  without text for a reply or a thought is malformed, and every other name is not supported.
\<close>

datatype action_effect =
    Says string
  | Thinks string
  | Ends_conversation_mode
  | Remembers titled_content
  | Prefers titled_content
  | Refuses string string

definition called_name :: "task_call \<Rightarrow> string" where
  "called_name call = py_or (py_strip (tk_name call)) ''<empty>''"

definition text_effect :: "(string \<Rightarrow> action_effect) \<Rightarrow> string \<Rightarrow> string list \<Rightarrow> json \<Rightarrow> action_effect" where
  "text_effect f name keys payload =
     (if payload_text payload keys = [] then Refuses ''malformed'' (malformed_detail name payload)
      else f (payload_text payload keys))"

definition memory_of :: "json \<Rightarrow> string \<Rightarrow> titled_content" where
  "memory_of payload title =
     \<lparr> td_title = fst (memory_payload payload title), td_description = snd (memory_payload payload title) \<rparr>"

definition effect_of :: "task_call \<Rightarrow> action_effect" where
  "effect_of call =
     (let name = py_strip (tk_name call); payload = tk_payload call in
      if name = ''agent_reply'' then text_effect Says name [''text'', ''message'', ''reply''] payload
      else if name = ''agent_thought'' then text_effect Thinks name [''text'', ''thought'', ''message''] payload
      else if name = ''conversation_mode_off'' then Ends_conversation_mode
      else if name = ''session_memory'' then Remembers (memory_of payload ''Session memory'')
      else if name = ''user_preference'' then Prefers (memory_of payload ''User preference'')
      else Refuses ''unsupported'' (action_not_supported_detail name payload None))"

fun effect_status :: "action_effect \<Rightarrow> string" where
  "effect_status (Refuses status detail) = status"
| "effect_status e = ''ok''"

fun effect_detail :: "action_effect \<Rightarrow> string" where
  "effect_detail (Says txt) = txt"
| "effect_detail (Thinks txt) = txt"
| "effect_detail Ends_conversation_mode = ''continuous conversation off''"
| "effect_detail (Remembers c) = td_title c"
| "effect_detail (Prefers c) = td_title c"
| "effect_detail (Refuses status detail) = detail"

fun effect_messages :: "action_effect \<Rightarrow> message_content list" where
  "effect_messages (Says txt) = [\<lparr> mg_role = ''agent'', mg_content = txt \<rparr>]"
| "effect_messages (Thinks txt) = [\<lparr> mg_role = ''agent_thought'', mg_content = txt \<rparr>]"
| "effect_messages (Refuses status detail) = [\<lparr> mg_role = ''agent'', mg_content = detail \<rparr>]"
| "effect_messages e = []"

fun effect_memories :: "action_effect \<Rightarrow> titled_content list" where
  "effect_memories (Remembers c) = [c]"
| "effect_memories e = []"

fun effect_preferences :: "action_effect \<Rightarrow> titled_content list" where
  "effect_preferences (Prefers c) = [c]"
| "effect_preferences e = []"

definition mode_offs :: "action_effect list \<Rightarrow> nat" where
  "mode_offs es = length (filter (\<lambda>e. e = Ends_conversation_mode) es)"

definition spoken_of :: "message_content list \<Rightarrow> string list" where
  "spoken_of ms = map mg_content (filter (\<lambda>m. mg_role m = ''agent'') ms)"

section \<open>Effects of the operations a dispatch uses\<close>

text \<open>The memory has grown by what the effects store, and by nothing a reader of the session sees besides.\<close>

definition grows :: "db_env \<Rightarrow> string \<Rightarrow> string \<Rightarrow> action_effect list \<Rightarrow> graph_db \<Rightarrow> graph_db \<Rightarrow> bool" where
  "grows env sid cid es db db' \<longleftrightarrow>
     store_reachable env db' \<and> extends db db' \<and>
     message_view cid db' = message_view cid db @ concat (map effect_messages es) \<and>
     session_memories_of sid db' = session_memories_of sid db @ map titled_dict (concat (map effect_memories es)) \<and>
     preferences_of db' = preferences_of db @ map titled_dict (concat (map effect_preferences es))"

lemma grows_refl: "store_reachable env db \<Longrightarrow> grows env sid cid [] db db"
  by (simp add: grows_def)

lemma grows_trans: "grows env sid cid es a b \<Longrightarrow> grows env sid cid fs b c \<Longrightarrow> grows env sid cid (es @ fs) a c"
  by (auto simp: grows_def intro: extends_trans)

text \<open>A step that adds no edge below the session or the preferences.\<close>

definition leaves_memories :: "string \<Rightarrow> graph_db \<Rightarrow> graph_db \<Rightarrow> bool" where
  "leaves_memories sid db db' \<longleftrightarrow>
     edges ''has_session_memory'' sid db' = edges ''has_session_memory'' sid db \<and>
     edges ''contains'' (collection_root User_preference) db' = edges ''contains'' (collection_root User_preference) db"

lemma leaves_memories_views:
  assumes "graph_wf env db" "extends db db'" "leaves_memories sid db db'"
  shows "session_memories_of sid db' = session_memories_of sid db" "preferences_of db' = preferences_of db"
  using assms child_view_same [OF assms(1,2)] by (auto simp: leaves_memories_def session_memories_of_def preferences_of_def)

lemma leaves_memories_trans: "leaves_memories sid a b \<Longrightarrow> leaves_memories sid b c \<Longrightarrow> leaves_memories sid a c"
  by (simp add: leaves_memories_def)

lemma leaves_create: "create_node env now tags content db = (r, db') \<Longrightarrow> leaves_memories sid db db'"
  using edges_cong [OF create_node_simps(7)] by (auto simp: leaves_memories_def)

lemma leaves_relate:
  "leaves_memories sid db db1 \<Longrightarrow> t \<notin> {''has_session_memory'', ''contains''} \<Longrightarrow> leaves_memories sid db (relate t a b p db1)"
  by (auto simp: leaves_memories_def edges_def)

lemma leaves_touch: "leaves_memories sid db db1 \<Longrightarrow> leaves_memories sid db (touch now i db1)"
  by (simp add: leaves_memories_def edges_def touch_def)

lemma grows_step:
  assumes "graph_wf env db" "store_reachable env db" "store_step env db db'" "extends db db'" "leaves_memories sid db db'"
    and "message_view cid db' = message_view cid db @ concat (map effect_messages es)"
    and "concat (map effect_memories es) = []" "concat (map effect_preferences es) = []"
  shows "grows env sid cid es db db'"
  using assms leaves_memories_views [OF assms(1,4,5)] by (auto simp: grows_def intro: store_reachable.step)

lemma reachable_wf: "ids_ok env \<Longrightarrow> store_reachable env db \<Longrightarrow> graph_wf env db"
  using reachable_inv by (auto simp: store_inv_def)

lemma ensure_under_contained:
  assumes "graph_wf env db" "contained rid i db"
  shows "ensure_under rid msg i db = Inr i"
proof -
  have "is_memory_node_id i" using contained_exists [OF assms] wf_id [OF assms(1)] by blast
  then show ?thesis using under_root_contained [OF assms(1)] assms(2) by (auto simp: ensure_under_def)
qed

lemma create_under_frame:
  assumes wf: "graph_wf env db" and c: "create_under env parse now rid content tags db = (n, db')"
  shows "extends db db'" "message_view cid db' = message_view cid db"
    "edges t a db' = edges t a db @
       (if t = ''contains'' \<and> a = rid
        then [\<lparr> re_table = t, re_in = rid, re_out = de_new_id env (gd_created db), re_position = 0 \<rparr>] else [])"
    "map nr_content (existing db' [de_new_id env (gd_created db)]) = [content]"
proof -
  obtain r db1 where r: "create_node env now tags content db = (r, db1)" by fastforce
  have db': "db' = relate ''contains'' rid (nr_id r) 0 db1" using c by (simp add: create_under_def r)
  note s = create_node_simps [OF r]
  show "extends db db'"
    using extends_relate [OF extends_create [OF wf r], of "''contains''" rid "nr_id r" 0]
    by (simp add: db' history_tables_def)
  show "message_view cid db' = message_view cid db" using view_create [OF wf r, of cid] by (simp add: db' view_relate)
  show "edges t a db' = edges t a db @ (if t = ''contains'' \<and> a = rid
      then [\<lparr> re_table = t, re_in = rid, re_out = de_new_id env (gd_created db), re_position = 0 \<rparr>] else [])"
    using s(1,7) by (auto simp: db' edges_def)
  show "map nr_content (existing db' [de_new_id env (gd_created db)]) = [content]"
    using s(1,2,9) by (simp add: db' existing_def)
qed

lemma create_child_split:
  assumes "create_child env parse now rid t p content tags db = (n, db')"
  shows "\<exists>db1. create_under env parse now rid content tags db = (n, db1) \<and>
    db' = relate t p (de_new_id env (gd_created db)) 0 db1"
proof -
  obtain r db1 where r: "create_node env now tags content db = (r, db1)" by fastforce
  then show ?thesis using assms create_node_simps(1) [OF r] by (simp add: create_child_def create_under_def)
qed

lemma session_memory_effect:
  assumes ids: "ids_ok env" and re: "store_reachable env db" and sid: "contained SESSIONS_ROOT_ID sid db"
  shows "\<exists>n db'. session_memory_create env now sid c tags db = (Inr n, db') \<and> grows env sid cid [Remembers c] db db'"
proof -
  let ?t = "''has_session_memory''" and ?new = "de_new_id env (gd_created db)"
  have wf: "graph_wf env db" using reachable_wf [OF ids re] .
  have eq: "session_memory_create env now sid c tags db =
      create_child env parse_titled now SESSION_MEMORIES_ROOT_ID ?t sid (titled_dict c) tags db"
    using ensure_under_contained [OF wf sid] by (simp add: session_memory_create_def ensure_session_def)
  obtain n db' where n: "session_memory_create env now sid c tags db = (Inr n, db')"
    using titled.create_child_get [OF ids wf TrueI, of ?t] eq by fastforce
  have "store_step env db db'" using store_step.session_memory [of env db now sid c tags] n by simp
  then have re': "store_reachable env db'" by (rule store_reachable.step [OF re])
  obtain db1 where u: "create_under env parse_titled now SESSION_MEMORIES_ROOT_ID (titled_dict c) tags db = (Inr n, db1)"
    and db': "db' = relate ?t sid ?new 0 db1"
    using create_child_split n eq by metis
  note f = create_under_frame [OF wf u]
  have ext: "extends db db'" unfolding db' by (rule extends_relate [OF f(1)]) (simp add: history_tables_def)
  have "edges ?t sid db' = edges ?t sid db @ [\<lparr> re_table = ?t, re_in = sid, re_out = ?new, re_position = 0 \<rparr>]"
    using f(3) [of ?t sid] by (simp add: db' edges_def)
  from child_view_append [OF wf ext this] have "session_memories_of sid db' = session_memories_of sid db @ [titled_dict c]"
    using f(4) by (simp add: session_memories_of_def db' existing_def)
  moreover have "edges ''contains'' (collection_root User_preference) db' = edges ''contains'' (collection_root User_preference) db"
    using f(3) [of "''contains''" "collection_root User_preference"]
    by (simp add: db' edges_def SESSION_MEMORIES_ROOT_ID_def)
  then have "preferences_of db' = preferences_of db"
    unfolding preferences_of_def by (rule child_view_same [OF wf ext])
  moreover have "message_view cid db' = message_view cid db" using f(2) by (simp add: db' view_relate)
  ultimately show ?thesis using n re' ext by (simp add: grows_def)
qed

lemma user_preference_effect:
  assumes ids: "ids_ok env" and re: "store_reachable env db"
  shows "\<exists>n db'. context_create env now User_preference c tags db = (Inr n, db') \<and> grows env sid cid [Prefers c] db db'"
proof -
  let ?root = "collection_root User_preference"
  have wf: "graph_wf env db" using reachable_wf [OF ids re] .
  obtain n db' where n: "context_create env now User_preference c tags db = (Inr n, db')"
    using titled.create_under_get [OF ids wf TrueI] by (fastforce simp: context_create_def)
  have "store_step env db db'" using store_step.context_memory [of env db now User_preference c tags] n by simp
  then have re': "store_reachable env db'" by (rule store_reachable.step [OF re])
  have "create_under env parse_titled now ?root (titled_dict c) tags db = (Inr n, db')"
    using n by (simp add: context_create_def del: collection_root.simps)
  note f = create_under_frame [OF wf this]
  have "session_memories_of sid db' = session_memories_of sid db"
    unfolding session_memories_of_def by (rule child_view_same [OF wf f(1)]) (simp add: f(3))
  moreover have "edges ''contains'' ?root db' = edges ''contains'' ?root db @
      [\<lparr> re_table = ''contains'', re_in = ?root, re_out = de_new_id env (gd_created db), re_position = 0 \<rparr>]"
    by (simp add: f(3))
  from child_view_append [OF wf f(1) this] have "preferences_of db' = preferences_of db @ [titled_dict c]"
    using f(4) by (simp add: preferences_of_def)
  ultimately show ?thesis using n re' f(1,2) by (simp add: grows_def)
qed

lemma agent_message_effect:
  assumes ids: "ids_ok env" and re: "store_reachable env db" and cid: "contained CONVERSATIONS_ROOT_ID cid db"
    and role: "role \<in> set message_roles"
    and es: "concat (map effect_messages es) = [\<lparr> mg_role = role, mg_content = body \<rparr>]"
      "concat (map effect_memories es) = []" "concat (map effect_preferences es) = []"
  shows "\<exists>i db'. add_agent_message env now cid role body db = (Inr i, db') \<and> grows env sid cid es db db'"
proof -
  let ?m = "\<lparr> mg_role = role, mg_content = body \<rparr>"
  have wf: "graph_wf env db" and inv: "store_inv env db" using reachable_wf reachable_inv ids re by auto
  obtain r db1 where c: "create_node env now [] (message_dict ?m) db = (r, db1)" by fastforce
  have "\<exists>n. memory_node_from_record parse_conversation_message r = Inr n"
    using messages.stored_node [of ?m r] create_node_simps(2) [OF c] role by auto
  then obtain n db' where n: "add_message env now cid ?m [] None db = (Inr n, db')"
    and db': "db' = touch now cid (relate ''has_message'' cid (nr_id r) (next_position ''has_message'' cid db) db1)"
    using ensure_under_contained [OF wf cid] by (auto simp: add_message_def ensure_conversation_def c)
  have "extends db db'" unfolding db'
    by (intro extends_touch extends_relate extends_create [OF wf c]) (simp add: history_tables_def)
  moreover have "store_step env db db'" using store_step.message [of ?m env db now cid "[]" None] role n by simp
  moreover have "leaves_memories sid db db'" unfolding db'
    by (intro leaves_touch leaves_relate leaves_create [OF c]) simp
  ultimately show ?thesis
    using n grows_step [OF wf re] view_add_message [OF ids inv _ n] role es by (simp add: add_agent_message_def)
qed

lemma action_content:
  "memory_node_from_record parse_action r = Inr x \<Longrightarrow> nr_content r = action_dict name inp outp \<Longrightarrow>
   mn_content x = \<lparr> an_name = name, an_input = inp, an_output = outp \<rparr>"
  using node_content [of parse_action r x]
  by (simp add: action_dict_def parse_action_def content_str_def obj_get_def)

lemma record_action_effect:
  assumes ids: "ids_ok env" and re: "store_reachable env db"
  shows "\<exists>a db' x. record_action env now name inp outp tags db = (Inr a, db') \<and> grows env sid cid [] db db' \<and>
    has_node (mn_id a) db' \<and> action_for_session_action (mn_id a) db' = Inr (Some x) \<and>
    mn_content x = \<lparr> an_name = name, an_input = inp, an_output = outp \<rparr>"
proof -
  have wf: "graph_wf env db" using reachable_wf [OF ids re] .
  obtain r db1 where c1: "create_node env now (history_tags ''action'' tags) (action_dict name inp outp) db = (r, db1)" by fastforce
  note s1 = create_node_simps [OF c1]
  have id1: "is_memory_node_id (nr_id r)" using ids s1(1) by (simp add: ids_ok_def)
  obtain x where x: "memory_node_from_record parse_action r = Inr x" "mn_id x = nr_id r"
    using s1(2) by (auto simp: memory_node_from_record_def action_dict_def parse_action_def content_str_def obj_get_def)
  have act: "create_action env now name inp outp tags db = (Inr x, db1)" by (simp add: create_action_def c1 x)
  have re1: "store_reachable env db1"
    using store_reachable.step [OF re store_step.action [of env db now name inp outp tags]] act by simp
  have wf1: "graph_wf env db1" using reachable_wf [OF ids re1] .
  obtain q db2 where c2: "create_node env now (history_tags ''session-action'' tags) (JObj []) db1 = (q, db2)" by fastforce
  note s2 = create_node_simps [OF c2]
  have id2: "is_memory_node_id (nr_id q)" using ids s2(1) by (simp add: ids_ok_def)
  have fresh: "\<not> has_node (nr_id q) db1" using create_node_fresh [OF wf1 c2] by (simp add: has_node_def)
  obtain a where a: "memory_node_from_record parse_session_action q = Inr a" "mn_id a = nr_id q"
    using s2(2) by (auto simp: memory_node_from_record_def parse_session_action_def)
  let ?db3 = "relate ''action'' (nr_id q) (nr_id r) 0 db2"
  have rec: "record_action env now name inp outp tags db = (Inr a, ?db3)"
    using id1 id2 a x by (simp add: record_action_def act create_session_action_def c2)
  have "store_step env db1 ?db3"
    using store_step.session_action [of "nr_id r" db1 env now tags] id1 id2 a s1(9)
    by (simp add: create_session_action_def c2 has_node_def)
  then have "store_reachable env ?db3" by (rule store_reachable.step [OF re1])
  moreover have ext: "extends db ?db3"
    by (rule extends_trans [OF extends_create [OF wf c1] extends_relate [OF extends_create [OF wf1 c2]]]) (simp add: fresh)
  moreover have "message_view cid ?db3 = message_view cid db"
    using view_create [OF wf c1] view_create [OF wf1 c2] by (simp add: view_relate)
  moreover have "edges ''action'' (nr_id q) db1 = []"
    using wf1 fresh id2 by (auto simp: edges_def filter_empty_conv graph_wf_def has_node_def)
  then have "action_for_session_action (nr_id q) ?db3 = Inr (Some x)"
    using id1 id2 x(1) s2(7,9) s1(9) fresh
    by (auto simp: action_for_session_action_def select_node_def existing_def edges_def has_node_def)
  moreover have "leaves_memories sid db ?db3"
    by (rule leaves_relate [OF leaves_memories_trans [OF leaves_create [OF c1] leaves_create [OF c2]]]) simp
  note views = leaves_memories_views [OF wf ext this]
  ultimately show ?thesis
    using rec a(2) s2(9) action_content [OF x(1) s1(2)] views by (simp add: grows_def has_node_def)
qed

lemma history_create_effect:
  assumes ids: "ids_ok env" and re: "store_reachable env db"
  shows "\<exists>n db'. history_create env now tags db = (Inr n, db') \<and> grows env sid cid [] db db' \<and> has_node (mn_id n) db' \<and>
    history_records (mn_id n) db' = Inr []"
proof -
  have wf: "graph_wf env db" using reachable_wf [OF ids re] .
  obtain r db1 where c: "create_node env now (history_tags ''task-history'' tags) (JObj []) db = (r, db1)" by fastforce
  note s = create_node_simps [OF c]
  have id: "is_memory_node_id (nr_id r)" using ids s(1) by (simp add: ids_ok_def)
  obtain n where n: "memory_node_from_record parse_task_history r = Inr n" "mn_id n = nr_id r"
    using s(2) by (auto simp: memory_node_from_record_def parse_task_history_def)
  have h: "history_create env now tags db = (Inr n, db1)" by (simp add: history_create_def c n)
  then have "store_step env db db1" using store_step.history [of env db now tags] by simp
  then have "grows env sid cid [] db db1"
    using extends_create [OF wf c] view_create [OF wf c] leaves_create [OF c] by (intro grows_step [OF wf re]) auto
  moreover have "edges ''history'' (nr_id r) db1 = []"
    using wf create_node_fresh [OF wf c] id s(7) by (auto simp: edges_def filter_empty_conv graph_wf_def)
  ultimately show ?thesis using h n(2) id s(9) by (simp add: has_node_def history_records_def ordered_out_def)
qed

section \<open>Calls\<close>

definition same_ids :: "dispatcher \<Rightarrow> dispatcher \<Rightarrow> bool" where
  "same_ids d d' \<longleftrightarrow> pd_session_id d' = pd_session_id d \<and> pd_conversation_id d' = pd_conversation_id d \<and>
     pd_task_history_id d' = pd_task_history_id d \<and> pd_has_mode_off d' = pd_has_mode_off d"

text \<open>A dispatcher of a session and a conversation that exist.\<close>

definition dispatches_in :: "db_env \<Rightarrow> string \<Rightarrow> string \<Rightarrow> dispatcher \<Rightarrow> graph_db \<Rightarrow> bool" where
  "dispatches_in env sid cid d db \<longleftrightarrow>
     ids_ok env \<and> store_reachable env db \<and> pd_session_id d = Some sid \<and> pd_conversation_id d = Some cid \<and>
     contained SESSIONS_ROOT_ID sid db \<and> contained CONVERSATIONS_ROOT_ID cid db"

definition record_of :: "string \<Rightarrow> action_effect \<Rightarrow> dispatch_record \<Rightarrow> bool" where
  "record_of name e r \<longleftrightarrow> dr_name r = name \<and> dr_status r = effect_status e \<and> dr_detail r = effect_detail e \<and>
     obj_get (dr_output r) ''status'' = Some (JStr (effect_status e))"

definition told :: "action_effect list \<Rightarrow> dispatcher \<Rightarrow> dispatcher \<Rightarrow> bool" where
  "told es d d' \<longleftrightarrow> same_ids d d' \<and> pd_spoken d' = pd_spoken d @ spoken_of (concat (map effect_messages es)) \<and>
     pd_mode_off_calls d' = pd_mode_off_calls d + (if pd_has_mode_off d then mode_offs es else 0)"

lemma told_trans: "told es a b \<Longrightarrow> told fs b c \<Longrightarrow> told (es @ fs) a c"
  by (auto simp: told_def same_ids_def spoken_of_def mode_offs_def)

lemma told_refl: "told [] d d"
  by (simp add: told_def same_ids_def spoken_of_def mode_offs_def)

definition dispatched ::
  "db_env \<Rightarrow> string \<Rightarrow> string \<Rightarrow> string \<Rightarrow> action_effect \<Rightarrow> dispatcher \<Rightarrow> graph_db \<Rightarrow>
   (py_error + dispatch_record) \<times> dispatcher \<times> graph_db \<Rightarrow> bool" where
  "dispatched env sid cid name e d db res \<longleftrightarrow>
     (\<exists>r d' db'. res = (Inr r, d', db') \<and> record_of name e r \<and> grows env sid cid [e] db db' \<and> told [e] d d')"

lemma dispatchedI:
  "record_of name e r \<Longrightarrow> grows env sid cid [e] db db' \<Longrightarrow> told [e] d d' \<Longrightarrow>
   dispatched env sid cid name e d db (Inr r, d', db')"
  by (auto simp: dispatched_def)

lemma emit_fields [simp]:
  "pd_session_id (emit a b d) = pd_session_id d" "pd_conversation_id (emit a b d) = pd_conversation_id d"
  "pd_task_history_id (emit a b d) = pd_task_history_id d" "pd_spoken (emit a b d) = pd_spoken d"
  "pd_has_mode_off (emit a b d) = pd_has_mode_off d" "pd_mode_off_calls (emit a b d) = pd_mode_off_calls d"
  by (simp_all add: emit_def)

lemmas call_simps = record_of_def told_def same_ids_def spoken_of_def mode_offs_def obj_get_def

lemma agent_reply_effect:
  assumes "dispatches_in env sid cid d db" and e: "e = Says txt \<or> e = Refuses status txt"
  shows "\<exists>i d' db'. agent_reply env now txt d db = (Inr i, d', db') \<and> told [e] d d' \<and> grows env sid cid [e] db db'"
proof -
  obtain i db' where "add_agent_message env now cid ''agent'' txt db = (Inr i, db')" "grows env sid cid [e] db db'"
    using agent_message_effect [where es = "[e]" and body = "txt" and role = "''agent''" and sid = sid and now = now and env = env and db = db and cid = cid] assms
    by (auto simp: dispatches_in_def message_roles_def)
  then show ?thesis using assms
    by (auto simp: dispatches_in_def agent_reply_def speak_in_background_def call_simps)
qed

lemma agent_thought_effect:
  assumes "dispatches_in env sid cid d db"
  shows "\<exists>i d' db'. agent_thought env now txt d db = (Inr i, d', db') \<and> told [Thinks txt] d d' \<and>
    grows env sid cid [Thinks txt] db db'"
proof -
  obtain i db' where "add_agent_message env now cid ''agent_thought'' txt db = (Inr i, db')" "grows env sid cid [Thinks txt] db db'"
    using agent_message_effect [where es = "[Thinks txt]" and body = "txt" and role = "''agent_thought''" and sid = sid and now = now and env = env and db = db and cid = cid] assms
    by (auto simp: dispatches_in_def message_roles_def)
  then show ?thesis using assms by (simp add: dispatches_in_def agent_thought_def call_simps)
qed

lemma refuse_effect:
  "dispatches_in env sid cid d db \<Longrightarrow>
   dispatched env sid cid name (Refuses status detail) d db (refuse env now name status detail d db)"
  using agent_reply_effect [of env sid cid d db "Refuses status detail" detail status now]
  by (auto intro!: dispatchedI simp: refuse_def record_of_def obj_get_def)

lemma reply_effect:
  assumes "dispatches_in env sid cid d db"
  shows "dispatched env sid cid name (Says txt) d db
    (case agent_reply env now txt d db of (Inl e, s) \<Rightarrow> (Inl e, s) | (Inr i, s) \<Rightarrow> (Inr (said_record name txt i), s))"
  using agent_reply_effect [OF assms, of "Says txt" "txt" "[]" now]
  by (auto intro!: dispatchedI simp: record_of_def obj_get_def said_record_def)

lemma thought_effect:
  assumes "dispatches_in env sid cid d db"
  shows "dispatched env sid cid name (Thinks txt) d db
    (case agent_thought env now txt d db of (Inl e, s) \<Rightarrow> (Inl e, s) | (Inr i, s) \<Rightarrow> (Inr (said_record name txt i), s))"
  using agent_thought_effect [OF assms, of now "txt"]
  by (auto intro!: dispatchedI simp: record_of_def obj_get_def said_record_def)

lemma session_memory_call:
  assumes "dispatches_in env sid cid d db"
  shows "dispatched env sid cid name (Remembers c) d db
    (case session_memory_create env now sid c tags db of (Inl e, db1) \<Rightarrow> (Inl e, d, db1)
     | (Inr m, db1) \<Rightarrow> (Inr (memory_record name (td_title c) description (mn_id m)), d, db1))"
  using session_memory_effect [of env db sid now c tags cid] assms
  by (auto intro!: dispatchedI simp: dispatches_in_def memory_record_def call_simps)

lemma user_preference_call:
  assumes "dispatches_in env sid cid d db"
  shows "dispatched env sid cid name (Prefers c) d db
    (case context_create env now User_preference c tags db of (Inl e, db1) \<Rightarrow> (Inl e, d, db1)
     | (Inr m, db1) \<Rightarrow> (Inr (memory_record name (td_title c) description (mn_id m)), d, db1))"
  using user_preference_effect [of env db now c tags sid cid] assms
  by (auto intro!: dispatchedI simp: dispatches_in_def memory_record_def call_simps)

lemma mode_off_call:
  assumes "dispatches_in env sid cid d db"
  shows "dispatched env sid cid name Ends_conversation_mode d db
    (Inr \<lparr> dr_name = name, dr_status = ''ok'', dr_detail = ''continuous conversation off'',
           dr_output = JObj [(''status'', JStr ''ok''), (''conversation_mode'', JStr ''off'')] \<rparr>,
     emit a b (if pd_has_mode_off d then d\<lparr> pd_mode_off_calls := pd_mode_off_calls d + 1 \<rparr> else d), db)"
proof (rule dispatchedI)
  show "grows env sid cid [Ends_conversation_mode] db db" using assms by (simp add: dispatches_in_def grows_def)
qed (simp_all add: call_simps)

lemma dispatch_call_effect:
  assumes d: "dispatches_in env sid cid d db"
  shows "dispatched env sid cid (called_name call) (effect_of call) d db (dispatch_call env now call d db)"
proof -
  have sid: "pd_session_id d = Some sid" using d by (simp add: dispatches_in_def)
  note effects = refuse_effect [OF d] reply_effect [OF d] thought_effect [OF d] mode_off_call [OF d]
  let ?n = "py_strip (tk_name call)" and ?p = "tk_payload call"
  show ?thesis
  proof (cases "?n \<in> set UNSUPPORTED_PRIMITIVES \<or> ?n \<notin> set SUPPORTED_PRIMITIVES")
    case True
    then have "effect_of call = Refuses ''unsupported'' (action_not_supported_detail ?n ?p None)"
      by (auto simp: effect_of_def Let_def UNSUPPORTED_PRIMITIVES_def SUPPORTED_PRIMITIVES_def)
    then show ?thesis using effects(1) True by (simp add: dispatch_call_def Let_def called_name_def)
  next
    case False
    have "[] \<notin> set SUPPORTED_PRIMITIVES" by (simp add: SUPPORTED_PRIMITIVES_def)
    then have "?n \<noteq> []" using False by metis
    then have n: "called_name call = ?n" by (simp add: called_name_def py_or_def)
    from False consider "?n = ''agent_reply''" | "?n = ''agent_thought''" | "?n = ''conversation_mode_off''"
      | "?n = ''session_memory''" | "?n = ''user_preference''" by (auto simp: SUPPORTED_PRIMITIVES_def)
    then show ?thesis
    proof cases
      case 4
      let ?c = "memory_of ?p ''Session memory''"
      have "effect_of call = Remembers ?c" using 4 by (simp add: effect_of_def)
      moreover have "dispatch_call env now call d db =
          (case session_memory_create env now sid ?c [''task-execution'', ''session-memory''] db of (Inl e, db1) \<Rightarrow> (Inl e, d, db1)
           | (Inr m, db1) \<Rightarrow> (Inr (memory_record ?n (td_title ?c) (td_description ?c) (mn_id m)), d, db1))"
        using 4 False sid by (simp add: dispatch_call_def memory_of_def Let_def case_prod_beta split: sum.split)
      ultimately show ?thesis using session_memory_call [OF d] by (simp only: n)
    next
      case 5
      let ?c = "memory_of ?p ''User preference''"
      have "effect_of call = Prefers ?c" using 5 by (simp add: effect_of_def)
      moreover have "dispatch_call env now call d db =
          (case context_create env now User_preference ?c [''task-execution'', ''user-preference''] db of (Inl e, db1) \<Rightarrow> (Inl e, d, db1)
           | (Inr m, db1) \<Rightarrow> (Inr (memory_record ?n (td_title ?c) (td_description ?c) (mn_id m)), d, db1))"
        using 5 False by (simp add: dispatch_call_def memory_of_def Let_def case_prod_beta split: sum.split)
      ultimately show ?thesis using user_preference_call [OF d] by (simp only: n)
    qed (use False effects in \<open>simp_all add: n dispatch_call_def effect_of_def text_effect_def Let_def\<close>)
  qed
qed

section \<open>The loop\<close>

definition action_of :: "task_call \<Rightarrow> dispatch_record \<Rightarrow> action_content" where
  "action_of call r =
     \<lparr> an_name = dr_name r, an_input = (if py_falsy (tk_payload call) then JObj [] else tk_payload call),
       an_output = dr_output r \<rparr>"

definition recorded :: "graph_db \<Rightarrow> string list \<Rightarrow> action_content list \<Rightarrow> bool" where
  "recorded db as cs \<longleftrightarrow> list_all (\<lambda>a. has_node a db) as \<and>
     (\<exists>xs. collect_found (\<lambda>a. action_for_session_action a db) as = Inr xs \<and> map mn_content xs = cs)"

lemma view_contents: "map node_view xs = map node_view ys \<Longrightarrow> map mn_content xs = map mn_content ys"
  by (metis (no_types, lifting) list.map_comp list.map_cong0 comp_apply node_view_def snd_conv)

lemma recorded_extends:
  assumes "graph_wf env db" "extends db db'" "recorded db as cs"
  shows "recorded db' as cs"
proof -
  obtain xs where as: "list_all (\<lambda>a. has_node a db) as" and
      xs: "collect_found (\<lambda>a. action_for_session_action a db) as = Inr xs" "map mn_content xs = cs"
    using assms(3) by (auto simp: recorded_def)
  obtain ys where "collect_found (\<lambda>a. action_for_session_action a db') as = Inr ys" "map node_view ys = map node_view xs"
    using extends_actions [OF assms(1,2) as] xs(1) by (auto simp: map_sum_eq_Inr)
  moreover have "list_all (\<lambda>a. has_node a db') as"
    using as extends_node [OF assms(2)] by (auto simp: list_all_iff)
  ultimately show ?thesis using xs(2) view_contents by (auto simp: recorded_def)
qed

lemma dispatches_in_keep:
  "dispatches_in env sid cid d db \<Longrightarrow> same_ids d d' \<Longrightarrow> grows env sid cid es db db' \<Longrightarrow> dispatches_in env sid cid d' db'"
  by (auto simp: dispatches_in_def same_ids_def grows_def extends_def)

lemma dispatch_loop_effect:
  assumes "dispatches_in env sid cid d db" "pd_task_history_id d = Some th"
  shows "\<exists>rs as d' db'. dispatch_loop env now calls d db = (Inr (rs, as), d', db') \<and>
    list_all2 (\<lambda>c r. record_of (called_name c) (effect_of c) r) calls rs \<and>
    grows env sid cid (map effect_of calls) db db' \<and> told (map effect_of calls) d d' \<and>
    recorded db' as (map2 action_of calls rs)"
  using assms
proof (induction calls arbitrary: d db)
  case Nil
  then show ?case by (auto simp: grows_refl told_refl dispatches_in_def recorded_def)
next
  case (Cons call calls)
  obtain r d1 db1 where 1: "dispatch_call env now call d db = (Inr r, d1, db1)"
      "record_of (called_name call) (effect_of call) r" "grows env sid cid [effect_of call] db db1" "told [effect_of call] d d1"
    using dispatch_call_effect [OF Cons.prems(1), of call now] by (auto simp: dispatched_def)
  have same: "same_ids d d1" using 1(4) by (simp add: told_def)
  have in1: "dispatches_in env sid cid d1 db1" using dispatches_in_keep [OF Cons.prems(1) same 1(3)] .
  obtain s db2 x where 2: "dispatch_record_action env now call r d1 db1 = (Inr (Some (s)), db2)"
      "grows env sid cid [] db1 db2" "has_node (s) db2" "action_for_session_action (s) db2 = Inr (Some x)"
      "mn_content x = action_of call r"
    using record_action_effect [of env db1 now "dr_name r" "an_input (action_of call r)" "dr_output r" "[''task-execution'']" sid cid]
      in1 same Cons.prems(2)
    by (auto simp: dispatches_in_def dispatch_record_action_def same_ids_def action_of_def)
  have in2: "dispatches_in env sid cid d1 db2"
    using dispatches_in_keep [OF in1 _ 2(2)] by (simp add: same_ids_def)
  have th1: "pd_task_history_id d1 = Some th" using same Cons.prems(2) by (simp add: same_ids_def)
  obtain rs as d' db' where 3: "dispatch_loop env now calls d1 db2 = (Inr (rs, as), d', db')"
      "list_all2 (\<lambda>c r. record_of (called_name c) (effect_of c) r) calls rs"
      "grows env sid cid (map effect_of calls) db2 db'" "told (map effect_of calls) d1 d'"
      "recorded db' as (map2 action_of calls rs)"
    using Cons.IH [OF in2 th1] by blast
  have wf2: "graph_wf env db2" using in2 reachable_wf by (auto simp: dispatches_in_def)
  have "recorded db2 [s] [action_of call r]" using 2 by (simp add: recorded_def)
  then have "recorded db' [s] [action_of call r]"
    using recorded_extends [OF wf2] 3(3) by (simp add: grows_def)
  then have "recorded db' (s # as) (map2 action_of (call # calls) (r # rs))"
    using 3(5) by (auto simp: recorded_def split: sum.splits option.splits)
  moreover have "grows env sid cid (map effect_of (call # calls)) db db'"
    using grows_trans [OF 1(3) grows_trans [OF 2(2) 3(3)]] by simp
  moreover have "told (map effect_of (call # calls)) d d'" using told_trans [OF 1(4) 3(4)] by simp
  moreover have "dispatch_loop env now (call # calls) d db = (Inr (r # rs, s # as), d', db')"
    by (simp add: 1(1) 2(1) 3(1))
  ultimately show ?case using 1(2) 3(2) by auto
qed

lemma append_node_succeeds:
  assumes ids: "ids_ok env" and wf: "graph_wf env db" and th: "has_node th db" and as: "list_all (\<lambda>a. has_node a db) as"
    and "is_memory_node_id sid" "is_memory_node_id cid"
  shows "\<exists>n db'. append_node env now th sid cid as tags db = (Inr n, db')"
proof -
  obtain r db1 where c: "create_node env now (history_tags ''task-history-node'' tags) (history_dict sid cid) db = (r, db1)"
    by fastforce
  have "is_memory_node_id (nr_id r)" using ids create_node_simps(1) [OF c] by (simp add: ids_ok_def)
  moreover have "is_memory_node_id th" using th wf_id [OF wf] by (auto simp: has_node_def)
  moreover have va: "list_all is_memory_node_id as" using as wf_id [OF wf] by (fastforce simp: list_all_iff has_node_def)
  moreover have "\<exists>n. memory_node_from_record parse_history_node r = Inr n" using assms(5,6) create_node_simps(2) [OF c]
    by (simp add: memory_node_from_record_def history_dict_def parse_history_node_def content_record_id_def
        content_str_def obj_get_def)
  ultimately show ?thesis using assms(5,6) by (auto simp: append_node_def c relate_actions_edges [OF va])
qed

definition record_contents :: "history_record \<Rightarrow> history_node \<times> action_content list" where
  "record_contents r = (mn_content (hr_node r), map mn_content (hr_actions r))"

lemma record_contents_append:
  assumes "map record_view rs' = map record_view hs @ [((i, c), map node_view xs)]"
  shows "map record_contents rs' = map record_contents hs @ [(c, map mn_content xs)]"
proof -
  have v: "record_contents r = map_prod snd (map snd) (record_view r)" for r
    by (simp add: record_contents_def record_view_def node_view_def comp_def)
  have "map record_contents rs' = map (map_prod snd (map snd)) (map record_view rs')" by (simp add: v)
  then show ?thesis by (simp add: assms v node_view_def comp_def)
qed

text \<open>The records of the history a dispatcher appends to.\<close>

definition prior_history :: "dispatcher \<Rightarrow> graph_db \<Rightarrow> py_error + history_record list" where
  "prior_history d db = (case pd_task_history_id d of None \<Rightarrow> Inr [] | Some th \<Rightarrow> history_records th db)"

lemma ensure_task_history_effect:
  assumes d: "dispatches_in env sid cid d db" and th: "list_all (\<lambda>th. has_node th db) (case pd_task_history_id d of None \<Rightarrow> [] | Some th \<Rightarrow> [th])"
    and hs: "prior_history d db = Inr hs"
  shows "\<exists>th d' db'. ensure_task_history env now d db = (Inr (Some th), d', db') \<and> dispatches_in env sid cid d' db' \<and>
    pd_task_history_id d' = Some th \<and> has_node th db' \<and> history_records th db' = Inr hs \<and>
    grows env sid cid [] db db' \<and> pd_spoken d' = pd_spoken d \<and> pd_has_mode_off d' = pd_has_mode_off d \<and>
    pd_mode_off_calls d' = pd_mode_off_calls d"
proof (cases "pd_task_history_id d")
  case None
  obtain n db' where n: "history_create env now [''task-execution''] db = (Inr n, db')" "grows env sid cid [] db db'"
      "has_node (mn_id n) db'" "history_records (mn_id n) db' = Inr []"
    using history_create_effect [of env db now "[''task-execution'']" sid cid] d by (auto simp: dispatches_in_def)
  have "dispatches_in env sid cid (d\<lparr> pd_task_history_id := Some (mn_id n) \<rparr>) db'"
    using d n(2) by (auto simp: dispatches_in_def grows_def extends_def)
  then show ?thesis using None n d hs by (auto simp: ensure_task_history_def dispatches_in_def prior_history_def)
next
  case (Some th)
  then show ?thesis using assms by (auto simp: ensure_task_history_def dispatches_in_def prior_history_def grows_refl)
qed

text \<open>The node a history gets changes neither the conversation nor the memories.\<close>

lemma append_node_view:
  assumes ids: "ids_ok env" and wf: "graph_wf env db" and th: "has_node th db"
    and as: "list_all (\<lambda>a. has_node a db) as" and app: "append_node env now th sid cid as tags db = (Inr n, db')"
  shows "message_view c db' = message_view c db" "session_memories_of s db' = session_memories_of s db"
    "preferences_of db' = preferences_of db"
proof -
  obtain r where r: "appended th as r db db'" using append_node_effect [OF ids wf th as app] by blast
  have same: "edges t a db' = edges t a db" if "t \<noteq> ''actions''" "t \<noteq> ''history''" for t a
    using r that by (auto simp: appended_def edges_def filter_empty_conv)
  have contents: "map nr_content (existing db' is) = map nr_content (existing db is)" if "\<And>i. i \<in> set is \<Longrightarrow> has_node i db" for "is"
  proof (rule contents_stored)
    fix i assume "i \<in> set is"
    then have "has_node i db" by (rule that)
    then have "i \<noteq> nr_id r" using r by (auto simp: appended_def has_node_def)
    then show "stored db' i = stored db i" using r by (simp add: appended_def)
  qed
  have child: "child_view t a db' = child_view t a db" if "t \<noteq> ''actions''" "t \<noteq> ''history''" for t a
    unfolding child_view_def related_def same [OF that] by (rule contents) (use edges_out_node [OF wf] in auto)
  show "session_memories_of s db' = session_memories_of s db" "preferences_of db' = preferences_of db"
    by (simp_all add: session_memories_of_def preferences_of_def child del: collection_root.simps)
  have out: "ordered_out ''has_message'' c db' = ordered_out ''has_message'' c db" by (rule ordered_out_cong) (simp add: same)
  have "map nr_content (existing db' (ordered_out ''has_message'' c db)) = map nr_content (existing db (ordered_out ''has_message'' c db))"
    by (rule contents) (use ordered_out_nodes [OF wf] in \<open>auto simp: list_all_iff\<close>)
  then have "map (\<lambda>x. projr (parse_conversation_message x)) (map nr_content (existing db' (ordered_out ''has_message'' c db))) =
      map (\<lambda>x. projr (parse_conversation_message x)) (map nr_content (existing db (ordered_out ''has_message'' c db)))" by simp
  then show "message_view c db' = message_view c db" by (simp add: message_view_def out comp_def)
qed

lemma records_of:
  "list_all2 (\<lambda>c r. record_of (called_name c) (effect_of c) r) calls rs \<Longrightarrow>
   map dr_name rs = map called_name calls \<and> map dr_status rs = map effect_status (map effect_of calls) \<and>
   map dr_detail rs = map effect_detail (map effect_of calls)"
  by (induction rule: list_all2_induct) (simp_all add: record_of_def)

section \<open>The whole dispatch\<close>

text \<open>
  C10. A dispatch for a session and a conversation that exist carries out every returned action
  without failing, each as \<open>effect_of\<close> reads the call: a reply, a thought, the end of the
  conversation mode, a session memory, a user preference, or a refusal when its payload has no
  text or its name is none of these. It reports one record per action, in order, under the action's
  name with the effect's status and detail. The conversation has afterwards exactly the messages it
  had before, followed by the replies, thoughts and refusals in order; the replies and refusals are
  what is handed to speech; the session and the user preferences have exactly the memories they had
  before, followed by the ones asked for in order; and the mode-off callback, if there is one, was
  called once for each action that asks for it. The task history, a new one if there was none, has
  the records it had before followed by one node for the session and the conversation whose actions
  carry the name, the input and the output of every action dispatched, in order.
\<close>

theorem dispatch_carries_out_actions:
  assumes d: "dispatches_in env sid cid d db"
    and th: "list_all (\<lambda>th. has_node th db) (case pd_task_history_id d of None \<Rightarrow> [] | Some th \<Rightarrow> [th])"
    and hs: "prior_history d db = Inr hs" and es: "es = map effect_of calls"
  shows "\<exists>res d' db' th ns ns' rs'. dispatch env now (Some calls) d db = (Inr res, d', db') \<and>
    map dr_name (dp_records res) = map called_name calls \<and>
    map dr_status (dp_records res) = map effect_status es \<and> map dr_detail (dp_records res) = map effect_detail es \<and>
    conversation_messages t cid False db = (Inr ns, db) \<and> conversation_messages t cid False db' = (Inr ns', db') \<and>
    map mn_content ns' = map mn_content ns @ concat (map effect_messages es) \<and>
    pd_spoken d' = pd_spoken d @ spoken_of (concat (map effect_messages es)) \<and>
    session_memories_of sid db' = session_memories_of sid db @ map titled_dict (concat (map effect_memories es)) \<and>
    preferences_of db' = preferences_of db @ map titled_dict (concat (map effect_preferences es)) \<and>
    pd_mode_off_calls d' = pd_mode_off_calls d + (if pd_has_mode_off d then mode_offs es else 0) \<and>
    dp_task_history_id res = Some th \<and> pd_task_history_id d' = Some th \<and> history_records th db' = Inr rs' \<and>
    map record_contents rs' = map record_contents hs @
      [(\<lparr> hn_session = sid, hn_conversation = cid \<rparr>, map2 action_of calls (dp_records res))]"
proof -
  obtain th d1 db1 where 1: "ensure_task_history env now d db = (Inr (Some th), d1, db1)" "dispatches_in env sid cid d1 db1"
      "pd_task_history_id d1 = Some th" "has_node th db1" "history_records th db1 = Inr hs" "grows env sid cid [] db db1"
      "pd_spoken d1 = pd_spoken d" "pd_has_mode_off d1 = pd_has_mode_off d" "pd_mode_off_calls d1 = pd_mode_off_calls d"
    using ensure_task_history_effect [OF d th hs, of now] by blast
  obtain rs as d2 db2 where 2: "dispatch_loop env now calls d1 db1 = (Inr (rs, as), d2, db2)"
      "list_all2 (\<lambda>c r. record_of (called_name c) (effect_of c) r) calls rs"
      "grows env sid cid es db1 db2" "told es d1 d2" "recorded db2 as (map2 action_of calls rs)"
    using dispatch_loop_effect [OF 1(2,3), of now calls] es by blast
  have same: "same_ids d1 d2" using 2(4) by (simp add: told_def)
  have g: "grows env sid cid es db db2" using grows_trans [OF 1(6) 2(3)] by simp
  have in2: "dispatches_in env sid cid d2 db2" using dispatches_in_keep [OF 1(2) same 2(3)] .
  have ids: "ids_ok env" and re2: "store_reachable env db2" and re: "store_reachable env db"
    using in2 d by (simp_all add: dispatches_in_def)
  note wf1 = reachable_wf [OF ids] and wf2 = reachable_wf [OF ids re2] and inv2 = reachable_inv [OF re2 ids]
  have ext: "extends db1 db2" and th2: "has_node th db2" using 2(3) 1(4) extends_node by (auto simp: grows_def)
  have vs: "is_memory_node_id sid" "is_memory_node_id cid"
    using in2 contained_exists [OF wf2] wf_id [OF wf2] unfolding dispatches_in_def by blast+
  obtain xs where as: "list_all (\<lambda>a. has_node a db2) as" and
      xs: "collect_found (\<lambda>a. action_for_session_action a db2) as = Inr xs" "map mn_content xs = map2 action_of calls rs"
    using 2(5) by (auto simp: recorded_def)
  obtain n db3 where app: "append_node env now th sid cid as [''task-execution''] db2 = (Inr n, db3)"
    using append_node_succeeds [OF ids wf2 th2 as vs] by blast
  have re1: "store_reachable env db1" using 1(2) by (simp add: dispatches_in_def)
  obtain hs2 where hs2: "history_records th db2 = Inr hs2" "map record_view hs2 = map record_view hs"
    using extends_history [OF wf1 [OF re1] ext 1(4)] 1(5) by (auto simp: map_sum_eq_Inr)
  obtain rs' where rs': "history_records th db3 = Inr rs'" "map record_view rs' =
      map record_view hs2 @ [((mn_id n, \<lparr> hn_session = sid, hn_conversation = cid \<rparr>), map node_view xs)]"
    using history_append [OF ids wf2 th2 as hs2(1) xs(1) app] by blast
  have "store_step env db2 db3" using store_step.append [OF th2 as, of env now sid cid "[''task-execution'']"] app by simp
  then have re3: "store_reachable env db3" by (rule store_reachable.step [OF re2])
  note views = append_node_view [OF ids wf2 th2 as app]
  obtain ns ns' where ns: "conversation_messages t cid False db = (Inr ns, db)" "map mn_content ns = message_view cid db"
      "conversation_messages t cid False db3 = (Inr ns', db3)" "map mn_content ns' = message_view cid db3"
    using messages_view [OF reachable_inv [OF re ids] vs(2)] messages_view [OF reachable_inv [OF re3 ids] vs(2)] by metis
  have "dispatch env now (Some calls) d db = (Inr \<lparr> dp_records = rs, dp_task_history_id = Some th,
      dp_task_history_node_id = Some (mn_id n) \<rparr>, d2, db3)"
    using in2 by (simp add: dispatch_def 1(1) 2(1) append_task_history_node_def app dispatches_in_def)
  moreover have "map record_contents rs' = map record_contents hs @
      [(\<lparr> hn_session = sid, hn_conversation = cid \<rparr>, map2 action_of calls rs)]"
    using rs'(2) hs2(2) xs(2) record_contents_append by auto
  moreover have "pd_task_history_id d2 = Some th" using 1(3) same by (simp add: same_ids_def)
  moreover note records_of [OF 2(2)]
  ultimately show ?thesis
    using g ns views rs'(1) 1(7-9) 2(4) unfolding es grows_def told_def by (auto simp: comp_def)
qed

definition ex_dispatcher :: dispatcher where
  "ex_dispatcher =
     \<lparr> pd_session_id = Some ''memory_node:2'', pd_conversation_id = Some ''memory_node:3'', pd_task_history_id = None,
       pd_has_on_event = True, pd_has_mode_off = True, pd_events = [], pd_mode_off_calls = 0, pd_spoken = [] \<rparr>"

definition ex_calls :: "task_call list" where
  "ex_calls = [\<lparr> tk_name = '' agent_reply '', tk_payload = JObj [(''text'', JStr ''hi'')] \<rparr>,
               \<lparr> tk_name = ''agent_thought'', tk_payload = JNull \<rparr>,
               \<lparr> tk_name = ''session_memory'', tk_payload = JStr ''likes tea'' \<rparr>,
               \<lparr> tk_name = ''conversation_mode_off'', tk_payload = JNull \<rparr>,
               \<lparr> tk_name = ''window_move'', tk_payload = JNull \<rparr>]"

definition ex_effects :: "action_effect list" where
  "ex_effects = [Says ''hi'', Refuses ''malformed'' ''Malformed action payload: agent_thought payload=null'',
     Remembers \<lparr> td_title = ''likes tea'', td_description = ''likes tea'' \<rparr>, Ends_conversation_mode,
     Refuses ''unsupported'' ''Action not supported: window_move payload=null'']"

lemma ex_calls_effects: "ex_effects = map effect_of ex_calls"
  by code_simp

lemma ex_contained:
  "contained SESSIONS_ROOT_ID ''memory_node:2'' ex_graph" "contained CONVERSATIONS_ROOT_ID ''memory_node:3'' ex_graph"
  by code_simp+

theorem dispatch_carries_out_actions_witness:
  "\<exists>res d' db'. dispatch ex_env 9 (Some ex_calls) ex_dispatcher ex_graph = (Inr res, d', db') \<and>
     map dr_status (dp_records res) = [''ok'', ''malformed'', ''ok'', ''ok'', ''unsupported''] \<and>
     pd_spoken d' = [''hi'', ''Malformed action payload: agent_thought payload=null'',
       ''Action not supported: window_move payload=null''] \<and>
     pd_mode_off_calls d' = 1 \<and>
     session_memories_of ''memory_node:2'' db' = session_memories_of ''memory_node:2'' ex_graph @
       [titled_dict \<lparr> td_title = ''likes tea'', td_description = ''likes tea'' \<rparr>]"
proof -
  have ds: "dispatches_in ex_env ''memory_node:2'' ''memory_node:3'' ex_dispatcher ex_graph"
    by (simp add: dispatches_in_def ex_ids ex_reachable ex_contained ex_dispatcher_def)
  have hs: "prior_history ex_dispatcher ex_graph = Inr []" by (simp add: prior_history_def ex_dispatcher_def)
  have th: "list_all (\<lambda>th. has_node th ex_graph) (case pd_task_history_id ex_dispatcher of None \<Rightarrow> [] | Some th \<Rightarrow> [th])"
    by (simp add: ex_dispatcher_def)
  obtain res d' db' where
      "dispatch ex_env 9 (Some ex_calls) ex_dispatcher ex_graph = (Inr res, d', db')"
      "map dr_status (dp_records res) = map effect_status ex_effects"
      "pd_spoken d' = pd_spoken ex_dispatcher @ spoken_of (concat (map effect_messages ex_effects))"
      "session_memories_of ''memory_node:2'' db' =
        session_memories_of ''memory_node:2'' ex_graph @ map titled_dict (concat (map effect_memories ex_effects))"
      "pd_mode_off_calls d' = pd_mode_off_calls ex_dispatcher + (if pd_has_mode_off ex_dispatcher then mode_offs ex_effects else 0)"
    using dispatch_carries_out_actions [OF ds th hs ex_calls_effects, where now = 9 and t = 0] by blast
  then show ?thesis by (auto simp: ex_effects_def ex_dispatcher_def spoken_of_def mode_offs_def)
qed

end
