(* ===== verification/Retrieval.thy ===== *)
theory Retrieval
  imports StoreGuarantees
begin

text \<open>
  \<open>reframe_memory/retrieval_terms.py\<close>, \<open>graph_retrieval.py\<close> and \<open>retrieved_context.py\<close>: which nodes of
  the graph match the hints and the time bounds of a turn, and the context made of them. Times are
  numbers; \<open>datetime.fromisoformat\<close> is an argument. One retrieval reads the clock once.
\<close>

section \<open>Hints and time bounds\<close>

record timestamp_breadth =
  tb_created_after :: nat
  tb_updated_after :: nat
  tb_read_after :: nat

fun replace_z :: "string \<Rightarrow> string" where
  "replace_z [] = []"
| "replace_z (c # cs) = (if c = CHR ''Z'' then ''+00:00'' @ replace_z cs else c # replace_z cs)"

definition parse_timestamp :: "(string \<Rightarrow> py_error + nat) \<Rightarrow> string \<Rightarrow> py_error + nat" where
  "parse_timestamp fromisoformat value =
     (let stamp = py_strip value in
      if stamp = [] then Inl (ValueError ''timestamp breadth values cannot be empty'')
      else fromisoformat (replace_z stamp))"

definition timestamp_breadth_build ::
  "(string \<Rightarrow> py_error + nat) \<Rightarrow> string \<Rightarrow> string \<Rightarrow> string \<Rightarrow> py_error + timestamp_breadth" where
  "timestamp_breadth_build fromisoformat created_after updated_after read_after =
     (case parse_timestamp fromisoformat created_after of
        Inl e \<Rightarrow> Inl e
      | Inr c \<Rightarrow>
          (case parse_timestamp fromisoformat updated_after of
             Inl e \<Rightarrow> Inl e
           | Inr u \<Rightarrow>
               map_sum id (\<lambda>r. \<lparr> tb_created_after = c, tb_updated_after = u, tb_read_after = r \<rparr>)
                 (parse_timestamp fromisoformat read_after)))"

definition breadth_matches :: "timestamp_breadth \<Rightarrow> 'a memory_node \<Rightarrow> bool" where
  "breadth_matches b n =
     (let ts = mn_timestamps n in
      if mt_created_at ts < tb_created_after b then False
      else if mt_updated_at ts < tb_updated_after b then False
      else case mt_read_at ts of None \<Rightarrow> True | Some r \<Rightarrow> tb_read_after b \<le> r)"

record search_hints =
  gh_tags :: tag_search
  gh_strings :: string_search

text \<open>\<open>_field_values\<close>: a content is read through the names of its fields.\<close>

definition field_values :: "('a \<Rightarrow> string \<Rightarrow> string option) \<Rightarrow> 'a \<Rightarrow> string list \<Rightarrow> string list" where
  "field_values get content flds = concat (map (\<lambda>f. case get content f of None \<Rightarrow> [] | Some v \<Rightarrow> [v]) flds)"

definition excluded_by_tags :: "search_hints \<Rightarrow> 'a memory_node \<Rightarrow> bool" where
  "excluded_by_tags h n = list_ex (\<lambda>t. t \<in> set (mn_tags n)) (ts_none_of (gh_tags h))"

definition has_positive_terms :: "search_hints \<Rightarrow> bool" where
  "has_positive_terms h \<longleftrightarrow> ts_any_of (gh_tags h) \<noteq> [] \<or> ts_all_of (gh_tags h) \<noteq> [] \<or>
     sc_contains (gh_strings h) \<noteq> [] \<or> sc_equals (gh_strings h) \<noteq> []"

definition matches_positive_tag :: "search_hints \<Rightarrow> 'a memory_node \<Rightarrow> bool" where
  "matches_positive_tag h n =
     list_ex (\<lambda>t. t \<in> set (mn_tags n)) (ts_any_of (gh_tags h) @ ts_all_of (gh_tags h))"

definition matches_positive_string ::
  "search_hints \<Rightarrow> ('a \<Rightarrow> string \<Rightarrow> string option) \<Rightarrow> string list \<Rightarrow> 'a memory_node \<Rightarrow> bool" where
  "matches_positive_string h get flds n =
     (let values = field_values get (mn_content n) flds; lowered = map py_lower values in
      list_ex (\<lambda>t. list_ex (py_in (py_lower t)) lowered) (sc_contains (gh_strings h)) \<or>
      list_ex (\<lambda>v. v \<in> set (sc_equals (gh_strings h))) values)"

definition hints_match ::
  "search_hints \<Rightarrow> ('a \<Rightarrow> string \<Rightarrow> string option) \<Rightarrow> string list \<Rightarrow> 'a memory_node \<Rightarrow> bool" where
  "hints_match h get flds n =
     (if excluded_by_tags h n then False
      else if \<not> has_positive_terms h then False
      else matches_positive_tag h n \<or> matches_positive_string h get flds n)"

definition candidate_matches ::
  "('a \<Rightarrow> string \<Rightarrow> string option) \<Rightarrow> string list \<Rightarrow> search_hints \<Rightarrow> timestamp_breadth \<Rightarrow> 'a memory_node \<Rightarrow> bool" where
  "candidate_matches get flds h b n \<longleftrightarrow> breadth_matches b n \<and> hints_match h get flds n"

text \<open>The fields of the contents that are searched.\<close>

definition session_field :: "session_content \<Rightarrow> string \<Rightarrow> string option" where
  "session_field c = map_of [(''name'', sn_name c)]"

definition conversation_field :: "conversation_content \<Rightarrow> string \<Rightarrow> string option" where
  "conversation_field c = map_of [(''name'', cn_name c)]"

definition message_field :: "message_content \<Rightarrow> string \<Rightarrow> string option" where
  "message_field c = map_of [(''role'', mg_role c), (''content'', mg_content c)]"

definition titled_field :: "titled_content \<Rightarrow> string \<Rightarrow> string option" where
  "titled_field c = map_of [(''title'', td_title c), (''description'', td_description c)]"

definition task_field :: "task_content \<Rightarrow> string \<Rightarrow> string option" where
  "task_field c = map_of [(''name'', tc_name c), (''description'', tc_description c), (''input'', tc_input c),
     (''output'', tc_output c), (''prompt'', tc_prompt c), (''provider_id'', tc_provider_id c)]"

definition task_candidate :: "search_hints \<Rightarrow> timestamp_breadth \<Rightarrow> task_content memory_node \<Rightarrow> bool" where
  "task_candidate =
     candidate_matches task_field [''name'', ''description'', ''input'', ''output'', ''prompt'', ''provider_id'']"

definition session_candidate :: "search_hints \<Rightarrow> timestamp_breadth \<Rightarrow> session_content memory_node \<Rightarrow> bool" where
  "session_candidate = candidate_matches session_field [''name'']"

definition conversation_candidate :: "search_hints \<Rightarrow> timestamp_breadth \<Rightarrow> conversation_content memory_node \<Rightarrow> bool" where
  "conversation_candidate = candidate_matches conversation_field [''name'']"

definition message_candidate :: "search_hints \<Rightarrow> timestamp_breadth \<Rightarrow> message_content memory_node \<Rightarrow> bool" where
  "message_candidate = candidate_matches message_field [''role'', ''content'']"

definition memory_candidate :: "search_hints \<Rightarrow> timestamp_breadth \<Rightarrow> titled_content memory_node \<Rightarrow> bool" where
  "memory_candidate = candidate_matches titled_field [''title'', ''description'']"

section \<open>Retrieved context\<close>

record retrieved_conversation =
  rc_conversation :: "conversation_content memory_node"
  rc_matched :: bool
  rc_messages :: "message_content memory_node list"
  rc_matched_message_ids :: "string list"

record retrieved_session =
  rx_session :: "session_content memory_node"
  rx_matched :: bool
  rx_conversations :: "retrieved_conversation list"
  rx_session_memories :: "titled_content memory_node list"

record retrieved_context =
  rm_tasks :: "task_content memory_node list"
  rm_sessions :: "retrieved_session list"
  rm_current_session_memories :: "titled_content memory_node list"

record retrieval_request =
  rq_hints :: search_hints
  rq_depths :: "(string \<times> timestamp_breadth) list"

section \<open>The retriever\<close>

definition normalized_session_id :: "string option \<Rightarrow> py_error + string option" where
  "normalized_session_id session_id =
     (case session_id of None \<Rightarrow> Inr None | Some i \<Rightarrow> map_sum id Some (memory_node_record_id i))"

text \<open>A result followed by marking records as read.\<close>

definition then_mark :: "nat \<Rightarrow> string list \<Rightarrow> 'a \<Rightarrow> graph_db \<Rightarrow> (py_error + 'a) \<times> graph_db" where
  "then_mark now ids x db =
     (case mark_record_ids_read now ids db of (Inl e, db1) \<Rightarrow> (Inl e, db1) | (Inr _, db1) \<Rightarrow> (Inr x, db1))"

definition current_session_memories ::
  "nat \<Rightarrow> string option \<Rightarrow> graph_db \<Rightarrow> (py_error + titled_content memory_node list) \<times> graph_db" where
  "current_session_memories now current db =
     (case normalized_session_id current of
        Inl e \<Rightarrow> (Inl e, db)
      | Inr None \<Rightarrow> (Inr [], db)
      | Inr (Some i) \<Rightarrow> memories_for now i True db)"

definition task_catalog ::
  "db_env \<Rightarrow> nat \<Rightarrow> retrieval_request \<Rightarrow> graph_db \<Rightarrow> (py_error + task_content memory_node list) \<times> graph_db" where
  "task_catalog env now q db =
     (case map_of (rq_depths q) ''task_catalog'' of
        None \<Rightarrow> (Inr [], db)
      | Some b \<Rightarrow>
          (case task_search env now None False db of
             (Inl e, db1) \<Rightarrow> (Inl e, db1)
           | (Inr tasks, db1) \<Rightarrow>
               let matched = filter (task_candidate (rq_hints q) b) tasks
               in then_mark now (map mn_id matched) matched db1))"

definition message_candidates ::
  "nat \<Rightarrow> string \<Rightarrow> search_hints \<Rightarrow> timestamp_breadth \<Rightarrow> graph_db \<Rightarrow>
   (py_error + message_content memory_node list \<times> string list) \<times> graph_db" where
  "message_candidates now cid h b db =
     (case conversation_messages now cid False db of
        (Inl e, db1) \<Rightarrow> (Inl e, db1)
      | (Inr messages, db1) \<Rightarrow>
          let matched = filter (message_candidate h b) messages in
          if matched = [] then (Inr ([], []), db1)
          else then_mark now (map mn_id messages) (messages, map mn_id matched) db1)"

fun conversation_contexts_loop ::
  "nat \<Rightarrow> conversation_content memory_node list \<Rightarrow> search_hints \<Rightarrow> timestamp_breadth \<Rightarrow> graph_db \<Rightarrow>
   (py_error + retrieved_conversation list) \<times> graph_db" where
  "conversation_contexts_loop now [] h b db = (Inr [], db)"
| "conversation_contexts_loop now (c # cs) h b db =
     (let conversation_matched = conversation_candidate h b c in
      case message_candidates now (mn_id c) h b db of
        (Inl e, db1) \<Rightarrow> (Inl e, db1)
      | (Inr (messages, ids), db1) \<Rightarrow>
          if conversation_matched \<or> messages \<noteq> [] then
            (case mark_record_ids_read now [mn_id c] db1 of
               (Inl e, db2) \<Rightarrow> (Inl e, db2)
             | (Inr _, db2) \<Rightarrow>
                 (case conversation_contexts_loop now cs h b db2 of
                    (Inl e, db3) \<Rightarrow> (Inl e, db3)
                  | (Inr xs, db3) \<Rightarrow>
                      (Inr (\<lparr> rc_conversation = c, rc_matched = conversation_matched, rc_messages = messages,
                              rc_matched_message_ids = ids \<rparr> # xs), db3)))
          else conversation_contexts_loop now cs h b db1)"

definition conversation_contexts ::
  "nat \<Rightarrow> string \<Rightarrow> search_hints \<Rightarrow> timestamp_breadth \<Rightarrow> graph_db \<Rightarrow>
   (py_error + retrieved_conversation list) \<times> graph_db" where
  "conversation_contexts now session_id h b db =
     (case conversations_for now session_id False db of
        (Inl e, db1) \<Rightarrow> (Inl e, db1)
      | (Inr cs, db1) \<Rightarrow> conversation_contexts_loop now cs h b db1)"

definition session_memory_candidates ::
  "nat \<Rightarrow> string \<Rightarrow> search_hints \<Rightarrow> timestamp_breadth \<Rightarrow> graph_db \<Rightarrow>
   (py_error + titled_content memory_node list) \<times> graph_db" where
  "session_memory_candidates now session_id h b db =
     (case memories_for now session_id False db of
        (Inl e, db1) \<Rightarrow> (Inl e, db1)
      | (Inr memories, db1) \<Rightarrow>
          let matched = filter (memory_candidate h b) memories in then_mark now (map mn_id matched) matched db1)"

definition session_context ::
  "nat \<Rightarrow> session_content memory_node \<Rightarrow> search_hints \<Rightarrow> timestamp_breadth \<Rightarrow> bool \<Rightarrow> graph_db \<Rightarrow>
   (py_error + retrieved_session option) \<times> graph_db" where
  "session_context now s h b include_session_memories db =
     (let session_matched = session_candidate h b s in
      case conversation_contexts now (mn_id s) h b db of
        (Inl e, db1) \<Rightarrow> (Inl e, db1)
      | (Inr conversations, db1) \<Rightarrow>
          (case (if include_session_memories then session_memory_candidates now (mn_id s) h b db1 else (Inr [], db1)) of
             (Inl e, db2) \<Rightarrow> (Inl e, db2)
           | (Inr memories, db2) \<Rightarrow>
               if \<not> session_matched \<and> conversations = [] \<and> memories = [] then (Inr None, db2)
               else then_mark now [mn_id s]
                 (Some \<lparr> rx_session = s, rx_matched = session_matched, rx_conversations = conversations,
                         rx_session_memories = memories \<rparr>) db2))"

fun session_contexts ::
  "nat \<Rightarrow> session_content memory_node list \<Rightarrow> string option \<Rightarrow> search_hints \<Rightarrow> timestamp_breadth \<Rightarrow> graph_db \<Rightarrow>
   (py_error + retrieved_session list) \<times> graph_db" where
  "session_contexts now [] current h b db = (Inr [], db)"
| "session_contexts now (s # ss) current h b db =
     (case session_context now s h b (Some (mn_id s) \<noteq> current) db of
        (Inl e, db1) \<Rightarrow> (Inl e, db1)
      | (Inr c, db1) \<Rightarrow>
          (case session_contexts now ss current h b db1 of
             (Inl e, db2) \<Rightarrow> (Inl e, db2)
           | (Inr cs, db2) \<Rightarrow> (Inr (case c of None \<Rightarrow> cs | Some x \<Rightarrow> x # cs), db2)))"

definition past_conversation_context ::
  "db_env \<Rightarrow> nat \<Rightarrow> string option \<Rightarrow> retrieval_request \<Rightarrow> graph_db \<Rightarrow> (py_error + retrieved_session list) \<times> graph_db" where
  "past_conversation_context env now current q db =
     (case map_of (rq_depths q) ''past_conversation_context'' of
        None \<Rightarrow> (Inr [], db)
      | Some b \<Rightarrow>
          (case session_search env now None False db of
             (Inl e, db1) \<Rightarrow> (Inl e, db1)
           | (Inr sessions, db1) \<Rightarrow>
               (case normalized_session_id current of
                  Inl e \<Rightarrow> (Inl e, db1)
                | Inr c \<Rightarrow> session_contexts now sessions c (rq_hints q) b db1)))"

definition retrieve ::
  "db_env \<Rightarrow> nat \<Rightarrow> string option \<Rightarrow> retrieval_request \<Rightarrow> graph_db \<Rightarrow> (py_error + retrieved_context) \<times> graph_db" where
  "retrieve env now current q db =
     (case task_catalog env now q db of
        (Inl e, db1) \<Rightarrow> (Inl e, db1)
      | (Inr tasks, db1) \<Rightarrow>
          (case past_conversation_context env now current q db1 of
             (Inl e, db2) \<Rightarrow> (Inl e, db2)
           | (Inr sessions, db2) \<Rightarrow>
               (case current_session_memories now current db2 of
                  (Inl e, db3) \<Rightarrow> (Inl e, db3)
                | (Inr memories, db3) \<Rightarrow>
                    (Inr \<lparr> rm_tasks = tasks, rm_sessions = sessions, rm_current_session_memories = memories \<rparr>, db3))))"

section \<open>As a dictionary\<close>

definition node_to_dict :: "(nat \<Rightarrow> string) \<Rightarrow> ('a \<Rightarrow> json) \<Rightarrow> 'a memory_node \<Rightarrow> json" where
  "node_to_dict isoformat dict n =
     JObj [(''id'', JStr (mn_id n)), (''tags'', jlist (mn_tags n)),
           (''created_at'', JStr (isoformat (mt_created_at (mn_timestamps n)))),
           (''updated_at'', JStr (isoformat (mt_updated_at (mn_timestamps n)))),
           (''read_at'', JStr (case mt_read_at (mn_timestamps n) of None \<Rightarrow> ''NONE'' | Some t \<Rightarrow> isoformat t)),
           (''content'', dict (mn_content n))]"

definition retrieved_conversation_dict :: "(nat \<Rightarrow> string) \<Rightarrow> retrieved_conversation \<Rightarrow> json" where
  "retrieved_conversation_dict isoformat c =
     JObj [(''conversation'', node_to_dict isoformat conversation_dict (rc_conversation c)), (''matched'', JBool (rc_matched c)),
           (''messages'', JList (map (node_to_dict isoformat message_dict) (rc_messages c))),
           (''matched_message_ids'', jlist (rc_matched_message_ids c))]"

definition retrieved_session_dict :: "(nat \<Rightarrow> string) \<Rightarrow> retrieved_session \<Rightarrow> json" where
  "retrieved_session_dict isoformat s =
     JObj [(''session'', node_to_dict isoformat session_dict (rx_session s)), (''matched'', JBool (rx_matched s)),
           (''conversations'', JList (map (retrieved_conversation_dict isoformat) (rx_conversations s))),
           (''session_memories'', JList (map (node_to_dict isoformat titled_dict) (rx_session_memories s)))]"

definition retrieved_context_dict :: "(nat \<Rightarrow> string) \<Rightarrow> retrieved_context \<Rightarrow> json" where
  "retrieved_context_dict isoformat c =
     JObj [(''task_catalog'', JObj [(''tasks'', JList (map (node_to_dict isoformat task_dict) (rm_tasks c)))]),
           (''past_conversation_context'', JObj [(''sessions'', JList (map (retrieved_session_dict isoformat) (rm_sessions c)))]),
           (''current_session_memories'', JList (map (node_to_dict isoformat titled_dict) (rm_current_session_memories c)))]"

section \<open>Marking\<close>

text \<open>The graph changed only by marking a set of nodes as read.\<close>

definition marked :: "nat \<Rightarrow> string set \<Rightarrow> graph_db \<Rightarrow> graph_db \<Rightarrow> bool" where
  "marked now A db db' \<longleftrightarrow> gd_relations db' = gd_relations db \<and> gd_roots db' = gd_roots db \<and> gd_created db' = gd_created db \<and>
     (\<forall>i. fmlookup (gd_nodes db') i =
        (if i \<in> A then map_option (mark_read_record now) (fmlookup (gd_nodes db) i) else fmlookup (gd_nodes db) i))"

lemma marked_refl [simp]: "marked now {} db db"
  by (simp add: marked_def)

lemma marked_trans:
  assumes "marked now A a b" "marked now B b c" shows "marked now (A \<union> B) a c"
proof -
  have "mark_read_record now (mark_read_record now r) = mark_read_record now r" for r by (simp add: mark_read_record_def)
  then have "map_option (mark_read_record now) (map_option (mark_read_record now) x) = map_option (mark_read_record now) x" for x
    by (cases x) auto
  then show ?thesis using assms by (auto simp: marked_def)
qed

lemma marked_update: "marked now {i} db (update_node i (mark_read_record now) db)"
  by (auto simp: marked_def update_node_def split: option.splits)

lemma marked_same: "marked now A db db' \<Longrightarrow> same_graph db db'"
proof -
  have "rel_option same_but_read x (map_option (mark_read_record now) x)" for x by (cases x) auto
  then show "marked now A db db' \<Longrightarrow> same_graph db db'" by (auto simp: marked_def same_graph_def option.rel_refl)
qed

lemma marked_inv: "marked now A db db' \<Longrightarrow> store_inv env db \<Longrightarrow> store_inv env db'"
  using marked_same inv_same by blast

lemma fold_marked: "marked now (set is) db (fold (\<lambda>i. update_node i (mark_read_record now)) is db)"
proof (induction "is" arbitrary: db)
  case (Cons i "is")
  show ?case using marked_trans [OF marked_update Cons.IH] by simp
qed simp

lemma checked_ids_valid: "list_all is_memory_node_id is \<Longrightarrow> checked_ids is = Inr is"
  by (induction "is") auto

lemma mark_ids_marked:
  "list_all is_memory_node_id is \<Longrightarrow> \<exists>db'. mark_record_ids_read now is db = (Inr (), db') \<and> marked now (set is) db db'"
  using fold_marked [of now "dict_fromkeys is" db] by (auto simp: mark_record_ids_read_def checked_ids_valid)

lemma then_mark_marked:
  "list_all is_memory_node_id is \<Longrightarrow> \<exists>db'. then_mark now is x db = (Inr x, db') \<and> marked now (set is) db db'"
  using mark_ids_marked [of "is" now db] by (auto simp: then_mark_def)

lemma mark_records_marked:
  "list_all (\<lambda>r. is_memory_node_id (nr_id r)) rs \<Longrightarrow>
   \<exists>rs' db'. mark_records_read now rs db = (Inr rs', db') \<and> marked now (set (map nr_id rs)) db db'"
proof (induction rs arbitrary: db)
  case (Cons r rs)
  let ?db1 = "update_node (nr_id r) (mark_read_record now) db"
  obtain rs' db' where "mark_records_read now rs ?db1 = (Inr rs', db')" "marked now (set (map nr_id rs)) ?db1 db'"
    using Cons.IH [of ?db1] Cons.prems by auto
  then show ?case using Cons.prems marked_trans [OF marked_update [of now "nr_id r" db]] by fastforce
qed simp

text \<open>Unmarked reads: nodes with valid ids, and the graph as it was.\<close>

lemma read_unmarked:
  assumes inv: "store_inv env db" and k: "edge_kind t a = Some k" "parses parse k"
    and rs: "set rs \<subseteq> set (related t a db)"
  shows "\<exists>ns. read_records parse now False rs db = (Inr ns, db) \<and> list_all (\<lambda>n. is_memory_node_id (mn_id n)) ns"
proof -
  have r: "has_kind k (nr_content r) \<and> is_memory_node_id (nr_id r)" if m: "r \<in> set rs" for r
  proof -
    obtain e where e: "e \<in> set (edges t a db)" "fmlookup (gd_nodes db) (re_out e) = Some r"
      using subsetD [OF rs m] by (auto simp: related_iff)
    then show ?thesis using inv k(1) wf_id [of env db, OF _ e(2)] by (auto simp: store_inv_def graph_typed_def edges_def)
  qed
  obtain ns where ns: "nodes_from_records parse rs = Inr ns" "map mn_id ns = map nr_id rs"
    using nodes_from_records_ok [OF k(2), of rs] r by blast
  have "list_all is_memory_node_id (map mn_id ns)" using ns(2) r by (simp add: list_all_iff)
  then show ?thesis using ns(1) by (simp add: read_records_def list_all_iff)
qed

lemma search_unmarked:
  assumes "store_inv env db" "edge_kind ''contains'' rid = Some k" "parses parse k"
  shows "\<exists>ns. search_nodes env parse now rid None False db = (Inr ns, db) \<and> list_all (\<lambda>n. is_memory_node_id (mn_id n)) ns"
proof -
  let ?p = "\<lparr> qp_where_sql = [], qp_variables = [] \<rparr>"
  let ?rs = "order_recent (filter (\<lambda>r. where_holds (de_cast env) ?p (nr_tags r) (nr_content r)) (related ''contains'' rid db))"
  have "set ?rs \<subseteq> set (related ''contains'' rid db)" by (auto simp: order_recent_def)
  then show ?thesis
    using read_unmarked [OF assms, of ?rs now] by (simp add: search_nodes_def build_memory_node_where_def)
qed

lemma related_unmarked:
  assumes "store_inv env db" "edge_kind t i = Some k" "parses parse k" "is_memory_node_id i"
  shows "\<exists>ns. read_related parse now t i False db = (Inr ns, db) \<and> list_all (\<lambda>n. is_memory_node_id (mn_id n)) ns"
  using read_unmarked [OF assms(1-3), of "order_recent (related t i db)" now] assms(4)
  by (simp add: read_related_def order_recent_def)

lemma messages_valid:
  assumes inv: "store_inv env db" and i: "is_memory_node_id i"
  shows "\<exists>ns. conversation_messages now i False db = (Inr ns, db) \<and> list_all (\<lambda>n. is_memory_node_id (mn_id n)) ns"
proof -
  have wf: "graph_wf env db" using inv by (simp add: store_inv_def)
  let ?rs = "existing db (ordered_out ''has_message'' i db)"
  have r: "has_kind Message (nr_content r) \<and> is_memory_node_id (nr_id r)" if "r \<in> set ?rs" for r
  proof -
    obtain j where j: "j \<in> set (ordered_out ''has_message'' i db)" "fmlookup (gd_nodes db) j = Some r"
      using \<open>r \<in> set ?rs\<close> by (auto simp: existing_def split: option.splits)
    obtain s where "fmlookup (gd_nodes db) j = Some s" "has_kind Message (nr_content s)" by (rule message_nodes [OF inv j(1)])
    then show ?thesis using wf_id [OF wf j(2)] j(2) by simp
  qed
  obtain ns where ns: "nodes_from_records parse_conversation_message ?rs = Inr ns" "map mn_id ns = map nr_id ?rs"
    using nodes_from_records_ok [OF parses_kinds(3), of ?rs] r by blast
  have "list_all is_memory_node_id (map mn_id ns)" using ns(2) r by (simp add: list_all_iff)
  then show ?thesis using ns(1) i by (simp add: messages_unmarked [OF wf] list_all_iff)
qed

section \<open>What is retrieved\<close>

definition conversation_ids :: "retrieved_conversation \<Rightarrow> string list" where
  "conversation_ids c = mn_id (rc_conversation c) # map mn_id (rc_messages c)"

definition session_ids :: "retrieved_session \<Rightarrow> string list" where
  "session_ids s = mn_id (rx_session s) # concat (map conversation_ids (rx_conversations s)) @ map mn_id (rx_session_memories s)"

definition context_ids :: "retrieved_context \<Rightarrow> string list" where
  "context_ids c = map mn_id (rm_tasks c) @ concat (map session_ids (rm_sessions c)) @ map mn_id (rm_current_session_memories c)"

text \<open>A retrieved conversation matches itself or through a message, and then has all its messages.\<close>

definition conversation_ok :: "search_hints \<Rightarrow> timestamp_breadth \<Rightarrow> retrieved_conversation \<Rightarrow> bool" where
  "conversation_ok h b c \<longleftrightarrow>
     rc_matched c = conversation_candidate h b (rc_conversation c) \<and>
     rc_matched_message_ids c = map mn_id (filter (message_candidate h b) (rc_messages c)) \<and>
     (rc_messages c = [] \<or> rc_matched_message_ids c \<noteq> []) \<and> (rc_matched c \<or> rc_messages c \<noteq> [])"

definition session_ok :: "search_hints \<Rightarrow> timestamp_breadth \<Rightarrow> retrieved_session \<Rightarrow> bool" where
  "session_ok h b s \<longleftrightarrow>
     rx_matched s = session_candidate h b (rx_session s) \<and> list_all (conversation_ok h b) (rx_conversations s) \<and>
     list_all (memory_candidate h b) (rx_session_memories s) \<and>
     (rx_matched s \<or> rx_conversations s \<noteq> [] \<or> rx_session_memories s \<noteq> [])"

lemma message_candidates_ok:
  assumes inv: "store_inv env db" and i: "is_memory_node_id i"
  shows "\<exists>ms ids db'. message_candidates now i h b db = (Inr (ms, ids), db') \<and> marked now (set (map mn_id ms)) db db' \<and>
    ids = map mn_id (filter (message_candidate h b) ms) \<and> (ms = [] \<or> ids \<noteq> [])"
proof -
  obtain ns where ns: "conversation_messages now i False db = (Inr ns, db)" "list_all (\<lambda>n. is_memory_node_id (mn_id n)) ns"
    using messages_valid [OF inv i] by blast
  obtain db' where m: "then_mark now (map mn_id ns) (ns, map mn_id (filter (message_candidate h b) ns)) db =
      (Inr (ns, map mn_id (filter (message_candidate h b) ns)), db')" "marked now (set (map mn_id ns)) db db'"
    using then_mark_marked [of "map mn_id ns" now _ db] ns(2) by (fastforce simp: list.pred_map comp_def)
  show ?thesis
  proof (cases "filter (message_candidate h b) ns = []")
    case True
    then show ?thesis using ns(1) by (auto simp: message_candidates_def)
  next
    case False
    then have "message_candidates now i h b db = (Inr (ns, map mn_id (filter (message_candidate h b) ns)), db')"
      using ns(1) m(1) by (simp add: message_candidates_def)
    then show ?thesis using m(2) False by auto
  qed
qed

lemma contexts_loop_ok:
  assumes "store_inv env db" "list_all (\<lambda>c. is_memory_node_id (mn_id c)) cs"
  shows "\<exists>xs db'. conversation_contexts_loop now cs h b db = (Inr xs, db') \<and> list_all (conversation_ok h b) xs \<and>
    marked now (set (concat (map conversation_ids xs))) db db'"
  using assms
proof (induction cs arbitrary: db)
  case Nil
  then show ?case by simp
next
  case (Cons c cs)
  have c: "is_memory_node_id (mn_id c)" using Cons.prems by simp
  obtain ms ids db1 where 1: "message_candidates now (mn_id c) h b db = (Inr (ms, ids), db1)"
      "marked now (set (map mn_id ms)) db db1" "ids = map mn_id (filter (message_candidate h b) ms)" "ms = [] \<or> ids \<noteq> []"
    using message_candidates_ok [OF Cons.prems(1) c] by blast
  have inv1: "store_inv env db1" using marked_inv [OF 1(2) Cons.prems(1)] .
  show ?case
  proof (cases "conversation_candidate h b c \<or> ms \<noteq> []")
    case True
    obtain db2 where 2: "mark_record_ids_read now [mn_id c] db1 = (Inr (), db2)" "marked now {mn_id c} db1 db2"
      using mark_ids_marked [of "[mn_id c]" now db1] c by auto
    obtain xs db' where 3: "conversation_contexts_loop now cs h b db2 = (Inr xs, db')" "list_all (conversation_ok h b) xs"
        "marked now (set (concat (map conversation_ids xs))) db2 db'"
      using Cons.IH [OF marked_inv [OF 2(2) inv1]] Cons.prems(2) by auto
    let ?x = "\<lparr> rc_conversation = c, rc_matched = conversation_candidate h b c, rc_messages = ms, rc_matched_message_ids = ids \<rparr>"
    have "conversation_contexts_loop now (c # cs) h b db = (Inr (?x # xs), db')" using 1(1) 2(1) 3(1) True by simp
    moreover have "conversation_ok h b ?x" using 1(3,4) True by (auto simp: conversation_ok_def)
    moreover have "marked now (set (concat (map conversation_ids (?x # xs)))) db db'"
      using marked_trans [OF 1(2) marked_trans [OF 2(2) 3(3)]] by (simp add: conversation_ids_def Un_left_commute insert_commute)
    ultimately show ?thesis using 3(2) by (intro exI conjI) (assumption | simp)+
  next
    case False
    obtain xs db' where "conversation_contexts_loop now cs h b db1 = (Inr xs, db')" "list_all (conversation_ok h b) xs"
        "marked now (set (concat (map conversation_ids xs))) db1 db'"
      using Cons.IH [OF inv1] Cons.prems(2) by auto
    then show ?thesis using 1(1,2) False marked_trans [OF 1(2)] by (auto simp: Let_def)
  qed
qed

lemma conversation_contexts_ok:
  assumes "store_inv env db" "is_memory_node_id i"
  shows "\<exists>xs db'. conversation_contexts now i h b db = (Inr xs, db') \<and> list_all (conversation_ok h b) xs \<and>
    marked now (set (concat (map conversation_ids xs))) db db'"
proof -
  obtain cs where "conversations_for now i False db = (Inr cs, db)" "list_all (\<lambda>n. is_memory_node_id (mn_id n)) cs"
    using related_unmarked [OF assms(1) edge_kind_tables(1) parses_kinds(2) assms(2)] by (auto simp: conversations_for_def)
  then show ?thesis using contexts_loop_ok [OF assms(1)] by (simp add: conversation_contexts_def)
qed

lemma session_memory_candidates_ok:
  assumes "store_inv env db" "is_memory_node_id i"
  shows "\<exists>ms db'. session_memory_candidates now i h b db = (Inr ms, db') \<and> list_all (memory_candidate h b) ms \<and>
    marked now (set (map mn_id ms)) db db'"
proof -
  obtain ns where ns: "memories_for now i False db = (Inr ns, db)" "list_all (\<lambda>n. is_memory_node_id (mn_id n)) ns"
    using related_unmarked [OF assms(1) edge_kind_tables(3) parses_kinds(4) assms(2)] by (auto simp: memories_for_def)
  let ?ms = "filter (memory_candidate h b) ns"
  have "list_all is_memory_node_id (map mn_id ?ms)" using ns(2) by (auto simp: list_all_iff)
  from then_mark_marked [OF this, of now ?ms db] ns(1) show ?thesis
    by (auto simp: session_memory_candidates_def list_all_iff)
qed

lemma session_context_ok:
  assumes inv: "store_inv env db" and s: "is_memory_node_id (mn_id s)"
  shows "\<exists>c db'. session_context now s h b incl db = (Inr c, db') \<and>
    (case c of None \<Rightarrow> \<not> session_candidate h b s \<and> marked now {} db db'
     | Some x \<Rightarrow> rx_session x = s \<and> session_ok h b x \<and> marked now (set (session_ids x)) db db')"
proof -
  obtain xs db1 where 1: "conversation_contexts now (mn_id s) h b db = (Inr xs, db1)" "list_all (conversation_ok h b) xs"
      "marked now (set (concat (map conversation_ids xs))) db db1"
    using conversation_contexts_ok [OF inv s] by blast
  have inv1: "store_inv env db1" using marked_inv [OF 1(3) inv] .
  obtain ms db2 where 2: "(if incl then session_memory_candidates now (mn_id s) h b db1 else (Inr [], db1)) = (Inr ms, db2)"
      "list_all (memory_candidate h b) ms" "marked now (set (map mn_id ms)) db1 db2"
    using session_memory_candidates_ok [OF inv1 s, of now h b] by (cases incl) auto
  have m: "marked now (set (concat (map conversation_ids xs)) \<union> set (map mn_id ms)) db db2" using marked_trans [OF 1(3) 2(3)] .
  show ?thesis
  proof (cases "\<not> session_candidate h b s \<and> xs = [] \<and> ms = []")
    case True
    then show ?thesis using 1(1) 2(1) m by (simp add: session_context_def)
  next
    case False
    let ?x = "\<lparr> rx_session = s, rx_matched = session_candidate h b s, rx_conversations = xs, rx_session_memories = ms \<rparr>"
    obtain db3 where 3: "then_mark now [mn_id s] (Some ?x) db2 = (Inr (Some ?x), db3)" "marked now {mn_id s} db2 db3"
      using then_mark_marked [of "[mn_id s]" now "Some ?x" db2] s by auto
    have "session_context now s h b incl db = (Inr (Some ?x), db3)"
      using 1(1) 2(1) 3(1) False by (simp add: session_context_def Let_def)
    moreover have "session_ok h b ?x" using 1(2) 2(2) False by (auto simp: session_ok_def)
    moreover have "marked now (set (session_ids ?x)) db db3" using marked_trans [OF m 3(2)] by (simp add: session_ids_def)
    ultimately show ?thesis by (intro exI conjI) (assumption | simp)+
  qed
qed

lemma session_contexts_ok:
  assumes "store_inv env db" "list_all (\<lambda>s. is_memory_node_id (mn_id s)) ss"
  shows "\<exists>xs db'. session_contexts now ss current h b db = (Inr xs, db') \<and> list_all (session_ok h b) xs \<and>
    filter (session_candidate h b) ss = map rx_session (filter rx_matched xs) \<and> marked now (set (concat (map session_ids xs))) db db'"
  using assms
proof (induction ss arbitrary: db)
  case (Cons s ss)
  obtain c db1 where 1: "session_context now s h b (Some (mn_id s) \<noteq> current) db = (Inr c, db1)"
    "case c of None \<Rightarrow> \<not> session_candidate h b s \<and> marked now {} db db1
     | Some x \<Rightarrow> rx_session x = s \<and> session_ok h b x \<and> marked now (set (session_ids x)) db db1"
    using session_context_ok [OF Cons.prems(1), of s] Cons.prems(2) by fastforce
  have m1: "\<exists>A. marked now A db db1" using 1(2) by (auto split: option.splits)
  then have inv1: "store_inv env db1" using marked_inv Cons.prems(1) by blast
  obtain xs db' where 2: "session_contexts now ss current h b db1 = (Inr xs, db')" "list_all (session_ok h b) xs"
      "filter (session_candidate h b) ss = map rx_session (filter rx_matched xs)" "marked now (set (concat (map session_ids xs))) db1 db'"
    using Cons.IH [OF inv1] Cons.prems(2) by auto
  show ?case
  proof (cases c)
    case None
    then show ?thesis using 1 2 marked_trans [of now "{}" db db1] by auto
  next
    case (Some x)
    then have "marked now (set (session_ids x) \<union> set (concat (map session_ids xs))) db db'"
      using 1(2) 2(4) marked_trans by fastforce
    moreover have "rx_matched x = session_candidate h b s" using 1(2) Some by (auto simp: session_ok_def)
    ultimately show ?thesis using 1 2(1-3) Some by auto
  qed
qed simp

section \<open>The whole retrieval\<close>

lemma mark_records_ids:
  "graph_wf env db \<Longrightarrow> mark_records_read now rs db = (Inr rs', db') \<Longrightarrow> map nr_id rs' = map nr_id rs"
proof (induction rs arbitrary: db rs')
  case (Cons r rs)
  obtain i where i: "memory_node_record_id (nr_id r) = Inr i" "i = nr_id r"
    using Cons.prems(2) by (cases "memory_node_record_id (nr_id r)") (auto simp: record_id_Inr)
  let ?db1 = "update_node i (mark_read_record now) db"
  have wf1: "graph_wf env ?db1" using same_graph_wf [OF same_graph_mark Cons.prems(1)] .
  obtain rs1 where rs1: "mark_records_read now rs ?db1 = (Inr rs1, db')"
      "rs' = (case fmlookup (gd_nodes ?db1) i of None \<Rightarrow> r | Some x \<Rightarrow> x) # rs1"
    using Cons.prems(2) i(1) by (auto simp: Let_def split: prod.splits sum.splits)
  have "nr_id (case fmlookup (gd_nodes ?db1) i of None \<Rightarrow> r | Some x \<Rightarrow> x) = nr_id r"
  proof (cases "fmlookup (gd_nodes ?db1) i")
    case (Some x)
    then show ?thesis using wf_id [OF wf1 Some] i(2) unfolding Some by simp
  qed simp
  then show ?case using rs1 Cons.IH [OF wf1 rs1(1)] by simp
qed simp

lemma nodes_ids: "nodes_from_records parse rs = Inr ns \<Longrightarrow> map mn_id ns = map nr_id rs"
  by (induction rs arbitrary: ns)
    (auto simp: memory_node_from_record_def split: sum.splits json.splits)

lemma memories_marked:
  assumes inv: "store_inv env db" and i: "is_memory_node_id i"
  shows "\<exists>ns db'. memories_for now i True db = (Inr ns, db') \<and> marked now (set (map mn_id ns)) db db'"
proof -
  let ?rs = "order_recent (related ''has_session_memory'' i db)"
  have wf: "graph_wf env db" using inv by (simp add: store_inv_def)
  have "list_all (\<lambda>r. is_memory_node_id (nr_id r)) ?rs"
    using wf_id [OF wf] by (auto simp: list_all_iff order_recent_def related_iff)
  then obtain rs' db' where m: "mark_records_read now ?rs db = (Inr rs', db')" "marked now (set (map nr_id ?rs)) db db'"
    using mark_records_marked by blast
  obtain ns where ns: "nodes_from_records parse_titled rs' = Inr ns"
    using read_records_ok [OF inv edge_kind_tables(3) parses_kinds(4), of ?rs i now True] m(1)
    by (auto simp: read_records_def order_recent_def)
  have "map mn_id ns = map nr_id ?rs" using nodes_ids [OF ns] mark_records_ids [OF wf m(1)] by simp
  then have "marked now (set (map mn_id ns)) db db'" using m(2) by (simp del: set_map)
  then show ?thesis using m(1) ns i by (simp add: memories_for_def read_related_def read_records_def)
qed

lemma task_catalog_ok:
  assumes inv: "store_inv env db"
  shows "\<exists>ts db'. task_catalog env now q db = (Inr ts, db') \<and> marked now (set (map mn_id ts)) db db' \<and>
    (case map_of (rq_depths q) ''task_catalog'' of None \<Rightarrow> ts = []
     | Some b \<Rightarrow> \<exists>ns. task_search env now None False db = (Inr ns, db) \<and> ts = filter (task_candidate (rq_hints q) b) ns)"
proof (cases "map_of (rq_depths q) ''task_catalog''")
  case (Some b)
  obtain ns where ns: "task_search env now None False db = (Inr ns, db)" "list_all (\<lambda>n. is_memory_node_id (mn_id n)) ns"
    using search_unmarked [OF inv edge_kind_roots(5) parses_kinds(6)] by (auto simp: task_search_def)
  let ?ts = "filter (task_candidate (rq_hints q) b) ns"
  have "list_all is_memory_node_id (map mn_id ?ts)" using ns(2) by (auto simp: list_all_iff)
  from then_mark_marked [OF this, of now ?ts db] ns(1) Some show ?thesis by (auto simp: task_catalog_def)
qed (simp add: task_catalog_def)

lemma past_context_ok:
  assumes inv: "store_inv env db" and c: "\<not> isl (normalized_session_id current)"
  shows "\<exists>xs db'. past_conversation_context env now current q db = (Inr xs, db') \<and>
    marked now (set (concat (map session_ids xs))) db db' \<and>
    (case map_of (rq_depths q) ''past_conversation_context'' of None \<Rightarrow> xs = []
     | Some b \<Rightarrow> list_all (session_ok (rq_hints q) b) xs \<and> (\<exists>ss. session_search env now None False db = (Inr ss, db) \<and>
         filter (session_candidate (rq_hints q) b) ss = map rx_session (filter rx_matched xs)))"
proof (cases "map_of (rq_depths q) ''past_conversation_context''")
  case (Some b)
  obtain ss where ss: "session_search env now None False db = (Inr ss, db)" "list_all (\<lambda>n. is_memory_node_id (mn_id n)) ss"
    using search_unmarked [OF inv edge_kind_roots(1) parses_kinds(1)] by (auto simp: session_search_def)
  obtain k where "normalized_session_id current = Inr k" using c by (cases "normalized_session_id current") auto
  then show ?thesis using session_contexts_ok [OF inv ss(2), of now k "rq_hints q" b] ss(1) Some
    by (auto simp: past_conversation_context_def)
qed (simp add: past_conversation_context_def)


definition ex_request :: retrieval_request where
  "ex_request =
     \<lparr> rq_hints = \<lparr> gh_tags = no_tags, gh_strings = \<lparr> sc_contains = [''hello''], sc_equals = [] \<rparr> \<rparr>,
       rq_depths = [(''past_conversation_context'', \<lparr> tb_created_after = 0, tb_updated_after = 0, tb_read_after = 0 \<rparr>)] \<rparr>"


end
