(* ===== verification/TurnContext.thy ===== *)
theory TurnContext
  imports Retrieval LiveConversation
begin

text \<open>
  What a turn reads from the memories and writes back: \<open>agent_flow/memory_contexts.py\<close>,
  \<open>session_context.py\<close>, \<open>timestamps.py\<close>, \<open>voice_turn_context.py\<close>, \<open>retrieved_memory_graph.py\<close>,
  \<open>candidate_memory_writeback.py\<close>, \<open>provider_clients.py\<close> and the choice of the client in
  \<open>action_history.py\<close>. The types of the generated SDK appear with the fields the code fills in.
\<close>

section \<open>Time stamps\<close>

record stamp_texts =
  sx_created_at :: string
  sx_updated_at :: string
  sx_read_at :: string

definition timestamp_fields :: "(nat \<Rightarrow> string) \<Rightarrow> 'a memory_node \<Rightarrow> stamp_texts" where
  "timestamp_fields isoformat n =
     \<lparr> sx_created_at = isoformat (mt_created_at (mn_timestamps n)),
       sx_updated_at = isoformat (mt_updated_at (mn_timestamps n)),
       sx_read_at = (case mt_read_at (mn_timestamps n) of None \<Rightarrow> ''NONE'' | Some t \<Rightarrow> isoformat t) \<rparr>"

definition db_then ::
  "(py_error + 'a) \<times> graph_db \<Rightarrow> ('a \<Rightarrow> graph_db \<Rightarrow> (py_error + 'b) \<times> graph_db) \<Rightarrow> (py_error + 'b) \<times> graph_db" where
  "db_then m f = (case m of (Inl e, db) \<Rightarrow> (Inl e, db) | (Inr x, db) \<Rightarrow> f x db)"

section \<open>Memory contexts\<close>

record available_task =
  av_id :: string
  av_content :: task_content
  av_model_id :: string
  av_stamps :: stamp_texts

record titled_context =
  tl_title :: string
  tl_description :: string
  tl_tags :: "string list"
  tl_stamps :: stamp_texts

definition task_model_id :: "string \<Rightarrow> string \<Rightarrow> (string \<Rightarrow> string option option) \<Rightarrow> py_error + string" where
  "task_model_id task_id provider_id providers =
     (case providers provider_id of
        Some (Some m) \<Rightarrow> if m = [] then Inl (ValueError (''task '' @ task_id @ '' has no provider model: '' @ provider_id)) else Inr m
      | _ \<Rightarrow> Inl (ValueError (''task '' @ task_id @ '' has no provider model: '' @ provider_id)))"

fun tasks_with_models ::
  "(nat \<Rightarrow> string) \<Rightarrow> (string \<Rightarrow> string option option) \<Rightarrow> task_content memory_node list \<Rightarrow> py_error + available_task list" where
  "tasks_with_models isoformat providers [] = Inr []"
| "tasks_with_models isoformat providers (n # ns) =
     (case task_model_id (mn_id n) (tc_provider_id (mn_content n)) providers of
        Inl e \<Rightarrow> Inl e
      | Inr m \<Rightarrow> (case tasks_with_models isoformat providers ns of
           Inl e \<Rightarrow> Inl e
         | Inr ts \<Rightarrow> Inr (\<lparr> av_id = mn_id n, av_content = mn_content n, av_model_id = m,
                              av_stamps = timestamp_fields isoformat n \<rparr> # ts)))"

text \<open>The dictionary from provider ids to model ids: a later entry replaces an earlier one.\<close>

definition provider_models :: "provider_content memory_node list \<Rightarrow> string \<Rightarrow> string option option" where
  "provider_models ps = map_of (rev (map (\<lambda>p. (mn_id p, pv_model_id (mn_content p))) ps))"

definition available_tasks ::
  "db_env \<Rightarrow> (nat \<Rightarrow> string) \<Rightarrow> nat \<Rightarrow> graph_db \<Rightarrow> (py_error + available_task list) \<times> graph_db" where
  "available_tasks env isoformat now db =
     db_then (task_search env now None True db) (\<lambda>tasks db1.
     db_then (if tasks = [] then (Inr [], db1) else provider_search env now None True db1) (\<lambda>providers db2.
       (tasks_with_models isoformat (provider_models providers) tasks, db2)))"

definition titled_context_of :: "(nat \<Rightarrow> string) \<Rightarrow> titled_content memory_node \<Rightarrow> titled_context" where
  "titled_context_of isoformat n =
     \<lparr> tl_title = td_title (mn_content n), tl_description = td_description (mn_content n), tl_tags = mn_tags n,
       tl_stamps = timestamp_fields isoformat n \<rparr>"

definition collection_contexts ::
  "db_env \<Rightarrow> (nat \<Rightarrow> string) \<Rightarrow> nat \<Rightarrow> context_collection \<Rightarrow> graph_db \<Rightarrow> (py_error + titled_context list) \<times> graph_db" where
  "collection_contexts env isoformat now coll db =
     db_then (context_search env now coll None True db) (\<lambda>ns db1. (Inr (map (titled_context_of isoformat) ns), db1))"

definition user_preferences ::
  "db_env \<Rightarrow> (nat \<Rightarrow> string) \<Rightarrow> nat \<Rightarrow> graph_db \<Rightarrow> (py_error + (string \<times> titled_context) list) \<times> graph_db" where
  "user_preferences env isoformat now db =
     db_then (context_search env now User_preference None True db) (\<lambda>ns db1.
       (Inr (map (\<lambda>n. (mn_id n, titled_context_of isoformat n)) ns), db1))"

section \<open>The session and its conversation\<close>

definition session_memory_contexts ::
  "(nat \<Rightarrow> string) \<Rightarrow> nat \<Rightarrow> string option \<Rightarrow> graph_db \<Rightarrow> (py_error + titled_context list) \<times> graph_db" where
  "session_memory_contexts isoformat now session_id db =
     (case session_id of
        None \<Rightarrow> (Inr [], db)
      | Some s \<Rightarrow> db_then (session_memories_for_session now s True db) (\<lambda>ns db1. (Inr (map (titled_context_of isoformat) ns), db1)))"

definition history_message_from :: "(nat \<Rightarrow> string) \<Rightarrow> message_content memory_node \<Rightarrow> history_message" where
  "history_message_from isoformat n =
     (let x = timestamp_fields isoformat n
      in \<lparr> hm_created_at = sx_created_at x, hm_updated_at = sx_updated_at x, hm_read_at = sx_read_at x,
           hm_role = mg_role (mn_content n), hm_content = mg_content (mn_content n) \<rparr>)"

definition conversation_history_of ::
  "(nat \<Rightarrow> string) \<Rightarrow> nat \<Rightarrow> conversation_content memory_node \<Rightarrow> graph_db \<Rightarrow> (py_error + conversation_history) \<times> graph_db" where
  "conversation_history_of isoformat now c db =
     db_then (conversation_messages now (mn_id c) True db) (\<lambda>ms db1.
       let x = timestamp_fields isoformat c
       in (Inr \<lparr> ch_id = mn_id c, ch_name = cn_name (mn_content c), ch_created_at = sx_created_at x,
                 ch_updated_at = sx_updated_at x, ch_read_at = sx_read_at x,
                 ch_messages = map (history_message_from isoformat) ms \<rparr>, db1))"

definition current_conversation_history ::
  "(nat \<Rightarrow> string) \<Rightarrow> nat \<Rightarrow> string option \<Rightarrow> string option \<Rightarrow> graph_db \<Rightarrow> (py_error + conversation_history option) \<times> graph_db" where
  "current_conversation_history isoformat now session_id conversation_id db =
     (case (session_id, conversation_id) of
        (Some s, Some c) \<Rightarrow>
          (case memory_node_record_id c of
             Inl e \<Rightarrow> (Inl e, db)
           | Inr expected \<Rightarrow>
               db_then (conversations_for now s True db) (\<lambda>cs db1.
                 case find (\<lambda>n. mn_id n = expected) cs of
                   None \<Rightarrow> (Inr None, db1)
                 | Some n \<Rightarrow> db_then (conversation_history_of isoformat now n db1) (\<lambda>h db2. (Inr (Some h), db2))))
      | _ \<Rightarrow> (Inr None, db))"

section \<open>The context of a turn\<close>

record turn_context =
  vx_session_id :: "string option"
  vx_conversation_id :: "string option"
  vx_live :: "live_context option"
  vx_current_human_reply :: "string option"

record turn_inputs =
  ti_current_conversation :: "conversation_history option"
  ti_session_memories :: "titled_context list"
  ti_user_preferences :: "(string \<times> titled_context) list"
  ti_available_tasks :: "available_task list"
  ti_task_choice_memories :: "titled_context list"
  ti_conversation_evaluation_memories :: "titled_context list"
  ti_search_depth_memories :: "titled_context list"
  ti_current_session_id :: "string option"
  ti_relevance_memories :: "titled_context list"
  ti_task_prompt_memories :: "titled_context list"

definition current_conversation ::
  "(nat \<Rightarrow> string) \<Rightarrow> time_text \<Rightarrow> nat \<Rightarrow> turn_context \<Rightarrow> graph_db \<Rightarrow> (py_error + conversation_history option) \<times> graph_db" where
  "current_conversation isoformat tt now c db =
     db_then (current_conversation_history isoformat now (vx_session_id c) (vx_conversation_id c) db) (\<lambda>h db1.
       (case vx_live c of None \<Rightarrow> Inr h | Some live \<Rightarrow> live_merge tt now h (vx_conversation_id c) live, db1))"

text \<open>\<open>voice_turn_inputs\<close>; the machine state and the current time are left out.\<close>

definition voice_turn_inputs ::
  "db_env \<Rightarrow> (nat \<Rightarrow> string) \<Rightarrow> time_text \<Rightarrow> nat \<Rightarrow> turn_context \<Rightarrow> graph_db \<Rightarrow> (py_error + turn_inputs) \<times> graph_db" where
  "voice_turn_inputs env isoformat tt now c db =
     db_then (current_conversation isoformat tt now c db) (\<lambda>conversation db1.
     db_then (session_memory_contexts isoformat now (vx_session_id c) db1) (\<lambda>session_memories db2.
     db_then (user_preferences env isoformat now db2) (\<lambda>preferences db3.
     db_then (available_tasks env isoformat now db3) (\<lambda>tasks db4.
     db_then (collection_contexts env isoformat now Task_choice db4) (\<lambda>choice db5.
     db_then (collection_contexts env isoformat now Conversation_evaluation db5) (\<lambda>evaluation db6.
     db_then (collection_contexts env isoformat now Search_depth db6) (\<lambda>depth db7.
     db_then (collection_contexts env isoformat now Relevance db7) (\<lambda>relevance db8.
     db_then (collection_contexts env isoformat now Task_prompt db8) (\<lambda>prompt db9.
       (Inr \<lparr> ti_current_conversation = conversation, ti_session_memories = session_memories,
              ti_user_preferences = preferences, ti_available_tasks = tasks, ti_task_choice_memories = choice,
              ti_conversation_evaluation_memories = evaluation, ti_search_depth_memories = depth,
              ti_current_session_id = vx_session_id c, ti_relevance_memories = relevance,
              ti_task_prompt_memories = prompt \<rparr>, db9))))))))))"

definition task_conversation_scope :: "turn_context \<Rightarrow> py_error + (string option \<times> string list)" where
  "task_conversation_scope c =
     map_sum id (Pair (vx_current_human_reply c))
       (case vx_live c of None \<Rightarrow> Inr [] | Some live \<Rightarrow> active_human_reply_created_at (vx_conversation_id c) live)"

definition context_task_name :: "nat \<Rightarrow> string \<Rightarrow> graph_db \<Rightarrow> (py_error + string option) \<times> graph_db" where
  "context_task_name now task_id db =
     db_then (task_get now task_id True db) (\<lambda>t db1. (Inr (map_option (\<lambda>n. tc_name (mn_content n)) t), db1))"

section \<open>Candidate memories\<close>

record candidate_batch =
  cb_task_choice :: "titled_content list"
  cb_conversation_evaluation :: "titled_content list"
  cb_search_depth :: "titled_content list"
  cb_relevance :: "titled_content list"
  cb_task_prompt :: "titled_content list"

definition candidate_destinations :: "candidate_batch \<Rightarrow> (context_collection \<times> titled_content) list" where
  "candidate_destinations b =
     map (Pair Task_choice) (cb_task_choice b) @ map (Pair Conversation_evaluation) (cb_conversation_evaluation b)
     @ map (Pair Search_depth) (cb_search_depth b) @ map (Pair Relevance) (cb_relevance b)
     @ map (Pair Task_prompt) (cb_task_prompt b)"

fun write_candidates ::
  "db_env \<Rightarrow> nat \<Rightarrow> (context_collection \<times> titled_content) list \<Rightarrow> graph_db \<Rightarrow> (py_error + unit) \<times> graph_db" where
  "write_candidates env now [] db = (Inr (), db)"
| "write_candidates env now ((coll, m) # ms) db =
     db_then (context_create env now coll m [] db) (\<lambda>_ db1. write_candidates env now ms db1)"

definition write_candidate_memories ::
  "db_env \<Rightarrow> nat \<Rightarrow> candidate_batch \<Rightarrow> graph_db \<Rightarrow> (py_error + unit) \<times> graph_db" where
  "write_candidate_memories env now b db = write_candidates env now (candidate_destinations b) db"

section \<open>Clients\<close>

definition ascii_alnum :: "char \<Rightarrow> bool" where
  "ascii_alnum c = (is_digit c \<or> is_alpha c)"

function alnum_parts :: "string \<Rightarrow> string list" where
  "alnum_parts [] = []"
| "alnum_parts (c # cs) =
     (if ascii_alnum c then (c # takeWhile ascii_alnum cs) # alnum_parts (dropWhile ascii_alnum cs) else alnum_parts cs)"
  by pat_completeness auto
termination by (relation "measure length") (auto simp: le_imp_less_Suc length_dropWhile_le)

definition upper_ascii :: "char \<Rightarrow> char" where
  "upper_ascii c = (if 97 \<le> code c \<and> code c \<le> 122 then char_of (code c - 32) else c)"

fun py_capitalize :: "string \<Rightarrow> string" where
  "py_capitalize [] = []"
| "py_capitalize (c # cs) = upper_ascii c # py_lower cs"

definition client_identifier :: "string \<Rightarrow> string" where
  "client_identifier v = (let s = concat (map py_capitalize (alnum_parts v)) in if s = [] then ''Default'' else s)"

definition compiled_client :: "string \<Rightarrow> string" where
  "compiled_client name = rev (takeWhile (\<lambda>c. c \<noteq> CHR ''.'') (rev name))"

definition provider_client :: "provider_content \<Rightarrow> string \<times> string" where
  "provider_client p =
     (let name = (case pv_reasoning_effort p of
          None \<Rightarrow> pv_baml_surface p
        | Some e \<Rightarrow> if e = [] then pv_baml_surface p else pv_baml_surface p @ ''Reasoning'' @ client_identifier e)
      in (compiled_client name, name))"

definition summary_client ::
  "nat \<Rightarrow> string option \<Rightarrow> string option \<Rightarrow> graph_db \<Rightarrow> (py_error + string \<times> string) \<times> graph_db" where
  "summary_client now client_name selected_task_id db =
     (case client_name of
        Some n \<Rightarrow> (Inr (compiled_client n, n), db)
      | None \<Rightarrow>
          (case selected_task_id of
             None \<Rightarrow> (Inl (ValueError ''selected_task_id is required to use the task execution provider''), db)
           | Some t \<Rightarrow>
               db_then (task_get now t True db) (\<lambda>task db1.
                 case task of
                   None \<Rightarrow> (Inl (ValueError (''selected task does not exist: '' @ t)), db1)
                 | Some n \<Rightarrow>
                     db_then (provider_get now (tc_provider_id (mn_content n)) True db1) (\<lambda>provider db2.
                       case provider of
                         None \<Rightarrow> (Inl (ValueError (''task provider does not exist: '' @ tc_provider_id (mn_content n))), db2)
                       | Some p \<Rightarrow> (Inr (provider_client (mn_content p)), db2)))))"

section \<open>Searching everything\<close>

text \<open>A node read from the graph: it is contained in the root and its content is the parsed record.\<close>

definition read_node :: "(json \<Rightarrow> py_error + 'a) \<Rightarrow> string \<Rightarrow> graph_db \<Rightarrow> 'a memory_node \<Rightarrow> bool" where
  "read_node parse rid db n = (contained rid (mn_id n) db
     \<and> (\<exists>r. fmlookup (gd_nodes db) (mn_id n) = Some r \<and> parse (nr_content r) = Inr (mn_content n)))"

lemma nodes_read_contents:
  "nodes_from_records parse rs = Inr ns \<Longrightarrow> list_all2 (\<lambda>n r. mn_id n = nr_id r \<and> parse (nr_content r) = Inr (mn_content n)) ns rs"
proof (induction rs arbitrary: ns)
  case (Cons r rs)
  obtain n ms where n: "memory_node_from_record parse r = Inr n" "nodes_from_records parse rs = Inr ms" "ns = n # ms"
    using Cons.prems by (auto split: sum.splits)
  have "mn_id n = nr_id r \<and> parse (nr_content r) = Inr (mn_content n)"
    using n(1) by (auto simp: memory_node_from_record_def split: json.splits sum.splits)
  then show ?case using Cons.IH[OF n(2)] n(3) by simp
qed simp

lemma search_everything:
  assumes inv: "store_inv env db" and k: "edge_kind ''contains'' rid = Some k" "parses parse k"
  shows "\<exists>ns db1. search_nodes env parse now rid None True db = (Inr ns, db1) \<and> same_graph db db1
    \<and> (\<forall>n \<in> set ns. read_node parse rid db n) \<and> (\<forall>i. contained rid i db \<longrightarrow> (\<exists>n \<in> set ns. mn_id n = i))"
proof -
  let ?p = "\<lparr> qp_where_sql = [], qp_variables = [] \<rparr>"
  let ?rs = "order_recent (filter (\<lambda>r. where_holds (de_cast env) ?p (nr_tags r) (nr_content r)) (related ''contains'' rid db))"
  have wf: "graph_wf env db" using inv by (simp add: store_inv_def)
  have set: "set ?rs = set (related ''contains'' rid db)" by (auto simp: order_recent_def where_holds_def)
  have rec: "fmlookup (gd_nodes db) (nr_id r) = Some r \<and> is_memory_node_id (nr_id r)" if "r \<in> set ?rs" for r
    using that wf_id[OF wf] unfolding set by (auto simp: related_iff)
  have valid: "list_all (\<lambda>r. is_memory_node_id (nr_id r)) ?rs" using rec by (simp add: list_all_iff)
  obtain rs' db1 where m: "mark_records_read now ?rs db = (Inr rs', db1)" "marked now (set (map nr_id ?rs)) db db1"
    using mark_records_marked[OF valid] by blast
  obtain rs2 where rs2: "fst (mark_records_read now ?rs db) = Inr rs2" "map nr_content rs2 = map nr_content ?rs"
    using mark_records_contents[of ?rs db now] rec by blast
  have ids: "map nr_id rs' = map nr_id ?rs" by (rule mark_records_ids[OF wf m(1)])
  have cont: "map nr_content rs' = map nr_content ?rs" using rs2 m(1) by simp
  obtain ns where ns: "nodes_from_records parse rs' = Inr ns"
    using read_records_ok[OF inv k, of ?rs now True] m(1) set by (auto simp: read_records_def)
  have s: "search_nodes env parse now rid None True db = (Inr ns, db1)"
    using m(1) ns by (simp add: search_nodes_def build_memory_node_where_def read_records_def)
  have idn: "map mn_id ns = map nr_id ?rs" using nodes_ids[OF ns] ids by simp
  have "read_node parse rid db n" if "n \<in> set ns" for n
  proof -
    obtain j where j: "j < length ns" "ns ! j = n" using \<open>n \<in> set ns\<close> by (auto simp: in_set_conv_nth)
    have len: "length ns = length rs'" "length rs' = length ?rs"
      using list_all2_lengthD[OF nodes_read_contents[OF ns]] ids by (auto dest: map_eq_imp_length_eq)
    let ?r = "?rs ! j"
    have r: "?r \<in> set ?rs" using j len by simp
    have "mn_id n = nr_id (rs' ! j) \<and> parse (nr_content (rs' ! j)) = Inr (mn_content n)"
      using list_all2_nthD[OF nodes_read_contents[OF ns] j(1)] j(2) by simp
    moreover have "nr_id (rs' ! j) = nr_id ?r" "nr_content (rs' ! j) = nr_content ?r"
      using j(1) len arg_cong[OF ids, of "\<lambda>xs. xs ! j"] arg_cong[OF cont, of "\<lambda>xs. xs ! j"] by simp_all
    moreover have "contained rid (nr_id ?r) db"
      using r wf_id[OF wf] unfolding set by (auto simp: related_iff contained_def edges_def)
    ultimately show ?thesis using rec[OF r] by (auto simp: read_node_def)
  qed
  moreover have "\<exists>n \<in> set ns. mn_id n = i" if c: "contained rid i db" for i
  proof -
    obtain r where r: "fmlookup (gd_nodes db) i = Some r" using contained_exists[OF wf c] by blast
    then have "r \<in> set ?rs" using c unfolding set by (auto simp: related_iff contained_def edges_def)
    then have "i \<in> set (map nr_id ?rs)" using wf_id[OF wf r] by auto
    then show ?thesis unfolding idn[symmetric] by auto
  qed
  ultimately show ?thesis using s marked_same[OF m(2)] by blast
qed

section \<open>Which tasks are available\<close>

definition has_model :: "provider_content \<Rightarrow> bool" where
  "has_model p = (\<exists>m. pv_model_id p = Some m \<and> m \<noteq> [])"

lemma task_model_ok: "(\<exists>m. task_model_id t i ps = Inr m) \<longleftrightarrow> (\<exists>m. ps i = Some (Some m) \<and> m \<noteq> [])"
  by (auto simp: task_model_id_def split: option.splits)

lemma tasks_with_models_ok:
  "(\<exists>ts. tasks_with_models isoformat ps ns = Inr ts) \<longleftrightarrow> (\<forall>n \<in> set ns. \<exists>m. ps (tc_provider_id (mn_content n)) = Some (Some m) \<and> m \<noteq> [])"
proof (induction ns)
  case (Cons n ns)
  then show ?case using task_model_ok[of "mn_id n" "tc_provider_id (mn_content n)" ps] by (auto split: sum.splits)
qed simp

lemma provider_models_found:
  assumes "p \<in> set ps" "mn_id p = i" "\<And>q. q \<in> set ps \<Longrightarrow> mn_id q = i \<Longrightarrow> mn_content q = mn_content p"
  shows "provider_models ps i = Some (pv_model_id (mn_content p))"
proof -
  let ?xs = "rev (map (\<lambda>p. (mn_id p, pv_model_id (mn_content p))) ps)"
  have "i \<in> fst ` set ?xs" using assms(1,2) by force
  then obtain v where v: "map_of ?xs i = Some v" by (metis map_of_eq_None_iff not_Some_eq)
  then obtain q where "q \<in> set ps" "mn_id q = i" "v = pv_model_id (mn_content q)" using map_of_SomeD[OF v] by auto
  then show ?thesis using assms(3) v by (simp add: provider_models_def)
qed

lemma same_content: "same_but_read r s \<Longrightarrow> nr_content r = nr_content s"
  unfolding same_but_read_def by (drule arg_cong[where f = nr_content]) simp

lemma read_node_same:
  assumes "same_graph db db1" "read_node parse rid db1 n"
  shows "read_node parse rid db n"
proof -
  obtain s where s: "fmlookup (gd_nodes db1) (mn_id n) = Some s" "parse (nr_content s) = Inr (mn_content n)"
    using assms(2) by (auto simp: read_node_def)
  have "rel_option same_but_read (fmlookup (gd_nodes db) (mn_id n)) (Some s)"
    using assms(1) s(1) unfolding same_graph_def by metis
  then obtain r where "fmlookup (gd_nodes db) (mn_id n) = Some r" "same_but_read r s" by (auto elim: option.rel_cases)
  then show ?thesis using assms s(2) same_content by (fastforce simp: read_node_def same_graph_def contained_def)
qed

lemma contained_same: "same_graph db db1 \<Longrightarrow> contained rid i db1 = contained rid i db"
  by (simp add: same_graph_def contained_def)

lemma read_node_unique:
  "read_node parse rid db n \<Longrightarrow> read_node parse rid db m \<Longrightarrow> mn_id n = mn_id m \<Longrightarrow> mn_content n = mn_content m"
  by (auto simp: read_node_def)

lemma task_node_provider:
  assumes inv: "store_inv env db" and n: "read_node parse_task TASKS_ROOT_ID db n"
  shows "contained PROVIDERS_ROOT_ID (tc_provider_id (mn_content n)) db"
proof -
  have wf: "graph_wf env db" and tp: "tasks_provided db" using inv by (simp_all add: store_inv_def)
  obtain r where r: "contained TASKS_ROOT_ID (mn_id n) db" "fmlookup (gd_nodes db) (mn_id n) = Some r" "parse_task (nr_content r) = Inr (mn_content n)"
    using n by (auto simp: read_node_def)
  obtain x where x: "nr_content r = task_dict x \<and> map re_in (task_edges (mn_id n) db) = [tc_provider_id x] \<and>
      contained PROVIDERS_ROOT_ID (tc_provider_id x) db"
    by (rule exE[OF tp[unfolded tasks_provided_def, rule_format, OF r(1,2)]])
  then have "is_memory_node_id (tc_provider_id x)" using contained_exists[OF wf] wf_id[OF wf] by blast
  then have "mn_content n = x" using tasks.stored_node[of x r] r(3) x by (auto simp: memory_node_from_record_def task_dict_def)
  then show ?thesis using x by simp
qed

text \<open>All the nodes under a root, each of them at least once.\<close>

definition all_nodes :: "(json \<Rightarrow> py_error + 'a) \<Rightarrow> string \<Rightarrow> graph_db \<Rightarrow> 'a memory_node list \<Rightarrow> bool" where
  "all_nodes parse rid db ns = ((\<forall>n \<in> set ns. read_node parse rid db n) \<and> (\<forall>i. contained rid i db \<longrightarrow> (\<exists>n \<in> set ns. mn_id n = i)))"

lemma all_nodes_same: "same_graph db db1 \<Longrightarrow> all_nodes parse rid db1 ns \<Longrightarrow> all_nodes parse rid db ns"
  using read_node_same contained_same unfolding all_nodes_def by blast

lemma all_nodes_find:
  assumes "all_nodes parse rid db ns" "read_node parse rid db n"
  shows "\<exists>m \<in> set ns. mn_id m = mn_id n \<and> mn_content m = mn_content n"
proof -
  have "contained rid (mn_id n) db" using assms(2) by (simp add: read_node_def)
  then obtain m where m: "m \<in> set ns" "mn_id m = mn_id n" using assms(1) unfolding all_nodes_def by blast
  have "read_node parse rid db m" using assms(1) m(1) unfolding all_nodes_def by blast
  from read_node_unique[OF this assms(2) m(2)] show ?thesis using m by blast
qed

lemma catalog_read:
  assumes inv: "store_inv env db"
  shows "\<exists>ns ps. all_nodes parse_task TASKS_ROOT_ID db ns \<and> all_nodes parse_provider PROVIDERS_ROOT_ID db ps
    \<and> ((\<exists>ts db2. available_tasks env isoformat now db = (Inr ts, db2)) \<longleftrightarrow> (\<exists>ts. tasks_with_models isoformat (provider_models ps) ns = Inr ts))"
proof -
  obtain ns db1 where ns: "task_search env now None True db = (Inr ns, db1)" "same_graph db db1" "all_nodes parse_task TASKS_ROOT_ID db ns"
    using search_everything[OF inv edge_kind_roots(5) parses_kinds(6), of now] by (auto simp: task_search_def all_nodes_def)
  obtain ps db2 where ps: "provider_search env now None True db1 = (Inr ps, db2)" "all_nodes parse_provider PROVIDERS_ROOT_ID db1 ps"
    using search_everything[OF inv_same[OF inv ns(2)] edge_kind_roots(4) parses_kinds(5), of now] by (auto simp: provider_search_def all_nodes_def)
  have "(\<exists>ts db2. available_tasks env isoformat now db = (Inr ts, db2)) \<longleftrightarrow> (\<exists>ts. tasks_with_models isoformat (provider_models ps) ns = Inr ts)"
    using ns(1) ps(1) by (cases "ns = []") (auto simp: available_tasks_def db_then_def)
  then show ?thesis using ns(3) all_nodes_same[OF ns(2) ps(2)] by blast
qed

lemma model_of_task:
  assumes inv: "store_inv env db" and ps: "all_nodes parse_provider PROVIDERS_ROOT_ID db ps" and n: "read_node parse_task TASKS_ROOT_ID db n"
  shows "\<exists>p. read_node parse_provider PROVIDERS_ROOT_ID db p \<and> mn_id p = tc_provider_id (mn_content n)
    \<and> provider_models ps (tc_provider_id (mn_content n)) = Some (pv_model_id (mn_content p))"
proof -
  obtain p where p: "p \<in> set ps" "mn_id p = tc_provider_id (mn_content n)"
    using task_node_provider[OF inv n] ps unfolding all_nodes_def by blast
  have pr: "read_node parse_provider PROVIDERS_ROOT_ID db q" if "q \<in> set ps" for q using ps that unfolding all_nodes_def by blast
  have "mn_content q = mn_content p" if "q \<in> set ps" "mn_id q = tc_provider_id (mn_content n)" for q
    using read_node_unique[OF pr[OF that(1)] pr[OF p(1)]] that(2) p(2) by simp
  from provider_models_found[OF p this] show ?thesis using p(2) pr[OF p(1)] by blast
qed

text \<open>The catalog of tasks can be read exactly when the provider of every task has a model.\<close>

lemma available_tasks_iff:
  assumes inv: "store_inv env db"
  shows "(\<exists>ts db2. available_tasks env isoformat now db = (Inr ts, db2)) \<longleftrightarrow>
    (\<forall>n p. read_node parse_task TASKS_ROOT_ID db n \<longrightarrow> read_node parse_provider PROVIDERS_ROOT_ID db p \<longrightarrow>
       mn_id p = tc_provider_id (mn_content n) \<longrightarrow> has_model (mn_content p))" (is "?A \<longleftrightarrow> ?R")
proof -
  obtain ns ps where ns: "all_nodes parse_task TASKS_ROOT_ID db ns" and ps: "all_nodes parse_provider PROVIDERS_ROOT_ID db ps"
    and A: "?A \<longleftrightarrow> (\<forall>n \<in> set ns. \<exists>m. provider_models ps (tc_provider_id (mn_content n)) = Some (Some m) \<and> m \<noteq> [])"
    using catalog_read[OF inv, of isoformat now] unfolding tasks_with_models_ok by blast
  note model = model_of_task[OF inv ps]
  show ?thesis
  proof
    assume a: ?A
    show ?R
    proof (intro allI impI)
      fix n p assume n: "read_node parse_task TASKS_ROOT_ID db n" and p: "read_node parse_provider PROVIDERS_ROOT_ID db p"
        and i: "mn_id p = tc_provider_id (mn_content n)"
      obtain m where m: "m \<in> set ns" "mn_content m = mn_content n" using all_nodes_find[OF ns n] by blast
      obtain q where q: "read_node parse_provider PROVIDERS_ROOT_ID db q" "mn_id q = tc_provider_id (mn_content n)"
        "provider_models ps (tc_provider_id (mn_content n)) = Some (pv_model_id (mn_content q))" using model[OF n] by blast
      have "mn_content q = mn_content p" using read_node_unique[OF q(1) p] q(2) i by simp
      then show "has_model (mn_content p)" using A a m q(3) unfolding has_model_def by force
    qed
  next
    assume r: ?R
    have "\<exists>m. provider_models ps (tc_provider_id (mn_content n)) = Some (Some m) \<and> m \<noteq> []" if "n \<in> set ns" for n
    proof -
      have n: "read_node parse_task TASKS_ROOT_ID db n" using ns \<open>n \<in> set ns\<close> unfolding all_nodes_def by blast
      obtain q where q: "read_node parse_provider PROVIDERS_ROOT_ID db q" "mn_id q = tc_provider_id (mn_content n)"
        "provider_models ps (tc_provider_id (mn_content n)) = Some (pv_model_id (mn_content q))" using model[OF n] by blast
      have "has_model (mn_content q)" using r n q(1,2) by blast
      then show ?thesis using q(3) by (auto simp: has_model_def)
    qed
    then show ?A using A by blast
  qed
qed

lemma get_read_node:
  assumes inv: "store_inv env db" and k: "edge_kind ''contains'' rid = Some k" "parses parse k"
  shows "read_node parse rid db n \<Longrightarrow> \<exists>m. get_node parse now rid (mn_id n) False db = (Inr (Some m), db) \<and> mn_content m = mn_content n"
    "get_node parse now rid i False db = (Inr (Some n), db) \<Longrightarrow> read_node parse rid db n \<and> mn_id n = i"
proof -
  have wf: "graph_wf env db" using inv by (simp add: store_inv_def)
  have read: "read_node parse rid db n \<and> mn_id n = i" if g: "get_node parse now rid i False db = (Inr (Some n), db)" for i n
  proof -
    obtain r where r: "contained rid i db" "fmlookup (gd_nodes db) i = Some r" "memory_node_from_record parse r = Inr n"
      using get_node_unmarked[OF wf g] by blast
    have "mn_id n = nr_id r \<and> parse (nr_content r) = Inr (mn_content n)"
      using r(3) by (auto simp: memory_node_from_record_def split: json.splits sum.splits)
    then show ?thesis using r wf_id[OF wf r(2)] by (auto simp: read_node_def)
  qed
  then show "get_node parse now rid i False db = (Inr (Some n), db) \<Longrightarrow> read_node parse rid db n \<and> mn_id n = i" .
  assume n: "read_node parse rid db n"
  then have "contained rid (mn_id n) db" by (simp add: read_node_def)
  then obtain m where m: "get_node parse now rid (mn_id n) False db = (Inr (Some m), db)" using get_node_found[OF inv _ k] by blast
  then show "\<exists>m. get_node parse now rid (mn_id n) False db = (Inr (Some m), db) \<and> mn_content m = mn_content n"
    using read[OF m] read_node_unique[OF _ n] by blast
qed

section \<open>The retrieved memories as a graph\<close>

text \<open>The nodes of the generated SDK are flat: the fields of the content beside id, tags and stamps.\<close>

record 'c graph_node =
  gn_id :: string
  gn_content :: 'c
  gn_tags :: "string list"
  gn_stamps :: stamp_texts

record graph_conversation =
  gc_conversation :: "conversation_content graph_node"
  gc_matched :: bool
  gc_messages :: "message_content graph_node list"
  gc_matched_message_ids :: "string list"

record graph_session =
  gs_session :: "session_content graph_node"
  gs_matched :: bool
  gs_conversations :: "graph_conversation list"
  gs_session_memories :: "titled_content graph_node list"

record memory_graph =
  mg_task_catalog :: "task_content graph_node list"
  mg_past_sessions :: "graph_session list"
  mg_current_session_memories :: "titled_content graph_node list"

definition graph_node_of :: "(nat \<Rightarrow> string) \<Rightarrow> 'c memory_node \<Rightarrow> 'c graph_node" where
  "graph_node_of isoformat n =
     \<lparr> gn_id = mn_id n, gn_content = mn_content n, gn_tags = mn_tags n, gn_stamps = timestamp_fields isoformat n \<rparr>"

definition graph_conversation_of :: "(nat \<Rightarrow> string) \<Rightarrow> retrieved_conversation \<Rightarrow> graph_conversation" where
  "graph_conversation_of isoformat c =
     \<lparr> gc_conversation = graph_node_of isoformat (rc_conversation c), gc_matched = rc_matched c,
       gc_messages = map (graph_node_of isoformat) (rc_messages c), gc_matched_message_ids = rc_matched_message_ids c \<rparr>"

definition graph_session_of :: "(nat \<Rightarrow> string) \<Rightarrow> retrieved_session \<Rightarrow> graph_session" where
  "graph_session_of isoformat s =
     \<lparr> gs_session = graph_node_of isoformat (rx_session s), gs_matched = rx_matched s,
       gs_conversations = map (graph_conversation_of isoformat) (rx_conversations s),
       gs_session_memories = map (graph_node_of isoformat) (rx_session_memories s) \<rparr>"

definition retrieved_memory_graph :: "(nat \<Rightarrow> string) \<Rightarrow> retrieved_context \<Rightarrow> memory_graph" where
  "retrieved_memory_graph isoformat m =
     \<lparr> mg_task_catalog = map (graph_node_of isoformat) (rm_tasks m),
       mg_past_sessions = map (graph_session_of isoformat) (rm_sessions m),
       mg_current_session_memories = map (graph_node_of isoformat) (rm_current_session_memories m) \<rparr>"

text \<open>\<open>BamlRetrievedMemoryContext.from_graph(graph).to_dict()\<close>\<close>

definition base_node :: "('c \<Rightarrow> json) \<Rightarrow> 'c graph_node \<Rightarrow> json" where
  "base_node dict n =
     JObj [(''id'', JStr (gn_id n)), (''tags'', jlist (gn_tags n)), (''created_at'', JStr (sx_created_at (gn_stamps n))),
           (''updated_at'', JStr (sx_updated_at (gn_stamps n))), (''read_at'', JStr (sx_read_at (gn_stamps n))),
           (''content'', dict (gn_content n))]"

definition graph_conversation_dict :: "graph_conversation \<Rightarrow> json" where
  "graph_conversation_dict c =
     JObj [(''conversation'', base_node (\<lambda>x. JObj [(''name'', JStr (cn_name x))]) (gc_conversation c)),
           (''matched'', JBool (gc_matched c)),
           (''messages'', JList (map (base_node (\<lambda>x. JObj [(''role'', JStr (mg_role x)), (''content'', JStr (mg_content x))])) (gc_messages c))),
           (''matched_message_ids'', jlist (gc_matched_message_ids c))]"

definition session_memory_to_dict :: "titled_content graph_node \<Rightarrow> json" where
  "session_memory_to_dict = base_node (\<lambda>x. JObj [(''title'', JStr (td_title x)), (''description'', JStr (td_description x))])"

definition graph_session_dict :: "graph_session \<Rightarrow> json" where
  "graph_session_dict s =
     JObj [(''session'', base_node (\<lambda>x. JObj [(''name'', JStr (sn_name x))]) (gs_session s)), (''matched'', JBool (gs_matched s)),
           (''conversations'', JList (map graph_conversation_dict (gs_conversations s))),
           (''session_memories'', JList (map session_memory_to_dict (gs_session_memories s)))]"

definition graph_context_dict :: "memory_graph \<Rightarrow> json" where
  "graph_context_dict g =
     JObj [(''task_catalog'', JObj [(''tasks'', JList (map (base_node (\<lambda>x.
              JObj [(''name'', JStr (tc_name x)), (''description'', JStr (tc_description x)), (''input'', JStr (tc_input x)),
                    (''output'', JStr (tc_output x)), (''prompt'', JStr (tc_prompt x)), (''provider_id'', JStr (tc_provider_id x))]))
              (mg_task_catalog g)))]),
           (''past_conversation_context'', JObj [(''sessions'', JList (map graph_session_dict (mg_past_sessions g)))]),
           (''current_session_memories'', JList (map session_memory_to_dict (mg_current_session_memories g)))]"

lemma base_node_of:
  assumes "\<And>x. f x = dict x"
  shows "base_node f (graph_node_of isoformat n) = node_to_dict isoformat dict n"
  using assms by (simp add: base_node_def graph_node_of_def node_to_dict_def timestamp_fields_def)

section \<open>Properties\<close>



text \<open>The example database has one task, whose provider names no model.\<close>

lemma get_unmarked_graph: "snd (get_node parse now rid i False db) = db"
  by (auto simp: get_node_def read_records_def split: sum.splits list.splits)

lemma ex_no_model:
  "case fst (task_get 9 ''memory_node:1'' False ex_graph) of
     Inr (Some n) \<Rightarrow> (case fst (provider_get 9 (tc_provider_id (mn_content n)) False ex_graph) of
        Inr (Some p) \<Rightarrow> pv_model_id (mn_content p) = None | _ \<Rightarrow> False)
   | _ \<Rightarrow> False"
  by code_simp


end
