(* ===== verification/MemoryBrowser.thy ===== *)
theory MemoryBrowser
  imports StoreInvariants
begin

text \<open>
  The memory browser: \<open>memory_readiness.py\<close>, and of \<open>memory_browser\<close> the catalog of views, the queries,
  the summaries, the records and the routes of the HTTP handler, on the graph of theory \<open>GraphDb\<close>.
  Arguments are the JSON form of a record as the engine returns it and the printing of times; a
  table is scanned in the order of its ids.
\<close>

section \<open>Readiness\<close>

definition ROOT_IDS :: "string list" where
  "ROOT_IDS = [PROVIDERS_ROOT_ID, TASKS_ROOT_ID, SESSIONS_ROOT_ID, CONVERSATIONS_ROOT_ID, SESSION_MEMORIES_ROOT_ID]
     @ map collection_root [Task_choice, Conversation_evaluation, Search_depth, Relevance, Task_prompt, User_preference]"

definition missing_roots :: "graph_db \<Rightarrow> string list" where
  "missing_roots db = filter (\<lambda>i. map_of (gd_roots db) i = None) ROOT_IDS"

text \<open>\<open>root_id.split(":", 1)[-1]\<close>.\<close>

definition root_name :: "string \<Rightarrow> string" where
  "root_name i = (case dropWhile (\<lambda>c. c \<noteq> CHR '':'') i of [] \<Rightarrow> i | _ # rest \<Rightarrow> rest)"

text \<open>\<open>type(error).__name__\<close> of the errors a search raises.\<close>

fun error_type_name :: "py_error \<Rightarrow> string" where
  "error_type_name (KeyError _) = ''KeyError''"
| "error_type_name (ValueError _) = ''ValueError''"
| "error_type_name (TypeError _) = ''TypeError''"
| "error_type_name (RuntimeError _) = ''RuntimeError''"
| "error_type_name _ = ''Exception''"

definition catalog_unchecked :: "py_error \<Rightarrow> py_error" where
  "catalog_unchecked e = MemoryReadinessError
     (''memory task-choice data could not be checked; run `uv run reframe-agent-host seed-opencode-go-providers` and ''
      @ ''`uv run reframe-agent-host seed-core-tasks`, then try again. Original error: ''
      @ error_type_name e @ '': '' @ error_text e)"

definition require_memory_ready :: "db_env \<Rightarrow> nat \<Rightarrow> bool \<Rightarrow> graph_db \<Rightarrow> py_error + unit" where
  "require_memory_ready env now require_task_catalog db =
     (if missing_roots db \<noteq> [] then
        Inl (MemoryReadinessError (''memory database is not initialized; missing roots: ''
          @ py_join '', '' (map root_name (missing_roots db)) @ ''. Run `uv run reframe-agent-host memory-setup`.''))
      else if \<not> require_task_catalog then Inr ()
      else case fst (provider_search env now None False db) of
        Inl e \<Rightarrow> Inl (catalog_unchecked e)
      | Inr providers \<Rightarrow>
          (case fst (task_search env now None False db) of
             Inl e \<Rightarrow> Inl (catalog_unchecked e)
           | Inr tasks \<Rightarrow>
               (let missing = (if providers = [] then [''providers''] else []) @ (if tasks = [] then [''tasks''] else [])
                in if missing = [] then Inr ()
                   else Inl (MemoryReadinessError (''memory database is missing seeded task-choice data: '' @ py_join '', '' missing
                     @ ''. Run `uv run reframe-agent-host seed-opencode-go-providers` and `uv run reframe-agent-host seed-core-tasks`.'')))))"

section \<open>Views\<close>

record browser_view =
  bv_key :: string
  bv_label :: string
  bv_root_ids :: "string list"

definition VIEWS :: "browser_view list" where
  "VIEWS =
     [\<lparr> bv_key = ''sessions'', bv_label = ''Sessions'', bv_root_ids = [''memory_root:sessions''] \<rparr>,
      \<lparr> bv_key = ''conversations'', bv_label = ''Conversations'', bv_root_ids = [''memory_root:conversations''] \<rparr>,
      \<lparr> bv_key = ''messages'', bv_label = ''Messages'', bv_root_ids = [] \<rparr>,
      \<lparr> bv_key = ''tasks'', bv_label = ''Tasks'', bv_root_ids = [''memory_root:tasks''] \<rparr>,
      \<lparr> bv_key = ''memories'', bv_label = ''Memories'', bv_root_ids =
          [''memory_root:session_memories'', ''memory_root:task_choice_memories'', ''memory_root:conversation_evaluation_memories'',
           ''memory_root:search_depth_memories'', ''memory_root:relevance_memories'', ''memory_root:task_prompt_memories'',
           ''memory_root:user_preferences'', ''memory_root:filesystem_memories''] \<rparr>,
      \<lparr> bv_key = ''providers'', bv_label = ''Providers'', bv_root_ids = [''memory_root:providers''] \<rparr>,
      \<lparr> bv_key = ''raw'', bv_label = ''Raw Records'', bv_root_ids = [] \<rparr>]"

definition view_for :: "string \<Rightarrow> browser_view" where
  "view_for key = (case find (\<lambda>v. bv_key v = key) VIEWS of Some v \<Rightarrow> v | None \<Rightarrow> hd VIEWS)"

definition MEMORY_RELATIONS :: "string list" where
  "MEMORY_RELATIONS = [''contains'', ''provides_task'', ''has_conversation'', ''has_message'', ''has_session_memory'',
     ''history'', ''actions'', ''action'']"

text \<open>The tables \<open>schema.py\<close> defines with \<open>TYPE RELATION\<close>.\<close>

definition RELATION_TABLES :: "string list" where
  "RELATION_TABLES = [''contains'', ''provides_task'', ''has_conversation'', ''has_message'', ''has_session_memory'',
     ''history'', ''actions'', ''action'']"

definition TABLES :: "string list" where
  "TABLES = [''memory_root'', ''memory_node''] @ MEMORY_RELATIONS"

definition root_label :: "string \<Rightarrow> (string \<times> (string \<times> string)) list \<Rightarrow> string" where
  "root_label root_id roots =
     (case map_of roots root_id of
        None \<Rightarrow> root_id
      | Some (name, _) \<Rightarrow> if name = [] then root_id else name)"

section \<open>Summaries\<close>

fun json_truthy :: "json \<Rightarrow> bool" where
  "json_truthy JNull = False"
| "json_truthy (JBool b) = b"
| "json_truthy (JInt i) = (i \<noteq> 0)"
| "json_truthy (JStr s) = (s \<noteq> [])"
| "json_truthy (JList xs) = (xs \<noteq> [])"
| "json_truthy (JObj kvs) = (kvs \<noteq> [])"

fun text_blob :: "json \<Rightarrow> string" where
  "text_blob (JObj kvs) = py_join '' '' (map fst kvs @ map (\<lambda>(k, v). text_blob v) kvs)"
| "text_blob (JList xs) = py_join '' '' (map text_blob xs)"
| "text_blob v = py_str_json v"

definition truthy_get :: "json \<Rightarrow> string \<Rightarrow> json option" where
  "truthy_get content key = (case obj_get content key of Some v \<Rightarrow> if json_truthy v then Some v else None | None \<Rightarrow> None)"

fun first_truthy :: "json \<Rightarrow> string list \<Rightarrow> string option" where
  "first_truthy content [] = None"
| "first_truthy content (k # ks) =
     (case truthy_get content k of Some v \<Rightarrow> Some (py_str_json v) | None \<Rightarrow> first_truthy content ks)"

definition is_message_content :: "json \<Rightarrow> bool" where
  "is_message_content content \<longleftrightarrow> truthy_get content ''role'' \<noteq> None \<and> truthy_get content ''content'' \<noteq> None"

definition summary_title :: "json \<Rightarrow> string \<Rightarrow> string" where
  "summary_title content fallback =
     (case first_truthy content [''name'', ''title''] of
        Some t \<Rightarrow> t
      | None \<Rightarrow>
          (case (truthy_get content ''role'', truthy_get content ''content'') of
             (Some r, Some c) \<Rightarrow> py_str_json r @ '': '' @ take 80 (py_str_json c)
           | _ \<Rightarrow> fallback))"

definition summary_subtitle :: "json \<Rightarrow> string list \<Rightarrow> string" where
  "summary_subtitle content root_names =
     (case first_truthy content [''description'', ''input'', ''baml_surface'', ''model_id''] of
        Some t \<Rightarrow> t
      | None \<Rightarrow> py_join '', '' root_names)"

definition summary_kind :: "json \<Rightarrow> string list \<Rightarrow> string" where
  "summary_kind content root_names =
     (if is_message_content content then ''Conversation Message''
      else case root_names of [] \<Rightarrow> ''Memory Node'' | n # _ \<Rightarrow> n)"

definition roots_by_node :: "relation list \<Rightarrow> string \<Rightarrow> string list" where
  "roots_by_node relations i = map re_in (filter (\<lambda>e. re_out e = i) relations)"

definition root_counts :: "relation list \<Rightarrow> string \<Rightarrow> nat" where
  "root_counts relations root_id = length (filter (\<lambda>e. re_in e = root_id) relations)"

definition contains_relations :: "graph_db \<Rightarrow> relation list" where
  "contains_relations db = filter (\<lambda>e. re_table e = ''contains'') (gd_relations db)"

record public_row =
  pr_id :: string
  pr_title :: string
  pr_subtitle :: string
  pr_kind :: string
  pr_tags :: "string list"
  pr_root_ids :: "string list"
  pr_roots :: "string list"
  pr_created_at :: nat
  pr_updated_at :: nat
  pr_read_at :: "nat option"
  pr_content :: json

text \<open>\<open>_public_row\<close> drops the search text of a summary.\<close>

record node_row = public_row +
  pr_search_text :: string

text \<open>\<open>raw\<close> is the JSON form of a record; a content that is no object counts as empty.\<close>

definition node_summary :: "(node_record \<Rightarrow> json) \<Rightarrow> graph_db \<Rightarrow> node_record \<Rightarrow> node_row" where
  "node_summary raw db r =
     (let content = (case nr_content r of JObj kvs \<Rightarrow> JObj kvs | _ \<Rightarrow> JObj []);
          root_ids = roots_by_node (contains_relations db) (nr_id r);
          root_names = map (\<lambda>i. root_label i (gd_roots db)) root_ids;
          title = summary_title content (nr_id r);
          subtitle = summary_subtitle content root_names
      in \<lparr> pr_id = nr_id r, pr_title = title, pr_subtitle = subtitle, pr_kind = summary_kind content root_names,
           pr_tags = nr_tags r, pr_root_ids = root_ids, pr_roots = root_names,
           pr_created_at = nr_created_at r, pr_updated_at = nr_updated_at r, pr_read_at = nr_read_at r,
           pr_content = (if json_truthy (nr_content r) then nr_content r else JObj []),
           pr_search_text = py_lower (py_join '' '' [nr_id r, title, subtitle, py_join '' '' root_names, text_blob (raw r)]) \<rparr>)"

definition matches_view :: "node_row \<Rightarrow> browser_view \<Rightarrow> bool" where
  "matches_view row view =
     (if bv_key view = ''raw'' then True
      else if bv_key view = ''messages'' then
        (case pr_content row of JObj kvs \<Rightarrow> {''role'', ''content''} \<subseteq> fst ` set kvs | _ \<Rightarrow> False)
      else set (pr_root_ids row) \<inter> set (bv_root_ids view) \<noteq> {})"

section \<open>Records\<close>

text \<open>
  \<open>async with BrowserDatabase()\<close>: the database is opened, then checked; an error of the check leaves
  \<open>__aenter__\<close>, so that \<open>__aexit__\<close>, which closes the database, does not run. \<open>bw_open\<close> counts the
  databases that are open.
\<close>

record browser_world =
  bw_graph :: graph_db
  bw_open :: nat

definition with_browser_database ::
  "db_env \<Rightarrow> nat \<Rightarrow> (graph_db \<Rightarrow> (py_error + 'a) \<times> graph_db) \<Rightarrow> browser_world \<Rightarrow> (py_error + 'a) \<times> browser_world" where
  "with_browser_database env now f w =
     (let w1 = w\<lparr> bw_open := Suc (bw_open w) \<rparr>
      in case require_memory_ready env now False (bw_graph w1) of
           Inl e \<Rightarrow> (Inl e, w1)
         | Inr _ \<Rightarrow> (case f (bw_graph w1) of (r, db) \<Rightarrow> (r, w1\<lparr> bw_graph := db, bw_open := bw_open w1 - 1 \<rparr>)))"

definition pure_query :: "(graph_db \<Rightarrow> py_error + 'a) \<Rightarrow> graph_db \<Rightarrow> (py_error + 'a) \<times> graph_db" where
  "pure_query f db = (f db, db)"

definition node_table :: "graph_db \<Rightarrow> node_record list" where
  "node_table db = existing db (sorted_list_of_fset (fmdom (gd_nodes db)))"

record root_entry =
  ro_id :: string
  ro_name :: string
  ro_description :: string
  ro_count :: nat

definition overview_rows :: "graph_db \<Rightarrow> nat \<times> root_entry list" where
  "overview_rows db =
     (length (node_table db),
      map (\<lambda>(i, name, description). \<lparr> ro_id = i, ro_name = (if name = [] then i else name), ro_description = description,
             ro_count = root_counts (contains_relations db) i \<rparr>)
        (sort_key (\<lambda>(i, name, _). name) (gd_roots db)))"

definition browser_overview ::
  "db_env \<Rightarrow> nat \<Rightarrow> browser_world \<Rightarrow> (py_error + nat \<times> root_entry list) \<times> browser_world" where
  "browser_overview env now w = with_browser_database env now (pure_query (\<lambda>db. Inr (overview_rows db))) w"

definition node_rows :: "(node_record \<Rightarrow> json) \<Rightarrow> string \<Rightarrow> string \<Rightarrow> graph_db \<Rightarrow> string \<times> public_row list" where
  "node_rows raw view_key search db =
     (let view = view_for view_key;
          rows = filter (\<lambda>row. matches_view row view) (map (node_summary raw db) (order_recent (node_table db)));
          needle = py_lower (py_strip search)
      in (bv_key view, map public_row.truncate
            (if py_strip search = [] then rows else filter (\<lambda>row. py_in needle (pr_search_text row)) rows)))"

definition list_nodes ::
  "db_env \<Rightarrow> (node_record \<Rightarrow> json) \<Rightarrow> nat \<Rightarrow> string \<Rightarrow> string \<Rightarrow> browser_world \<Rightarrow>
   (py_error + string \<times> public_row list) \<times> browser_world" where
  "list_nodes env raw now view_key search w =
     with_browser_database env now (pure_query (\<lambda>db. Inr (node_rows raw view_key search db))) w"

definition node_not_found :: "string \<Rightarrow> py_error" where
  "node_not_found node_id = LookupError (''memory node not found: '' @ node_id)"

record node_detail =
  nd_record :: node_record
  nd_summary :: node_row
  nd_relations :: "(string \<times> relation list) list"
  nd_messages :: "(node_record \<times> int) list"
  nd_conversations :: "node_record list"
  nd_session_memories :: "node_record list"

definition relations_for :: "string \<Rightarrow> graph_db \<Rightarrow> (string \<times> relation list) list" where
  "relations_for i db =
     map (\<lambda>t. (t, filter (\<lambda>e. re_table e = t \<and> (re_in e = i \<or> re_out e = i)) (gd_relations db))) MEMORY_RELATIONS"

fun detail_messages :: "graph_db \<Rightarrow> relation list \<Rightarrow> py_error + (node_record \<times> int) list" where
  "detail_messages db [] = Inr []"
| "detail_messages db (e # es) =
     (case memory_node_record_id (re_out e) of
        Inl err \<Rightarrow> Inl err
      | Inr i \<Rightarrow> map_sum id ((@) (map (\<lambda>r. (r, re_position e)) (existing db [i]))) (detail_messages db es))"

definition detail_rows :: "(node_record \<Rightarrow> json) \<Rightarrow> string \<Rightarrow> string \<Rightarrow> graph_db \<Rightarrow> py_error + node_detail" where
  "detail_rows raw node_id i db =
     (case detail_messages db (sort_key re_position (edges ''has_message'' i db)) of
        Inl e \<Rightarrow> Inl e
      | Inr messages \<Rightarrow>
          (case existing db [i] of
             [] \<Rightarrow> Inl (node_not_found node_id)
           | r # _ \<Rightarrow> Inr \<lparr> nd_record = r, nd_summary = node_summary raw db r, nd_relations = relations_for i db,
               nd_messages = messages, nd_conversations = order_recent (related ''has_conversation'' i db),
               nd_session_memories = order_recent (related ''has_session_memory'' i db) \<rparr>))"

definition node_details ::
  "db_env \<Rightarrow> (node_record \<Rightarrow> json) \<Rightarrow> nat \<Rightarrow> string \<Rightarrow> browser_world \<Rightarrow> (py_error + node_detail) \<times> browser_world" where
  "node_details env raw now node_id w =
     (case memory_node_record_id node_id of
        Inl e \<Rightarrow> (Inl e, w)
      | Inr i \<Rightarrow> with_browser_database env now (pure_query (detail_rows raw node_id i)) w)"

fun json_strings :: "json \<Rightarrow> string list option" where
  "json_strings (JList xs) =
     (if list_all (\<lambda>x. case x of JStr _ \<Rightarrow> True | _ \<Rightarrow> False) xs
      then Some (map (\<lambda>x. case x of JStr s \<Rightarrow> s | _ \<Rightarrow> []) xs) else None)"
| "json_strings _ = None"

definition update_query :: "nat \<Rightarrow> string \<Rightarrow> string \<Rightarrow> string list \<Rightarrow> json \<Rightarrow> graph_db \<Rightarrow> (py_error + node_record) \<times> graph_db" where
  "update_query now node_id i tags content db =
     (let db1 = update_node i (\<lambda>r. r\<lparr> nr_tags := normalized_tags tags, nr_content := content, nr_updated_at := now \<rparr>) db
      in case existing db1 [i] of
           [] \<Rightarrow> (Inl (node_not_found node_id), db1)
         | r # _ \<Rightarrow> (Inr r, db1))"

definition browser_update_node ::
  "db_env \<Rightarrow> nat \<Rightarrow> string \<Rightarrow> json \<Rightarrow> json \<Rightarrow> browser_world \<Rightarrow> (py_error + node_record) \<times> browser_world" where
  "browser_update_node env now node_id tags content w =
     (case memory_node_record_id node_id of
        Inl e \<Rightarrow> (Inl e, w)
      | Inr i \<Rightarrow>
          (case json_strings tags of
             None \<Rightarrow> (Inl (ValueError ''tags must be a list of strings''), w)
           | Some ts \<Rightarrow>
               if \<not> (case content of JObj _ \<Rightarrow> True | _ \<Rightarrow> False) then (Inl (ValueError ''content must be a JSON object''), w)
               else with_browser_database env now (update_query now node_id i ts content) w))"

text \<open>\<open>DELETE table WHERE in = id OR out = id\<close>, and \<open>DELETE id\<close>.\<close>

definition delete_touching :: "string \<Rightarrow> string \<Rightarrow> graph_db \<Rightarrow> graph_db" where
  "delete_touching i table db =
     db\<lparr> gd_relations := filter (\<lambda>e. \<not> (re_table e = table \<and> (re_in e = i \<or> re_out e = i))) (gd_relations db) \<rparr>"

definition drop_node :: "string \<Rightarrow> graph_db \<Rightarrow> graph_db" where
  "drop_node i db = db\<lparr> gd_nodes := fmdrop i (gd_nodes db) \<rparr>"

text \<open>
  The statements of a deletion are no transaction. \<open>fault n\<close> is the error of the \<open>n\<close>th of them, if the
  engine fails there: the check, one \<open>DELETE\<close> for every relation table, the \<open>DELETE\<close> of the record.
\<close>

fun delete_relations ::
  "(nat \<Rightarrow> py_error option) \<Rightarrow> string \<Rightarrow> nat \<Rightarrow> string list \<Rightarrow> graph_db \<Rightarrow> py_error option \<times> graph_db" where
  "delete_relations fault i n [] db = (None, db)"
| "delete_relations fault i n (t # ts) db =
     (if fault n \<noteq> None then (fault n, db) else delete_relations fault i (Suc n) ts (delete_touching i t db))"

definition delete_query ::
  "(nat \<Rightarrow> py_error option) \<Rightarrow> string \<Rightarrow> string \<Rightarrow> graph_db \<Rightarrow> (py_error + string) \<times> graph_db" where
  "delete_query fault node_id i db =
     (case fault 0 of
        Some e \<Rightarrow> (Inl e, db)
      | None \<Rightarrow>
          if existing db [i] = [] then (Inl (node_not_found node_id), db)
          else (case delete_relations fault i 1 MEMORY_RELATIONS db of
             (Some e, db1) \<Rightarrow> (Inl e, db1)
           | (None, db1) \<Rightarrow>
               (case fault (Suc (length MEMORY_RELATIONS)) of
                  Some e \<Rightarrow> (Inl e, db1)
                | None \<Rightarrow>
                    (if existing db1 [i] = [] then Inl (LookupError (''memory node not deleted: '' @ node_id)) else Inr node_id,
                     drop_node i db1))))"

definition browser_delete_node ::
  "db_env \<Rightarrow> nat \<Rightarrow> (nat \<Rightarrow> py_error option) \<Rightarrow> string \<Rightarrow> browser_world \<Rightarrow> (py_error + string) \<times> browser_world" where
  "browser_delete_node env now fault node_id w =
     (case memory_node_record_id node_id of
        Inl e \<Rightarrow> (Inl e, w)
      | Inr i \<Rightarrow> with_browser_database env now (delete_query fault node_id i) w)"

section \<open>Requests\<close>

datatype browser_answer =
    Config_answer "browser_view list" "string list"
  | Overview_answer "nat \<times> root_entry list"
  | Nodes_answer "string \<times> public_row list"
  | Detail_answer node_detail
  | Table_answer string "node_record list" "relation list" "(string \<times> (string \<times> string)) list"
  | Updated_answer node_record
  | Deleted_answer string
  | Error_answer string

text \<open>\<open>table_rows\<close>: the rows of the one table asked for.\<close>

definition table_rows :: "db_env \<Rightarrow> nat \<Rightarrow> string \<Rightarrow> browser_world \<Rightarrow> (py_error + browser_answer) \<times> browser_world" where
  "table_rows env now table w =
     (if table \<notin> set TABLES then (Inl (ValueError (''unknown table: '' @ table)), w)
      else with_browser_database env now (pure_query (\<lambda>db. Inr (Table_answer table (if table = ''memory_node'' then order_recent (node_table db) else [])
       (filter (\<lambda>e. re_table e = table) (gd_relations db)) (if table = ''memory_root'' then gd_roots db else [])))) w)"

text \<open>\<open>except LookupError\<close> also catches its subclasses.\<close>

fun is_lookup_error :: "py_error \<Rightarrow> bool" where
  "is_lookup_error (LookupError _) = True"
| "is_lookup_error (KeyError _) = True"
| "is_lookup_error (IndexError _) = True"
| "is_lookup_error _ = False"

definition answer_of :: "(py_error + browser_answer) \<times> browser_world \<Rightarrow> (nat \<times> browser_answer) \<times> browser_world" where
  "answer_of x =
     (case x of
        (Inr a, w) \<Rightarrow> ((200, a), w)
      | (Inl e, w) \<Rightarrow> ((if is_lookup_error e then 404 else 400, Error_answer (error_text e)), w))"

definition query_value :: "(string \<rightharpoonup> string list) \<Rightarrow> string \<Rightarrow> string \<Rightarrow> string" where
  "query_value query key fallback = (case query key of Some (v # _) \<Rightarrow> v | _ \<Rightarrow> fallback)"

definition answer_with ::
  "('a \<Rightarrow> browser_answer) \<Rightarrow> (py_error + 'a) \<times> browser_world \<Rightarrow> (nat \<times> browser_answer) \<times> browser_world" where
  "answer_with f x = answer_of (map_prod (map_sum id f) id x)"

definition handle_api_get ::
  "db_env \<Rightarrow> (node_record \<Rightarrow> json) \<Rightarrow> nat \<Rightarrow> string \<Rightarrow> (string \<rightharpoonup> string list) \<Rightarrow> browser_world \<Rightarrow> (nat \<times> browser_answer) \<times> browser_world" where
  "handle_api_get env raw now path query w =
     (if path = ''/api/config'' then ((200, Config_answer VIEWS TABLES), w)
      else if path = ''/api/overview'' then answer_with Overview_answer (browser_overview env now w)
      else if path = ''/api/nodes'' then
        answer_with Nodes_answer (list_nodes env raw now (query_value query ''view'' ''sessions'') (query_value query ''q'' []) w)
      else if path = ''/api/node'' then answer_with Detail_answer (node_details env raw now (query_value query ''id'' []) w)
      else if path = ''/api/table'' then answer_of (table_rows env now (query_value query ''name'' ''memory_node'') w)
      else ((404, Error_answer ''unknown endpoint''), w))"

text \<open>\<open>do_PATCH\<close> on the parsed body; unlike the other methods it answers every error with 400.\<close>

definition handle_patch ::
  "db_env \<Rightarrow> nat \<Rightarrow> string \<Rightarrow> json \<Rightarrow> browser_world \<Rightarrow> (nat \<times> browser_answer) \<times> browser_world" where
  "handle_patch env now path body w =
     (if path \<noteq> ''/api/node'' then ((404, Error_answer ''unknown endpoint''), w)
      else
        let node_id = (case truthy_get body ''id'' of Some v \<Rightarrow> py_str_json v | None \<Rightarrow> []);
            tags = (case obj_get body ''tags'' of Some v \<Rightarrow> v | None \<Rightarrow> JNull);
            content = (case obj_get body ''content'' of Some v \<Rightarrow> v | None \<Rightarrow> JNull);
            fails = (\<lambda>e w. ((400, Error_answer (error_text e)), w))
        in if \<not> (case body of JObj _ \<Rightarrow> True | _ \<Rightarrow> False) then fails (ValueError ''request body must be a JSON object'') w
           else case browser_update_node env now node_id tags content w of
                  (Inl e, w1) \<Rightarrow> fails e w1
                | (Inr r, w1) \<Rightarrow> ((200, Updated_answer r), w1))"

definition handle_delete ::
  "db_env \<Rightarrow> nat \<Rightarrow> (nat \<Rightarrow> py_error option) \<Rightarrow> string \<Rightarrow> (string \<rightharpoonup> string list) \<Rightarrow> browser_world \<Rightarrow>
   (nat \<times> browser_answer) \<times> browser_world" where
  "handle_delete env now fault path query w =
     (if path \<noteq> ''/api/node'' then ((404, Error_answer ''unknown endpoint''), w)
      else answer_with Deleted_answer (browser_delete_node env now fault (query_value query ''id'' []) w))"

section \<open>Lemmas\<close>

definition touches :: "string \<Rightarrow> relation \<Rightarrow> bool" where
  "touches i e \<longleftrightarrow> re_in e = i \<or> re_out e = i"

text \<open>Every edge is in a relation table of \<open>schema.py\<close>, as the engine requires.\<close>

definition schema_tables :: "graph_db \<Rightarrow> bool" where
  "schema_tables db \<longleftrightarrow> (\<forall>e \<in> set (gd_relations db). re_table e \<in> set RELATION_TABLES)"

definition no_fault :: "nat \<Rightarrow> py_error option" where
  "no_fault n = None"

definition ex_browser_env :: db_env where
  "ex_browser_env = \<lparr> de_new_id = (\<lambda>n. ''memory_node:'' @ replicate (n + 2) CHR ''n''), de_cast = (\<lambda>_. []) \<rparr>"

definition ex_browser_graph :: graph_db where
  "ex_browser_graph =
     (let node = (\<lambda>i. \<lparr> nr_id = i, nr_tags = [], nr_content = JObj [(''name'', JStr ''n'')], nr_created_at = 1, nr_updated_at = 1, nr_read_at = None \<rparr>);
          edge = (\<lambda>t a b. \<lparr> re_table = t, re_in = a, re_out = b, re_position = 0 \<rparr>)
      in \<lparr> gd_nodes = fmap_of_list [(''memory_node:1'', node ''memory_node:1''), (''memory_node:2'', node ''memory_node:2'')],
           gd_roots = map (\<lambda>i. (i, root_name i, [])) ROOT_IDS,
           gd_relations = [edge ''contains'' SESSIONS_ROOT_ID ''memory_node:1'', edge ''contains'' CONVERSATIONS_ROOT_ID ''memory_node:2'',
                           edge ''has_conversation'' ''memory_node:1'' ''memory_node:2''],
           gd_created = 0 \<rparr>)"

definition ex_browser_world :: browser_world where
  "ex_browser_world = \<lparr> bw_graph = ex_browser_graph, bw_open = 0 \<rparr>"

lemma delete_relations_graph:
  "delete_relations fault i n ts db = (e, db1) \<Longrightarrow>
   \<exists>us. db1 = db\<lparr> gd_relations := filter (\<lambda>r. \<not> (re_table r \<in> set us \<and> touches i r)) (gd_relations db) \<rparr> \<and>
        set us \<subseteq> set ts \<and> (e = None \<longrightarrow> us = ts) \<and> (e \<noteq> None \<longrightarrow> (\<exists>k. fault k \<noteq> None))"
proof (induction ts arbitrary: n db)
  case Nil
  then show ?case by (auto intro: exI [of _ "[]"])
next
  case (Cons t ts)
  show ?case
  proof (cases "fault n")
    case (Some x)
    then show ?thesis using Cons.prems by (auto intro!: exI [of _ "[]"])
  next
    case None
    then have "delete_relations fault i (Suc n) ts (delete_touching i t db) = (e, db1)" using Cons.prems by simp
    then obtain us where us: "db1 = (delete_touching i t db)\<lparr> gd_relations :=
        filter (\<lambda>r. \<not> (re_table r \<in> set us \<and> touches i r)) (gd_relations (delete_touching i t db)) \<rparr>"
      "set us \<subseteq> set ts" "e = None \<longrightarrow> us = ts" "e \<noteq> None \<longrightarrow> (\<exists>k. fault k \<noteq> None)"
      using Cons.IH by blast
    have "filter (\<lambda>r. \<not> (re_table r \<in> set us \<and> touches i r)) (gd_relations (delete_touching i t db)) =
        filter (\<lambda>r. \<not> (re_table r \<in> set (t # us) \<and> touches i r)) (gd_relations db)"
      by (auto simp: delete_touching_def touches_def intro: filter_cong)
    then have "db1 = db\<lparr> gd_relations := filter (\<lambda>r. \<not> (re_table r \<in> set (t # us) \<and> touches i r)) (gd_relations db) \<rparr>"
      using us(1) by (simp add: delete_touching_def)
    then show ?thesis using us(2-4) by (intro exI [of _ "t # us"]) auto
  qed
qed

lemma existing_one: "existing db [i] = (case fmlookup (gd_nodes db) i of None \<Rightarrow> [] | Some r \<Rightarrow> [r])"
  by (simp add: existing_def)

lemma delete_all_touching:
  assumes "schema_tables db"
  shows "filter (\<lambda>e. \<not> (re_table e \<in> set MEMORY_RELATIONS \<and> touches i e)) (gd_relations db) =
    filter (\<lambda>e. \<not> touches i e) (gd_relations db)"
  using assms by (intro filter_cong) (auto simp: schema_tables_def RELATION_TABLES_def MEMORY_RELATIONS_def)

text \<open>Fewer edges, and the same nodes, are still a well-formed graph.\<close>

lemma fewer_edges_ok:
  assumes "graph_wf env db" "graph_typed db"
  shows "graph_wf env (db\<lparr> gd_relations := filter P (gd_relations db) \<rparr>)" "graph_typed (db\<lparr> gd_relations := filter P (gd_relations db) \<rparr>)"
  using assms by (auto simp: graph_wf_def graph_typed_def)

lemma mem_existing: "r \<in> set (existing db is) \<longleftrightarrow> (\<exists>i \<in> set is. fmlookup (gd_nodes db) i = Some r)"
  by (induction "is") (auto simp: existing_def split: option.splits)

lemma node_table_set: "r \<in> set (node_table db) \<longleftrightarrow> (\<exists>i. fmlookup (gd_nodes db) i = Some r)"
  by (auto simp: node_table_def mem_existing intro: fmdomI)

lemma node_table_ids:
  assumes "graph_wf env db"
  shows "map nr_id (node_table db) = sorted_list_of_fset (fmdom (gd_nodes db))"
proof -
  have "map nr_id (existing db is) = is" if "\<forall>i \<in> set is. i |\<in>| fmdom (gd_nodes db)" for "is"
    using that
  proof (induction "is")
    case (Cons i "is")
    then obtain r where "fmlookup (gd_nodes db) i = Some r" by (auto elim: fmdomE)
    then show ?case using Cons assms by (simp add: existing_def graph_wf_def)
  qed (simp add: existing_def)
  then show ?thesis by (simp add: node_table_def)
qed

lemma root_counts_related:
  assumes "graph_wf env db"
  shows "root_counts (contains_relations db) rid = length (related ''contains'' rid db)"
proof -
  have "length (existing db (map re_out es)) = length es" if "set es \<subseteq> set (gd_relations db)" for es
    using that
  proof (induction es)
    case (Cons e es)
    then obtain r where "fmlookup (gd_nodes db) (re_out e) = Some r" using assms by (fastforce simp: graph_wf_def)
    then show ?case using Cons by (simp add: existing_def)
  qed (simp add: existing_def)
  moreover have "filter (\<lambda>e. re_in e = rid) (contains_relations db) = edges ''contains'' rid db"
    by (simp add: contains_relations_def edges_def conj_commute)
  ultimately show ?thesis by (simp add: root_counts_def related_def edges_def)
qed

lemma row_roots: "set (pr_root_ids (node_summary raw db r)) = {rid. contained rid (nr_id r) db}"
  by (auto simp: node_summary_def Let_def roots_by_node_def contains_relations_def contained_def)

lemma row_id [simp]: "pr_id (node_summary raw db r) = nr_id r"
  by (simp add: node_summary_def Let_def)

lemma shown_nodes:
  assumes wf: "graph_wf env db"
  shows "nr_id ` {r \<in> set (node_table db). \<exists>rid \<in> set rids. contained rid (nr_id r) db} =
    {i. \<exists>rid \<in> set rids. contained rid i db}"
proof
  show "{i. \<exists>rid \<in> set rids. contained rid i db} \<subseteq>
      nr_id ` {r \<in> set (node_table db). \<exists>rid \<in> set rids. contained rid (nr_id r) db}"
  proof clarify
    fix i rid assume in_view: "rid \<in> set rids" "contained rid i db"
    then obtain r where "fmlookup (gd_nodes db) i = Some r" "nr_id r = i"
      using wf by (fastforce simp: graph_wf_def contained_def)
    then show "i \<in> nr_id ` {r \<in> set (node_table db). \<exists>rid \<in> set rids. contained rid (nr_id r) db}"
      using in_view by (auto simp: node_table_set intro!: image_eqI[of _ _ r])
  qed
qed auto

lemma require_roots_only:
  "isl (require_memory_ready env now False db) \<longleftrightarrow> missing_roots db \<noteq> []"
  by (simp add: require_memory_ready_def)

text \<open>
  A request on a database that misses a root leaves it open: \<open>__aenter__\<close> raises after the database is
  opened. Every other request closes what it opens.
\<close>

lemma unready_database_left_open:
  assumes "with_browser_database env now f w = (r, w1)"
  shows "bw_open w1 = bw_open w + (if missing_roots (bw_graph w) = [] then 0 else 1)"
  using assms require_roots_only[of env now "bw_graph w"]
  by (auto simp: with_browser_database_def Let_def split: sum.splits prod.splits)

lemma pure_query_keeps_graph:
  "with_browser_database env now (pure_query f) w = (r, w1) \<Longrightarrow> bw_graph w1 = bw_graph w"
  by (auto simp: with_browser_database_def pure_query_def Let_def split: sum.splits)

lemma answer_of_world [simp]: "snd (answer_of x) = snd x"
  by (auto simp: answer_of_def split: sum.splits prod.splits)

lemma answer_with_world [simp]: "snd (answer_with f x) = snd x"
  by (simp add: answer_with_def)

lemma pure_query_graph [simp]: "bw_graph (snd (with_browser_database env now (pure_query f) w)) = bw_graph w"
  by (rule pure_query_keeps_graph [where r = "fst (with_browser_database env now (pure_query f) w)"]) simp

lemma browser_get_reads_only:
  "bw_graph (snd (handle_api_get env raw now path query w)) = bw_graph w"
  by (simp add: handle_api_get_def browser_overview_def list_nodes_def node_details_def table_rows_def split: sum.split)

lemma ready_query:
  "missing_roots (bw_graph w) = [] \<Longrightarrow> with_browser_database env now f w =
     (fst (f (bw_graph w)), w\<lparr> bw_graph := snd (f (bw_graph w)) \<rparr>)"
  by (cases w) (simp add: with_browser_database_def require_memory_ready_def case_prod_beta)

lemma unready_query:
  "missing_roots (bw_graph w) \<noteq> [] \<Longrightarrow> \<exists>m. with_browser_database env now f w =
     (Inl (MemoryReadinessError m), w\<lparr> bw_open := Suc (bw_open w) \<rparr>)"
  by (simp add: with_browser_database_def require_memory_ready_def)

section \<open>Properties\<close>

definition deleted_node :: "string \<Rightarrow> graph_db \<Rightarrow> graph_db" where
  "deleted_node i db = drop_node i (db\<lparr> gd_relations := filter (\<lambda>e. \<not> touches i e) (gd_relations db) \<rparr>)"

lemma deleted_node_ok:
  "graph_wf env db \<Longrightarrow> graph_wf env (deleted_node i db)" "graph_typed db \<Longrightarrow> graph_typed (deleted_node i db)"
  by (auto simp: deleted_node_def graph_wf_def graph_typed_def drop_node_def touches_def split: if_splits)

lemma delete_query_cases:
  assumes st: "schema_tables db" and q: "delete_query fault node_id i db = (r, db1)"
  shows "(r = Inr node_id \<and> db1 = deleted_node i db \<and> fmlookup (gd_nodes db) i \<noteq> None) \<or>
    (isl r \<and> db1 = db \<and> (fmlookup (gd_nodes db) i = None \<or> (\<exists>k. fault k \<noteq> None))) \<or>
    (isl r \<and> (\<exists>k. fault k \<noteq> None) \<and>
     (\<exists>ts. db1 = db\<lparr> gd_relations := filter (\<lambda>e. \<not> (re_table e \<in> set ts \<and> touches i e)) (gd_relations db) \<rparr>))"
proof (cases "fault 0 \<noteq> None \<or> fmlookup (gd_nodes db) i = None")
  case True
  then show ?thesis using q by (auto simp: delete_query_def existing_one split: option.splits)
next
  case False
  obtain e db2 where d: "delete_relations fault i 1 MEMORY_RELATIONS db = (e, db2)" by fastforce
  obtain us where us:
    "db2 = db\<lparr> gd_relations := filter (\<lambda>r. \<not> (re_table r \<in> set us \<and> touches i r)) (gd_relations db) \<rparr>"
    "e = None \<longrightarrow> us = MEMORY_RELATIONS" "e \<noteq> None \<longrightarrow> (\<exists>k. fault k \<noteq> None)"
    by (rule exE [OF delete_relations_graph [OF d]], elim conjE) (rule that)
  show ?thesis
  proof (cases "e = None \<and> fault (Suc (length MEMORY_RELATIONS)) = None")
    case True
    then have "r = Inr node_id" "db1 = drop_node i db2"
      using False q d us(1) by (auto simp: delete_query_def existing_one)
    then show ?thesis using True False us(1,2) delete_all_touching [OF st] by (simp add: deleted_node_def)
  next
    case bad: False
    then have "isl r \<and> db1 = db2"
      using False q d by (auto simp: delete_query_def existing_one split: option.splits)
    then show ?thesis using bad us by blast
  qed
qed


lemma ex_browser_nodes:
  "fmlookup (gd_nodes ex_browser_graph) i = Some r \<Longrightarrow>
     i \<in> {''memory_node:1'', ''memory_node:2''} \<and> nr_id r = i \<and> nr_content r = JObj [(''name'', JStr ''n'')]"
  by (auto simp: ex_browser_graph_def fmlookup_of_list split: if_splits)

lemma ex_browser_stored:
  "fmlookup (gd_nodes ex_browser_graph) ''memory_node:1'' \<noteq> None" "fmlookup (gd_nodes ex_browser_graph) ''memory_node:2'' \<noteq> None"
  by (simp_all add: ex_browser_graph_def fmlookup_of_list)

lemma ex_browser_edges:
  "e \<in> set (gd_relations ex_browser_graph) \<Longrightarrow>
     re_out e \<in> {''memory_node:1'', ''memory_node:2''} \<and> re_in e \<in> {SESSIONS_ROOT_ID, CONVERSATIONS_ROOT_ID, ''memory_node:1''}"
  by (auto simp: ex_browser_graph_def)

lemma ex_browser_wf: "graph_wf ex_browser_env ex_browser_graph"
proof -
  have ids: "is_memory_node_id ''memory_node:1''" "is_memory_node_id ''memory_node:2''"
      "\<not> is_memory_node_id SESSIONS_ROOT_ID" "\<not> is_memory_node_id CONVERSATIONS_ROOT_ID"
    by code_simp+
  have "fmlookup (gd_nodes ex_browser_graph) (de_new_id ex_browser_env n) = None" for n
    using ex_browser_nodes[of "de_new_id ex_browser_env n"] by (cases "fmlookup (gd_nodes ex_browser_graph) (de_new_id ex_browser_env n)") (auto simp: ex_browser_env_def)
  moreover have "fmlookup (gd_nodes ex_browser_graph) (re_out e) \<noteq> None
      \<and> (is_memory_node_id (re_in e) \<longrightarrow> fmlookup (gd_nodes ex_browser_graph) (re_in e) \<noteq> None)"
    if "e \<in> set (gd_relations ex_browser_graph)" for e
    using ex_browser_edges[OF that] ex_browser_stored ids by auto
  moreover have "nr_id r = i \<and> is_memory_node_id i" if "fmlookup (gd_nodes ex_browser_graph) i = Some r" for i r
    using ex_browser_nodes[OF that] ids by blast
  ultimately show ?thesis unfolding graph_wf_def by blast
qed

lemma ex_browser_typed: "graph_typed ex_browser_graph"
  unfolding graph_typed_def
proof clarify
  fix e k r assume "e \<in> set (gd_relations ex_browser_graph)" "edge_kind (re_table e) (re_in e) = Some k"
    "fmlookup (gd_nodes ex_browser_graph) (re_out e) = Some r"
  then have "k = Named" by (auto simp: ex_browser_graph_def)
  then show "has_kind k (nr_content r)" using ex_browser_nodes[OF \<open>fmlookup (gd_nodes ex_browser_graph) (re_out e) = Some r\<close>] by simp
qed

lemma ex_browser_ready: "missing_roots ex_browser_graph = []" "schema_tables ex_browser_graph"
  by code_simp+

lemma ex_browser_world_graph [simp]: "bw_graph ex_browser_world = ex_browser_graph"
  by (simp add: ex_browser_world_def)


text \<open>
  C36. On a well-formed graph whose database is ready, a view of the browser that has roots lists
  exactly the nodes under one of them, each once when no search narrows it; and the overview gives
  the number of stored nodes and lists every root of the database, in the order of
  the names, with its name, its description and the number of nodes the stores read under it.
  On a database that misses a root both fail.
\<close>

theorem browser_views_show_the_roots:
  assumes wf: "graph_wf env db" and roots: "bv_root_ids (view_for key) \<noteq> []" and db: "bw_graph w = db"
  shows "if missing_roots db \<noteq> []
    then isl (fst (list_nodes env raw now key [] w)) \<and> isl (fst (browser_overview env now w))
    else \<exists>rows total entries roots.
      list_nodes env raw now key [] w = (Inr (bv_key (view_for key), rows), w) \<and>
      set (map pr_id rows) = {i. \<exists>rid \<in> set (bv_root_ids (view_for key)). contained rid i db} \<and> distinct (map pr_id rows) \<and>
      browser_overview env now w = (Inr (total, entries), w) \<and> total = fcard (fmdom (gd_nodes db)) \<and>
      mset roots = mset (gd_roots db) \<and> sorted (map (\<lambda>(i, name, _). name) roots) \<and>
      map (\<lambda>e. (ro_id e, ro_name e, ro_description e, ro_count e)) entries =
        map (\<lambda>(i, name, description). (i, if name = [] then i else name, description, length (related ''contains'' i db))) roots"
proof (cases "missing_roots db = []")
  case False
  then show ?thesis
    using unready_query [of w env now "pure_query (\<lambda>db. Inr (node_rows raw key [] db))"]
      unready_query [of w env now "pure_query (\<lambda>db. Inr (overview_rows db))"] db
    by (auto simp: list_nodes_def browser_overview_def)
next
  case True
  let ?view = "view_for key"
  let ?shown = "\<lambda>r. \<exists>rid \<in> set (bv_root_ids ?view). contained rid (nr_id r) db"
  obtain rows where rows: "node_rows raw key [] db = (bv_key ?view, rows)" by (auto simp: node_rows_def Let_def)
  obtain total entries where over: "overview_rows db = (total, entries)" by fastforce
  have run: "list_nodes env raw now key [] w = (Inr (bv_key ?view, rows), w)" "browser_overview env now w = (Inr (total, entries), w)"
    using ready_query [of w env now "pure_query (\<lambda>db. Inr (node_rows raw key [] db))"]
      ready_query [of w env now "pure_query (\<lambda>db. Inr (overview_rows db))"] True db rows over
    by (simp_all add: list_nodes_def browser_overview_def pure_query_def)
  have key: "bv_key ?view \<noteq> ''raw''" "bv_key ?view \<noteq> ''messages''"
    using roots by (auto simp: view_for_def VIEWS_def split: if_splits)
  have shown: "matches_view (node_summary raw db r) ?view \<longleftrightarrow> ?shown r" for r
    using key by (auto simp: matches_view_def row_roots)
  have ids: "map pr_id rows = map nr_id (filter ?shown (order_recent (node_table db)))"
    using rows by (auto simp: node_rows_def Let_def py_strip_def strip_by_def filter_map o_def shown public_row.truncate_def)
  have table: "map nr_id (node_table db) = sorted_list_of_fset (fmdom (gd_nodes db))" using node_table_ids [OF wf] .
  have "set (map pr_id rows) = {i. \<exists>rid \<in> set (bv_root_ids ?view). contained rid i db}"
    unfolding ids using shown_nodes [OF wf] by (simp add: order_recent_def)
  moreover have "distinct (map nr_id (node_table db))" using table by (simp add: sorted_list_of_fset.rep_eq)
  then have "distinct (map pr_id rows)" unfolding ids by (auto simp: order_recent_def distinct_map intro: inj_on_subset)
  moreover have "total = fcard (fmdom (gd_nodes db))"
    using over arg_cong [OF table, of length]
    by (simp add: overview_rows_def sorted_list_of_fset.rep_eq fcard.rep_eq)
  moreover have "map (\<lambda>e. (ro_id e, ro_name e, ro_description e, ro_count e)) entries =
      map (\<lambda>(i, name, description). (i, if name = [] then i else name, description, length (related ''contains'' i db)))
        (sort_key (\<lambda>(i, name, _). name) (gd_roots db))"
    using over by (auto simp: overview_rows_def root_counts_related [OF wf])
  moreover have "mset (sort_key (\<lambda>(i, name, _). name) (gd_roots db)) = mset (gd_roots db)"
    "sorted (map (\<lambda>(i, name, _). name) (sort_key (\<lambda>(i, name, _). name) (gd_roots db)))" by simp_all
  ultimately show ?thesis using run True by (simp only: simp_thms if_True if_False) blast
qed

text \<open>A ready database with two nodes, one under Sessions.\<close>

theorem browser_views_show_the_roots_witness:
  "\<exists>rows total entries. list_nodes ex_browser_env (\<lambda>r. nr_content r) 5 ''sessions'' [] ex_browser_world = (Inr (''sessions'', rows), ex_browser_world) \<and>
     set (map pr_id rows) = {''memory_node:1''} \<and>
     browser_overview ex_browser_env 5 ex_browser_world = (Inr (total, entries), ex_browser_world) \<and> length entries = 11"
proof -
  have view: "bv_root_ids (view_for ''sessions'') = [SESSIONS_ROOT_ID]" "bv_key (view_for ''sessions'') = ''sessions''" by code_simp+
  have "contained SESSIONS_ROOT_ID i ex_browser_graph \<longleftrightarrow> i = ''memory_node:1''" for i
    by (auto simp: contained_def ex_browser_graph_def root_id_defs)
  moreover have "length (gd_roots ex_browser_graph) = 11" by code_simp
  moreover have "bv_root_ids (view_for ''sessions'') \<noteq> []" by (simp add: view)
  from browser_views_show_the_roots[OF ex_browser_wf this ex_browser_world_graph, of "\<lambda>r. nr_content r" 5]
  obtain rows total entries where
      "list_nodes ex_browser_env (\<lambda>r. nr_content r) 5 ''sessions'' [] ex_browser_world = (Inr (''sessions'', rows), ex_browser_world)"
      "set (map pr_id rows) = {i. contained SESSIONS_ROOT_ID i ex_browser_graph}"
      "browser_overview ex_browser_env 5 ex_browser_world = (Inr (total, entries), ex_browser_world)"
      "length entries = length (gd_roots ex_browser_graph)"
    unfolding view ex_browser_ready(1) by (auto dest!: mset_eq_length map_eq_imp_length_eq)
  ultimately show ?thesis by auto
qed

end
