(* ===== verification/Spec2Isabelle.thy ===== *)
theory Spec2Isabelle
  imports Microphone Transcription TaskFlowHost TurnProcessor BargeIn Playback Chunking LiveConversation
    Coordinator WsLifecycle DispatchGuarantees TurnContext MemoryBrowser
begin

text \<open>
  \<^bold>\<open>Verification of the ReframeWeb Agent Host.\<close>

  The Agent Host (\<open>src/agent-host/src\<close>, packages \<open>reframe_agent_host\<close> and \<open>reframe_memory\<close>) listens to
  a microphone, cuts the audio into utterances, answers them through language-model functions,
  speaks the answers, keeps what happened in a graph memory and runs commands in workspaces
  projected by a local daemon. The development models the parts of it that decide something, one
  theory per component, and proves the properties that make them correct.

  \<^bold>\<open>Listening.\<close>
  \<^item> \<open>AudioLevels\<close>: \<open>voice/input_level.py\<close>, \<open>resampling.py\<close>, \<open>utterance_quality.py\<close>, \<open>audio_quality.py\<close>, the
    gain of \<open>audio_calibration.py\<close>; the limiter bounds every sample and chunks lose none.
  \<^item> \<open>Microphone\<close>: \<open>voice/audio_devices.py\<close>, \<open>microphone.py\<close>; opening tries the devices in order and leaks
    no stream, and the bounded queue between the device and the capture loop delivers frames of one
    length in order and counts what it drops.
  \<^item> \<open>Vad\<close>: \<open>voice/vad_types.py\<close>, \<open>vad_energy.py\<close>, \<open>vad_silero.py\<close>; the energy detector starts after loud
    frames only and ends after quiet frames only.
  \<^item> \<open>Segmenter\<close>: \<open>voice/utterance_segmenter.py\<close> over any detector (locale interface); the events follow
    the speculative-endpoint protocol, utterances are contiguous pieces of the input.
  \<^item> \<open>Text\<close>, \<open>Keyphrases\<close>: \<open>keyphrases/*.py\<close>; the spotter keeps a bounded suffix of the audio, reports
    each key phrase once, matches the most specific phrase; trimming is a slice of the samples.
  \<^item> \<open>Capture\<close>: \<open>voice/conversation_mode.py\<close> and the one-shot capture (\<open>capture_*.py\<close>, \<open>keyphrase_gate.py\<close>,
    \<open>turn_capture.py\<close>); a capture returns a result that is consistent with the mode.
  \<^item> \<open>Session\<close>: \<open>voice/speculative_capture_session.py\<close>; the stream of turn events.
  \<^item> \<open>VoiceLoop\<close>: \<open>commands/voice_loop.py\<close> with the turn control of \<open>capture_types.py\<close>; a turn is committed
    if and only if it was confirmed, and every turn is settled.
  \<^item> \<open>Transcription\<close>: \<open>speech/whisper_runtime.py\<close>, \<open>transcription.py\<close>, \<open>transcription_types.py\<close> and the two
    transcribers; a transcriber that could be created is ready, and falls back to the CPU only where the
    configuration allows it; the printed timestamps of whisper.cpp are read back exactly.
  \<^item> \<open>Triggers\<close>: \<open>speech/triggers.py\<close>; the regular expression is matched by backtracking, and a
    transcript is routed by the first phrase it begins with.
  \<^item> \<open>TurnProcessor\<close>: \<open>voice/turn_processor.py\<close> with \<open>turn_side_effects.py\<close>, \<open>agent_turn.py\<close> and
    \<open>turn_results.py\<close>, on top of the turn control, the noise gate, the triggers and the live
    conversation; a speculative turn has no lasting effect before it is committed.
  \<^item> \<open>TaskFlowHost\<close>: \<open>voice/task_flow_host.py\<close>, \<open>task_flow_state.py\<close> and the side effects it runs; for any
    sequence of callbacks, a cancelled turn does at most one more thing outside the process, databases
    are closed, and only executions that were returned are dispatched.
  \<^item> \<open>BargeIn\<close>: \<open>voice/barge_in.py\<close>; the detector of a person who speaks over a reply refines a
    specification that remembers everything heard since the last reset.

  \<^bold>\<open>Speaking.\<close> \<open>Playback\<close>: \<open>speech/playback.py\<close> refines a flat queue of samples, and the reply queue of
  \<open>speech/tts.py\<close> as a step relation of caller and worker thread. \<open>Chunking\<close>: \<open>speech/chunking.py\<close>
  terminates, keeps every letter and respects the limits. \<open>LiveConversation\<close>:
  \<open>agent_flow/live_conversation.py\<close>, stamps of live messages and their merge with stored ones.

  \<^bold>\<open>Graph memory.\<close>
  \<^item> \<open>Search\<close>: \<open>reframe_memory/search.py\<close>; the \<open>WHERE\<close> clause selects what the search asks for and
    contains no text of the user.
  \<^item> \<open>GraphDb\<close>: \<open>database.py\<close>, \<open>records.py\<close> and the queries the stores send, as functions on a graph of
    nodes, roots and relations.
  \<^item> \<open>MemoryStores\<close>: \<open>sessions.py\<close>, \<open>conversations.py\<close>, \<open>session_memories.py\<close>, \<open>context_memories.py\<close>,
    \<open>providers.py\<close>, \<open>tasks.py\<close>; \<open>TaskHistory\<close>: \<open>task_history.py\<close>.
  \<^item> \<open>StoreInvariants\<close>: the interface of a store (locale \<open>memory_store\<close>, interpreted on each store), the
    step relation of all operations and the invariant of every reachable database.
    \<open>StoreGuarantees\<close>, \<open>HistoryOrder\<close>: reads never fail, messages and history nodes stay in order,
    tasks hang on their provider, what is created is found.
  \<^item> \<open>Retrieval\<close>: \<open>retrieval_terms.py\<close>, \<open>graph_retrieval.py\<close>, \<open>retrieved_context.py\<close>; what is returned
    matches, and exactly what is returned is marked as read.
  \<^item> \<open>TurnContext\<close>: the reading and writing side of a turn, \<open>agent_flow/memory_contexts.py\<close>,
    \<open>session_context.py\<close>, \<open>voice_turn_context.py\<close>, \<open>retrieved_memory_graph.py\<close>,
    \<open>candidate_memory_writeback.py\<close> and the choice of a client; when the catalog of tasks can be
    read, and that the graph handed to the language model keeps everything retrieved.
  \<^item> \<open>Primitives\<close>, \<open>DispatchGuarantees\<close>: \<open>task_execution/primitives.py\<close> and \<open>primitive_payloads.py\<close> on top
    of the stores; a dispatch carries out and records every action, by a frame argument.
  \<^item> \<open>MemoryBrowser\<close>: \<open>memory_readiness.py\<close> and \<open>memory_browser/*.py\<close>; its views list exactly the nodes
    under their roots, its reads change nothing and its deletion keeps the graph well formed.
  \<^item> \<open>FsMemory\<close>: \<open>ids.py\<close>, \<open>filesystem_memories.py\<close>, \<open>filesystem_publication.py\<close>.

  \<^bold>\<open>Workspaces.\<close> \<open>Planning\<close>: \<open>workspace/planning.py\<close>, sources after the memories they are based on, for
  every graph, cycles included. \<open>WsProtocol\<close>: \<open>protocol.py\<close>, \<open>transport.py\<close>, frames, endpoint hash,
  handshake. \<open>WsService\<close>: \<open>service.py\<close>, \<open>client_operations.py\<close>, retries and outcomes of requests;
  \<open>WsLifecycle\<close>: launching, connecting and ending the daemon, watched by an observer of the calls.
  \<open>Coordinator\<close>: \<open>coordinator.py\<close>, \<open>publication_service.py\<close>, \<open>execution.py\<close>.

  \<^bold>\<open>How code is modelled.\<close> Pure functions are functions; objects are records passed along; an
  exception is the left side of a sum of \<open>py_error\<close>; a state machine with several actors is an
  inductive step relation. Loops are structural recursions, or \<open>partial_function (option)\<close> where
  the code recurses over data that could be cyclic; totality is then part of the theorem, and no
  fuel is used. Samples and durations are real numbers, the audio output is a list of samples, and
  32-bit words appear where the code computes with them. Text is a list of 8-bit characters. One
  microphone frame, one store operation, one dispatch and one retrieval read the clock once.

  \<^bold>\<open>What is an argument.\<close> The Silero model, the PocketSphinx decoder, the transcriber, the
  text-to-speech engine, the language-model flow of a turn, the JSON encoder of the daemon
  protocol, SHA digests, new record ids, the printing and parsing of ISO timestamps, path
  resolution, the answers of the daemon, of the operating system and of \<open>asyncio.wait\<close>, numpy's
  Fourier transform, \<open>audioop.ratecv\<close>, the devices and streams of \<open>sounddevice\<close>, the answers of
  \<open>ctranslate2\<close>, faster-whisper and the whisper.cpp process, and the cast to string of the query
  language. The SurrealDB engine is represented by the meaning of the queries in the source.

  \<^bold>\<open>Findings.\<close> A session that waits for its key phrase never times out; a reply that the worker has
  just taken off the queue cannot be interrupted; an update of a task or a provider may overwrite
  the node of another store; an input device with index zero that is not listed is reported as the
  default device; a request of the memory browser on a database that misses a root leaves it open.

  \<^bold>\<open>Not modelled.\<close> File input and output, operating-system queries, the wrapper of the
  synthesis engine, the system calls that launch the daemon process, HTTP framing and the user
  interface, command line and benchmarks, generated code, and the prompts of the language-model
  flow.
\<close>

end
